(* ===== verification/Prelude.thy ===== *)
theory Prelude
  imports Main "HOL-Library.Word"
begin

unbundle bit_operations_syntax

text \<open>
  Shared vocabulary of the development: the machine integers of the code, the fact collections
  the component theories fill, the \<open>std::map\<close> operations that differ from a plain function update,
  and the generic lemmas on words, maps and lists that more than one component uses.
\<close>

section \<open>Types\<close>

text \<open>\<open>uint8_t\<close>, \<open>uint16_t\<close>, \<open>uint32_t\<close>, \<open>uint64_t\<close> and \<open>size_t\<close> (64 bit) of the code.\<close>

type_synonym u8 = "8 word"
type_synonym u16 = "16 word"
type_synonym u32 = "32 word"
type_synonym u64 = "64 word"

section \<open>Fact collections\<close>

named_theorems serial_simps \<open>serial-number arithmetic in terms of distances\<close>
named_theorems stream_defs \<open>definitions of the stream operations\<close>
named_theorems frame_simps \<open>fields and keys an operation leaves alone\<close>

section \<open>std::map and std::unordered_map\<close>

text \<open>
  \<open>emplace\<close> and \<open>insert\<close> of an ordered or unordered map keep the value that is already there;
  the flag is the \<open>.second\<close> of their result. \<open>erase\<close> returns how many elements went away.
\<close>

definition emplace :: "('k \<rightharpoonup> 'v) \<Rightarrow> 'k \<Rightarrow> 'v \<Rightarrow> ('k \<rightharpoonup> 'v) \<times> bool" where
  "emplace m k v = (case m k of None \<Rightarrow> (m(k \<mapsto> v), True) | Some _ \<Rightarrow> (m, False))"

definition erase :: "('k \<rightharpoonup> 'v) \<Rightarrow> 'k \<Rightarrow> ('k \<rightharpoonup> 'v)" where
  "erase m k = m(k := None)"

lemma emplace_fresh [simp]: "m k = None \<Longrightarrow> emplace m k v = (m(k \<mapsto> v), True)"
  by (simp add: emplace_def)

lemma emplace_present [simp]: "m k = Some w \<Longrightarrow> emplace m k v = (m, False)"
  by (simp add: emplace_def)

lemma dom_emplace [simp]: "dom (fst (emplace m k v)) = insert k (dom m)"
  by (auto simp: emplace_def split: option.splits)

lemma emplace_other [simp]: "k' \<noteq> k \<Longrightarrow> fst (emplace m k v) k' = m k'"
  by (auto simp: emplace_def split: option.splits)

lemma emplace_same_dom: "k \<in> dom m \<Longrightarrow> emplace m k v = (m, False)"
  by (auto simp: emplace_def)

lemma erase_same [simp]: "erase m k k = None"
  by (simp add: erase_def)

lemma erase_other [simp]: "k' \<noteq> k \<Longrightarrow> erase m k k' = m k'"
  by (simp add: erase_def)

lemma dom_erase [simp]: "dom (erase m k) = dom m - {k}"
  by (auto simp: erase_def)

lemma erase_Some_iff: "erase m k k' = Some v \<longleftrightarrow> k' \<noteq> k \<and> m k' = Some v"
  by (auto simp: erase_def)

section \<open>Words\<close>

lemma unat_u8_less: "unat (x :: u8) < 256"
  using unsigned_less [of x, where ?'a = nat] by simp

lemma unat_u16_less: "unat (x :: u16) < 65536"
  using unsigned_less [of x, where ?'a = nat] by simp

lemma unat_of_nat_less: "n < 2 ^ LENGTH('a) \<Longrightarrow> unat (of_nat n :: 'a :: len word) = n"
  by (simp add: unat_of_nat take_bit_nat_eq_self)

end
