(* ===== verification/SeqNum.thy ===== *)
theory SeqNum
  imports Prelude
begin

text \<open>
  \<open>SeqNum\<close> of \<open>include/uxr/agent/utils/SeqNum.hpp\<close>: the 16 bit serial numbers of the stream
  protocol. The class holds one \<open>uint16_t\<close>, so a sequence number is a 16 bit word. The operators
  are written as the class has them: subtractions inside comparisons are done in \<open>int\<close> (integral
  promotion), results are reduced modulo \<open>MAX\<close>, and additions outside \<open>ADD_RANGE\<close> are ignored.
  The lemmas show that the comparison is the serial-number order of RFC 1982 and give the distance
  calculus that the stream theories use, through the locale \<open>serial_order\<close>.
\<close>

section \<open>The class\<close>

type_synonym SeqNum = u16

definition SEQ_MAX :: int where "SEQ_MAX = 65536"
definition ADD_RANGE_0 :: int where "ADD_RANGE_0 = 0"
definition ADD_RANGE_1 :: int where "ADD_RANGE_1 = 32767"

text \<open>The constructor from \<open>int\<close>: \<open>uint16_t(seq_num)\<close>.\<close>

definition seq_of_int :: "int \<Rightarrow> SeqNum" where
  "seq_of_int i = word_of_int i"

definition seq_lt :: "SeqNum \<Rightarrow> SeqNum \<Rightarrow> bool" where
  "seq_lt lhs rhs \<longleftrightarrow> lhs \<noteq> rhs \<and>
     ((lhs < rhs \<and> uint rhs - uint lhs < ADD_RANGE_1 + 1) \<or>
      (lhs > rhs \<and> uint lhs - uint rhs > ADD_RANGE_1 + 1))"

definition seq_gt :: "SeqNum \<Rightarrow> SeqNum \<Rightarrow> bool" where
  "seq_gt lhs rhs \<longleftrightarrow> seq_lt rhs lhs"

definition seq_le :: "SeqNum \<Rightarrow> SeqNum \<Rightarrow> bool" where
  "seq_le lhs rhs \<longleftrightarrow> \<not> seq_gt lhs rhs"

definition seq_ge :: "SeqNum \<Rightarrow> SeqNum \<Rightarrow> bool" where
  "seq_ge lhs rhs \<longleftrightarrow> \<not> seq_lt lhs rhs"

definition seq_add_int :: "SeqNum \<Rightarrow> int \<Rightarrow> SeqNum" where
  "seq_add_int s rhs =
     (if rhs \<ge> ADD_RANGE_0 \<and> rhs \<le> ADD_RANGE_1
      then word_of_int ((uint s + uint (word_of_int rhs :: u16)) mod SEQ_MAX) else s)"

definition seq_add :: "SeqNum \<Rightarrow> SeqNum \<Rightarrow> SeqNum" where
  "seq_add s rhs =
     (if seq_ge rhs (seq_of_int ADD_RANGE_0) \<and> seq_le rhs (seq_of_int ADD_RANGE_1)
      then word_of_int ((uint s + uint rhs) mod SEQ_MAX) else s)"

definition seq_inc :: "SeqNum \<Rightarrow> SeqNum" where
  "seq_inc s = (if uint s = 65535 then 0 else word_of_int (uint s + 1))"

definition seq_sub_int :: "SeqNum \<Rightarrow> int \<Rightarrow> SeqNum" where
  "seq_sub_int s rhs =
     (let r = (word_of_int rhs :: u16) in
      if r > s then word_of_int (uint s - uint r + SEQ_MAX) else word_of_int (uint s - uint r))"

definition seq_sub :: "SeqNum \<Rightarrow> SeqNum \<Rightarrow> SeqNum" where
  "seq_sub s rhs =
     (if rhs > s then word_of_int (uint s - uint rhs + SEQ_MAX) else word_of_int (uint s - uint rhs))"

lemmas seq_defs = SEQ_MAX_def ADD_RANGE_0_def ADD_RANGE_1_def seq_of_int_def seq_lt_def seq_gt_def seq_le_def
  seq_ge_def seq_add_int_def seq_add_def seq_inc_def seq_sub_int_def seq_sub_def

section \<open>Operators as word arithmetic\<close>

lemmas seq_const_defs = SEQ_MAX_def ADD_RANGE_0_def ADD_RANGE_1_def

text \<open>The forward distance from \<open>a\<close> to \<open>b\<close> around the 16 bit circle.\<close>

definition seq_dist :: "SeqNum \<Rightarrow> SeqNum \<Rightarrow> nat" where
  "seq_dist a b = unat (b - a)"

lemma seq_dist_bound [simp]: "seq_dist a b < 65536"
  using unsigned_less [of "b - a"] by (simp add: seq_dist_def)

lemma seq_dist_self [simp]: "seq_dist a a = 0"
  by (simp add: seq_dist_def)

lemma seq_dist_0_iff [simp]: "seq_dist a b = 0 \<longleftrightarrow> a = b"
  by (auto simp: seq_dist_def unat_eq_0)

lemma seq_dist_pos [simp]: "0 < seq_dist a b \<longleftrightarrow> a \<noteq> b"
  by (metis gr0I seq_dist_0_iff less_numeral_extra(3))

lemma seq_lt_dist [serial_simps]: "seq_lt a b \<longleftrightarrow> 0 < seq_dist a b \<and> seq_dist a b < 32768"
proof -
  have ab: "uint a < 65536" "uint b < 65536" "0 \<le> uint a" "0 \<le> uint b"
    using uint_lt2p [of a] uint_lt2p [of b] by simp_all
  have d: "int (seq_dist a b) = (uint b - uint a) mod 65536"
    by (simp add: seq_dist_def uint_word_ariths flip: uint_nat)
  have ne: "a \<noteq> b \<longleftrightarrow> uint a \<noteq> uint b" by (simp add: word_uint_eq_iff)
  show ?thesis
  proof (cases "uint a \<le> uint b")
    case True
    then have "int (seq_dist a b) = uint b - uint a"
      using d ab by simp
    then show ?thesis
      using True ne by (auto simp: seq_lt_def seq_const_defs word_less_def)
  next
    case False
    then have "(uint b - uint a) mod 65536 = (uint b - uint a + 65536) mod 65536" by simp
    also have "\<dots> = uint b - uint a + 65536" using False ab by (intro mod_pos_pos_trivial) linarith+
    finally have "int (seq_dist a b) = uint b - uint a + 65536" using d by simp
    then show ?thesis
      using False ne ab by (auto simp: seq_lt_def seq_const_defs word_less_def)
  qed
qed

lemma seq_add_int_word: "0 \<le> i \<Longrightarrow> i \<le> 32767 \<Longrightarrow> seq_add_int s i = s + word_of_int i"
  by (rule word_uint_eqI)
    (simp add: seq_add_int_def seq_const_defs uint_word_ariths uint_word_of_int mod_simps)

lemma seq_add_int_out: "i < 0 \<or> 32767 < i \<Longrightarrow> seq_add_int s i = s"
  by (auto simp: seq_add_int_def seq_const_defs)

lemma seq_add_range: "seq_ge r (seq_of_int ADD_RANGE_0) \<and> seq_le r (seq_of_int ADD_RANGE_1)
    \<longleftrightarrow> unat r \<le> 32767"
proof -
  have c: "uint (seq_of_int ADD_RANGE_0) = 0" "uint (seq_of_int ADD_RANGE_1) = 32767"
    by (simp_all add: seq_of_int_def seq_const_defs)
  obtain n where n: "uint r = int n" "unat r = n" using uint_nat [of r] by metis
  have b: "n < 65536" using unat_u16_less [of r] n(2) by simp
  have ge: "seq_ge r (seq_of_int ADD_RANGE_0) \<longleftrightarrow> n \<le> 32768"
    unfolding seq_ge_def seq_lt_def word_less_def word_uint_eq_iff c n by (auto simp: ADD_RANGE_1_def)
  have le: "seq_le r (seq_of_int ADD_RANGE_1) \<longleftrightarrow> n \<le> 32767 \<or> n = 65535"
    unfolding seq_le_def seq_gt_def seq_lt_def word_less_def word_uint_eq_iff c n
    using b by (auto simp: ADD_RANGE_1_def)
  show ?thesis unfolding ge le n by auto
qed

lemma seq_add_word: "unat r \<le> 32767 \<Longrightarrow> seq_add s r = s + r"
  using seq_add_range [of r]
  by (intro word_uint_eqI)
    (simp add: seq_add_def seq_const_defs uint_word_ariths uint_word_of_int mod_simps)

lemma seq_add_out: "32767 < unat r \<Longrightarrow> seq_add s r = s"
  using seq_add_range [of r] by (auto simp: seq_add_def)

lemma seq_inc_word: "seq_inc s = s + 1"
  by (rule word_uint_eqI) (simp add: seq_inc_def uint_word_ariths uint_word_of_int)

lemma seq_sub_int_word: "seq_sub_int s i = s - word_of_int i"
  by (rule word_uint_eqI)
    (simp add: seq_sub_int_def Let_def seq_const_defs uint_word_ariths uint_word_of_int)

lemma seq_sub_word: "seq_sub s r = s - r"
  by (rule word_uint_eqI)
    (simp add: seq_sub_def Let_def seq_const_defs uint_word_ariths uint_word_of_int)

section \<open>The serial order as an interface\<close>

text \<open>
  What a client of serial numbers relies on: a successor by \<open>n\<close>, a forward distance, and a comparison
  that is right for numbers less than \<open>half\<close> apart. The facts a sliding window needs are proved here.
\<close>

locale serial_order =
  fixes lt :: "'s \<Rightarrow> 's \<Rightarrow> bool"
    and adv :: "'s \<Rightarrow> nat \<Rightarrow> 's"
    and dist :: "'s \<Rightarrow> 's \<Rightarrow> nat"
    and half :: nat
  assumes lt_iff: "lt a b \<longleftrightarrow> 0 < dist a b \<and> dist a b < half"
    and dist_adv: "n < 2 * half \<Longrightarrow> dist a (adv a n) = n"
    and adv_dist: "adv a (dist a b) = b"
    and adv_adv: "adv (adv a m) n = adv a (m + n)"
    and adv_wrap: "adv a (2 * half) = a"
    and dist_less: "dist a b < 2 * half"
begin

lemma half_pos: "0 < half"
  using dist_less by (cases half) auto

lemma adv_0: "adv a 0 = a"
proof -
  have "adv a 0 = adv (adv a (2 * half)) 0" by (simp add: adv_wrap)
  also have "\<dots> = adv a (2 * half)" by (simp add: adv_adv)
  finally show ?thesis by (simp add: adv_wrap)
qed

lemma dist_refl: "dist a a = 0"
  using dist_adv [of 0 a] half_pos by (simp add: adv_0)

lemma lt_irrefl: "\<not> lt a a"
  by (simp add: lt_iff dist_refl)

lemma lt_adv: "n < 2 * half \<Longrightarrow> lt a (adv a n) \<longleftrightarrow> 0 < n \<and> n < half"
  by (simp add: lt_iff dist_adv)

lemma adv_inject: "m < 2 * half \<Longrightarrow> n < 2 * half \<Longrightarrow> adv a m = adv a n \<longleftrightarrow> m = n"
  by (metis dist_adv)

lemma dist_adv_adv: "m \<le> n \<Longrightarrow> n - m < 2 * half \<Longrightarrow> dist (adv a m) (adv a n) = n - m"
  using dist_adv [of "n - m" "adv a m"] by (simp add: adv_adv)

lemma dist_back:
  assumes "n < m" and "m - n < 2 * half"
  shows "dist (adv a m) (adv a n) = 2 * half - (m - n)"
proof -
  have "adv (adv a m) (2 * half - (m - n)) = adv a (n + 2 * half)"
    using assms by (simp add: adv_adv add.commute)
  also have "\<dots> = adv a n" by (metis adv_adv adv_wrap)
  finally have "dist (adv a m) (adv a n) = dist (adv a m) (adv (adv a m) (2 * half - (m - n)))" by simp
  also have "\<dots> = 2 * half - (m - n)" using assms by (intro dist_adv) linarith
  finally show ?thesis .
qed

text \<open>Inside a window shorter than \<open>half\<close> the comparison is the order of the offsets.\<close>

lemma lt_window:
  assumes "m < n + half" and "n < m + half"
  shows "lt (adv a m) (adv a n) \<longleftrightarrow> m < n"
proof (cases "m \<le> n")
  case True
  with assms show ?thesis by (auto simp: lt_iff dist_adv_adv)
next
  case False
  with assms show ?thesis by (auto simp: lt_iff dist_back)
qed

lemma lt_asym: "lt a b \<Longrightarrow> \<not> lt b a"
proof -
  assume l: "lt a b"
  then have d: "0 < dist a b" "dist a b < half" by (simp_all add: lt_iff)
  have "lt (adv a (dist a b)) (adv a 0) \<longleftrightarrow> dist a b < 0"
    using d by (intro lt_window) simp_all
  then show ?thesis by (simp add: adv_dist adv_0)
qed

lemma lt_trans_window: "dist a b + dist b c < half \<Longrightarrow> lt a b \<Longrightarrow> lt b c \<Longrightarrow> lt a c"
proof -
  assume s: "dist a b + dist b c < half" and "lt a b" "lt b c"
  have "adv a (dist a b + dist b c) = c" by (metis adv_adv adv_dist)
  then have "dist a c = dist a b + dist b c" using s dist_adv [of "dist a b + dist b c" a] by simp
  with s \<open>lt a b\<close> show ?thesis by (simp add: lt_iff)
qed

end

definition seq_adv :: "SeqNum \<Rightarrow> nat \<Rightarrow> SeqNum" where
  "seq_adv a n = a + of_nat n"

interpretation sn: serial_order seq_lt seq_adv seq_dist 32768
proof unfold_locales
  fix a b :: SeqNum and m n :: nat
  show "seq_lt a b \<longleftrightarrow> 0 < seq_dist a b \<and> seq_dist a b < 32768" by (rule seq_lt_dist)
  show "n < 2 * 32768 \<Longrightarrow> seq_dist a (seq_adv a n) = n"
    by (simp add: seq_dist_def seq_adv_def unat_of_nat_less)
  show "seq_adv a (seq_dist a b) = b" by (simp add: seq_dist_def seq_adv_def)
  show "seq_adv (seq_adv a m) n = seq_adv a (m + n)" by (simp add: seq_adv_def)
  show "seq_adv a (2 * 32768) = a" by (simp add: seq_adv_def)
  show "seq_dist a b < 2 * 32768" by simp
qed

end
