(* ===== verification/XrceTypes.thy ===== *)
theory XrceTypes
  imports Prelude
begin

text \<open>
  The protocol vocabulary of \<open>include/uxr/agent/types/XRCETypes.hpp\<close> that the agent's own logic
  branches on (identifiers, object kinds, status values, submessage identifiers, stream and session
  identifiers), and the conversions of \<open>include/uxr/agent/utils/Conversion.hpp\<close>. A fixed-size
  \<open>std::array\<close> of bytes is a tuple. The lemmas show that the conversions are mutually inverse
  on the ranges the protocol uses.
\<close>

section \<open>Identifiers\<close>

type_synonym ClientKey = "u8 \<times> u8 \<times> u8 \<times> u8"
type_synonym ObjectKind = u8
type_synonym ObjectId = "u8 \<times> u8"
type_synonym ObjectPrefix = "u8 \<times> u8"
type_synonym XrceCookie = "u8 \<times> u8 \<times> u8 \<times> u8"
type_synonym XrceVersion = "u8 \<times> u8"
type_synonym XrceVendorId = "u8 \<times> u8"
type_synonym SessionId = u8
type_synonym StreamId = u8
type_synonym SequenceNr = u16
type_synonym RequestId = "u8 \<times> u8"

definition OBJK_INVALID :: ObjectKind where "OBJK_INVALID = 0x00"
definition OBJK_PARTICIPANT :: ObjectKind where "OBJK_PARTICIPANT = 0x01"
definition OBJK_TOPIC :: ObjectKind where "OBJK_TOPIC = 0x02"
definition OBJK_PUBLISHER :: ObjectKind where "OBJK_PUBLISHER = 0x03"
definition OBJK_SUBSCRIBER :: ObjectKind where "OBJK_SUBSCRIBER = 0x04"
definition OBJK_DATAWRITER :: ObjectKind where "OBJK_DATAWRITER = 0x05"
definition OBJK_DATAREADER :: ObjectKind where "OBJK_DATAREADER = 0x06"
definition OBJK_REQUESTER :: ObjectKind where "OBJK_REQUESTER = 0x07"
definition OBJK_REPLIER :: ObjectKind where "OBJK_REPLIER = 0x08"
definition OBJK_TYPE :: ObjectKind where "OBJK_TYPE = 0x0A"
definition OBJK_QOSPROFILE :: ObjectKind where "OBJK_QOSPROFILE = 0x0B"
definition OBJK_APPLICATION :: ObjectKind where "OBJK_APPLICATION = 0x0C"
definition OBJK_AGENT :: ObjectKind where "OBJK_AGENT = 0x0D"
definition OBJK_CLIENT :: ObjectKind where "OBJK_CLIENT = 0x0E"
definition OBJK_OTHER :: ObjectKind where "OBJK_OTHER = 0x0F"

lemmas objk_defs = OBJK_INVALID_def OBJK_PARTICIPANT_def OBJK_TOPIC_def OBJK_PUBLISHER_def
  OBJK_SUBSCRIBER_def OBJK_DATAWRITER_def OBJK_DATAREADER_def OBJK_REQUESTER_def OBJK_REPLIER_def
  OBJK_TYPE_def OBJK_QOSPROFILE_def OBJK_APPLICATION_def OBJK_AGENT_def OBJK_CLIENT_def OBJK_OTHER_def

definition CLIENTKEY_INVALID :: ClientKey where "CLIENTKEY_INVALID = (0, 0, 0, 0)"
definition XRCE_COOKIE :: XrceCookie where "XRCE_COOKIE = (0x58, 0x52, 0x43, 0x45)"
definition XRCE_VERSION_MAJOR :: u8 where "XRCE_VERSION_MAJOR = 0x01"
definition XRCE_VERSION_MINOR :: u8 where "XRCE_VERSION_MINOR = 0x00"
definition XRCE_VERSION :: XrceVersion where "XRCE_VERSION = (XRCE_VERSION_MAJOR, XRCE_VERSION_MINOR)"

definition SESSIONID_NONE_WITH_CLIENT_KEY :: SessionId where "SESSIONID_NONE_WITH_CLIENT_KEY = 0x00"
definition SESSIONID_NONE_WITHOUT_CLIENT_KEY :: SessionId where "SESSIONID_NONE_WITHOUT_CLIENT_KEY = 0x80"
definition STREAMID_NONE :: StreamId where "STREAMID_NONE = 0x00"
definition STREAMID_BUILTIN_BEST_EFFORTS :: StreamId where "STREAMID_BUILTIN_BEST_EFFORTS = 0x01"
definition STREAMID_BUILTIN_RELIABLE :: StreamId where "STREAMID_BUILTIN_RELIABLE = 0x80"

section \<open>Status values and submessage identifiers\<close>

datatype StatusValue =
    STATUS_OK
  | STATUS_OK_MATCHED
  | STATUS_ERR_DDS_ERROR
  | STATUS_ERR_MISMATCH
  | STATUS_ERR_ALREADY_EXISTS
  | STATUS_ERR_DENIED
  | STATUS_ERR_UNKNOWN_REFERENCE
  | STATUS_ERR_INVALID_DATA
  | STATUS_ERR_INCOMPATIBLE
  | STATUS_ERR_RESOURCES

fun status_code :: "StatusValue \<Rightarrow> u8" where
  "status_code STATUS_OK = 0x00"
| "status_code STATUS_OK_MATCHED = 0x01"
| "status_code STATUS_ERR_DDS_ERROR = 0x80"
| "status_code STATUS_ERR_MISMATCH = 0x81"
| "status_code STATUS_ERR_ALREADY_EXISTS = 0x82"
| "status_code STATUS_ERR_DENIED = 0x83"
| "status_code STATUS_ERR_UNKNOWN_REFERENCE = 0x84"
| "status_code STATUS_ERR_INVALID_DATA = 0x85"
| "status_code STATUS_ERR_INCOMPATIBLE = 0x86"
| "status_code STATUS_ERR_RESOURCES = 0x87"

text \<open>
  A submessage identifier is read from the wire with a \<open>static_cast\<close>, so every byte value can
  occur: it stays a byte, with the enumerators as constants.
\<close>

type_synonym SubmessageId = u8

definition CREATE_CLIENT :: SubmessageId where "CREATE_CLIENT = 0"
definition CREATE :: SubmessageId where "CREATE = 1"
definition GET_INFO :: SubmessageId where "GET_INFO = 2"
definition DELETE_ID :: SubmessageId where "DELETE_ID = 3"
definition STATUS_AGENT :: SubmessageId where "STATUS_AGENT = 4"
definition STATUS :: SubmessageId where "STATUS = 5"
definition INFO :: SubmessageId where "INFO = 6"
definition WRITE_DATA :: SubmessageId where "WRITE_DATA = 7"
definition READ_DATA :: SubmessageId where "READ_DATA = 8"
definition DATA :: SubmessageId where "DATA = 9"
definition ACKNACK :: SubmessageId where "ACKNACK = 10"
definition HEARTBEAT :: SubmessageId where "HEARTBEAT = 11"
definition RESET :: SubmessageId where "RESET = 12"
definition FRAGMENT :: SubmessageId where "FRAGMENT = 13"
definition TIMESTAMP :: SubmessageId where "TIMESTAMP = 14"
definition TIMESTAMP_REPLY :: SubmessageId where "TIMESTAMP_REPLY = 15"

text \<open>Submessage flags (\<open>SubMessageHeader.hpp\<close>).\<close>

definition FLAG_LITTLE_ENDIANNESS :: u8 where "FLAG_LITTLE_ENDIANNESS = 0x01"
definition FLAG_REUSE :: u8 where "FLAG_REUSE = 0x02"
definition FLAG_REPLACE :: u8 where "FLAG_REPLACE = 0x04"
definition FLAG_LAST_FRAGMENT :: u8 where "FLAG_LAST_FRAGMENT = 0x02"
definition FORMAT_DATA_FLAG :: u8 where "FORMAT_DATA_FLAG = 0x00"

section \<open>Conversions\<close>

text \<open>The arithmetic is done in \<open>int\<close> (32 bit) and narrowed by the constructor-style casts.\<close>

definition objectid_to_raw :: "ObjectId \<Rightarrow> u16" where
  "objectid_to_raw object_id =
     ucast (drop_bit 4 (ucast (snd object_id) :: u32) + push_bit 4 (ucast (fst object_id) :: u32))"

definition raw_to_objectid :: "u16 \<Rightarrow> ObjectKind \<Rightarrow> ObjectId" where
  "raw_to_objectid raw kind =
     (ucast (drop_bit 4 (ucast raw :: u32)), ucast (push_bit 4 (ucast raw :: u32) OR ucast kind))"

definition raw_to_objectprefix :: "u16 \<Rightarrow> ObjectId" where
  "raw_to_objectprefix raw =
     (ucast (drop_bit 4 (ucast raw :: u32)), ucast (push_bit 4 (ucast raw :: u32)))"

definition clientkey_to_raw :: "ClientKey \<Rightarrow> u32" where
  "clientkey_to_raw key = (case key of (k0, k1, k2, k3) \<Rightarrow>
     push_bit 24 (ucast k0) + push_bit 16 (ucast k1) + push_bit 8 (ucast k2) + ucast k3)"

definition raw_to_clientkey :: "u32 \<Rightarrow> ClientKey" where
  "raw_to_clientkey key =
     (ucast (drop_bit 24 key), ucast (drop_bit 16 key), ucast (drop_bit 8 key), ucast key)"

text \<open>The kind of an object is the low nibble of its identifier.\<close>

definition objectid_kind :: "ObjectId \<Rightarrow> ObjectKind" where
  "objectid_kind object_id = snd object_id AND 0x0F"

text \<open>Sums of words without a common bit are their bitwise union, which decides the rest by bits.\<close>

lemma objectid_to_raw_or:
  "objectid_to_raw (a, b) = ucast (drop_bit 4 b) OR push_bit 4 (ucast a)"
proof -
  have "drop_bit 4 (ucast b :: u32) + push_bit 4 (ucast a :: u32)
      = drop_bit 4 (ucast b) OR push_bit 4 (ucast a)"
    by (rule disjunctive_add) (auto simp: bit_simps dest: bit_imp_le_length)
  then show ?thesis
    unfolding objectid_to_raw_def by (intro bit_word_eqI) (auto simp: bit_simps)
qed

lemma clientkey_to_raw_or:
  "clientkey_to_raw (k0, k1, k2, k3) =
     push_bit 24 (ucast k0) OR push_bit 16 (ucast k1) OR push_bit 8 (ucast k2) OR ucast k3"
proof -
  have "push_bit 24 (ucast k0 :: u32) + push_bit 16 (ucast k1)
      = push_bit 24 (ucast k0) OR push_bit 16 (ucast k1)"
    by (rule disjunctive_add) (auto simp: bit_simps dest: bit_imp_le_length)
  moreover have "(push_bit 24 (ucast k0 :: u32) OR push_bit 16 (ucast k1)) + push_bit 8 (ucast k2)
      = (push_bit 24 (ucast k0) OR push_bit 16 (ucast k1)) OR push_bit 8 (ucast k2)"
    by (rule disjunctive_add) (auto simp: bit_simps dest: bit_imp_le_length)
  moreover have "(push_bit 24 (ucast k0 :: u32) OR push_bit 16 (ucast k1) OR push_bit 8 (ucast k2)) + ucast k3
      = (push_bit 24 (ucast k0) OR push_bit 16 (ucast k1) OR push_bit 8 (ucast k2)) OR ucast k3"
    by (rule disjunctive_add) (auto simp: bit_simps dest: bit_imp_le_length)
  ultimately show ?thesis by (simp add: clientkey_to_raw_def or.assoc)
qed

lemma low_nibble_mask: "(0x0F :: u8) = mask 4"
  by (simp add: mask_eq_exp_minus_1)

lemma less_mask_take_bit: "unat (w :: 'a :: len word) < 2 ^ n \<Longrightarrow> w = take_bit n w"
  by (rule word_unat_eq_iff [THEN iffD2]) (simp add: unsigned_take_bit_eq take_bit_nat_eq_self)

lemma objectid_roundtrip [simp]:
  "raw_to_objectid (objectid_to_raw object_id) (objectid_kind object_id) = object_id"
proof -
  obtain a b where oid: "object_id = (a, b)" by (cases object_id)
  have "ucast (drop_bit 4 (ucast (objectid_to_raw (a, b)) :: u32)) = a"
    by (rule bit_word_eqI) (auto simp: objectid_to_raw_or bit_simps dest: bit_imp_le_length)
  moreover have "ucast (push_bit 4 (ucast (objectid_to_raw (a, b)) :: u32) OR ucast (b AND mask 4)) = b"
    by (rule bit_word_eqI) (auto simp: objectid_to_raw_or bit_simps not_less dest: bit_imp_le_length)
  ultimately show ?thesis
    by (simp add: raw_to_objectid_def oid objectid_kind_def low_nibble_mask)
qed

lemma raw_objectid_roundtrip:
  assumes "raw < 4096" and "kind < 16"
  shows "objectid_to_raw (raw_to_objectid raw kind) = raw"
    and "objectid_kind (raw_to_objectid raw kind) = kind"
proof -
  have r: "raw = take_bit 12 raw" using assms(1) by (intro less_mask_take_bit) (simp add: word_less_nat_alt)
  have k: "kind = take_bit 4 kind" using assms(2) by (intro less_mask_take_bit) (simp add: word_less_nat_alt)
  show "objectid_to_raw (raw_to_objectid raw kind) = raw"
    by (subst (2) r, subst k, rule bit_word_eqI)
      (auto simp: raw_to_objectid_def objectid_to_raw_or bit_simps dest: bit_imp_le_length)
  show "objectid_kind (raw_to_objectid raw kind) = kind"
    by (subst (2) k, rule bit_word_eqI)
      (auto simp: raw_to_objectid_def objectid_kind_def low_nibble_mask bit_simps)
qed

lemma raw_clientkey_roundtrip [simp]: "clientkey_to_raw (raw_to_clientkey raw) = raw"
proof (rule bit_word_eqI)
  fix n
  assume "n < LENGTH(32)"
  then consider "n < 8" | "8 \<le> n \<and> n < 16" | "16 \<le> n \<and> n < 24" | "24 \<le> n \<and> n < 32"
    by fastforce
  then show "bit (clientkey_to_raw (raw_to_clientkey raw)) n = bit raw n"
    by cases (auto simp: raw_to_clientkey_def clientkey_to_raw_or bit_simps)
qed

lemma bit_u8_high [simp]: "8 \<le> n \<Longrightarrow> \<not> bit (x :: u8) n"
  using bit_imp_le_length [of x n] by auto

lemma clientkey_raw_roundtrip [simp]: "raw_to_clientkey (clientkey_to_raw key) = key"
  by (cases key) (auto simp: raw_to_clientkey_def clientkey_to_raw_or bit_simps intro!: bit_word_eqI)

lemma clientkey_to_raw_inject [simp]: "clientkey_to_raw k = clientkey_to_raw k' \<longleftrightarrow> k = k'"
  by (metis clientkey_raw_roundtrip)

end
