(* ===== verification/Messages.thy ===== *)
theory Messages
  imports XrceTypes
begin

text \<open>
  Messages on the wire: \<open>MessageHeader\<close> and \<open>SubmessageHeader\<close> (\<open>src/cpp/types\<close>), and the
  \<open>InputMessage\<close> and \<open>OutputMessage\<close> classes (\<open>include/uxr/agent/message\<close>) that read and build
  them. Fast CDR, the serializer underneath, is a third-party library: it is the parameter \<open>C\<close>
  of the definitions, a record of the operations the code calls. What its documentation says of
  them is \<open>fastcdr_ok\<close>, the hypothesis of the theorems about bytes.
\<close>

section \<open>Fast CDR as a parameter\<close>

text \<open>
  A \<open>Cdr\<close> object over a \<open>FastBuffer\<close>. Writing operations return whether they succeeded, reading
  operations an optional value: \<open>False\<close> and \<open>None\<close> are a \<open>NotEnoughMemoryException\<close>.
\<close>

record 'c fastcdr =
  cdr_open :: "u8 list \<Rightarrow> 'c"
  cdr_buffer :: "'c \<Rightarrow> u8 list"
  cdr_offset :: "'c \<Rightarrow> nat"
  cdr_alignment :: "nat \<Rightarrow> nat \<Rightarrow> nat"
  cdr_jump :: "nat \<Rightarrow> 'c \<Rightarrow> 'c"
  cdr_put_u8 :: "u8 \<Rightarrow> 'c \<Rightarrow> bool \<times> 'c"
  cdr_put_u16_le :: "u16 \<Rightarrow> 'c \<Rightarrow> bool \<times> 'c"
  cdr_put_array :: "u8 list \<Rightarrow> 'c \<Rightarrow> bool \<times> 'c"
  cdr_get_u8 :: "'c \<Rightarrow> u8 option \<times> 'c"
  cdr_get_u16_le :: "'c \<Rightarrow> u16 option \<times> 'c"
  cdr_get_array :: "nat \<Rightarrow> 'c \<Rightarrow> u8 list option \<times> 'c"

definition bytes_of_u16_le :: "u16 \<Rightarrow> u8 list" where
  "bytes_of_u16_le w = [ucast w, ucast (drop_bit 8 w)]"

definition u16_of_bytes_le :: "u8 \<Rightarrow> u8 \<Rightarrow> u16" where
  "u16_of_bytes_le lo hi = ucast lo OR push_bit 8 (ucast hi)"

text \<open>Overwriting the bytes of a buffer from a position on.\<close>

definition write_at :: "nat \<Rightarrow> u8 list \<Rightarrow> u8 list \<Rightarrow> u8 list" where
  "write_at p bs buf = take p buf @ bs @ drop (p + length bs) buf"

definition read_at :: "nat \<Rightarrow> nat \<Rightarrow> u8 list \<Rightarrow> u8 list" where
  "read_at p n buf = take n (drop p buf)"

text \<open>What the documentation of Fast CDR says of a state after an operation that moved it.\<close>

definition cdr_is :: "('c, 'x) fastcdr_scheme \<Rightarrow> 'c \<Rightarrow> u8 list \<Rightarrow> nat \<Rightarrow> bool" where
  "cdr_is C c buf off \<longleftrightarrow> cdr_buffer C c = buf \<and> cdr_offset C c = off"

definition put_ok :: "('c, 'x) fastcdr_scheme \<Rightarrow> bool \<times> 'c \<Rightarrow> 'c \<Rightarrow> nat \<Rightarrow> u8 list \<Rightarrow> bool" where
  "put_ok C res c pad bs \<longleftrightarrow>
     (let p = cdr_offset C c + pad in
      if p + length bs \<le> length (cdr_buffer C c)
      then fst res \<and> cdr_is C (snd res) (write_at p bs (cdr_buffer C c)) (p + length bs)
      else \<not> fst res \<and> snd res = c)"

definition get_ok :: "('c, 'x) fastcdr_scheme \<Rightarrow> 'v option \<times> 'c \<Rightarrow> 'c \<Rightarrow> nat \<Rightarrow> nat \<Rightarrow> (u8 list \<Rightarrow> 'v) \<Rightarrow> bool" where
  "get_ok C res c pad n dec \<longleftrightarrow>
     (let p = cdr_offset C c + pad in
      if p + n \<le> length (cdr_buffer C c)
      then fst res = Some (dec (read_at p n (cdr_buffer C c)))
         \<and> cdr_is C (snd res) (cdr_buffer C c) (p + n)
      else fst res = None \<and> snd res = c)"

definition fastcdr_ok :: "('c, 'x) fastcdr_scheme \<Rightarrow> bool" where
  "fastcdr_ok C \<longleftrightarrow>
     (\<forall>bs. cdr_is C (cdr_open C bs) bs 0) \<and>
     (\<forall>c. cdr_offset C c \<le> length (cdr_buffer C c)) \<and>
     (\<forall>p. cdr_alignment C p 1 = 0 \<and> cdr_alignment C p 2 = p mod 2) \<and>
     (\<forall>n c. if cdr_offset C c + n \<le> length (cdr_buffer C c)
        then cdr_is C (cdr_jump C n c) (cdr_buffer C c) (cdr_offset C c + n) else cdr_jump C n c = c) \<and>
     (\<forall>b c. put_ok C (cdr_put_u8 C b c) c 0 [b]) \<and>
     (\<forall>w c. put_ok C (cdr_put_u16_le C w c) c (cdr_offset C c mod 2) (bytes_of_u16_le w)) \<and>
     (\<forall>bs c. put_ok C (cdr_put_array C bs c) c 0 bs) \<and>
     (\<forall>c. get_ok C (cdr_get_u8 C c) c 0 1 hd) \<and>
     (\<forall>c. get_ok C (cdr_get_u16_le C c) c (cdr_offset C c mod 2) 2 (\<lambda>bs. u16_of_bytes_le (bs ! 0) (bs ! 1))) \<and>
     (\<forall>n c. get_ok C (cdr_get_array C n c) c 0 n id)"

text \<open>Serializations in sequence: an exception skips what follows.\<close>

definition ser_then :: "('c \<Rightarrow> bool \<times> 'c) \<Rightarrow> ('c \<Rightarrow> bool \<times> 'c) \<Rightarrow> 'c \<Rightarrow> bool \<times> 'c" where
  "ser_then f g c = (case f c of (True, c') \<Rightarrow> g c' | (False, c') \<Rightarrow> (False, c'))"

section \<open>Headers\<close>

record MessageHeader =
  mh_session_id :: SessionId
  mh_stream_id :: StreamId
  mh_sequence_nr :: u16
  mh_client_key :: ClientKey

definition MessageHeader_init :: MessageHeader where
  "MessageHeader_init = \<lparr>mh_session_id = 0, mh_stream_id = 0, mh_sequence_nr = 0, mh_client_key = (0, 0, 0, 0)\<rparr>"

definition mh_getCdrSerializedSize :: "('c, 'x) fastcdr_scheme \<Rightarrow> MessageHeader \<Rightarrow> nat \<Rightarrow> nat" where
  "mh_getCdrSerializedSize C h current_alignment =
     (let initial_alignment = current_alignment;
          a1 = current_alignment + 1 + cdr_alignment C current_alignment 1;
          a2 = a1 + 1 + cdr_alignment C a1 1;
          a3 = a2 + 2 + cdr_alignment C a2 2;
          a4 = (if 128 > mh_session_id h then a3 + 4 * 1 + cdr_alignment C a3 1 else a3)
      in a4 - initial_alignment)"

definition key_bytes :: "ClientKey \<Rightarrow> u8 list" where
  "key_bytes k = (case k of (k0, k1, k2, k3) \<Rightarrow> [k0, k1, k2, k3])"

definition bytes_key :: "u8 list \<Rightarrow> ClientKey" where
  "bytes_key bs = (bs ! 0, bs ! 1, bs ! 2, bs ! 3)"

definition mh_serialize :: "('c, 'x) fastcdr_scheme \<Rightarrow> MessageHeader \<Rightarrow> 'c \<Rightarrow> bool \<times> 'c" where
  "mh_serialize C h =
     ser_then (cdr_put_u8 C (mh_session_id h))
    (ser_then (cdr_put_u8 C (mh_stream_id h))
    (ser_then (cdr_put_u16_le C (mh_sequence_nr h))
       (if 128 > mh_session_id h then cdr_put_array C (key_bytes (mh_client_key h)) else (\<lambda>c. (True, c)))))"

text \<open>Reading assigns field by field: an exception leaves the fields read before it.\<close>

definition mh_deserialize :: "('c, 'x) fastcdr_scheme \<Rightarrow> MessageHeader \<Rightarrow> 'c \<Rightarrow> MessageHeader \<times> bool \<times> 'c" where
  "mh_deserialize C h c =
     (case cdr_get_u8 C c of (None, c) \<Rightarrow> (h, False, c) | (Some v, c) \<Rightarrow>
      let h = h\<lparr>mh_session_id := v\<rparr> in
      case cdr_get_u8 C c of (None, c) \<Rightarrow> (h, False, c) | (Some v, c) \<Rightarrow>
      let h = h\<lparr>mh_stream_id := v\<rparr> in
      case cdr_get_u16_le C c of (None, c) \<Rightarrow> (h, False, c) | (Some v, c) \<Rightarrow>
      let h = h\<lparr>mh_sequence_nr := v\<rparr> in
      if 128 > mh_session_id h then
        case cdr_get_array C 4 c of (None, c) \<Rightarrow> (h, False, c) | (Some v, c) \<Rightarrow>
        (h\<lparr>mh_client_key := bytes_key v\<rparr>, True, c)
      else (h, True, c))"

record SubmessageHeader =
  sh_submessage_id :: SubmessageId
  sh_flags :: u8
  sh_submessage_length :: u16

definition SubmessageHeader_init :: SubmessageHeader where
  "SubmessageHeader_init = \<lparr>sh_submessage_id = CREATE_CLIENT, sh_flags = 0, sh_submessage_length = 0\<rparr>"

definition sh_getCdrSerializedSize :: "('c, 'x) fastcdr_scheme \<Rightarrow> nat \<Rightarrow> nat" where
  "sh_getCdrSerializedSize C current_alignment =
     (let initial_alignment = current_alignment;
          a1 = current_alignment + 1 + cdr_alignment C current_alignment 1;
          a2 = a1 + 1 + cdr_alignment C a1 1;
          a3 = a2 + 2 + cdr_alignment C a2 2
      in a3 - initial_alignment)"

definition sh_serialize :: "('c, 'x) fastcdr_scheme \<Rightarrow> SubmessageHeader \<Rightarrow> 'c \<Rightarrow> bool \<times> 'c" where
  "sh_serialize C h =
     ser_then (cdr_put_u8 C (sh_submessage_id h))
    (ser_then (cdr_put_u8 C (sh_flags h)) (cdr_put_u16_le C (sh_submessage_length h)))"

definition sh_deserialize :: "('c, 'x) fastcdr_scheme \<Rightarrow> SubmessageHeader \<Rightarrow> 'c \<Rightarrow> SubmessageHeader \<times> bool \<times> 'c" where
  "sh_deserialize C h c =
     (case cdr_get_u8 C c of (None, c) \<Rightarrow> (h, False, c) | (Some v, c) \<Rightarrow>
      let h = h\<lparr>sh_submessage_id := v\<rparr> in
      case cdr_get_u8 C c of (None, c) \<Rightarrow> (h, False, c) | (Some v, c) \<Rightarrow>
      let h = h\<lparr>sh_flags := v\<rparr> in
      case cdr_get_u16_le C c of (None, c) \<Rightarrow> (h, False, c) | (Some v, c) \<Rightarrow>
      (h\<lparr>sh_submessage_length := v\<rparr>, True, c))"

section \<open>InputMessage\<close>

record 'c InputMessage =
  im_buf :: "u8 list"
  im_header :: MessageHeader
  im_subheader :: SubmessageHeader
  im_deserializer :: 'c

text \<open>The constructor copies the buffer and reads the header; a failure to read it is only logged.\<close>

definition InputMessage_new :: "('c, 'x) fastcdr_scheme \<Rightarrow> u8 list \<Rightarrow> 'c InputMessage" where
  "InputMessage_new C buf =
     (let (h, _, c) = mh_deserialize C MessageHeader_init (cdr_open C buf)
      in \<lparr>im_buf = buf, im_header = h, im_subheader = SubmessageHeader_init, im_deserializer = c\<rparr>)"

text \<open>\<open>(4 - (offset & 3)) & 3\<close>: the bytes to the next multiple of four.\<close>

definition pad4 :: "nat \<Rightarrow> nat" where
  "pad4 offset = (4 - offset mod 4) mod 4"

definition prepare_next_submessage :: "('c, 'x) fastcdr_scheme \<Rightarrow> 'c InputMessage \<Rightarrow> bool \<times> 'c InputMessage" where
  "prepare_next_submessage C m =
     (let c = cdr_jump C (pad4 (cdr_offset C (im_deserializer m))) (im_deserializer m) in
      if length (im_buf m) > cdr_offset C c
      then (let (sh, ok, c) = sh_deserialize C (im_subheader m) c
            in (ok, m\<lparr>im_subheader := sh, im_deserializer := c\<rparr>))
      else (False, m\<lparr>im_deserializer := c\<rparr>))"

text \<open>
  \<open>get_raw_header\<close> copies 8 or 4 bytes out of the buffer. \<open>None\<close>: the copy would read past its end,
  which is undefined.
\<close>

definition get_raw_header :: "'c InputMessage \<Rightarrow> u8 list option" where
  "get_raw_header m =
     (let n = (if 128 > mh_session_id (im_header m) then 8 else 4)
      in if n \<le> length (im_buf m) then Some (take n (im_buf m)) else None)"

text \<open>The bytes \<open>get_raw_payload\<close> leaves in a zeroed destination of \<open>len\<close> bytes, and its result.\<close>

definition get_raw_payload :: "('c, 'x) fastcdr_scheme \<Rightarrow> nat \<Rightarrow> 'c InputMessage \<Rightarrow> u8 list \<times> bool \<times> 'c InputMessage" where
  "get_raw_payload C len m =
     (let n = unat (sh_submessage_length (im_subheader m)) in
      if n \<le> len
      then (case cdr_get_array C n (im_deserializer m) of
              (Some bs, c) \<Rightarrow> (bs @ replicate (len - n) 0, True, m\<lparr>im_deserializer := c\<rparr>)
            | (None, c) \<Rightarrow> (replicate len 0, False, m\<lparr>im_deserializer := c\<rparr>))
      else (replicate len 0, False, m))"

section \<open>OutputMessage\<close>

text \<open>
  What \<open>append_submessage\<close> asks of a payload of any of the generated types: its serialized size
  and how it is written.
\<close>

record 'c payload =
  pl_size :: nat
  pl_serialize :: "'c \<Rightarrow> bool \<times> 'c"

record 'c OutputMessage =
  om_len :: nat
  om_serializer :: 'c

text \<open>The constructor zeroes \<open>len\<close> bytes and writes the header; a failure to write it is only logged.\<close>

definition OutputMessage_new :: "('c, 'x) fastcdr_scheme \<Rightarrow> MessageHeader \<Rightarrow> nat \<Rightarrow> 'c OutputMessage" where
  "OutputMessage_new C header len =
     \<lparr>om_len = len, om_serializer = snd (mh_serialize C header (cdr_open C (replicate len 0)))\<rparr>"

definition om_get_len :: "('c, 'x) fastcdr_scheme \<Rightarrow> 'c OutputMessage \<Rightarrow> nat" where
  "om_get_len C m = cdr_offset C (om_serializer m)"

text \<open>The bytes that go on the wire: the first \<open>get_len()\<close> bytes of \<open>get_buf()\<close>.\<close>

definition om_bytes :: "('c, 'x) fastcdr_scheme \<Rightarrow> 'c OutputMessage \<Rightarrow> u8 list" where
  "om_bytes C m = take (om_get_len C m) (cdr_buffer C (om_serializer m))"

definition om_serialize :: "('c \<Rightarrow> bool \<times> 'c) \<Rightarrow> 'c OutputMessage \<Rightarrow> bool \<times> 'c OutputMessage" where
  "om_serialize f m = (let (ok, c) = f (om_serializer m) in (ok, m\<lparr>om_serializer := c\<rparr>))"

definition om_align4 :: "('c, 'x) fastcdr_scheme \<Rightarrow> 'c OutputMessage \<Rightarrow> 'c OutputMessage" where
  "om_align4 C m =
     m\<lparr>om_serializer := cdr_jump C (pad4 (cdr_offset C (om_serializer m))) (om_serializer m)\<rparr>"

definition append_subheader :: "('c, 'x) fastcdr_scheme \<Rightarrow> SubmessageId \<Rightarrow> u8 \<Rightarrow> nat \<Rightarrow> 'c OutputMessage \<Rightarrow> bool \<times> 'c OutputMessage" where
  "append_subheader C submessage_id flags submessage_len m =
     om_serialize (sh_serialize C
       \<lparr>sh_submessage_id = submessage_id, sh_flags = flags, sh_submessage_length = of_nat submessage_len\<rparr>)
       (om_align4 C m)"

definition append_submessage :: "('c, 'x) fastcdr_scheme \<Rightarrow> SubmessageId \<Rightarrow> 'c payload \<Rightarrow> u8 \<Rightarrow> 'c OutputMessage \<Rightarrow> bool \<times> 'c OutputMessage" where
  "append_submessage C submessage_id data flags m =
     (case append_subheader C submessage_id flags (pl_size data) m of
        (True, m) \<Rightarrow> om_serialize (pl_serialize data) m
      | (False, m) \<Rightarrow> (False, m))"

definition append_raw_payload :: "('c, 'x) fastcdr_scheme \<Rightarrow> SubmessageId \<Rightarrow> u8 list \<Rightarrow> u8 \<Rightarrow> 'c OutputMessage \<Rightarrow> bool \<times> 'c OutputMessage" where
  "append_raw_payload C submessage_id buf flags m =
     (case append_subheader C submessage_id flags (length buf) m of
        (True, m) \<Rightarrow> om_serialize (cdr_put_array C buf) m
      | (False, m) \<Rightarrow> (False, m))"

definition append_fragment :: "('c, 'x) fastcdr_scheme \<Rightarrow> SubmessageHeader \<Rightarrow> u8 list \<Rightarrow> 'c OutputMessage \<Rightarrow> bool \<times> 'c OutputMessage" where
  "append_fragment C subheader buf m =
     (case om_serialize (sh_serialize C subheader) (om_align4 C m) of
        (True, m) \<Rightarrow> om_serialize (cdr_put_array C buf) m
      | (False, m) \<Rightarrow> (False, m))"

section \<open>Cursor calculus\<close>

text \<open>
  The serializer stands after \<open>pre\<close> and before \<open>rest\<close>. Under \<open>fastcdr_ok\<close> every operation of the
  code moves this cursor; the lemmas below are its rules.
\<close>

definition cdr_at :: "('c, 'x) fastcdr_scheme \<Rightarrow> 'c \<Rightarrow> u8 list \<Rightarrow> u8 list \<Rightarrow> bool" where
  "cdr_at C c pre rest \<longleftrightarrow> cdr_is C c (pre @ rest) (length pre)"

lemma fastcdr_jump:
  "fastcdr_ok C \<Longrightarrow> cdr_offset C c + n \<le> length (cdr_buffer C c) \<Longrightarrow>
    cdr_is C (cdr_jump C n c) (cdr_buffer C c) (cdr_offset C c + n)"
  unfolding fastcdr_ok_def by metis

lemma fastcdr_offset_le: "fastcdr_ok C \<Longrightarrow> cdr_offset C c \<le> length (cdr_buffer C c)"
  unfolding fastcdr_ok_def by metis

lemma fastcdr_u16:
  assumes "fastcdr_ok C" and "even (cdr_offset C c)"
  shows "put_ok C (cdr_put_u16_le C w c) c 0 (bytes_of_u16_le w)"
    and "get_ok C (cdr_get_u16_le C c) c 0 2 (\<lambda>bs. u16_of_bytes_le (bs ! 0) (bs ! 1))"
proof -
  have m: "cdr_offset C c mod 2 = 0" using assms(2) by presburger
  have "\<forall>w c. put_ok C (cdr_put_u16_le C w c) c (cdr_offset C c mod 2) (bytes_of_u16_le w)"
    using assms(1) unfolding fastcdr_ok_def by (elim conjE)
  from this [rule_format, of w c] show "put_ok C (cdr_put_u16_le C w c) c 0 (bytes_of_u16_le w)"
    unfolding m .
  have "\<forall>c. get_ok C (cdr_get_u16_le C c) c (cdr_offset C c mod 2) 2 (\<lambda>bs. u16_of_bytes_le (bs ! 0) (bs ! 1))"
    using assms(1) unfolding fastcdr_ok_def by (elim conjE)
  from this [rule_format, of c]
  show "get_ok C (cdr_get_u16_le C c) c 0 2 (\<lambda>bs. u16_of_bytes_le (bs ! 0) (bs ! 1))"
    unfolding m .
qed

lemma cdr_at_open: "fastcdr_ok C \<Longrightarrow> cdr_at C (cdr_open C bs) [] bs"
  by (simp add: fastcdr_ok_def cdr_at_def)

lemma cdr_at_offset: "cdr_at C c pre rest \<Longrightarrow> cdr_offset C c = length pre"
  by (simp add: cdr_at_def cdr_is_def)

lemma cdr_at_buffer: "cdr_at C c pre rest \<Longrightarrow> cdr_buffer C c = pre @ rest"
  by (simp add: cdr_at_def cdr_is_def)

lemma write_at_cursor: "write_at (length pre) bs (pre @ rest) = (pre @ bs) @ drop (length bs) rest"
  by (simp add: write_at_def)

lemma read_at_cursor: "read_at (length pre) n (pre @ rest) = take n rest"
  by (simp add: read_at_def)

lemma put_ok_cursor:
  assumes "put_ok C res c 0 bs" and "cdr_at C c pre rest" and "length bs \<le> length rest"
  obtains c' where "res = (True, c')" and "cdr_at C c' (pre @ bs) (drop (length bs) rest)"
proof -
  have "fst res \<and> cdr_is C (snd res) (write_at (length pre) bs (pre @ rest)) (length pre + length bs)"
    using assms by (simp add: put_ok_def Let_def cdr_at_offset cdr_at_buffer)
  then show thesis
    using that [of "snd res"] by (cases res) (simp add: cdr_at_def write_at_cursor)
qed

lemma get_ok_cursor:
  assumes "get_ok C res c 0 n dec" and "cdr_at C c pre rest" and "n \<le> length rest"
  obtains c' where "res = (Some (dec (take n rest)), c')" and "cdr_at C c' (pre @ take n rest) (drop n rest)"
proof -
  have "fst res = Some (dec (take n rest)) \<and> cdr_is C (snd res) (pre @ rest) (length pre + n)"
    using assms by (simp add: get_ok_def Let_def cdr_at_offset cdr_at_buffer read_at_cursor)
  then show thesis
    using that [of "snd res"] assms(3) by (cases res) (simp add: cdr_at_def)
qed

lemma put_u8_cursor:
  assumes "fastcdr_ok C" and "cdr_at C c pre (x # rest)"
  obtains c' where "cdr_put_u8 C b c = (True, c')" and "cdr_at C c' (pre @ [b]) rest"
proof -
  have "put_ok C (cdr_put_u8 C b c) c 0 [b]" using assms(1) by (simp add: fastcdr_ok_def)
  from put_ok_cursor [OF this assms(2)] that show thesis by auto
qed

lemma put_array_cursor:
  assumes "fastcdr_ok C" and "cdr_at C c pre (old @ rest)" and "length old = length bs"
  obtains c' where "cdr_put_array C bs c = (True, c')" and "cdr_at C c' (pre @ bs) rest"
proof -
  have "put_ok C (cdr_put_array C bs c) c 0 bs" using assms(1) by (simp add: fastcdr_ok_def)
  from put_ok_cursor [OF this assms(2)] assms(3) that show thesis by auto
qed

lemma put_u16_cursor:
  assumes "fastcdr_ok C" and "cdr_at C c pre (x # y # rest)" and "even (length pre)"
  obtains c' where "cdr_put_u16_le C w c = (True, c')" and "cdr_at C c' (pre @ bytes_of_u16_le w) rest"
proof -
  have l: "length (bytes_of_u16_le w) = Suc (Suc 0)" by (simp add: bytes_of_u16_le_def)
  have "put_ok C (cdr_put_u16_le C w c) c 0 (bytes_of_u16_le w)"
    using assms by (intro fastcdr_u16) (simp_all add: cdr_at_offset)
  from put_ok_cursor [OF this assms(2)] that show thesis unfolding l by auto
qed

lemma get_u8_cursor:
  assumes "fastcdr_ok C" and "cdr_at C c pre (b # rest)"
  obtains c' where "cdr_get_u8 C c = (Some b, c')" and "cdr_at C c' (pre @ [b]) rest"
proof -
  have "get_ok C (cdr_get_u8 C c) c 0 1 hd" using assms(1) by (simp add: fastcdr_ok_def)
  from get_ok_cursor [OF this assms(2)] that show thesis by auto
qed

lemma get_array_cursor:
  assumes "fastcdr_ok C" and "cdr_at C c pre (bs @ rest)" and "n = length bs"
  obtains c' where "cdr_get_array C n c = (Some bs, c')" and "cdr_at C c' (pre @ bs) rest"
proof -
  have "get_ok C (cdr_get_array C n c) c 0 n id" using assms(1) by (simp add: fastcdr_ok_def)
  from get_ok_cursor [OF this assms(2)] assms(3) that show thesis by auto
qed

lemma bytes_u16_roundtrip [simp]: "u16_of_bytes_le (ucast w) (ucast (drop_bit 8 w)) = w"
  by (rule bit_word_eqI) (auto simp: u16_of_bytes_le_def bit_simps)

lemma get_u16_cursor:
  assumes "fastcdr_ok C" and "cdr_at C c pre (bytes_of_u16_le w @ rest)" and "even (length pre)"
  obtains c' where "cdr_get_u16_le C c = (Some w, c')" and "cdr_at C c' (pre @ bytes_of_u16_le w) rest"
proof -
  have tk: "take 2 (bytes_of_u16_le w @ rest) = bytes_of_u16_le w"
    "drop 2 (bytes_of_u16_le w @ rest) = rest" "2 \<le> length (bytes_of_u16_le w @ rest)"
    by (simp_all add: bytes_of_u16_le_def)
  have dec: "u16_of_bytes_le (bytes_of_u16_le w ! 0) (bytes_of_u16_le w ! 1) = w"
    by (simp add: bytes_of_u16_le_def)
  have "get_ok C (cdr_get_u16_le C c) c 0 2 (\<lambda>bs. u16_of_bytes_le (bs ! 0) (bs ! 1))"
    using assms by (intro fastcdr_u16) (simp_all add: cdr_at_offset)
  from get_ok_cursor [OF this assms(2) tk(3)] that show thesis unfolding tk dec by blast
qed

lemma jump_cursor:
  assumes "fastcdr_ok C" and "cdr_at C c pre rest" and "4 dvd length pre"
  shows "cdr_at C (cdr_jump C (pad4 (cdr_offset C c)) c) pre rest"
proof -
  have "pad4 (cdr_offset C c) = 0" using assms(2,3) by (simp add: pad4_def cdr_at_offset)
  moreover have "cdr_is C (cdr_jump C 0 c) (cdr_buffer C c) (cdr_offset C c + 0)"
    using assms(1) by (intro fastcdr_jump) (simp_all add: fastcdr_offset_le)
  ultimately show ?thesis using assms(2) by (simp add: cdr_at_def cdr_is_def)
qed

section \<open>Headers and messages as bytes\<close>

definition header_bytes :: "MessageHeader \<Rightarrow> u8 list" where
  "header_bytes h = [mh_session_id h, mh_stream_id h] @ bytes_of_u16_le (mh_sequence_nr h)
     @ (if 128 > mh_session_id h then key_bytes (mh_client_key h) else [])"

definition subheader_bytes :: "SubmessageHeader \<Rightarrow> u8 list" where
  "subheader_bytes h = [sh_submessage_id h, sh_flags h] @ bytes_of_u16_le (sh_submessage_length h)"

text \<open>A header as a client can read it back: without a key in the header, the key is zero.\<close>

definition wire_header :: "MessageHeader \<Rightarrow> MessageHeader" where
  "wire_header h = (if 128 > mh_session_id h then h else h\<lparr>mh_client_key := (0, 0, 0, 0)\<rparr>)"

lemma length_u16_bytes [simp]: "length (bytes_of_u16_le w) = 2"
  by (simp add: bytes_of_u16_le_def)

lemma length_key_bytes [simp]: "length (key_bytes k) = 4"
  by (cases k) (simp add: key_bytes_def)

lemma bytes_key_roundtrip [simp]: "bytes_key (key_bytes k) = k"
  by (cases k) (simp add: key_bytes_def bytes_key_def)

lemma length_subheader_bytes [simp]: "length (subheader_bytes h) = 4"
  by (simp add: subheader_bytes_def)

lemma length_header_bytes: "length (header_bytes h) = (if 128 > mh_session_id h then 8 else 4)"
  by (simp add: header_bytes_def)

lemma dvd_length_header_bytes [simp]: "4 dvd length (header_bytes h)"
  by (simp add: length_header_bytes)

lemma fastcdr_alignment:
  assumes "fastcdr_ok C"
  shows "cdr_alignment C p 1 = 0" and "cdr_alignment C p (Suc 0) = 0" and "cdr_alignment C p 2 = p mod 2"
  using assms unfolding fastcdr_ok_def One_nat_def by (elim conjE, blast)+

lemma mh_size: "fastcdr_ok C \<Longrightarrow> mh_getCdrSerializedSize C h 0 = length (header_bytes h)"
  by (simp add: mh_getCdrSerializedSize_def Let_def fastcdr_alignment length_header_bytes)

lemma sh_size: "fastcdr_ok C \<Longrightarrow> sh_getCdrSerializedSize C 0 = 4"
  by (simp add: sh_getCdrSerializedSize_def Let_def fastcdr_alignment)

lemma mh_serialize_cursor:
  assumes C: "fastcdr_ok C" and c: "cdr_at C c [] (old @ rest)" and len: "length old = length (header_bytes h)"
  obtains c' where "mh_serialize C h c = (True, c')" and "cdr_at C c' (header_bytes h) rest"
proof -
  obtain x0 x1 x2 x3 old' where old: "old = x0 # x1 # x2 # x3 # old'"
    and old': "length old' = (if 128 > mh_session_id h then 4 else 0)"
    using len unfolding length_header_bytes
    by (auto simp: numeral_eq_Suc length_Suc_conv split: if_splits)
  from c have "cdr_at C c [] (x0 # x1 # x2 # x3 # old' @ rest)" by (simp add: old)
  from put_u8_cursor [OF C this] obtain c1 where c1: "cdr_put_u8 C (mh_session_id h) c = (True, c1)"
    "cdr_at C c1 [mh_session_id h] (x1 # x2 # x3 # old' @ rest)" by auto
  from put_u8_cursor [OF C c1(2)] obtain c2 where c2: "cdr_put_u8 C (mh_stream_id h) c1 = (True, c2)"
    "cdr_at C c2 [mh_session_id h, mh_stream_id h] (x2 # x3 # old' @ rest)" by auto
  from put_u16_cursor [OF C c2(2)] obtain c3 where c3: "cdr_put_u16_le C (mh_sequence_nr h) c2 = (True, c3)"
    "cdr_at C c3 ([mh_session_id h, mh_stream_id h] @ bytes_of_u16_le (mh_sequence_nr h)) (old' @ rest)" by auto
  show thesis
  proof (cases "128 > mh_session_id h")
    case True
    obtain c4 where "cdr_put_array C (key_bytes (mh_client_key h)) c3 = (True, c4)"
      "cdr_at C c4 (header_bytes h) rest"
      using put_array_cursor [OF C c3(2), of "key_bytes (mh_client_key h)"] old' True
      by (auto simp: header_bytes_def)
    with True c1 c2 c3 that show thesis by (simp add: mh_serialize_def ser_then_def)
  next
    case False
    with c1 c2 c3 that old' show thesis
      by (simp add: mh_serialize_def ser_then_def header_bytes_def)
  qed
qed

lemma sh_serialize_cursor:
  assumes C: "fastcdr_ok C" and c: "cdr_at C c pre (old @ rest)" and "4 dvd length pre" and len: "length old = 4"
  obtains c' where "sh_serialize C h c = (True, c')" and "cdr_at C c' (pre @ subheader_bytes h) rest"
proof -
  obtain x0 x1 x2 x3 where old: "old = [x0, x1, x2, x3]"
    using len by (auto simp: numeral_eq_Suc length_Suc_conv)
  from c have "cdr_at C c pre (x0 # x1 # x2 # x3 # rest)" by (simp add: old)
  from put_u8_cursor [OF C this] obtain c1 where c1: "cdr_put_u8 C (sh_submessage_id h) c = (True, c1)"
    "cdr_at C c1 (pre @ [sh_submessage_id h]) (x1 # x2 # x3 # rest)" by auto
  from put_u8_cursor [OF C c1(2)] obtain c2 where c2: "cdr_put_u8 C (sh_flags h) c1 = (True, c2)"
    "cdr_at C c2 (pre @ [sh_submessage_id h, sh_flags h]) (x2 # x3 # rest)" by auto
  have "even (length (pre @ [sh_submessage_id h, sh_flags h]))" using assms(3) by auto
  from put_u16_cursor [OF C c2(2) this] obtain c3
    where c3: "cdr_put_u16_le C (sh_submessage_length h) c2 = (True, c3)"
      "cdr_at C c3 (pre @ subheader_bytes h) rest"
    by (auto simp: subheader_bytes_def)
  from c1 c2 c3 that show thesis by (simp add: sh_serialize_def ser_then_def)
qed

lemma mh_deserialize_cursor:
  assumes C: "fastcdr_ok C" and c: "cdr_at C c [] (header_bytes h @ rest)"
    and k: "mh_client_key h0 = (0, 0, 0, 0)"
  obtains c' where "mh_deserialize C h0 c = (wire_header h, True, c')" and "cdr_at C c' (header_bytes h) rest"
proof -
  from c have "cdr_at C c [] (mh_session_id h # mh_stream_id h # bytes_of_u16_le (mh_sequence_nr h)
      @ (if 128 > mh_session_id h then key_bytes (mh_client_key h) else []) @ rest)"
    by (simp add: header_bytes_def)
  from get_u8_cursor [OF C this] obtain c1 where c1: "cdr_get_u8 C c = (Some (mh_session_id h), c1)"
    "cdr_at C c1 [mh_session_id h] (mh_stream_id h # bytes_of_u16_le (mh_sequence_nr h)
      @ (if 128 > mh_session_id h then key_bytes (mh_client_key h) else []) @ rest)" by auto
  from get_u8_cursor [OF C c1(2)] obtain c2 where c2: "cdr_get_u8 C c1 = (Some (mh_stream_id h), c2)"
    "cdr_at C c2 [mh_session_id h, mh_stream_id h] (bytes_of_u16_le (mh_sequence_nr h)
      @ (if 128 > mh_session_id h then key_bytes (mh_client_key h) else []) @ rest)" by auto
  from get_u16_cursor [OF C c2(2)] obtain c3 where c3: "cdr_get_u16_le C c2 = (Some (mh_sequence_nr h), c3)"
    "cdr_at C c3 ([mh_session_id h, mh_stream_id h] @ bytes_of_u16_le (mh_sequence_nr h))
      ((if 128 > mh_session_id h then key_bytes (mh_client_key h) else []) @ rest)" by auto
  show thesis
  proof (cases "128 > mh_session_id h")
    case True
    with c3(2) have "cdr_at C c3 ([mh_session_id h, mh_stream_id h] @ bytes_of_u16_le (mh_sequence_nr h))
      (key_bytes (mh_client_key h) @ rest)" by simp
    from get_array_cursor [OF C this] obtain c4
      where "cdr_get_array C 4 c3 = (Some (key_bytes (mh_client_key h)), c4)" "cdr_at C c4 (header_bytes h) rest"
      using True by (auto simp: header_bytes_def)
    with True c1 c2 c3 that show thesis by (simp add: mh_deserialize_def wire_header_def)
  next
    case False
    with c1 c2 c3 that k show thesis
      by (simp add: mh_deserialize_def wire_header_def header_bytes_def)
  qed
qed

lemma sh_deserialize_cursor:
  assumes C: "fastcdr_ok C" and c: "cdr_at C c pre (subheader_bytes h @ rest)" and "4 dvd length pre"
  obtains c' where "sh_deserialize C h0 c = (h, True, c')" and "cdr_at C c' (pre @ subheader_bytes h) rest"
proof -
  from c have "cdr_at C c pre (sh_submessage_id h # sh_flags h # bytes_of_u16_le (sh_submessage_length h) @ rest)"
    by (simp add: subheader_bytes_def)
  from get_u8_cursor [OF C this] obtain c1 where c1: "cdr_get_u8 C c = (Some (sh_submessage_id h), c1)"
    "cdr_at C c1 (pre @ [sh_submessage_id h]) (sh_flags h # bytes_of_u16_le (sh_submessage_length h) @ rest)" by auto
  from get_u8_cursor [OF C c1(2)] obtain c2 where c2: "cdr_get_u8 C c1 = (Some (sh_flags h), c2)"
    "cdr_at C c2 (pre @ [sh_submessage_id h, sh_flags h]) (bytes_of_u16_le (sh_submessage_length h) @ rest)" by auto
  have "even (length (pre @ [sh_submessage_id h, sh_flags h]))" using assms(3) by auto
  from get_u16_cursor [OF C c2(2) this] obtain c3
    where c3: "cdr_get_u16_le C c2 = (Some (sh_submessage_length h), c3)"
      "cdr_at C c3 (pre @ subheader_bytes h) rest"
    by (auto simp: subheader_bytes_def)
  from c1 c2 c3 that show thesis by (simp add: sh_deserialize_def)
qed

lemma im_new_cursor:
  assumes "fastcdr_ok C"
  obtains c where "InputMessage_new C (header_bytes h @ rest) =
      \<lparr>im_buf = header_bytes h @ rest, im_header = wire_header h, im_subheader = SubmessageHeader_init,
       im_deserializer = c\<rparr>"
    and "cdr_at C c (header_bytes h) rest"
proof -
  have "mh_client_key MessageHeader_init = (0, 0, 0, 0)" by (simp add: MessageHeader_init_def)
  from mh_deserialize_cursor [OF assms cdr_at_open [OF assms] this]
  obtain c' where "mh_deserialize C MessageHeader_init (cdr_open C (header_bytes h @ rest)) = (wire_header h, True, c')"
    "cdr_at C c' (header_bytes h) rest" .
  with that show thesis by (simp add: InputMessage_new_def)
qed

lemma prepare_cursor:
  assumes "fastcdr_ok C" and "cdr_at C (im_deserializer m) pre (subheader_bytes sh @ rest)" and "4 dvd length pre"
    and "im_buf m = pre @ subheader_bytes sh @ rest"
  obtains c where "prepare_next_submessage C m = (True, m\<lparr>im_subheader := sh, im_deserializer := c\<rparr>)"
    and "cdr_at C c (pre @ subheader_bytes sh) rest"
proof -
  let ?c = "cdr_jump C (pad4 (cdr_offset C (im_deserializer m))) (im_deserializer m)"
  have c: "cdr_at C ?c pre (subheader_bytes sh @ rest)" by (rule jump_cursor) fact+
  from sh_deserialize_cursor [OF assms(1) c assms(3)] obtain c'
    where "sh_deserialize C (im_subheader m) ?c = (sh, True, c')" "cdr_at C c' (pre @ subheader_bytes sh) rest" .
  moreover have "length (im_buf m) > cdr_offset C ?c" using assms(4) by (simp add: cdr_at_offset [OF c])
  ultimately show thesis using that by (simp add: prepare_next_submessage_def Let_def)
qed

lemma get_raw_payload_cursor:
  assumes "fastcdr_ok C" and "cdr_at C (im_deserializer m) pre (bs @ rest)"
    and "unat (sh_submessage_length (im_subheader m)) = length bs" and "length bs = len"
  obtains c where "get_raw_payload C len m = (bs, True, m\<lparr>im_deserializer := c\<rparr>)" and "cdr_at C c (pre @ bs) rest"
proof -
  from get_array_cursor [OF assms(1,2) refl] obtain c
    where "cdr_get_array C (length bs) (im_deserializer m) = (Some bs, c)" "cdr_at C c (pre @ bs) rest" .
  with assms(3,4) that show thesis by (simp add: get_raw_payload_def Let_def)
qed

lemma om_new_cursor:
  assumes "fastcdr_ok C" and "len = length (header_bytes h) + n"
  shows "cdr_at C (om_serializer (OutputMessage_new C h len)) (header_bytes h) (replicate n 0)"
proof -
  have "cdr_at C (cdr_open C (replicate len 0)) [] (replicate (length (header_bytes h)) 0 @ replicate n 0)"
    using cdr_at_open [OF assms(1), of "replicate len 0"] by (simp add: assms(2) replicate_add)
  from mh_serialize_cursor [OF assms(1) this] obtain c'
    where "mh_serialize C h (cdr_open C (replicate len 0)) = (True, c')"
      "cdr_at C c' (header_bytes h) (replicate n 0)" by (metis length_replicate)
  then show ?thesis by (simp add: OutputMessage_new_def)
qed

lemma om_bytes_cursor: "cdr_at C (om_serializer m) pre rest \<Longrightarrow> om_bytes C m = pre"
  by (simp add: om_bytes_def om_get_len_def cdr_at_offset cdr_at_buffer)

lemma om_align4_cursor:
  "fastcdr_ok C \<Longrightarrow> cdr_at C (om_serializer m) pre rest \<Longrightarrow> 4 dvd length pre \<Longrightarrow>
    cdr_at C (om_serializer (om_align4 C m)) pre rest"
  by (simp add: om_align4_def jump_cursor)

lemma append_fragment_cursor:
  assumes C: "fastcdr_ok C" and m: "cdr_at C (om_serializer m) pre (old @ rest)" and pre: "4 dvd length pre"
    and old: "length old = 4 + length bs"
  obtains m' where "append_fragment C sh bs m = (True, m')"
    and "cdr_at C (om_serializer m') (pre @ subheader_bytes sh @ bs) rest"
proof -
  have "cdr_at C (om_serializer (om_align4 C m)) pre (take 4 old @ drop 4 old @ rest)"
    using om_align4_cursor [OF C m pre] by (metis append.assoc append_take_drop_id)
  from sh_serialize_cursor [OF C this pre] obtain c1
    where c1: "sh_serialize C sh (om_serializer (om_align4 C m)) = (True, c1)"
      "cdr_at C c1 (pre @ subheader_bytes sh) (drop 4 old @ rest)" using old by auto
  have "length (drop 4 old) = length bs" using old by simp
  from put_array_cursor [OF C c1(2) this] obtain c2 where "cdr_put_array C bs c1 = (True, c2)"
    "cdr_at C c2 ((pre @ subheader_bytes sh) @ bs) rest" .
  with c1 that [of "(om_align4 C m)\<lparr>om_serializer := c2\<rparr>"] show thesis
    by (simp add: append_fragment_def om_serialize_def)
qed

text \<open>A payload whose serialization writes exactly \<open>bs\<close>, the size it announces.\<close>

definition payload_writes :: "('c, 'x) fastcdr_scheme \<Rightarrow> 'c payload \<Rightarrow> u8 list \<Rightarrow> bool" where
  "payload_writes C p bs \<longleftrightarrow> pl_size p = length bs \<and>
     (\<forall>c pre old rest. cdr_at C c pre (old @ rest) \<and> 4 dvd length pre \<and> length old = length bs \<longrightarrow>
        fst (pl_serialize p c) \<and> cdr_at C (snd (pl_serialize p c)) (pre @ bs) rest)"

lemma append_submessage_cursor:
  assumes C: "fastcdr_ok C" and m: "cdr_at C (om_serializer m) pre (old @ rest)" and pre: "4 dvd length pre"
    and p: "payload_writes C p bs" and old: "length old = 4 + length bs"
    and sh: "sh = \<lparr>sh_submessage_id = sid, sh_flags = fl, sh_submessage_length = of_nat (length bs)\<rparr>"
  obtains m' where "append_submessage C sid p fl m = (True, m')"
    and "cdr_at C (om_serializer m') (pre @ subheader_bytes sh @ bs) rest"
proof -
  have size: "pl_size p = length bs" using p by (simp add: payload_writes_def)
  have "cdr_at C (om_serializer (om_align4 C m)) pre (take 4 old @ drop 4 old @ rest)"
    using om_align4_cursor [OF C m pre] by (metis append.assoc append_take_drop_id)
  from sh_serialize_cursor [OF C this pre, of sh] obtain c1
    where c1: "sh_serialize C sh (om_serializer (om_align4 C m)) = (True, c1)"
      "cdr_at C c1 (pre @ subheader_bytes sh) (drop 4 old @ rest)" using old by auto
  have "4 dvd length (pre @ subheader_bytes sh)" "length (drop 4 old) = length bs" using pre old by auto
  with p c1(2) have "fst (pl_serialize p c1)"
    "cdr_at C (snd (pl_serialize p c1)) ((pre @ subheader_bytes sh) @ bs) rest"
    unfolding payload_writes_def by blast+
  with c1(1) size that [of "(om_align4 C m)\<lparr>om_serializer := snd (pl_serialize p c1)\<rparr>"] show thesis
    by (cases "pl_serialize p c1") (simp add: append_submessage_def append_subheader_def om_serialize_def sh)
qed

section \<open>A concrete serializer\<close>

text \<open>
  A buffer with a read and write position meets the documented behaviour: the hypothesis of the
  theorems about bytes can hold, and the witnesses run on this instance.
\<close>

definition byte_put :: "nat \<Rightarrow> u8 list \<Rightarrow> u8 list \<times> nat \<Rightarrow> bool \<times> (u8 list \<times> nat)" where
  "byte_put pad bs c =
     (let p = snd c + pad in
      if p + length bs \<le> length (fst c) then (True, write_at p bs (fst c), p + length bs) else (False, c))"

definition byte_get :: "nat \<Rightarrow> nat \<Rightarrow> (u8 list \<Rightarrow> 'v) \<Rightarrow> u8 list \<times> nat \<Rightarrow> 'v option \<times> (u8 list \<times> nat)" where
  "byte_get pad n dec c =
     (let p = snd c + pad in
      if p + n \<le> length (fst c) then (Some (dec (read_at p n (fst c))), fst c, p + n) else (None, c))"

text \<open>Only positions inside the buffer exist, so the position is cut at its length.\<close>

definition byte_pos :: "u8 list \<times> nat \<Rightarrow> u8 list \<times> nat" where
  "byte_pos c = (fst c, min (snd c) (length (fst c)))"

definition byte_cdr :: "(u8 list \<times> nat) fastcdr" where
  "byte_cdr = \<lparr>
     cdr_open = (\<lambda>bs. (bs, 0)),
     cdr_buffer = fst,
     cdr_offset = (\<lambda>c. snd (byte_pos c)),
     cdr_alignment = (\<lambda>p n. (n - p mod n) mod n),
     cdr_jump = (\<lambda>n c. if snd (byte_pos c) + n \<le> length (fst c) then (fst c, snd (byte_pos c) + n) else c),
     cdr_put_u8 = (\<lambda>b c. let r = byte_put 0 [b] (byte_pos c) in if fst r then r else (False, c)),
     cdr_put_u16_le = (\<lambda>w c. let r = byte_put (snd (byte_pos c) mod 2) (bytes_of_u16_le w) (byte_pos c)
        in if fst r then r else (False, c)),
     cdr_put_array = (\<lambda>bs c. let r = byte_put 0 bs (byte_pos c) in if fst r then r else (False, c)),
     cdr_get_u8 = (\<lambda>c. let r = byte_get 0 1 hd (byte_pos c) in if fst r \<noteq> None then r else (None, c)),
     cdr_get_u16_le = (\<lambda>c. let r = byte_get (snd (byte_pos c) mod 2) 2
          (\<lambda>bs. u16_of_bytes_le (bs ! 0) (bs ! 1)) (byte_pos c)
        in if fst r \<noteq> None then r else (None, c)),
     cdr_get_array = (\<lambda>n c. let r = byte_get 0 n id (byte_pos c) in if fst r \<noteq> None then r else (None, c))\<rparr>"

lemma length_write_at [simp]: "p + length bs \<le> length buf \<Longrightarrow> length (write_at p bs buf) = length buf"
  by (simp add: write_at_def)

lemma byte_pos_simps: "snd (byte_pos c) \<le> length (fst c)" "fst (byte_pos c) = fst c"
  by (simp_all add: byte_pos_def)

lemma byte_cdr_is:
  assumes "cdr_buffer C = fst" and "cdr_offset C = (\<lambda>c. snd (byte_pos c))" and "p \<le> length buf"
  shows "cdr_is C (buf, p) buf p"
  using assms by (simp add: cdr_is_def byte_pos_def)

lemma byte_put_ok:
  assumes C: "cdr_buffer C = fst" "cdr_offset C = (\<lambda>c. snd (byte_pos c))"
  shows "put_ok C (let r = byte_put pad bs (byte_pos c) in if fst r then r else (False, c)) c pad bs"
proof (cases "snd (byte_pos c) + pad + length bs \<le> length (fst c)")
  case True
  then show ?thesis
    using byte_cdr_is [OF C, of "snd (byte_pos c) + pad + length bs" "write_at (snd (byte_pos c) + pad) bs (fst c)"]
    by (simp add: put_ok_def byte_put_def Let_def byte_pos_simps(2) C)
next
  case False
  then show ?thesis by (simp add: put_ok_def byte_put_def Let_def byte_pos_simps(2) C)
qed

lemma byte_get_ok:
  assumes C: "cdr_buffer C = fst" "cdr_offset C = (\<lambda>c. snd (byte_pos c))"
  shows "get_ok C (let r = byte_get pad n dec (byte_pos c) in if fst r \<noteq> None then r else (None, c)) c pad n dec"
proof (cases "snd (byte_pos c) + pad + n \<le> length (fst c)")
  case True
  then show ?thesis
    using byte_cdr_is [OF C, of "snd (byte_pos c) + pad + n" "fst c"]
    by (simp add: get_ok_def byte_get_def Let_def byte_pos_simps(2) C)
next
  case False
  then show ?thesis by (simp add: get_ok_def byte_get_def Let_def byte_pos_simps(2) C)
qed

lemma byte_cdr_sel:
  "cdr_buffer byte_cdr = fst" "cdr_offset byte_cdr = (\<lambda>c. snd (byte_pos c))"
  "cdr_open byte_cdr bs = (bs, 0)" "cdr_alignment byte_cdr p n = (n - p mod n) mod n"
  "cdr_jump byte_cdr n c = (if snd (byte_pos c) + n \<le> length (fst c) then (fst c, snd (byte_pos c) + n) else c)"
  "cdr_put_u8 byte_cdr b c = (let r = byte_put 0 [b] (byte_pos c) in if fst r then r else (False, c))"
  "cdr_put_u16_le byte_cdr w c = (let r = byte_put (snd (byte_pos c) mod 2) (bytes_of_u16_le w) (byte_pos c)
        in if fst r then r else (False, c))"
  "cdr_put_array byte_cdr bs c = (let r = byte_put 0 bs (byte_pos c) in if fst r then r else (False, c))"
  "cdr_get_u8 byte_cdr c = (let r = byte_get 0 1 hd (byte_pos c) in if fst r \<noteq> None then r else (None, c))"
  "cdr_get_u16_le byte_cdr c = (let r = byte_get (snd (byte_pos c) mod 2) 2
          (\<lambda>bs. u16_of_bytes_le (bs ! 0) (bs ! 1)) (byte_pos c)
        in if fst r \<noteq> None then r else (None, c))"
  "cdr_get_array byte_cdr k c = (let r = byte_get 0 k id (byte_pos c) in if fst r \<noteq> None then r else (None, c))"
  unfolding byte_cdr_def fastcdr.select_convs by (rule refl)+

lemma byte_cdr_laws:
  "cdr_is byte_cdr (cdr_open byte_cdr bs) bs 0"
  "cdr_offset byte_cdr c \<le> length (cdr_buffer byte_cdr c)"
  "cdr_alignment byte_cdr p 1 = 0 \<and> cdr_alignment byte_cdr p 2 = p mod 2"
  "if cdr_offset byte_cdr c + n \<le> length (cdr_buffer byte_cdr c)
     then cdr_is byte_cdr (cdr_jump byte_cdr n c) (cdr_buffer byte_cdr c) (cdr_offset byte_cdr c + n)
     else cdr_jump byte_cdr n c = c"
proof -
  note b = byte_cdr_sel(1,2)
  have al: "(2 - p mod 2) mod 2 = p mod 2" for p :: nat by (cases "even p") (simp_all add: odd_iff_mod_2_eq_one)
  show "cdr_is byte_cdr (cdr_open byte_cdr bs) bs 0"
    unfolding byte_cdr_sel(3) by (rule byte_cdr_is [OF b]) simp
  show "cdr_offset byte_cdr c \<le> length (cdr_buffer byte_cdr c)"
    unfolding b by (rule byte_pos_simps)
  show "cdr_alignment byte_cdr p 1 = 0 \<and> cdr_alignment byte_cdr p 2 = p mod 2"
    unfolding byte_cdr_sel(4) al by simp
  show "if cdr_offset byte_cdr c + n \<le> length (cdr_buffer byte_cdr c)
     then cdr_is byte_cdr (cdr_jump byte_cdr n c) (cdr_buffer byte_cdr c) (cdr_offset byte_cdr c + n)
     else cdr_jump byte_cdr n c = c"
    unfolding byte_cdr_sel(1,2,5) using byte_cdr_is [OF b, of "snd (byte_pos c) + n" "fst c"] by simp
qed

lemma byte_cdr_put_laws:
  "put_ok byte_cdr (cdr_put_u8 byte_cdr w c) c 0 [w]"
  "put_ok byte_cdr (cdr_put_u16_le byte_cdr w2 c) c (cdr_offset byte_cdr c mod 2) (bytes_of_u16_le w2)"
  "put_ok byte_cdr (cdr_put_array byte_cdr bs c) c 0 bs"
  unfolding byte_cdr_sel(2,6,7,8) by (rule byte_put_ok [OF byte_cdr_sel(1,2)])+

lemma byte_cdr_get_laws:
  "get_ok byte_cdr (cdr_get_u8 byte_cdr c) c 0 1 hd"
  "get_ok byte_cdr (cdr_get_u16_le byte_cdr c) c (cdr_offset byte_cdr c mod 2) 2 (\<lambda>bs. u16_of_bytes_le (bs ! 0) (bs ! 1))"
  "get_ok byte_cdr (cdr_get_array byte_cdr n c) c 0 n id"
  unfolding byte_cdr_sel(2,9,10,11) by (rule byte_get_ok [OF byte_cdr_sel(1,2)])+

lemma byte_cdr_ok: "fastcdr_ok byte_cdr"
  unfolding fastcdr_ok_def
  by (intro conjI allI byte_cdr_laws byte_cdr_put_laws byte_cdr_get_laws byte_cdr_laws(3) [THEN conjunct1]
      byte_cdr_laws(3) [THEN conjunct2])

section \<open>From the writer to the reader\<close>

text \<open>C6. A fragment survives the wire: for every header, flags and up to 65535 bytes, the message
  that \<open>append_fragment\<close> builds in a buffer of exactly header + subheader + payload fills it, and an
  \<open>InputMessage\<close> over those bytes reads back the same header, subheader and payload.\<close>

theorem fragment_wire_roundtrip:
  assumes "fastcdr_ok C" and "length bs < 65536"
    and "sh = \<lparr>sh_submessage_id = FRAGMENT, sh_flags = fl, sh_submessage_length = of_nat (length bs)\<rparr>"
    and "len = mh_getCdrSerializedSize C h 0 + sh_getCdrSerializedSize C 0 + length bs"
    and "append_fragment C sh bs (OutputMessage_new C h len) = (ok, m)"
    and "i = InputMessage_new C (om_bytes C m)"
    and "prepare_next_submessage C i = (ok2, i2)"
    and "get_raw_payload C (length bs) i2 = (data, ok3, i3)"
  shows "ok \<and> ok2 \<and> ok3 \<and> om_get_len C m = len \<and> im_header i = wire_header h \<and> im_subheader i2 = sh
    \<and> data = bs \<and> get_raw_header i2 = Some (header_bytes h)"
proof -
  have len: "len = length (header_bytes h) + (4 + length bs)"
    using assms(4) by (simp add: mh_size [OF assms(1)] sh_size [OF assms(1)])
  from om_new_cursor [OF assms(1) len]
  have "cdr_at C (om_serializer (OutputMessage_new C h len)) (header_bytes h) (replicate (4 + length bs) 0 @ [])"
    by simp
  from append_fragment_cursor [OF assms(1) this dvd_length_header_bytes length_replicate, of sh] assms(5)
  have ok: "ok" and m: "cdr_at C (om_serializer m) (header_bytes h @ subheader_bytes sh @ bs) []" by auto
  have bytes: "om_bytes C m = header_bytes h @ subheader_bytes sh @ bs" by (rule om_bytes_cursor [OF m])
  obtain c where i: "i = \<lparr>im_buf = header_bytes h @ subheader_bytes sh @ bs, im_header = wire_header h,
      im_subheader = SubmessageHeader_init, im_deserializer = c\<rparr>"
    and c: "cdr_at C c (header_bytes h) (subheader_bytes sh @ bs)"
    using im_new_cursor [OF assms(1), of h "subheader_bytes sh @ bs"] assms(6) bytes by metis
  from c have "cdr_at C (im_deserializer i) (header_bytes h) (subheader_bytes sh @ bs)" by (simp add: i)
  from prepare_cursor [OF assms(1) this dvd_length_header_bytes] assms(7)
  obtain c2 where i2: "ok2" "i2 = i\<lparr>im_subheader := sh, im_deserializer := c2\<rparr>"
    and c2: "cdr_at C c2 (header_bytes h @ subheader_bytes sh) bs" by (auto simp: i)
  from c2 have "cdr_at C (im_deserializer i2) (header_bytes h @ subheader_bytes sh) (bs @ [])" by (simp add: i2)
  moreover have "unat (sh_submessage_length (im_subheader i2)) = length bs"
    using assms(2) by (simp add: i2 assms(3) unat_of_nat_less)
  ultimately have "data = bs \<and> ok3" using get_raw_payload_cursor [OF assms(1) _ _ refl] assms(8) by fastforce
  moreover have "get_raw_header i2 = Some (header_bytes h)"
    by (simp add: i2 i get_raw_header_def wire_header_def length_header_bytes)
  ultimately show ?thesis using ok i i2 len cdr_at_offset [OF m] by (simp add: om_get_len_def)
qed

definition demo_header :: MessageHeader where
  "demo_header = \<lparr>mh_session_id = 0x01, mh_stream_id = 0x80, mh_sequence_nr = 0x0102, mh_client_key = (0xAA, 0xBB, 0xCC, 0xDD)\<rparr>"

definition demo_subheader :: SubmessageHeader where
  "demo_subheader = \<lparr>sh_submessage_id = FRAGMENT, sh_flags = FLAG_LAST_FRAGMENT, sh_submessage_length = of_nat (length ([7, 8, 9] :: u8 list))\<rparr>"

theorem fragment_wire_roundtrip_witness:
  "let m = snd (append_fragment byte_cdr demo_subheader [7, 8, 9] (OutputMessage_new byte_cdr demo_header
          (mh_getCdrSerializedSize byte_cdr demo_header 0 + sh_getCdrSerializedSize byte_cdr 0 + length ([7, 8, 9] :: u8 list))));
       i = snd (prepare_next_submessage byte_cdr (InputMessage_new byte_cdr (om_bytes byte_cdr m)))
   in fst (get_raw_payload byte_cdr (length ([7, 8, 9] :: u8 list)) i) = [7, 8, 9] \<and> im_subheader i = demo_subheader"
proof -
  let ?r = "append_fragment byte_cdr demo_subheader [7, 8, 9] (OutputMessage_new byte_cdr demo_header
          (mh_getCdrSerializedSize byte_cdr demo_header 0 + sh_getCdrSerializedSize byte_cdr 0 + length ([7, 8, 9] :: u8 list)))"
  let ?p = "prepare_next_submessage byte_cdr (InputMessage_new byte_cdr (om_bytes byte_cdr (snd ?r)))"
  let ?g = "get_raw_payload byte_cdr (length ([7, 8, 9] :: u8 list)) (snd ?p)"
  have "?g = (fst ?g, fst (snd ?g), snd (snd ?g))" by simp
  from fragment_wire_roundtrip [OF byte_cdr_ok _ demo_subheader_def refl prod.collapse [symmetric] refl
      prod.collapse [symmetric] this]
  show ?thesis unfolding Let_def by simp
qed

end
