(* ===== verification/Queues.thy ===== *)
theory Queues
  imports Prelude
begin

text \<open>
  The contract the message queues of the agent share (\<open>NoneInputStream\<close>, \<open>BestEffortInputStream\<close>,
  \<open>NoneOutputStream\<close>, \<open>BestEffortOutputStream\<close>): a bounded \<open>std::queue\<close> behind a mutex, with a push
  that may refuse and a pop that may find nothing. The locale states it once; what clients rely on
  over whole histories (first in, first out; never above the depth) is proved from it.
\<close>

datatype 'i queue_op = Push 'i | Pop

text \<open>
  A history of calls: the messages that went in, the messages that came out, the final state.
  \<open>accepts\<close> says whether a push enqueues, \<open>msg\<close> what it enqueues.
\<close>

fun queue_run ::
  "('i \<Rightarrow> 's \<Rightarrow> bool) \<Rightarrow> ('i \<Rightarrow> 's \<Rightarrow> 'm) \<Rightarrow> ('i \<Rightarrow> 's \<Rightarrow> bool \<times> 's) \<Rightarrow> ('s \<Rightarrow> 'm option \<times> 's) \<Rightarrow>
   'i queue_op list \<Rightarrow> 's \<Rightarrow> 'm list \<times> 'm list \<times> 's" where
  "queue_run accepts msg push pop [] s = ([], [], s)"
| "queue_run accepts msg push pop (Push i # ops) s =
     (let (ins, outs, s') = queue_run accepts msg push pop ops (snd (push i s))
      in (if accepts i s then msg i s # ins else ins, outs, s'))"
| "queue_run accepts msg push pop (Pop # ops) s =
     (let (r, s1) = pop s;
          (ins, outs, s') = queue_run accepts msg push pop ops s1
      in (ins, (case r of Some m \<Rightarrow> m # outs | None \<Rightarrow> outs), s'))"

locale bounded_fifo =
  fixes accepts :: "'i \<Rightarrow> 's \<Rightarrow> bool"
    and msg :: "'i \<Rightarrow> 's \<Rightarrow> 'm"
    and push :: "'i \<Rightarrow> 's \<Rightarrow> bool \<times> 's"
    and pop :: "'s \<Rightarrow> 'm option \<times> 's"
    and contents :: "'s \<Rightarrow> 'm list"
    and depth :: nat
  assumes push_contents: "contents (snd (push i s)) = contents s @ (if accepts i s then [msg i s] else [])"
    and accepts_room: "accepts i s \<Longrightarrow> length (contents s) < depth"
    and pop_empty: "contents s = [] \<Longrightarrow> pop s = (None, s)"
    and pop_front: "contents s = m # ms \<Longrightarrow> fst (pop s) = Some m \<and> contents (snd (pop s)) = ms"
begin

abbreviation "run \<equiv> queue_run accepts msg push pop"

lemma fifo: "run ops s = (ins, outs, s') \<Longrightarrow> outs @ contents s' = contents s @ ins"
proof (induction ops arbitrary: s ins outs s')
  case Nil
  then show ?case by simp
next
  case (Cons op ops)
  show ?case
  proof (cases op)
    case (Push i)
    with Cons.prems Cons.IH [of "snd (push i s)"] show ?thesis
      by (auto simp: push_contents Let_def split: prod.splits if_splits)
  next
    case Pop
    show ?thesis
    proof (cases "contents s")
      case Nil
      with Pop Cons.prems Cons.IH [of s] show ?thesis
        by (auto simp: pop_empty split: prod.splits)
    next
      case (Cons m ms)
      obtain s1 where "pop s = (Some m, s1)" "contents s1 = ms"
        using pop_front [OF Cons] by (cases "pop s") auto
      with Pop Cons.prems Cons.IH [of s1] Cons show ?thesis by (auto split: prod.splits)
    qed
  qed
qed

lemma room: "run ops s = (ins, outs, s') \<Longrightarrow> length (contents s) \<le> depth \<Longrightarrow> length (contents s') \<le> depth"
proof (induction ops arbitrary: s ins outs s')
  case Nil
  then show ?case by simp
next
  case (Cons op ops)
  show ?case
  proof (cases op)
    case (Push i)
    have "length (contents (snd (push i s))) \<le> depth"
      using Cons.prems(2) accepts_room [of i s] by (auto simp: push_contents)
    with Push Cons.prems(1) Cons.IH [of "snd (push i s)"] show ?thesis
      by (auto simp: Let_def split: prod.splits)
  next
    case Pop
    have "length (contents (snd (pop s))) \<le> depth"
      using Cons.prems(2) pop_empty [of s] pop_front [of s] by (cases "contents s") auto
    with Pop Cons.prems(1) Cons.IH [of "snd (pop s)"] show ?thesis
      by (auto split: prod.splits)
  qed
qed

lemma fifo_empty: "run ops s = (ins, outs, s') \<Longrightarrow> contents s = [] \<Longrightarrow> outs = take (length outs) ins"
  using fifo [of ops s ins outs s'] by (metis append_eq_conv_conj append_Nil)

end

end
