(* ===== verification/InputStream.thy ===== *)
theory InputStream
  imports SeqNum Messages Queues
begin

text \<open>
  The input streams of a session, \<open>include/uxr/agent/client/session/stream/InputStream.hpp\<close>. Every
  method runs under the mutex of its stream, so a method is one atomic function from the state to its
  result and the new state. The stream types are polymorphic in the message where the code only moves
  it; the fragment operations work on \<open>InputMessage\<close>. Moving out of a \<open>unique_ptr\<close> is handing over
  the value. The depths are the values of \<open>CMakeLists.txt\<close>.
\<close>

definition RELIABLE_STREAM_DEPTH :: u16 where "RELIABLE_STREAM_DEPTH = 16"
definition BEST_EFFORT_STREAM_DEPTH :: u16 where "BEST_EFFORT_STREAM_DEPTH = 16"

lemma stream_depths [simp]: "unat RELIABLE_STREAM_DEPTH = 16" "unat BEST_EFFORT_STREAM_DEPTH = 16"
  by (simp_all add: RELIABLE_STREAM_DEPTH_def BEST_EFFORT_STREAM_DEPTH_def)

section \<open>NoneInputStream\<close>

record 'm NoneInputStream =
  nis_messages :: "'m list"

definition NoneInputStream_init :: "'m NoneInputStream" where
  "NoneInputStream_init = \<lparr>nis_messages = []\<rparr>"

definition nis_push_message :: "'m \<Rightarrow> 'm NoneInputStream \<Rightarrow> bool \<times> 'm NoneInputStream" where
  "nis_push_message input_message s =
     (if length (nis_messages s) < unat BEST_EFFORT_STREAM_DEPTH
      then (True, s\<lparr>nis_messages := nis_messages s @ [input_message]\<rparr>)
      else (False, s))"

definition nis_emplace_message :: "('c, 'x) fastcdr_scheme \<Rightarrow> u8 list \<Rightarrow>
    'c InputMessage NoneInputStream \<Rightarrow> bool \<times> 'c InputMessage NoneInputStream" where
  "nis_emplace_message C buf s =
     (if length (nis_messages s) < unat BEST_EFFORT_STREAM_DEPTH
      then (True, s\<lparr>nis_messages := nis_messages s @ [InputMessage_new C buf]\<rparr>)
      else (False, s))"

definition nis_pop_message :: "'m NoneInputStream \<Rightarrow> 'm option \<times> 'm NoneInputStream" where
  "nis_pop_message s =
     (case nis_messages s of
        [] \<Rightarrow> (None, s)
      | m # ms \<Rightarrow> (Some m, s\<lparr>nis_messages := ms\<rparr>))"

definition nis_reset :: "'m NoneInputStream \<Rightarrow> 'm NoneInputStream" where
  "nis_reset s = s\<lparr>nis_messages := []\<rparr>"

interpretation nis: bounded_fifo
  "\<lambda>_ s. length (nis_messages s) < unat BEST_EFFORT_STREAM_DEPTH" "\<lambda>m _. m"
  nis_push_message nis_pop_message nis_messages 16
  by unfold_locales (auto simp: nis_push_message_def nis_pop_message_def)

section \<open>BestEffortInputStream\<close>

record 'm BestEffortInputStream =
  bis_messages :: "'m list"
  bis_last_received :: SeqNum

definition BestEffortInputStream_init :: "'m BestEffortInputStream" where
  "BestEffortInputStream_init = \<lparr>bis_messages = [], bis_last_received = 65535\<rparr>"

definition bis_push_message :: "SeqNum \<Rightarrow> 'm \<Rightarrow> 'm BestEffortInputStream \<Rightarrow> bool \<times> 'm BestEffortInputStream" where
  "bis_push_message seq_num input_message s =
     (if seq_gt seq_num (bis_last_received s) \<and> length (bis_messages s) < unat BEST_EFFORT_STREAM_DEPTH
      then (True, s\<lparr>bis_messages := bis_messages s @ [input_message], bis_last_received := seq_num\<rparr>)
      else (False, s))"

definition bis_emplace_message :: "('c, 'x) fastcdr_scheme \<Rightarrow> SeqNum \<Rightarrow> u8 list \<Rightarrow>
    'c InputMessage BestEffortInputStream \<Rightarrow> bool \<times> 'c InputMessage BestEffortInputStream" where
  "bis_emplace_message C seq_num buf s =
     (if seq_gt seq_num (bis_last_received s) \<and> length (bis_messages s) < unat BEST_EFFORT_STREAM_DEPTH
      then (True, s\<lparr>bis_messages := bis_messages s @ [InputMessage_new C buf], bis_last_received := seq_num\<rparr>)
      else (False, s))"

definition bis_pop_message :: "'m BestEffortInputStream \<Rightarrow> 'm option \<times> 'm BestEffortInputStream" where
  "bis_pop_message s =
     (case bis_messages s of
        [] \<Rightarrow> (None, s)
      | m # ms \<Rightarrow> (Some m, s\<lparr>bis_messages := ms\<rparr>))"

definition bis_reset :: "'m BestEffortInputStream \<Rightarrow> 'm BestEffortInputStream" where
  "bis_reset s = s\<lparr>bis_messages := [], bis_last_received := 65535\<rparr>"

definition bis_accepts :: "SeqNum \<times> 'm \<Rightarrow> 'm BestEffortInputStream \<Rightarrow> bool" where
  "bis_accepts i s \<longleftrightarrow> seq_gt (fst i) (bis_last_received s) \<and> length (bis_messages s) < unat BEST_EFFORT_STREAM_DEPTH"

interpretation bis: bounded_fifo
  bis_accepts "\<lambda>i _. snd i" "\<lambda>i. bis_push_message (fst i) (snd i)" bis_pop_message bis_messages 16
  by unfold_locales (auto simp: bis_accepts_def bis_push_message_def bis_pop_message_def)

section \<open>ReliableInputStream\<close>

record 'm ReliableInputStream =
  ris_last_handled :: SeqNum
  ris_last_announced :: SeqNum
  ris_messages :: "SeqNum \<rightharpoonup> 'm"
  ris_fragment_msg :: "u8 list"
  ris_fragment_message_available :: bool

definition ReliableInputStream_init :: "'m ReliableInputStream" where
  "ReliableInputStream_init = \<lparr>ris_last_handled = 65535, ris_last_announced = 65535,
     ris_messages = Map.empty, ris_fragment_msg = [], ris_fragment_message_available = False\<rparr>"

definition ris_push_message :: "SeqNum \<Rightarrow> 'm \<Rightarrow> 'm ReliableInputStream \<Rightarrow> bool \<times> 'm ReliableInputStream" where
  "ris_push_message seq_num message s =
     (if seq_gt seq_num (ris_last_handled s) \<and>
         seq_le seq_num (seq_add (ris_last_handled s) RELIABLE_STREAM_DEPTH)
      then if seq_gt seq_num (ris_last_announced s)
           then (True, s\<lparr>ris_last_announced := seq_num,
                         ris_messages := fst (emplace (ris_messages s) seq_num message)\<rparr>)
           else (case ris_messages s seq_num of
                   None \<Rightarrow> (True, s\<lparr>ris_messages := fst (emplace (ris_messages s) seq_num message)\<rparr>)
                 | Some _ \<Rightarrow> (False, s))
      else (False, s))"

definition ris_emplace_message :: "('c, 'x) fastcdr_scheme \<Rightarrow> SeqNum \<Rightarrow> u8 list \<Rightarrow>
    'c InputMessage ReliableInputStream \<Rightarrow> bool \<times> 'c InputMessage ReliableInputStream" where
  "ris_emplace_message C seq_num buf s =
     (if seq_gt seq_num (ris_last_handled s) \<and>
         seq_le seq_num (seq_add (ris_last_handled s) RELIABLE_STREAM_DEPTH)
      then if seq_gt seq_num (ris_last_announced s)
           then (True, s\<lparr>ris_last_announced := seq_num,
                         ris_messages := fst (emplace (ris_messages s) seq_num (InputMessage_new C buf))\<rparr>)
           else (case ris_messages s seq_num of
                   None \<Rightarrow> (True, s\<lparr>ris_messages := fst (emplace (ris_messages s) seq_num (InputMessage_new C buf))\<rparr>)
                 | Some _ \<Rightarrow> (False, s))
      else (False, s))"

definition ris_pop_message :: "'m ReliableInputStream \<Rightarrow> 'm option \<times> 'm ReliableInputStream" where
  "ris_pop_message s =
     (let next_seq = seq_add_int (ris_last_handled s) 1 in
      case ris_messages s next_seq of
        None \<Rightarrow> (None, s)
      | Some m \<Rightarrow> (Some m, s\<lparr>ris_last_handled := next_seq, ris_messages := erase (ris_messages s) next_seq\<rparr>))"

definition ris_update_from_heartbeat :: "SeqNum \<Rightarrow> SeqNum \<Rightarrow> 'm ReliableInputStream \<Rightarrow> 'm ReliableInputStream" where
  "ris_update_from_heartbeat first_unacked last_unacked s =
     (let s = (if seq_lt (seq_add_int (ris_last_handled s) 1) first_unacked
               then s\<lparr>ris_last_handled := seq_sub_int first_unacked 1\<rparr> else s)
      in if seq_lt (ris_last_announced s) last_unacked
         then s\<lparr>ris_last_announced := last_unacked\<rparr> else s)"

text \<open>\<open>ACKNACK_Payload\<close>: the first number not handled, the two bytes of the bitmap, the stream.\<close>

record ACKNACK_Payload =
  ack_first_unacked_seq_num :: u16
  ack_nack_bitmap_0 :: u8
  ack_nack_bitmap_1 :: u8
  ack_stream_id :: StreamId

definition ACKNACK_init :: ACKNACK_Payload where
  "ACKNACK_init = \<lparr>ack_first_unacked_seq_num = 0, ack_nack_bitmap_0 = 0, ack_nack_bitmap_1 = 0, ack_stream_id = 0\<rparr>"

definition ris_missing :: "'m ReliableInputStream \<Rightarrow> nat \<Rightarrow> bool" where
  "ris_missing s i \<longleftrightarrow>
     seq_lt (seq_add (ris_last_handled s) (of_nat i)) (ris_last_announced s) \<and>
     ris_messages s (seq_add (ris_last_handled s) (seq_of_int (int i + 1))) = None"

text \<open>The body of the loop over the eight bits of both bytes.\<close>

definition ris_acknack_step :: "'m ReliableInputStream \<Rightarrow> nat \<Rightarrow> ACKNACK_Payload \<Rightarrow> ACKNACK_Payload" where
  "ris_acknack_step s i acknack =
     (let acknack = (if ris_missing s i
            then acknack\<lparr>ack_nack_bitmap_1 := ack_nack_bitmap_1 acknack OR push_bit i 1\<rparr> else acknack)
      in if ris_missing s (i + 8)
         then acknack\<lparr>ack_nack_bitmap_0 := ack_nack_bitmap_0 acknack OR push_bit i 1\<rparr> else acknack)"

definition ris_fill_acknack :: "'m ReliableInputStream \<Rightarrow> ACKNACK_Payload \<Rightarrow> ACKNACK_Payload" where
  "ris_fill_acknack s acknack =
     fold (ris_acknack_step s) [0..<8]
       (acknack\<lparr>ack_nack_bitmap_0 := 0, ack_nack_bitmap_1 := 0,
                ack_first_unacked_seq_num := seq_add_int (ris_last_handled s) 1\<rparr>)"

definition ris_reset :: "'m ReliableInputStream \<Rightarrow> 'm ReliableInputStream" where
  "ris_reset s = s\<lparr>ris_last_handled := 65535, ris_last_announced := 65535, ris_messages := Map.empty\<rparr>"

text \<open>
  \<open>push_fragment\<close> reads the raw header of the message out of bounds when the message is shorter than
  its header: \<open>None\<close>. The result is the stream and the message, whose reading position moves.
\<close>

definition ris_push_fragment :: "('c, 'x) fastcdr_scheme \<Rightarrow> 'c InputMessage \<Rightarrow>
    'm ReliableInputStream \<Rightarrow> ('c InputMessage \<times> 'm ReliableInputStream) option" where
  "ris_push_fragment C message s =
     (case (if ris_fragment_msg s = [] then get_raw_header message else Some (ris_fragment_msg s)) of
        None \<Rightarrow> None
      | Some base \<Rightarrow>
          (let fragment_size = unat (sh_submessage_length (im_subheader message));
               (data, _, message) = get_raw_payload C fragment_size message
           in Some (message, s\<lparr>ris_fragment_msg := base @ data,
                  ris_fragment_message_available :=
                    (FLAG_LAST_FRAGMENT AND sh_flags (im_subheader message) \<noteq> 0)\<rparr>)))"

definition ris_pop_fragment_message :: "('c, 'x) fastcdr_scheme \<Rightarrow> 'm ReliableInputStream \<Rightarrow>
    'c InputMessage option \<times> 'm ReliableInputStream" where
  "ris_pop_fragment_message C s =
     (if ris_fragment_message_available s
      then (Some (InputMessage_new C (ris_fragment_msg s)),
            s\<lparr>ris_fragment_msg := [], ris_fragment_message_available := False\<rparr>)
      else (None, s))"

lemmas ris_defs = ris_push_message_def ris_pop_message_def ris_update_from_heartbeat_def

lemma ris_emplace_push: "ris_emplace_message C seq_num buf s = ris_push_message seq_num (InputMessage_new C buf) s"
  by (simp add: ris_emplace_message_def ris_push_message_def)

section \<open>Reliable input over unbounded numbers\<close>

text \<open>
  The specification of the reliable input stream counts messages from 1 without wrap-around: the last
  one handled, the last one announced, and the ones received and not handed out. Message \<open>k\<close> travels
  under the serial number \<open>sq k\<close>. A heartbeat whose first number is beyond the next one makes the stream
  skip: what is stored below stays in the map.
\<close>

definition sq :: "nat \<Rightarrow> SeqNum" where
  "sq k = seq_adv 65535 k"

record 'm input_spec =
  is_handled :: nat
  is_announced :: nat
  is_buffer :: "nat \<rightharpoonup> 'm"

definition is_init :: "'m input_spec" where
  "is_init = \<lparr>is_handled = 0, is_announced = 0, is_buffer = Map.empty\<rparr>"

definition is_push :: "nat \<Rightarrow> 'm \<Rightarrow> 'm input_spec \<Rightarrow> bool \<times> 'm input_spec" where
  "is_push k m a =
     (if is_handled a < k \<and> k \<le> is_handled a + 16 \<and> is_buffer a k = None
      then (True, a\<lparr>is_announced := max (is_announced a) k, is_buffer := (is_buffer a)(k \<mapsto> m)\<rparr>)
      else (False, a))"

definition is_pop :: "'m input_spec \<Rightarrow> 'm option \<times> 'm input_spec" where
  "is_pop a =
     (case is_buffer a (Suc (is_handled a)) of
        None \<Rightarrow> (None, a)
      | Some m \<Rightarrow> (Some m, a\<lparr>is_handled := Suc (is_handled a),
                            is_buffer := (is_buffer a)(Suc (is_handled a) := None)\<rparr>))"

definition is_heartbeat :: "nat \<Rightarrow> nat \<Rightarrow> 'm input_spec \<Rightarrow> 'm input_spec" where
  "is_heartbeat first ann a =
     a\<lparr>is_handled := max (is_handled a) (first - 1), is_announced := max (is_announced a) ann\<rparr>"

definition is_missing :: "'m input_spec \<Rightarrow> nat \<Rightarrow> bool" where
  "is_missing a i \<longleftrightarrow> is_handled a + i < is_announced a \<and> is_buffer a (is_handled a + i + 1) = None"

text \<open>The numbers in use are close enough to be compared; and the numbers have not come round to a message that was
  skipped and is still in the map.\<close>

definition is_near :: "'m input_spec \<Rightarrow> bool" where
  "is_near a \<longleftrightarrow> is_announced a < is_handled a + 32768 \<and> is_handled a \<le> is_announced a + 32751"

definition is_fresh :: "'m input_spec \<Rightarrow> bool" where
  "is_fresh a \<longleftrightarrow> (\<forall>k \<in> dom (is_buffer a). is_handled a + 16 < k + 65536)"

definition is_ok :: "'m input_spec \<Rightarrow> bool" where
  "is_ok a \<longleftrightarrow> is_near a \<and> is_fresh a \<and> (\<forall>k \<in> dom (is_buffer a). k \<le> is_handled a + 16 \<and> k \<le> is_announced a)"

text \<open>Every serial number stands for one number of the 65536 up to the end of the window.\<close>

definition is_rel :: "'m ReliableInputStream \<Rightarrow> 'm input_spec \<Rightarrow> bool" where
  "is_rel s a \<longleftrightarrow> is_ok a \<and> ris_last_handled s = sq (is_handled a) \<and> ris_last_announced s = sq (is_announced a) \<and>
     (\<forall>e. is_handled a + 16 < e \<and> e \<le> is_handled a + 16 + 65536 \<longrightarrow>
        ris_messages s (sq e) = (if e < 65536 then None else is_buffer a (e - 65536)))"

lemma sq_add: "sq (k + n) = seq_adv (sq k) n"
  by (simp add: sq_def sn.adv_adv)

lemma sq_Suc: "sq (Suc k) = seq_adv (sq k) 1"
  using sq_add [of k 1] by simp

lemma sq_step [simp]: "seq_adv (sq k) (Suc 0) = sq (Suc k)"
  by (simp add: sq_Suc)

lemma sq_inject: "d < 65536 \<Longrightarrow> e < 65536 \<Longrightarrow> sq (k + d) = sq (k + e) \<longleftrightarrow> d = e"
  by (simp add: sq_add sn.adv_inject)

lemma sq_period [simp]: "sq (k + 65536) = sq k" "sq (65536 + k) = sq k"
  using sn.adv_wrap [of "sq k"] sq_add [of k 65536] by (simp_all add: add.commute)

lemma sq_lt: "m < n + 32768 \<Longrightarrow> n < m + 32768 \<Longrightarrow> seq_lt (sq m) (sq n) \<longleftrightarrow> m < n"
  by (simp add: sq_def sn.lt_window)

lemma seq_add_adv: "n \<le> 32767 \<Longrightarrow> seq_add s (of_nat n) = seq_adv s n"
  by (simp add: seq_add_word seq_adv_def unat_of_nat_less)

lemma seq_add_int_adv: "n \<le> 32767 \<Longrightarrow> seq_add_int s (int n) = seq_adv s n"
  by (simp add: seq_add_int_word seq_adv_def)

lemma seq_add_int_1 [simp]: "seq_add_int s 1 = seq_adv s 1"
  using seq_add_int_adv [of 1 s] by simp

lemma seq_add_depth [simp]: "seq_add s RELIABLE_STREAM_DEPTH = seq_adv s 16"
  using seq_add_adv [of 16 s] by (simp add: RELIABLE_STREAM_DEPTH_def)

lemma sq_sub_1: "seq_sub_int (sq (Suc k)) 1 = sq k"
  by (simp add: sq_Suc seq_sub_int_word seq_adv_def)

lemma sq_window: "h < j \<Longrightarrow> j \<le> h + 65536 \<Longrightarrow> h < k \<Longrightarrow> k \<le> h + 65536 \<Longrightarrow> sq j = sq k \<longleftrightarrow> j = k"
  using sq_inject [of "j - Suc h" "k - Suc h" "Suc h"] by auto

lemma is_relD:
  assumes "is_rel s a"
  shows "is_ok a" "ris_last_handled s = sq (is_handled a)" "ris_last_announced s = sq (is_announced a)"
    "is_handled a + 16 < e \<Longrightarrow> e \<le> is_handled a + 16 + 65536 \<Longrightarrow>
       ris_messages s (sq e) = (if e < 65536 then None else is_buffer a (e - 65536))"
  using assms by (simp_all add: is_rel_def)

lemma is_relI:
  assumes "is_ok a" "ris_last_handled s = sq (is_handled a)" "ris_last_announced s = sq (is_announced a)"
    and "\<And>e. is_handled a + 16 < e \<Longrightarrow> e \<le> is_handled a + 16 + 65536 \<Longrightarrow>
       ris_messages s (sq e) = (if e < 65536 then None else is_buffer a (e - 65536))"
  shows "is_rel s a"
  using assms by (simp add: is_rel_def)

lemma is_rel_lookup:
  assumes "is_rel s a" and "k \<le> is_handled a + 16" and "is_handled a + 16 < k + 65536"
  shows "ris_messages s (sq k) = is_buffer a k"
  using is_relD(4) [OF assms(1), of "k + 65536"] assms(2,3) by simp

lemma is_okD:
  assumes "is_ok a"
  shows "is_announced a < is_handled a + 32768" "is_handled a \<le> is_announced a + 32751"
    "is_buffer a k \<noteq> None \<Longrightarrow> k \<le> is_handled a + 16" "is_buffer a k \<noteq> None \<Longrightarrow> k \<le> is_announced a"
    "is_buffer a k \<noteq> None \<Longrightarrow> is_handled a + 16 < k + 65536"
  using assms by (auto simp: is_ok_def is_near_def is_fresh_def)

lemma is_rel_init: "is_rel ReliableInputStream_init is_init"
  by (simp add: is_rel_def is_ok_def is_near_def is_fresh_def ReliableInputStream_init_def is_init_def sq_def sn.adv_0)

lemma is_okI:
  assumes "is_near a" and "is_fresh a" and "\<And>k m. is_buffer a k = Some m \<Longrightarrow> k \<le> is_handled a + 16 \<and> k \<le> is_announced a"
  shows "is_ok a"
  using assms by (auto simp: is_ok_def)

lemma is_push_ok:
  assumes "is_ok a"
  shows "is_ok (snd (is_push k m a))"
proof (rule is_okI)
  note ok = is_okD [OF assms]
  show "is_near (snd (is_push k m a))" "is_fresh (snd (is_push k m a))"
    using assms by (auto simp: is_ok_def is_near_def is_fresh_def is_push_def)
  show "is_buffer (snd (is_push k m a)) j = Some x \<Longrightarrow> j \<le> is_handled (snd (is_push k m a)) + 16 \<and> j \<le> is_announced (snd (is_push k m a))" for j x
    using ok(3,4) [of j] by (auto simp: is_push_def split: if_splits)
qed

lemma is_pop_ok:
  assumes "is_ok a" and "is_fresh (snd (is_pop a))"
  shows "is_ok (snd (is_pop a))"
proof (rule is_okI)
  note ok = is_okD [OF assms(1)]
  show "is_near (snd (is_pop a))" using ok(1,2) ok(4) [of "Suc (is_handled a)"] by (auto simp: is_near_def is_pop_def split: option.splits)
  show "is_buffer (snd (is_pop a)) j = Some x \<Longrightarrow> j \<le> is_handled (snd (is_pop a)) + 16 \<and> j \<le> is_announced (snd (is_pop a))" for j x
    using ok(3,4) [of j] by (auto simp: is_pop_def split: option.splits if_splits)
qed (rule assms(2))

lemma is_heartbeat_ok:
  assumes "is_ok a" and "is_near (is_heartbeat first ann a)" and "is_fresh (is_heartbeat first ann a)"
  shows "is_ok (is_heartbeat first ann a)"
  using assms(2,3) is_okD(3,4) [OF assms(1)] by (intro is_okI) (fastforce simp: is_heartbeat_def)+

lemma is_rel_push:
  assumes rel: "is_rel s a" and old: "is_handled a \<le> k + 32751" and new: "k < is_handled a + 32768"
  shows "fst (ris_push_message (sq k) m s) = fst (is_push k m a)"
    and "is_rel (snd (ris_push_message (sq k) m s)) (snd (is_push k m a))"
proof -
  let ?H = "is_handled a" and ?A = "is_announced a"
  from rel have s: "ris_last_handled s = sq ?H" "ris_last_announced s = sq ?A" and ok: "is_ok a"
    by (simp_all add: is_rel_def)
  note ok = ok is_okD [OF ok]
  have window: "seq_gt (sq k) (ris_last_handled s) \<and> seq_le (sq k) (seq_add (ris_last_handled s) RELIABLE_STREAM_DEPTH)
      \<longleftrightarrow> ?H < k \<and> k \<le> ?H + 16"
    using old new sq_lt [of ?H k] sq_lt [of "?H + 16" k]
    by (auto simp: s seq_gt_def seq_le_def sq_add [symmetric])
  have "fst (ris_push_message (sq k) m s) = fst (is_push k m a)
     \<and> is_rel (snd (ris_push_message (sq k) m s)) (snd (is_push k m a))"
  proof (cases "?H < k \<and> k \<le> ?H + 16")
    case False
    then show ?thesis using window rel by (auto simp: ris_push_message_def is_push_def)
  next
    case True
    have gt: "seq_gt (sq k) (ris_last_announced s) \<longleftrightarrow> ?A < k"
      using True ok(2,3) by (auto simp: s seq_gt_def intro!: sq_lt)
    have look: "ris_messages s (sq k) = is_buffer a k"
      using True by (intro is_rel_lookup [OF rel]) auto
    show ?thesis
    proof (cases "is_buffer a k")
      case (Some x)
      then have "k \<le> ?A" using ok(5) by simp
      then show ?thesis using Some gt look rel window by (simp add: ris_push_message_def is_push_def)
    next
      case None
      have upd: "((ris_messages s)(sq k \<mapsto> m)) (sq e) = (if e < 65536 then None else ((is_buffer a)(k \<mapsto> m)) (e - 65536))"
        if "?H + 16 < e" "e \<le> ?H + 16 + 65536" for e
      proof -
        have "sq e = sq k \<longleftrightarrow> e = k + 65536"
          unfolding sq_period(1) [of k, symmetric] by (rule sq_window [where h = "?H + 16"]) (use that True in simp_all)
        then show ?thesis using is_relD(4) [OF rel that] by auto
      qed
      have "is_ok (snd (is_push k m a))" by (rule is_push_ok [OF ok(1)])
      then have ok': "is_ok (a\<lparr>is_announced := max ?A k, is_buffer := (is_buffer a)(k \<mapsto> m)\<rparr>)"
        using True None by (simp add: is_push_def)
      have "is_rel (s\<lparr>ris_last_announced := sq (max ?A k), ris_messages := (ris_messages s)(sq k \<mapsto> m)\<rparr>)
          (a\<lparr>is_announced := max ?A k, is_buffer := (is_buffer a)(k \<mapsto> m)\<rparr>)"
        using upd ok' s by (intro is_relI) simp_all
      moreover have "s\<lparr>ris_last_announced := sq ?A\<rparr> = s" using s(2) by (cases s) simp
      then have "snd (ris_push_message (sq k) m s) = s\<lparr>ris_last_announced := sq (max ?A k), ris_messages := (ris_messages s)(sq k \<mapsto> m)\<rparr>"
        "fst (ris_push_message (sq k) m s)"
        using None gt look window True by (cases "?A < k"; simp add: ris_push_message_def max_def)+
      ultimately show ?thesis using True None by (simp add: is_push_def)
    qed
  qed
  then show "fst (ris_push_message (sq k) m s) = fst (is_push k m a)"
    and "is_rel (snd (ris_push_message (sq k) m s)) (snd (is_push k m a))" by auto
qed

lemma is_rel_pop:
  assumes rel: "is_rel s a" and fresh: "is_fresh (snd (is_pop a))"
  shows "fst (ris_pop_message s) = fst (is_pop a)" and "is_rel (snd (ris_pop_message s)) (snd (is_pop a))"
proof -
  let ?H = "is_handled a"
  note R = is_relD [OF rel]
  note ok = is_okD [OF R(1)]
  have look: "ris_messages s (sq (Suc ?H)) = is_buffer a (Suc ?H)" by (rule is_rel_lookup [OF rel]) simp_all
  have "fst (ris_pop_message s) = fst (is_pop a) \<and> is_rel (snd (ris_pop_message s)) (snd (is_pop a))"
  proof (cases "is_buffer a (Suc ?H)")
    case None
    then show ?thesis using rel by (simp add: ris_pop_message_def is_pop_def R(2) look Let_def)
  next
    case (Some m)
    let ?a = "a\<lparr>is_handled := Suc ?H, is_buffer := (is_buffer a)(Suc ?H := None)\<rparr>"
    have pop: "is_pop a = (Some m, ?a)" using Some by (simp add: is_pop_def)
    have upd: "erase (ris_messages s) (sq (Suc ?H)) (sq e) = (if e < 65536 then None else is_buffer ?a (e - 65536))"
      if e: "Suc ?H + 16 < e" "e \<le> Suc ?H + 16 + 65536" for e
    proof (cases "e = Suc ?H + 16 + 65536")
      case False
      then have le: "?H + 16 < e" "e \<le> ?H + 16 + 65536" using e by simp_all
      have "sq e = sq (Suc ?H) \<longleftrightarrow> e = Suc ?H + 65536"
        unfolding sq_period(1) [of "Suc ?H", symmetric] by (rule sq_window [where h = "?H + 16"]) (use le in simp_all)
      then show ?thesis using R(4) [OF le] by (auto simp: erase_def)
    next
      case True
      have "is_buffer ?a (Suc ?H + 16) = None" using ok(3) [of "Suc ?H + 16"] by force
      moreover have "Suc ?H + 16 \<noteq> k + 65536" if "is_buffer a k \<noteq> None" "k \<noteq> Suc ?H" for k
        using fresh that by (auto simp: pop is_fresh_def)
      then have "is_buffer a (Suc ?H + 16 - 65536) = None \<or> Suc ?H + 16 < 65536" by force
      then have "ris_messages s (sq (Suc ?H + 16)) = None" using R(4) [of "Suc ?H + 16"] by auto
      moreover have "sq e = sq (Suc ?H + 16)" unfolding True by (rule sq_period)
      ultimately show ?thesis using True by (simp add: erase_def)
    qed
    have "is_ok ?a" using is_pop_ok [OF R(1) fresh] by (simp add: pop)
    then have "is_rel (s\<lparr>ris_last_handled := sq (Suc ?H), ris_messages := erase (ris_messages s) (sq (Suc ?H))\<rparr>) ?a"
      using upd R(3) by (intro is_relI) simp_all
    then show ?thesis using Some by (simp add: ris_pop_message_def pop R(2) look Let_def)
  qed
  then show "fst (ris_pop_message s) = fst (is_pop a)" and "is_rel (snd (ris_pop_message s)) (snd (is_pop a))" by auto
qed

text \<open>Skipping leaves the map as it is; no number of the new window meets a message that was skipped.\<close>

lemma is_rel_heartbeat:
  assumes rel: "is_rel s a" and first: "0 < first" "first \<le> is_handled a + 32768" "is_handled a < first + 32767"
    and last: "ann < is_announced a + 32768" "is_announced a < ann + 32768"
    and ok: "is_near (is_heartbeat first ann a)" "is_fresh (is_heartbeat first ann a)"
  shows "is_rel (ris_update_from_heartbeat (sq first) (sq ann) s) (is_heartbeat first ann a)"
proof -
  let ?H = "is_handled a" and ?h = "max (is_handled a) (first - 1)" and ?ann = "max (is_announced a) ann"
  note R = is_relD [OF rel]
  have ok': "is_ok (is_heartbeat first ann a)"
    by (rule is_heartbeat_ok [OF R(1) ok])
  have hb: "is_heartbeat first ann a = a\<lparr>is_handled := ?h, is_announced := ?ann\<rparr>" by (simp add: is_heartbeat_def)
  have skip: "seq_lt (seq_add_int (ris_last_handled s) 1) (sq first) \<longleftrightarrow> ?H + 1 < first"
    using sq_lt [of "?H + 1" first] first by (simp add: R(2))
  have later: "seq_lt (sq (is_announced a)) (sq ann) \<longleftrightarrow> is_announced a < ann" using last by (intro sq_lt)
  obtain k where k: "first = Suc k" using first(1) by (cases first) auto
  have upd: "ris_update_from_heartbeat (sq first) (sq ann) s = s\<lparr>ris_last_handled := sq ?h, ris_last_announced := sq ?ann\<rparr>"
  proof -
    have "(if seq_lt (seq_add_int (ris_last_handled s) 1) (sq first) then s\<lparr>ris_last_handled := seq_sub_int (sq first) 1\<rparr> else s) = s\<lparr>ris_last_handled := sq ?h\<rparr>"
    proof -
      have "seq_lt (sq (Suc ?H)) (sq (Suc k)) \<longleftrightarrow> ?H < k" using skip by (simp add: R(2) k)
      then show ?thesis using R(2) sq_sub_1 [of k] by (cases s) (auto simp: k max_def)
    qed
    moreover have "(if is_announced a < ann then t\<lparr>ris_last_announced := sq ann\<rparr> else t) = t\<lparr>ris_last_announced := sq ?ann\<rparr>"
      if "ris_last_announced t = sq (is_announced a)" for t :: "'a ReliableInputStream"
      using that by (cases t) (simp add: max_def)
    moreover have "ris_last_announced (s\<lparr>ris_last_handled := sq ?h\<rparr>) = sq (is_announced a)" using R(3) by simp
    ultimately show ?thesis by (simp only: ris_update_from_heartbeat_def Let_def later)
  qed
  have "ris_messages s (sq e) = (if e < 65536 then None else is_buffer a (e - 65536))"
    if e: "?h + 16 < e" "e \<le> ?h + 16 + 65536" for e
  proof (cases "e \<le> ?H + 16 + 65536")
    case True
    then show ?thesis using R(4) [of e] e(1) by simp
  next
    case False
    then obtain d where d: "e = d + 65536" "?H + 16 < d" "d \<le> ?h + 16"
      using e(2) that [of "e - 65536"] by simp
    have "is_buffer a d = None" using is_okD(3) [OF R(1), of d] d(2) by force
    moreover have "is_buffer a (d - 65536) = None \<or> d < 65536"
      using is_okD(5) [OF ok', of "d - 65536"] d(3) by (force simp: hb)
    then have "ris_messages s (sq d) = None" using R(4) [of d] d(2,3) first(2) by auto
    ultimately show ?thesis by (simp add: d(1))
  qed
  then show ?thesis unfolding upd hb using ok' by (intro is_relI) (simp_all add: hb)
qed

text \<open>As long as no heartbeat skips, everything stored is ahead of the last number handled.\<close>

definition is_gapless :: "'m input_spec \<Rightarrow> bool" where
  "is_gapless a \<longleftrightarrow> is_handled a \<le> is_announced a \<and> (\<forall>k \<in> dom (is_buffer a). is_handled a < k)"

lemma is_gapless_init: "is_gapless is_init"
  by (simp add: is_gapless_def is_init_def)

lemma is_gapless_push: "is_gapless a \<Longrightarrow> is_gapless (snd (is_push k m a))"
  by (auto simp: is_gapless_def is_push_def)

lemma is_gapless_pop: "is_ok a \<Longrightarrow> is_gapless a \<Longrightarrow> is_gapless (snd (is_pop a))"
proof -
  assume ok: "is_ok a" and g: "is_gapless a"
  have ahead: "Suc (is_handled a) < k" if "is_buffer a k = Some m" "k \<noteq> Suc (is_handled a)" for k m
    proof -
    have "k \<in> dom (is_buffer a)" using that(1) by blast
    then have "is_handled a < k" using g by (simp add: is_gapless_def)
    then show ?thesis using that(2) by simp
  qed
  show ?thesis
    using g is_okD(4) [OF ok, of "Suc (is_handled a)"] ahead by (auto simp: is_gapless_def is_pop_def split: option.splits if_splits)
qed

lemma is_heartbeat_no_skip: "first \<le> is_handled a + 1 \<Longrightarrow> is_heartbeat first ann a = a\<lparr>is_announced := max (is_announced a) ann\<rparr>"
  by (cases a) (simp add: is_heartbeat_def)

lemma is_gapless_fresh: "is_gapless a \<Longrightarrow> is_fresh a"
proof -
  assume "is_gapless a"
  then have "is_handled a < k" if "k \<in> dom (is_buffer a)" for k using that by (simp add: is_gapless_def)
  moreover have "h < k \<Longrightarrow> h + 16 < k + 65536" for h k :: nat by simp
  ultimately show ?thesis unfolding is_fresh_def by blast
qed

lemma is_rel_pop_gapless:
  assumes "is_rel s a" and "is_gapless a"
  shows "fst (ris_pop_message s) = fst (is_pop a)" and "is_rel (snd (ris_pop_message s)) (snd (is_pop a))"
  using is_rel_pop [OF assms(1) is_gapless_fresh [OF is_gapless_pop [OF is_relD(1) [OF assms(1)] assms(2)]]] by simp_all

lemma is_rel_heartbeat_gapless:
  assumes "is_rel s a" and gapless: "is_gapless a" and first: "0 < first" "first \<le> is_handled a + 1" "is_handled a < first + 32767"
    and ann: "ann < is_handled a + 32768" "is_announced a < ann + 32768"
  shows "is_rel (ris_update_from_heartbeat (sq first) (sq ann) s) (is_heartbeat first ann a)"
proof (rule is_rel_heartbeat [OF assms(1) first(1) _ first(3) _ ann(2)])
  show "is_near (is_heartbeat first ann a)" "is_fresh (is_heartbeat first ann a)"
    using is_okD(1,2) [OF is_relD(1) [OF assms(1)]] gapless is_gapless_fresh [OF gapless] ann(1)
    by (auto simp: is_heartbeat_no_skip [OF first(2)] is_near_def is_fresh_def is_gapless_def)
qed (use first(2) ann(1) gapless in \<open>simp_all add: is_gapless_def\<close>)

section \<open>Acknowledgements\<close>

lemma acknack_step_simps [simp]:
  "ack_first_unacked_seq_num (ris_acknack_step s i a) = ack_first_unacked_seq_num a"
  "ack_stream_id (ris_acknack_step s i a) = ack_stream_id a"
  "ack_nack_bitmap_1 (ris_acknack_step s i a) =
     (if ris_missing s i then ack_nack_bitmap_1 a OR push_bit i 1 else ack_nack_bitmap_1 a)"
  "ack_nack_bitmap_0 (ris_acknack_step s i a) =
     (if ris_missing s (i + 8) then ack_nack_bitmap_0 a OR push_bit i 1 else ack_nack_bitmap_0 a)"
  by (simp_all add: ris_acknack_step_def Let_def)

lemma fold_acknack:
  "n \<le> 8 \<Longrightarrow>
   ack_first_unacked_seq_num (fold (ris_acknack_step s) [0..<n] a) = ack_first_unacked_seq_num a \<and>
   (\<forall>i < 8. bit (ack_nack_bitmap_1 (fold (ris_acknack_step s) [0..<n] a)) i \<longleftrightarrow>
      bit (ack_nack_bitmap_1 a) i \<or> i < n \<and> ris_missing s i) \<and>
   (\<forall>i < 8. bit (ack_nack_bitmap_0 (fold (ris_acknack_step s) [0..<n] a)) i \<longleftrightarrow>
      bit (ack_nack_bitmap_0 a) i \<or> i < n \<and> ris_missing s (i + 8))"
proof (induction n)
  case 0
  then show ?case by simp
next
  case (Suc n)
  then show ?case by (auto simp: bit_or_iff bit_exp_iff less_Suc_eq)
qed

lemma fill_acknack_bits:
  "ack_first_unacked_seq_num (ris_fill_acknack s ack) = seq_adv (ris_last_handled s) 1"
  "i < 8 \<Longrightarrow> bit (ack_nack_bitmap_1 (ris_fill_acknack s ack)) i \<longleftrightarrow> ris_missing s i"
  "i < 8 \<Longrightarrow> bit (ack_nack_bitmap_0 (ris_fill_acknack s ack)) i \<longleftrightarrow> ris_missing s (i + 8)"
  using fold_acknack [of 8 s "ack\<lparr>ack_nack_bitmap_0 := 0, ack_nack_bitmap_1 := 0,
                ack_first_unacked_seq_num := seq_add_int (ris_last_handled s) 1\<rparr>"] by (simp_all add: ris_fill_acknack_def)

lemma is_rel_missing:
  assumes rel: "is_rel s a" and "i < 16"
  shows "ris_missing s i \<longleftrightarrow> is_missing a i"
proof -
  from rel have s: "ris_last_handled s = sq (is_handled a)" "ris_last_announced s = sq (is_announced a)"
    and ok: "is_ok a" by (simp_all add: is_rel_def)
  note ok = is_okD [OF ok]
  have "seq_add (ris_last_handled s) (of_nat i) = sq (is_handled a + i)"
    using assms(2) by (simp add: s seq_add_adv sq_add)
  moreover have "seq_add (ris_last_handled s) (seq_of_int (int i + 1)) = sq (is_handled a + i + 1)"
    using assms(2) seq_add_adv [of "i + 1" "sq (is_handled a)"] sq_add [of "is_handled a" "i + 1"]
    by (simp add: s seq_of_int_def add.commute)
  moreover have "seq_lt (sq (is_handled a + i)) (sq (is_announced a)) \<longleftrightarrow> is_handled a + i < is_announced a"
    using ok(1,2) assms(2) by (intro sq_lt) simp_all
  moreover have "ris_messages s (sq (is_handled a + i + 1)) = is_buffer a (is_handled a + i + 1)"
    using assms(2) by (intro is_rel_lookup [OF rel]) auto
  ultimately show ?thesis by (simp add: ris_missing_def is_missing_def s(2))
qed

section \<open>Histories of a reliable input stream\<close>

text \<open>Pushes under the serial number of a message, pops, and heartbeats with the first message not
  acknowledged and the last one sent.\<close>

datatype 'm input_op = InPush nat 'm | InPop | InHeartbeat nat nat

fun ris_run :: "'m input_op list \<Rightarrow> 'm ReliableInputStream \<Rightarrow> 'm list \<times> 'm ReliableInputStream" where
  "ris_run [] s = ([], s)"
| "ris_run (InPush k m # ops) s = ris_run ops (snd (ris_push_message (sq k) m s))"
| "ris_run (InPop # ops) s =
     (let (r, s1) = ris_pop_message s; (outs, s2) = ris_run ops s1
      in (case r of None \<Rightarrow> outs | Some m \<Rightarrow> m # outs, s2))"
| "ris_run (InHeartbeat first ann # ops) s = ris_run ops (ris_update_from_heartbeat (sq first) (sq ann) s)"

text \<open>
  The network and the peer keep to the 16 bit horizon: nothing older or newer than half the number
  space arrives, and the numbers do not come round to a message that was stored and then skipped.
\<close>

fun in_horizon :: "'m input_op \<Rightarrow> 'm input_spec \<Rightarrow> bool" where
  "in_horizon (InPush k m) a \<longleftrightarrow> is_handled a \<le> k + 32751 \<and> k < is_handled a + 32768"
| "in_horizon InPop a \<longleftrightarrow> is_fresh (snd (is_pop a))"
| "in_horizon (InHeartbeat first ann) a \<longleftrightarrow>
     0 < first \<and> first \<le> is_handled a + 32768 \<and> is_handled a < first + 32767 \<and>
     ann < is_announced a + 32768 \<and> is_announced a < ann + 32768 \<and>
     is_near (is_heartbeat first ann a) \<and> is_fresh (is_heartbeat first ann a)"

text \<open>The specification hands out messages with their numbers.\<close>

fun is_run :: "'m input_op list \<Rightarrow> 'm input_spec \<Rightarrow> (nat \<times> 'm) list \<times> 'm input_spec" where
  "is_run [] a = ([], a)"
| "is_run (InPush k m # ops) a = is_run ops (snd (is_push k m a))"
| "is_run (InPop # ops) a =
     (let (r, a1) = is_pop a; (outs, a2) = is_run ops a1
      in (case r of None \<Rightarrow> outs | Some m \<Rightarrow> (Suc (is_handled a), m) # outs, a2))"
| "is_run (InHeartbeat first ann # ops) a = is_run ops (is_heartbeat first ann a)"

fun is_step :: "'m input_op \<Rightarrow> 'm input_spec \<Rightarrow> 'm input_spec" where
  "is_step (InPush k m) a = snd (is_push k m a)"
| "is_step InPop a = snd (is_pop a)"
| "is_step (InHeartbeat first ann) a = is_heartbeat first ann a"

fun all_in_horizon :: "'m input_op list \<Rightarrow> 'm input_spec \<Rightarrow> bool" where
  "all_in_horizon [] a \<longleftrightarrow> True"
| "all_in_horizon (op # ops) a \<longleftrightarrow> in_horizon op a \<and> all_in_horizon ops (is_step op a)"

text \<open>The numbers a heartbeat takes back: below its first one, and not handed out when it arrives.\<close>

fun taken_back :: "'m input_op list \<Rightarrow> 'm input_spec \<Rightarrow> nat set" where
  "taken_back [] a = {}"
| "taken_back (op # ops) a =
     (case op of InHeartbeat first ann \<Rightarrow> {is_handled a<..<first} | _ \<Rightarrow> {}) \<union> taken_back ops (is_step op a)"

lemma ris_run_refines:
  assumes "is_rel s a" and "all_in_horizon ops a"
  shows "fst (ris_run ops s) = map snd (fst (is_run ops a)) \<and> is_rel (snd (ris_run ops s)) (snd (is_run ops a))"
  using assms
proof (induction ops arbitrary: s a)
  case (Cons op ops)
  then show ?case
  proof (cases op)
    case InPop
    then have fresh: "is_fresh (snd (is_pop a))" using Cons.prems(2) by simp
    from Cons.IH [OF is_rel_pop(2) [OF Cons.prems(1) fresh]] is_rel_pop(1) [OF Cons.prems(1) fresh] Cons.prems(2) InPop show ?thesis
      by (auto simp: Let_def split: prod.splits option.splits)
  next
    case (InPush k m)
    with Cons.prems show ?thesis
      using Cons.IH [OF is_rel_push(2) [OF Cons.prems(1), of k m]] by simp
  next
    case (InHeartbeat f l)
    with Cons.prems show ?thesis
      using Cons.IH [OF is_rel_heartbeat [OF Cons.prems(1), of f l]] by simp
  qed
qed simp

text \<open>What the specification hands out was pushed; its numbers grow, and with those taken back they are all there are.\<close>

definition buffered_from :: "(nat \<times> 'm) set \<Rightarrow> 'm input_spec \<Rightarrow> bool" where
  "buffered_from P a \<longleftrightarrow> (\<forall>k m. is_buffer a k = Some m \<longrightarrow> (k, m) \<in> P)"

lemma is_step_buffered:
  "buffered_from P a \<Longrightarrow> buffered_from (P \<union> {(k, m). op = InPush k m}) (is_step op a)"
  by (cases op) (auto simp: buffered_from_def is_push_def is_pop_def is_heartbeat_def split: option.splits)

lemma is_run_step:
  "is_run (op # ops) a =
     ((case op of InPop \<Rightarrow> (case fst (is_pop a) of None \<Rightarrow> [] | Some m \<Rightarrow> [(Suc (is_handled a), m)]) | _ \<Rightarrow> []) @ fst (is_run ops (is_step op a)),
      snd (is_run ops (is_step op a)))"
  by (cases op) (auto simp: Let_def split: prod.splits option.splits)

lemma is_run_delivers:
  assumes "buffered_from P a" and "(k, m) \<in> set (fst (is_run ops a))"
  shows "(k, m) \<in> P \<union> {(k, m). InPush k m \<in> set ops}"
  using assms
proof (induction ops arbitrary: a P)
  case (Cons op ops)
  from Cons.prems consider "op = InPop" "k = Suc (is_handled a)" "fst (is_pop a) = Some m" | "(k, m) \<in> set (fst (is_run ops (is_step op a)))"
    by (auto simp: is_run_step split: input_op.splits option.splits)
  then show ?case
  proof cases
    case 1
    then show ?thesis using Cons.prems(1) by (auto simp: buffered_from_def is_pop_def split: option.splits)
  next
    case 2
    from Cons.IH [OF is_step_buffered [OF Cons.prems(1), of op] 2] show ?thesis by auto
  qed
qed simp

lemma is_step_handled: "is_handled a \<le> is_handled (is_step op a)"
  by (cases op) (auto simp: is_push_def is_pop_def is_heartbeat_def split: option.splits)

lemma is_run_handled: "is_handled a \<le> is_handled (snd (is_run ops a))"
proof (induction ops arbitrary: a)
  case (Cons op ops)
  show ?case using is_step_handled [of a op] Cons.IH [of "is_step op a"] by (simp add: is_run_step del: is_run.simps)
qed simp

lemma is_run_numbers:
  "fst ` set (fst (is_run ops a)) \<union> taken_back ops a = {is_handled a<..is_handled (snd (is_run ops a))}
   \<and> fst ` set (fst (is_run ops a)) \<inter> taken_back ops a = {} \<and> sorted_wrt (<) (map fst (fst (is_run ops a)))"
proof (induction ops arbitrary: a)
  case (Cons op ops)
  let ?b = "is_step op a"
  let ?N = "fst ` set (fst (is_run ops ?b))" and ?T = "taken_back ops ?b" and ?h = "is_handled (snd (is_run ops ?b))"
  have IH: "?N \<union> ?T = {is_handled ?b<..?h}" "?N \<inter> ?T = {}" "sorted_wrt (<) (map fst (fst (is_run ops ?b)))"
    using Cons.IH [of ?b] by simp_all
  have h: "is_handled ?b \<le> ?h" by (rule is_run_handled)
  have low: "is_handled ?b < k" if "k \<in> ?N \<or> k \<in> ?T" for k using IH(1) that by auto
  have final: "snd (is_run (op # ops) a) = snd (is_run ops ?b)" by (simp only: is_run_step snd_conv)
  show ?case
  proof (cases op)
    case (InPush k m)
    then have "is_handled ?b = is_handled a" by (simp add: is_push_def)
    then show ?thesis using IH InPush by simp
  next
    case (InHeartbeat first ann)
    have b: "is_handled ?b = max (is_handled a) (first - 1)" by (simp add: InHeartbeat is_heartbeat_def)
    have "{is_handled a<..<first} \<union> {is_handled ?b<..?h} = {is_handled a<..?h}" using h unfolding b by (cases first) auto
    then have "?N \<union> ({is_handled a<..<first} \<union> ?T) = {is_handled a<..?h}" using IH(1) by (metis sup.left_commute)
    moreover have "{is_handled a<..<first} \<inter> ?N = {}" using low unfolding b by fastforce
    moreover have eqs: "taken_back (op # ops) a = {is_handled a<..<first} \<union> ?T" "fst (is_run (op # ops) a) = fst (is_run ops ?b)"
      by (simp_all add: InHeartbeat)
    ultimately show ?thesis unfolding final eqs using IH(2,3) by (simp only: Int_Un_distrib Int_commute simp_thms sup_bot.right_neutral)
  next
    case InPop
    show ?thesis
    proof (cases "fst (is_pop a)")
      case None
      then have "is_handled ?b = is_handled a" using InPop by (auto simp: is_pop_def split: option.splits)
      moreover have eqs: "fst (is_run (op # ops) a) = fst (is_run ops ?b)" "taken_back (op # ops) a = ?T"
        using InPop None by (simp_all add: is_run_step del: is_run.simps)
      ultimately show ?thesis unfolding final eqs using IH by (simp only: simp_thms)
    next
      case (Some m)
      then have b: "is_handled ?b = Suc (is_handled a)" using InPop by (auto simp: is_pop_def split: option.splits)
      have eqs: "fst (is_run (op # ops) a) = (Suc (is_handled a), m) # fst (is_run ops ?b)" "taken_back (op # ops) a = ?T"
        using InPop Some by (simp_all add: is_run_step del: is_run.simps)
      have "insert (Suc (is_handled a)) {is_handled ?b<..?h} = {is_handled a<..?h}" using h b by auto
      then have "insert (Suc (is_handled a)) ?N \<union> ?T = {is_handled a<..?h}" using IH(1) by (simp only: Un_insert_left)
      moreover have "Suc (is_handled a) \<notin> ?T" "\<forall>k \<in> ?N. Suc (is_handled a) < k" using low unfolding b by auto
      ultimately show ?thesis unfolding final eqs using IH(2,3)
        by (simp only: list.set image_insert fst_conv Int_insert_left if_False list.map sorted_wrt.simps set_map simp_thms)
    qed
  qed
qed simp

section \<open>Properties\<close>

text \<open>C1. In order, without repetition, and with no gap but the ones a heartbeat makes. Over any history of pushes, pops and
  heartbeats, of a fresh reliable input stream, that keeps to the 16 bit horizon: every message handed out was pushed under the
  number it is handed out for; these numbers grow; and a number up to the last one handled is handed out exactly if no
  heartbeat took it back, that is, arrived with a first number above it before it was handed out. This holds across
  every wrap-around of \<open>SeqNum\<close>.\<close>

theorem reliable_input_in_order:
  assumes "all_in_horizon ops is_init" and "ris_run ops ReliableInputStream_init = (outs, s)" and "is_run ops is_init = (numbered, a)"
  shows "outs = map snd numbered \<and> ris_last_handled s = sq (is_handled a)
    \<and> (\<forall>(k, m) \<in> set numbered. InPush k m \<in> set ops) \<and> sorted_wrt (<) (map fst numbered)
    \<and> set (map fst numbered) = {1..is_handled a} - taken_back ops is_init"
proof -
  have "outs = map snd numbered" "is_rel s a"
    using ris_run_refines [OF is_rel_init assms(1)] assms(2,3) by simp_all
  moreover have "InPush k m \<in> set ops" if "(k, m) \<in> set numbered" for k m
    using is_run_delivers [of "{}" is_init k m ops] that assms(3) by (simp add: buffered_from_def is_init_def)
  moreover have "{is_handled (is_init :: 'a input_spec)<..is_handled a} = {1..is_handled a}" by (auto simp: is_init_def)
  then have "fst ` set numbered \<union> taken_back ops is_init = {1..is_handled a}" "fst ` set numbered \<inter> taken_back ops is_init = {}"
    "sorted_wrt (<) (map fst numbered)"
    using is_run_numbers [of ops is_init] assms(3) by simp_all
  ultimately show ?thesis by (auto simp: is_relD(2))
qed

text \<open>The history of \<open>UpdateFromHeartbeat\<close> in the tests: a heartbeat takes message 1 back, message 2 is handed out.\<close>

theorem reliable_input_in_order_witness:
  "fst (ris_run [InPush 2 ''b'', InPop, InHeartbeat 2 3, InPush 1 ''a'', InPop, InPush 3 ''c'', InPop]
      ReliableInputStream_init) = [''b'', ''c'']
   \<and> {2, 3} = {1..3} - taken_back [InPush 2 ''b'', InPop, InHeartbeat 2 3, InPush 1 ''a'', InPop, InPush 3 ''c'', InPop] is_init"
proof -
  let ?ops = "[InPush 2 ''b'', InPop, InHeartbeat 2 3, InPush 1 ''a'', InPop, InPush 3 ''c'', InPop]"
  note defs = is_init_def is_push_def is_pop_def is_heartbeat_def is_near_def is_fresh_def
  have hor: "all_in_horizon ?ops is_init" by (simp add: defs)
  have run: "is_run ?ops is_init = ([(2, ''b''), (3, ''c'')], snd (is_run ?ops is_init))" "is_handled (snd (is_run ?ops is_init)) = 3"
    by (simp_all add: defs)
  note reliable_input_in_order [OF hor prod.collapse [symmetric] run(1)]
  then show ?thesis unfolding run(2) by simp
qed

text \<open>Beyond the horizon: a message that was stored and then taken back stays in the map, and 65536 numbers later it is handed
  out in place of the message of that number.\<close>

theorem skipped_message_comes_back:
  "fst (ris_run [InPush 3 ''old'', InHeartbeat 20000 19999, InHeartbeat 40000 39999, InHeartbeat 60000 59999,
      InHeartbeat 65539 65538, InPush 65539 ''new'', InPop] ReliableInputStream_init) = [''old'']"
proof -
  have numbers: "sq 3 = 2" "sq 20000 = 19999" "sq 19999 = 19998" "sq 40000 = 39999" "sq 39999 = 39998" "sq 60000 = 59999" "sq 59999 = 59998"
    "sq 65539 = 2" "sq 65538 = 1" by (simp_all add: sq_def seq_adv_def)
  let ?s = "\<lambda>h a. ReliableInputStream_init\<lparr>ris_last_handled := h, ris_last_announced := a, ris_messages := Map.empty(2 \<mapsto> ''old'')\<rparr>"
  have push: "snd (ris_push_message 2 ''old'' ReliableInputStream_init) = ?s 65535 2"
    by (simp add: ris_push_message_def ReliableInputStream_init_def seq_gt_def seq_le_def seq_lt_dist seq_dist_def seq_adv_def emplace_def)
  have beats: "ris_update_from_heartbeat 19999 19998 (?s 65535 2) = ?s 19998 19998"
    "ris_update_from_heartbeat 39999 39998 (?s 19998 19998) = ?s 39998 39998" "ris_update_from_heartbeat 59999 59998 (?s 39998 39998) = ?s 59998 59998"
    "ris_update_from_heartbeat 2 1 (?s 59998 59998) = ?s 1 1"
    by (simp_all add: ris_update_from_heartbeat_def seq_lt_dist seq_dist_def seq_adv_def seq_sub_int_word)
  have pop: "ris_pop_message (snd (ris_push_message 2 ''new'' (?s 1 1))) = (Some ''old'', snd (ris_pop_message (snd (ris_push_message 2 ''new'' (?s 1 1)))))"
    by (simp add: ris_push_message_def ris_pop_message_def seq_gt_def seq_le_def seq_lt_dist seq_dist_def seq_adv_def emplace_def Let_def)
  show ?thesis by (simp only: ris_run.simps numbers push beats) (subst pop, simp)
qed

text \<open>C2. The acknowledgement says exactly what is missing: its first number is the one after the last
  message handed out, and bit \<open>i\<close> of the 16 bit map (low byte in the second element) is set iff message
  \<open>i\<close> after that has been announced and is not in the stream.\<close>

theorem fill_acknack_exact:
  assumes "all_in_horizon ops is_init" and "i < 8"
    and "s = snd (ris_run ops ReliableInputStream_init)" and "a = snd (is_run ops is_init)"
  shows "ack_first_unacked_seq_num (ris_fill_acknack s ack) = sq (Suc (is_handled a))
    \<and> bit (ack_nack_bitmap_1 (ris_fill_acknack s ack)) i = is_missing a i
    \<and> bit (ack_nack_bitmap_0 (ris_fill_acknack s ack)) i = is_missing a (i + 8)"
proof -
  have rel: "is_rel s a" using ris_run_refines [OF is_rel_init assms(1)] assms(3,4) by simp
  with assms(2) is_rel_missing [OF rel, of i] is_rel_missing [OF rel, of "i + 8"] show ?thesis
    by (simp add: fill_acknack_bits is_rel_def)
qed

theorem fill_acknack_exact_witness:
  "bit (ack_nack_bitmap_1 (ris_fill_acknack (snd (ris_run [InPush 3 (), InHeartbeat 1 5] ReliableInputStream_init)) ACKNACK_init)) 0
   \<and> \<not> bit (ack_nack_bitmap_1 (ris_fill_acknack (snd (ris_run [InPush 3 (), InHeartbeat 1 5] ReliableInputStream_init)) ACKNACK_init)) 2"
proof -
  have hor: "all_in_horizon [InPush 3 (), InHeartbeat 1 5] is_init"
    by (simp add: is_init_def is_push_def is_heartbeat_def is_near_def is_fresh_def)
  have "is_missing (snd (is_run [InPush 3 (), InHeartbeat 1 5] is_init)) 0"
    "\<not> is_missing (snd (is_run [InPush 3 (), InHeartbeat 1 5] is_init)) 2"
    by (simp_all add: is_init_def is_push_def is_heartbeat_def is_missing_def)
  with fill_acknack_exact [OF hor _ refl refl, of 0] fill_acknack_exact [OF hor _ refl refl, of 2]
  show ?thesis by simp
qed

end
