(* ===== verification/OutputStream.thy ===== *)
theory OutputStream
  imports InputStream
begin

text \<open>
  The output streams of a session, \<open>include/uxr/agent/client/session/stream/OutputStream.hpp\<close>. Methods
  run under the mutex of their stream and are atomic functions; \<open>push_submessage\<close> of the reliable
  stream waits on a condition variable, so the state it is given is the one in which the wait ended.
  A submessage is a \<open>payload\<close> (its serialized size and how it is written); messages in the maps are
  shared pointers to messages that no longer change.
\<close>

section \<open>NoneOutputStream and BestEffortOutputStream\<close>

record SessionInfo =
  si_client_key :: ClientKey
  si_session_id :: SessionId
  si_mtu :: nat

definition stream_header :: "SessionInfo \<Rightarrow> StreamId \<Rightarrow> SeqNum \<Rightarrow> MessageHeader" where
  "stream_header session_info stream_id sequence_nr =
     \<lparr>mh_session_id = si_session_id session_info, mh_stream_id = stream_id,
      mh_sequence_nr = sequence_nr, mh_client_key = si_client_key session_info\<rparr>"

record 'c NoneOutputStream =
  nos_messages :: "'c OutputMessage list"

definition NoneOutputStream_init :: "'c NoneOutputStream" where
  "NoneOutputStream_init = \<lparr>nos_messages = []\<rparr>"

definition nos_reset :: "'c NoneOutputStream \<Rightarrow> 'c NoneOutputStream" where
  "nos_reset s = s\<lparr>nos_messages := []\<rparr>"

definition nos_push_submessage :: "('c, 'x) fastcdr_scheme \<Rightarrow> SessionInfo \<Rightarrow> SubmessageId \<Rightarrow> 'c payload \<Rightarrow>
    'c NoneOutputStream \<Rightarrow> bool \<times> 'c NoneOutputStream" where
  "nos_push_submessage C session_info submessage_id submessage s =
     (if unat BEST_EFFORT_STREAM_DEPTH > length (nos_messages s)
      then (case append_submessage C submessage_id submessage 0x01
               (OutputMessage_new C (stream_header session_info STREAMID_NONE 0) (si_mtu session_info)) of
              (True, m) \<Rightarrow> (True, s\<lparr>nos_messages := nos_messages s @ [m]\<rparr>)
            | (False, _) \<Rightarrow> (False, s))
      else (False, s))"

definition nos_pop_message :: "'c NoneOutputStream \<Rightarrow> 'c OutputMessage option \<times> 'c NoneOutputStream" where
  "nos_pop_message s =
     (case nos_messages s of
        [] \<Rightarrow> (None, s)
      | m # ms \<Rightarrow> (Some m, s\<lparr>nos_messages := ms\<rparr>))"

record 'c BestEffortOutputStream =
  bos_messages :: "'c OutputMessage list"
  bos_last_sent :: SeqNum

definition BestEffortOutputStream_init :: "'c BestEffortOutputStream" where
  "BestEffortOutputStream_init = \<lparr>bos_messages = [], bos_last_sent = 65535\<rparr>"

definition bos_reset :: "'c BestEffortOutputStream \<Rightarrow> 'c BestEffortOutputStream" where
  "bos_reset s = s\<lparr>bos_messages := [], bos_last_sent := 65535\<rparr>"

text \<open>A submessage larger than the transport unit is only warned about, with result true.\<close>

definition bos_push_submessage :: "('c, 'x) fastcdr_scheme \<Rightarrow> SessionInfo \<Rightarrow> StreamId \<Rightarrow> SubmessageId \<Rightarrow> 'c payload \<Rightarrow>
    'c BestEffortOutputStream \<Rightarrow> bool \<times> 'c BestEffortOutputStream" where
  "bos_push_submessage C session_info stream_id submessage_id submessage s =
     (if unat BEST_EFFORT_STREAM_DEPTH > length (bos_messages s)
      then (let header = stream_header session_info stream_id (seq_add_int (bos_last_sent s) 1);
                output_message = OutputMessage_new C header (si_mtu session_info)
            in if si_mtu session_info < pl_size submessage then (True, s)
               else (case append_submessage C submessage_id submessage 0x01 output_message of
                       (True, m) \<Rightarrow> (True, s\<lparr>bos_messages := bos_messages s @ [m],
                                              bos_last_sent := seq_add_int (bos_last_sent s) 1\<rparr>)
                     | (False, _) \<Rightarrow> (False, s)))
      else (False, s))"

definition bos_pop_message :: "'c BestEffortOutputStream \<Rightarrow> 'c OutputMessage option \<times> 'c BestEffortOutputStream" where
  "bos_pop_message s =
     (case bos_messages s of
        [] \<Rightarrow> (None, s)
      | m # ms \<Rightarrow> (Some m, s\<lparr>bos_messages := ms\<rparr>))"

section \<open>ReliableOutputStream\<close>

record 'c ReliableOutputStream =
  ros_messages :: "SeqNum \<rightharpoonup> 'c OutputMessage"
  ros_last_unacked :: SeqNum
  ros_last_sent :: SeqNum
  ros_first_unacked :: SeqNum

definition ReliableOutputStream_init :: "'c ReliableOutputStream" where
  "ReliableOutputStream_init =
     \<lparr>ros_messages = Map.empty, ros_last_unacked = 65535, ros_last_sent = 65535, ros_first_unacked = 0\<rparr>"

definition ros_reset :: "'c ReliableOutputStream \<Rightarrow> 'c ReliableOutputStream" where
  "ros_reset s = s\<lparr>ros_last_unacked := 65535, ros_last_sent := 65535, ros_first_unacked := 0,
                   ros_messages := Map.empty\<rparr>"

text \<open>The predicate \<open>push_submessage\<close> waits for.\<close>

definition ros_has_room :: "'c ReliableOutputStream \<Rightarrow> bool" where
  "ros_has_room s \<longleftrightarrow>
     seq_lt (ros_last_unacked s) (seq_add (ros_first_unacked s) (RELIABLE_STREAM_DEPTH - 1))"

text \<open>\<open>last_unacked_ += 1\<close>, then \<open>messages_.insert\<close> of a message that was built under that number.\<close>

definition ros_next_seq :: "'c ReliableOutputStream \<Rightarrow> 'c ReliableOutputStream" where
  "ros_next_seq s = s\<lparr>ros_last_unacked := seq_add_int (ros_last_unacked s) 1\<rparr>"

definition ros_insert :: "'c OutputMessage \<Rightarrow> 'c ReliableOutputStream \<Rightarrow> 'c ReliableOutputStream" where
  "ros_insert m s = s\<lparr>ros_messages := fst (emplace (ros_messages s) (ros_last_unacked s) m)\<rparr>"

text \<open>
  One round of the fragmentation loop: whether the fragment went in, the bytes serialized so far
  (a \<open>uint16_t\<close>), the fragment subheader, the stream. \<open>None\<close>: it would read outside the buffer.
\<close>

definition ros_fragment_step :: "('c, 'x) fastcdr_scheme \<Rightarrow> SessionInfo \<Rightarrow> StreamId \<Rightarrow> u8 \<Rightarrow> u8 list \<Rightarrow>
    nat \<Rightarrow> nat \<Rightarrow> u16 \<Rightarrow> SubmessageHeader \<Rightarrow> 'c ReliableOutputStream \<Rightarrow>
    (bool \<times> u16 \<times> SubmessageHeader \<times> 'c ReliableOutputStream) option" where
  "ros_fragment_step C session_info stream_id flags buf header_size subheader_size
       serialized_size fragment_subheader s =
     (let submessage_size = length buf;
          max_fragment_size = of_nat (si_mtu session_info) - of_nat header_size - of_nat subheader_size :: u64;
          partial = si_mtu session_info < header_size + subheader_size + (submessage_size - unat serialized_size);
          fragment_size = (if partial then ucast max_fragment_size
                           else of_nat (submessage_size - unat serialized_size)) :: u16;
          fragment_subheader = (if partial then fragment_subheader
                                else fragment_subheader\<lparr>sh_flags := flags OR FLAG_LAST_FRAGMENT\<rparr>);
          fragment_subheader = fragment_subheader\<lparr>sh_submessage_length := fragment_size\<rparr>;
          current_message_size = header_size + subheader_size + unat fragment_size;
          s = ros_next_seq s;
          output_message = OutputMessage_new C (stream_header session_info stream_id (ros_last_unacked s))
                             current_message_size
      in if unat serialized_size + unat fragment_size > submessage_size then None
         else (case append_fragment C fragment_subheader
                      (take (unat fragment_size) (drop (unat serialized_size) buf)) output_message of
                 (True, m) \<Rightarrow> Some (True, serialized_size + fragment_size, fragment_subheader, ros_insert m s)
               | (False, _) \<Rightarrow> Some (False, serialized_size, fragment_subheader, s)))"

text \<open>The \<open>do ... while\<close> around it. No result: an out-of-bounds read, or the loop never ends.\<close>

partial_function (option) ros_fragment_loop :: "('c, 'x) fastcdr_scheme \<Rightarrow> SessionInfo \<Rightarrow> StreamId \<Rightarrow> u8 \<Rightarrow> u8 list \<Rightarrow>
    nat \<Rightarrow> nat \<Rightarrow> u16 \<Rightarrow> SubmessageHeader \<Rightarrow> 'c ReliableOutputStream \<Rightarrow>
    (u16 \<times> 'c ReliableOutputStream) option" where
  "ros_fragment_loop C session_info stream_id flags buf header_size subheader_size
       serialized_size fragment_subheader s =
     Option.bind (ros_fragment_step C session_info stream_id flags buf header_size subheader_size
                    serialized_size fragment_subheader s)
       (\<lambda>(pushed, serialized_size, fragment_subheader, s).
          if pushed \<and> unat serialized_size < length buf
          then ros_fragment_loop C session_info stream_id flags buf header_size subheader_size
                 serialized_size fragment_subheader s
          else Some (serialized_size, s))"

declare ros_fragment_loop.simps [code]

text \<open>Serializing the submessage to be fragmented is outside any \<open>try\<close>: it can throw.\<close>

datatype push_result = Pushed bool | PushThrew

definition ros_push_submessage :: "('c, 'x) fastcdr_scheme \<Rightarrow> SessionInfo \<Rightarrow> StreamId \<Rightarrow> SubmessageId \<Rightarrow> 'c payload \<Rightarrow>
    'c ReliableOutputStream \<Rightarrow> (push_result \<times> 'c ReliableOutputStream) option" where
  "ros_push_submessage C session_info stream_id submessage_id submessage s =
     (if ros_has_room s
      then (let header = stream_header session_info stream_id 0;
                submessage_header = \<lparr>sh_submessage_id = submessage_id, sh_flags = FLAG_LITTLE_ENDIANNESS,
                                     sh_submessage_length = of_nat (pl_size submessage)\<rparr>;
                header_size = mh_getCdrSerializedSize C header 0;
                subheader_size = sh_getCdrSerializedSize C 0;
                submessage_size = subheader_size + pl_size submessage
            in if header_size + submessage_size \<le> si_mtu session_info
               then (let s = ros_next_seq s;
                         output_message = OutputMessage_new C
                           (stream_header session_info stream_id (ros_last_unacked s)) (header_size + submessage_size)
                     in case append_submessage C submessage_id submessage 0x01 output_message of
                          (True, m) \<Rightarrow> Some (Pushed True, ros_insert m s)
                        | (False, _) \<Rightarrow> Some (Pushed False, s))
               else (case ser_then (sh_serialize C submessage_header) (pl_serialize submessage)
                            (cdr_open C (replicate submessage_size 0)) of
                       (False, _) \<Rightarrow> Some (PushThrew, s)
                     | (True, c) \<Rightarrow>
                         (case ros_fragment_loop C session_info stream_id FLAG_LITTLE_ENDIANNESS
                                 (take submessage_size (cdr_buffer C c)) header_size subheader_size 0
                                 \<lparr>sh_submessage_id = FRAGMENT, sh_flags = FLAG_LITTLE_ENDIANNESS,
                                  sh_submessage_length = ucast (of_nat (si_mtu session_info)
                                    - of_nat header_size - of_nat subheader_size :: u64)\<rparr> s of
                            None \<Rightarrow> None
                          | Some (serialized_size, s) \<Rightarrow>
                              Some (Pushed (unat serialized_size = submessage_size), s))))
      else Some (Pushed False, s))"

text \<open>\<open>messages_.at\<close> throws when the number is not in the map; \<open>last_sent_\<close> has moved by then.\<close>

datatype 'm next_message = NoMessage | NextMessage 'm | NextThrew

definition ros_get_next_message :: "'c ReliableOutputStream \<Rightarrow> 'c OutputMessage next_message \<times> 'c ReliableOutputStream" where
  "ros_get_next_message s =
     (if seq_lt (ros_last_sent s) (ros_last_unacked s)
      then (let s = s\<lparr>ros_last_sent := seq_add_int (ros_last_sent s) 1\<rparr>
            in case ros_messages s (ros_last_sent s) of
                 Some m \<Rightarrow> (NextMessage m, s)
               | None \<Rightarrow> (NextThrew, s))
      else (NoMessage, s))"

definition ros_get_message :: "SeqNum \<Rightarrow> 'c ReliableOutputStream \<Rightarrow> 'c OutputMessage option" where
  "ros_get_message seq_num s = ros_messages s seq_num"

function ros_erase_acked :: "SeqNum \<Rightarrow> 'c ReliableOutputStream \<Rightarrow> 'c ReliableOutputStream" where
  "ros_erase_acked first_unacked s =
     (if seq_gt first_unacked (ros_first_unacked s)
      then ros_erase_acked first_unacked
             (s\<lparr>ros_messages := erase (ros_messages s) (ros_first_unacked s),
                ros_first_unacked := seq_add_int (ros_first_unacked s) 1\<rparr>)
      else s)"
  by auto
termination
proof (relation "measure (\<lambda>(first, s). seq_dist (ros_first_unacked s) first)")
  fix first :: SeqNum and s :: "'c ReliableOutputStream"
  assume "seq_gt first (ros_first_unacked s)"
  then obtain n where d: "seq_dist (ros_first_unacked s) first = Suc n"
    by (auto simp: seq_gt_def seq_lt_dist gr0_conv_Suc)
  have "seq_dist (seq_adv (ros_first_unacked s) 1) (seq_adv (ros_first_unacked s) (Suc n)) = n"
    using seq_dist_bound [of "ros_first_unacked s" first] by (simp add: d sn.dist_adv_adv)
  then have "seq_dist (seq_adv (ros_first_unacked s) 1) first = n"
    by (metis d sn.adv_dist)
  then show "((first, s\<lparr>ros_messages := erase (ros_messages s) (ros_first_unacked s),
                ros_first_unacked := seq_add_int (ros_first_unacked s) 1\<rparr>), first, s)
      \<in> measure (\<lambda>(first, s). seq_dist (ros_first_unacked s) first)"
    by (simp add: d)
qed simp

declare ros_erase_acked.simps [simp del]

definition ros_update_from_acknack :: "SeqNum \<Rightarrow> 'c ReliableOutputStream \<Rightarrow> 'c ReliableOutputStream" where
  "ros_update_from_acknack first_unacked s =
     (if seq_le first_unacked (seq_add_int (ros_last_sent s) 1) then ros_erase_acked first_unacked s else s)"

record HEARTBEAT_Payload =
  hb_first_unacked_seq_nr :: u16
  hb_last_unacked_seq_nr :: u16
  hb_stream_id :: StreamId

definition HEARTBEAT_init :: HEARTBEAT_Payload where
  "HEARTBEAT_init = \<lparr>hb_first_unacked_seq_nr = 0, hb_last_unacked_seq_nr = 0, hb_stream_id = 0\<rparr>"

text \<open>The map of the stream is finite; it is empty when no 16 bit number is in it.\<close>

definition ros_no_messages :: "'c ReliableOutputStream \<Rightarrow> bool" where
  "ros_no_messages s \<longleftrightarrow> ros_messages s = Map.empty"

lemma ros_no_messages_code [code]:
  "ros_no_messages s \<longleftrightarrow> (\<forall>n \<in> set [0..<65536]. ros_messages s (of_nat n) = None)"
proof -
  have "ros_messages s k = None" if "\<forall>n \<in> set [0..<65536]. ros_messages s (of_nat n) = None" for k
    using that [rule_format, of "unat k"] unat_u16_less [of k] by simp
  then show ?thesis by (auto simp: ros_no_messages_def fun_eq_iff)
qed

definition ros_fill_heartbeat :: "'c ReliableOutputStream \<Rightarrow> HEARTBEAT_Payload \<Rightarrow> bool \<times> HEARTBEAT_Payload" where
  "ros_fill_heartbeat s heartbeat =
     (\<not> ros_no_messages s,
      heartbeat\<lparr>hb_first_unacked_seq_nr := ros_first_unacked s, hb_last_unacked_seq_nr := ros_last_unacked s\<rparr>)"

section \<open>The unreliable output queues\<close>

abbreviation (input) none_message :: "('c, 'x) fastcdr_scheme \<Rightarrow> SessionInfo \<times> SubmessageId \<times> 'c payload \<Rightarrow> bool \<times> 'c OutputMessage" where
  "none_message C i \<equiv> append_submessage C (fst (snd i)) (snd (snd i)) 0x01
     (OutputMessage_new C (stream_header (fst i) STREAMID_NONE 0) (si_mtu (fst i)))"

interpretation nos: bounded_fifo
  "\<lambda>i s. length (nos_messages s) < unat BEST_EFFORT_STREAM_DEPTH \<and> fst (none_message C i)"
  "\<lambda>i s. snd (none_message C i)"
  "\<lambda>i. nos_push_submessage C (fst i) (fst (snd i)) (snd (snd i))" nos_pop_message nos_messages 16
  for C :: "('c, 'x) fastcdr_scheme"
  by unfold_locales (auto simp: nos_push_submessage_def nos_pop_message_def split: prod.splits bool.splits)

text \<open>A push on a best-effort stream: the session, the stream, the submessage.\<close>

type_synonym 'c stream_push = "SessionInfo \<times> StreamId \<times> SubmessageId \<times> 'c payload"

definition bos_message :: "('c, 'x) fastcdr_scheme \<Rightarrow> 'c stream_push \<Rightarrow> 'c BestEffortOutputStream \<Rightarrow> bool \<times> 'c OutputMessage" where
  "bos_message C i s = (case i of (si, sid, sub, p) \<Rightarrow>
     append_submessage C sub p 0x01 (OutputMessage_new C (stream_header si sid (seq_add_int (bos_last_sent s) 1)) (si_mtu si)))"

definition bos_accepts :: "('c, 'x) fastcdr_scheme \<Rightarrow> 'c stream_push \<Rightarrow> 'c BestEffortOutputStream \<Rightarrow> bool" where
  "bos_accepts C i s \<longleftrightarrow> length (bos_messages s) < unat BEST_EFFORT_STREAM_DEPTH \<and>
     pl_size (snd (snd (snd i))) \<le> si_mtu (fst i) \<and> fst (bos_message C i s)"

definition bos_push :: "('c, 'x) fastcdr_scheme \<Rightarrow> 'c stream_push \<Rightarrow> 'c BestEffortOutputStream \<Rightarrow> bool \<times> 'c BestEffortOutputStream" where
  "bos_push C i s = (case i of (si, sid, sub, p) \<Rightarrow> bos_push_submessage C si sid sub p s)"

lemma bos_push_unfold:
  "snd (bos_push C i s) =
     (if bos_accepts C i s
      then s\<lparr>bos_messages := bos_messages s @ [snd (bos_message C i s)], bos_last_sent := seq_add_int (bos_last_sent s) 1\<rparr>
      else s)"
  by (cases i) (auto simp: bos_push_def bos_push_submessage_def bos_accepts_def bos_message_def Let_def
      split: prod.splits bool.splits)

interpretation bos: bounded_fifo
  "bos_accepts C" "\<lambda>i s. snd (bos_message C i s)" "bos_push C" bos_pop_message bos_messages 16
  for C :: "('c, 'x) fastcdr_scheme"
  by unfold_locales (auto simp: bos_push_unfold bos_accepts_def bos_pop_message_def)

section \<open>Reliable output over unbounded numbers\<close>

text \<open>
  The specification counts messages from 1: the first one not acknowledged, the last one pushed, the
  last one sent; every message between the first and the last is kept.
\<close>

record 'm output_spec =
  os_first :: nat
  os_last :: nat
  os_sent :: nat
  os_buffer :: "nat \<rightharpoonup> 'm"

definition os_init :: "'m output_spec" where
  "os_init = \<lparr>os_first = 1, os_last = 0, os_sent = 0, os_buffer = Map.empty\<rparr>"

definition os_push :: "'m \<Rightarrow> 'm output_spec \<Rightarrow> 'm output_spec" where
  "os_push m a = a\<lparr>os_last := Suc (os_last a), os_buffer := (os_buffer a)(Suc (os_last a) \<mapsto> m)\<rparr>"

definition os_next :: "'m output_spec \<Rightarrow> 'm next_message \<times> 'm output_spec" where
  "os_next a =
     (if os_sent a < os_last a
      then (NextMessage (the (os_buffer a (Suc (os_sent a)))), a\<lparr>os_sent := Suc (os_sent a)\<rparr>)
      else (NoMessage, a))"

definition os_ack :: "nat \<Rightarrow> 'm output_spec \<Rightarrow> 'm output_spec" where
  "os_ack first a =
     (if os_first a < first \<and> first \<le> os_sent a + 1
      then a\<lparr>os_first := first, os_buffer := os_buffer a |` {first..}\<rparr> else a)"

definition os_ok :: "'m output_spec \<Rightarrow> bool" where
  "os_ok a \<longleftrightarrow> 0 < os_first a \<and> os_first a \<le> os_sent a + 1 \<and> os_sent a \<le> os_last a \<and>
     os_last a < os_first a + 32766 \<and> dom (os_buffer a) = {os_first a..os_last a}"

definition os_rel :: "'c ReliableOutputStream \<Rightarrow> 'c OutputMessage output_spec \<Rightarrow> bool" where
  "os_rel s a \<longleftrightarrow> os_ok a \<and> ros_first_unacked s = sq (os_first a) \<and> ros_last_unacked s = sq (os_last a) \<and>
     ros_last_sent s = sq (os_sent a) \<and>
     (\<forall>d < 65536. ros_messages s (sq (os_first a + d)) = os_buffer a (os_first a + d))"

definition ros_append :: "'c OutputMessage \<Rightarrow> 'c ReliableOutputStream \<Rightarrow> 'c ReliableOutputStream" where
  "ros_append m s = ros_insert m (ros_next_seq s)"

lemma sq_0 [simp]: "sq 0 = 65535" and sq_1 [simp]: "sq (Suc 0) = 0"
  by (simp_all add: sq_def seq_adv_def)

lemma os_rel_init: "os_rel ReliableOutputStream_init os_init"
  by (simp add: os_rel_def os_ok_def ReliableOutputStream_init_def os_init_def)

lemma os_rel_lookup:
  assumes "os_rel s a" and "os_first a \<le> k" and "k < os_first a + 65536"
  shows "ros_messages s (sq k) = os_buffer a k"
  using assms(1) [unfolded os_rel_def, THEN conjunct2, THEN conjunct2, THEN conjunct2, THEN conjunct2, rule_format,
      of "k - os_first a"] assms(2,3) by simp

lemma os_buffer_outside: "os_ok a \<Longrightarrow> k < os_first a \<or> os_last a < k \<Longrightarrow> os_buffer a k = None"
proof -
  assume "os_ok a" "k < os_first a \<or> os_last a < k"
  then have "k \<notin> dom (os_buffer a)" by (auto simp: os_ok_def)
  then show ?thesis by auto
qed

lemma os_rel_room:
  "os_rel s a \<Longrightarrow> ros_has_room s \<longleftrightarrow> os_last a \<le> os_first a + 14"
  using sq_lt [of "os_last a" "os_first a + 15"] seq_add_adv [of 15 "sq (os_first a)"]
  by (auto simp: os_rel_def os_ok_def ros_has_room_def RELIABLE_STREAM_DEPTH_def sq_add)

lemma os_rel_append:
  assumes rel: "os_rel s a" and "os_last a + 1 < os_first a + 32766"
  shows "os_rel (ros_append m s) (os_push m a)"
proof -
  from rel have s: "ros_first_unacked s = sq (os_first a)" "ros_last_unacked s = sq (os_last a)"
    "ros_last_sent s = sq (os_sent a)" and ok: "os_ok a" by (simp_all add: os_rel_def)
  have "os_buffer a (Suc (os_last a)) = None" using ok by (simp add: os_buffer_outside)
  then have fresh: "ros_messages s (sq (Suc (os_last a))) = None"
    using ok assms(2) os_rel_lookup [OF rel, of "Suc (os_last a)"] by (simp add: os_ok_def)
  have le: "os_first a \<le> Suc (os_last a)" using ok by (simp add: os_ok_def)
  have upd: "((ros_messages s)(sq (Suc (os_last a)) \<mapsto> m)) (sq (os_first a + d))
      = ((os_buffer a)(Suc (os_last a) \<mapsto> m)) (os_first a + d)" if "d < 65536" for d
    using that le assms(2) sq_inject [of d "Suc (os_last a) - os_first a" "os_first a"]
      os_rel_lookup [OF rel, of "os_first a + d"] by auto
  have "os_ok (os_push m a)"
    using ok assms(2) by (auto simp: os_ok_def os_push_def)
  then show ?thesis
    using upd fresh by (simp add: os_rel_def ros_append_def ros_insert_def ros_next_seq_def s os_push_def)
qed

lemma os_rel_next:
  assumes rel: "os_rel s a"
  shows "fst (ros_get_next_message s) = fst (os_next a)" and "os_rel (snd (ros_get_next_message s)) (snd (os_next a))"
proof -
  from rel have s: "ros_last_unacked s = sq (os_last a)" "ros_last_sent s = sq (os_sent a)" and ok: "os_ok a"
    by (simp_all add: os_rel_def)
  have lt: "seq_lt (sq (os_sent a)) (sq (os_last a)) \<longleftrightarrow> os_sent a < os_last a"
    using ok by (intro sq_lt) (auto simp: os_ok_def)
  have "fst (ros_get_next_message s) = fst (os_next a) \<and> os_rel (snd (ros_get_next_message s)) (snd (os_next a))"
  proof (cases "os_sent a < os_last a")
    case False
    then show ?thesis using rel lt by (simp add: ros_get_next_message_def os_next_def s)
  next
    case True
    then have "Suc (os_sent a) \<in> dom (os_buffer a)" using ok by (auto simp: os_ok_def)
    then obtain m where m: "os_buffer a (Suc (os_sent a)) = Some m" by auto
    moreover have "ros_messages s (sq (Suc (os_sent a))) = os_buffer a (Suc (os_sent a))"
      using ok True by (intro os_rel_lookup [OF rel]) (auto simp: os_ok_def)
    moreover have "os_ok (a\<lparr>os_sent := Suc (os_sent a)\<rparr>)" using ok True by (auto simp: os_ok_def)
    ultimately show ?thesis
      using True lt rel by (simp add: ros_get_next_message_def os_next_def s os_rel_def)
  qed
  then show "fst (ros_get_next_message s) = fst (os_next a)"
    and "os_rel (snd (ros_get_next_message s)) (snd (os_next a))" by auto
qed

lemma os_rel_erase_first:
  assumes rel: "os_rel s a" and "os_first a \<le> os_sent a"
  shows "os_rel (s\<lparr>ros_messages := erase (ros_messages s) (ros_first_unacked s),
                  ros_first_unacked := seq_add_int (ros_first_unacked s) 1\<rparr>)
                (a\<lparr>os_first := Suc (os_first a), os_buffer := os_buffer a |` {Suc (os_first a)..}\<rparr>)"
proof -
  let ?F = "os_first a"
  from rel have s: "ros_first_unacked s = sq ?F" "ros_last_unacked s = sq (os_last a)"
    "ros_last_sent s = sq (os_sent a)" and ok: "os_ok a" by (simp_all add: os_rel_def)
  have upd: "erase (ros_messages s) (sq ?F) (sq (Suc (?F + d))) = (os_buffer a |` {Suc ?F..}) (Suc (?F + d))"
    if "d < 65536" for d
  proof (cases "d < 65535")
    case True
    then show ?thesis
      using sq_inject [of "Suc d" 0 ?F] os_rel_lookup [OF rel, of "Suc (?F + d)"] by (auto simp: erase_def)
  next
    case False
    then have d: "Suc (?F + d) = ?F + 65536" using that by simp
  have "os_buffer a (?F + 65536) = None" using ok by (intro os_buffer_outside) (auto simp: os_ok_def)
    then show ?thesis unfolding d by (simp add: erase_def restrict_map_def)
  qed
  have "os_ok (a\<lparr>os_first := Suc ?F, os_buffer := os_buffer a |` {Suc ?F..}\<rparr>)"
    using ok assms(2) by (auto simp: os_ok_def)
  then show ?thesis using upd by (simp add: os_rel_def s)
qed

lemma os_rel_erase_acked:
  assumes "os_rel s a" and "os_first a \<le> first" and "first \<le> os_sent a + 1"
  shows "os_rel (ros_erase_acked (sq first) s)
           (if os_first a < first then a\<lparr>os_first := first, os_buffer := os_buffer a |` {first..}\<rparr> else a)"
  using assms
proof (induction "first - os_first a" arbitrary: s a)
  case 0
  then have "ros_first_unacked s = sq first" by (simp add: os_rel_def)
  then show ?case using 0 by (subst ros_erase_acked.simps) (simp add: seq_gt_def sn.lt_irrefl)
next
  case (Suc n)
  let ?s = "s\<lparr>ros_messages := erase (ros_messages s) (ros_first_unacked s),
                  ros_first_unacked := seq_add_int (ros_first_unacked s) 1\<rparr>"
  let ?a = "a\<lparr>os_first := Suc (os_first a), os_buffer := os_buffer a |` {Suc (os_first a)..}\<rparr>"
  have f: "ros_first_unacked s = sq (os_first a)" and ok: "os_ok a" using Suc.prems(1) by (simp_all add: os_rel_def)
  have "seq_gt (sq first) (ros_first_unacked s)"
    using Suc.hyps(2) Suc.prems ok sq_lt [of "os_first a" first] by (simp add: f seq_gt_def os_ok_def)
  then have step: "ros_erase_acked (sq first) s = ros_erase_acked (sq first) ?s"
    by (subst ros_erase_acked.simps) simp
  have rel: "os_rel ?s ?a" using Suc.hyps(2) Suc.prems by (intro os_rel_erase_first) simp_all
  have "n = first - os_first ?a" "os_first ?a \<le> first" "first \<le> os_sent ?a + 1"
    using Suc.hyps(2) Suc.prems by simp_all
  from Suc.hyps(1) [OF this(1) rel this(2,3)] have IH: "os_rel (ros_erase_acked (sq first) ?s)
      (if os_first ?a < first then ?a\<lparr>os_first := first, os_buffer := os_buffer ?a |` {first..}\<rparr> else ?a)"
    .
  have "(if os_first ?a < first then ?a\<lparr>os_first := first, os_buffer := os_buffer ?a |` {first..}\<rparr> else ?a)
      = a\<lparr>os_first := first, os_buffer := os_buffer a |` {first..}\<rparr>"
  proof (cases "os_first ?a < first")
    case True
    then have "{Suc (os_first a)..} \<inter> {first..} = {first..}" by auto
    then show ?thesis using True by simp
  next
    case False
    then have "first = Suc (os_first a)" using Suc.hyps(2) by simp
    then show ?thesis by simp
  qed
  moreover have "os_first a < first" using Suc.hyps(2) by simp
  ultimately show ?case using IH step by simp
qed

lemma os_rel_ack:
  assumes rel: "os_rel s a" and "os_first a < first + 32768" and "first < os_first a + 32768"
    and "os_sent a + 1 < first + 32768"
  shows "os_rel (ros_update_from_acknack (sq first) s) (os_ack first a)"
proof -
  from rel have s: "ros_first_unacked s = sq (os_first a)" "ros_last_sent s = sq (os_sent a)" and ok: "os_ok a"
    by (simp_all add: os_rel_def)
  have le: "seq_le (sq first) (seq_add_int (ros_last_sent s) 1) \<longleftrightarrow> first \<le> os_sent a + 1"
    using sq_lt [of "os_sent a + 1" first] assms(3,4) ok
    by (auto simp: s seq_le_def seq_gt_def os_ok_def)
  show ?thesis
  proof (cases "os_first a \<le> first")
    case True
    then show ?thesis
      using le rel os_rel_erase_acked [OF rel True] by (auto simp: ros_update_from_acknack_def os_ack_def)
  next
    case False
    then have "\<not> seq_gt (sq first) (ros_first_unacked s)"
      using assms(2) sq_lt [of "os_first a" first] by (simp add: s seq_gt_def)
    then have "ros_erase_acked (sq first) s = s" by (subst ros_erase_acked.simps) simp
    then show ?thesis using False rel by (simp add: ros_update_from_acknack_def os_ack_def)
  qed
qed

text \<open>The heartbeat of a stream that holds messages carries the first number not acknowledged and the last one pushed.\<close>

lemma os_rel_fill_heartbeat:
  assumes rel: "os_rel s a"
  shows "fst (ros_fill_heartbeat s h) \<longleftrightarrow> os_first a \<le> os_last a"
    and "hb_first_unacked_seq_nr (snd (ros_fill_heartbeat s h)) = sq (os_first a)"
    and "hb_last_unacked_seq_nr (snd (ros_fill_heartbeat s h)) = sq (os_last a)"
proof -
  have dom: "dom (os_buffer a) = {os_first a..os_last a}" using rel by (simp add: os_rel_def os_ok_def)
  have look: "ros_messages s (sq (os_first a + d)) = os_buffer a (os_first a + d)" if "d < 65536" for d
    using that rel by (simp add: os_rel_def)
  have "ros_no_messages s \<longleftrightarrow> os_last a < os_first a"
  proof
    assume "ros_no_messages s"
    then have "os_first a \<notin> dom (os_buffer a)" using look [of 0] by (auto simp: ros_no_messages_def)
    then show "os_last a < os_first a" by (auto simp: dom)
  next
    assume "os_last a < os_first a"
    then have none: "os_buffer a k = None" for k using dom by auto
    have "ros_messages s x = None" for x
      using look [of "seq_dist (sq (os_first a)) x"] seq_dist_bound [of "sq (os_first a)" x] none by (simp add: sq_add sn.adv_dist)
    then show "ros_no_messages s" by (auto simp: ros_no_messages_def)
  qed
  then show "fst (ros_fill_heartbeat s h) \<longleftrightarrow> os_first a \<le> os_last a" by (auto simp: ros_fill_heartbeat_def)
qed (use rel in \<open>simp_all add: ros_fill_heartbeat_def os_rel_def\<close>)

end
