(* ===== verification/Fragmentation.thy ===== *)
theory Fragmentation
  imports OutputStream
begin

text \<open>
  Fragmentation and reassembly: \<open>ReliableOutputStream::push_submessage\<close> cuts a submessage that does
  not fit the transport unit into \<open>FRAGMENT\<close> submessages, one message each, and
  \<open>ReliableInputStream::push_fragment\<close> puts them together. The lemmas give the bytes of every fragment,
  the termination of the loop for submessages a \<open>uint16_t\<close> can count, and the round trip.
\<close>

section \<open>What the loop produces\<close>

text \<open>Cutting into pieces of at most \<open>n\<close> bytes, the last one never empty unless all is.\<close>

function chunks :: "nat \<Rightarrow> 'a list \<Rightarrow> 'a list list" where
  "chunks n bs = (if n = 0 \<or> length bs \<le> n then [bs] else take n bs # chunks n (drop n bs))"
  by auto
termination by (relation "measure (\<lambda>(n, bs). length bs)") auto

declare chunks.simps [simp del]

lemma concat_chunks [simp]: "concat (chunks n bs) = bs"
  by (induction n bs rule: chunks.induct) (subst chunks.simps, simp)

lemma chunks_not_Nil [simp]: "chunks n bs \<noteq> []"
  by (subst chunks.simps) simp

lemma chunks_bound: "0 < n \<Longrightarrow> c \<in> set (chunks n bs) \<Longrightarrow> length c \<le> n"
proof (induction n bs rule: chunks.induct)
  case (1 n bs)
  from 1(3) have "c = bs \<and> length bs \<le> n \<or> \<not> length bs \<le> n \<and> (c = take n bs \<or> c \<in> set (chunks n (drop n bs)))"
    using 1(2) by (subst (asm) chunks.simps) (auto split: if_splits)
  then show ?case using 1(1,2) by auto
qed

definition fragment_subheader :: "u8 \<Rightarrow> u8 list \<Rightarrow> SubmessageHeader" where
  "fragment_subheader flags bs =
     \<lparr>sh_submessage_id = FRAGMENT, sh_flags = flags, sh_submessage_length = of_nat (length bs)\<rparr>"

definition fragment_bytes :: "MessageHeader \<Rightarrow> u8 \<Rightarrow> u8 list \<Rightarrow> u8 list" where
  "fragment_bytes h flags bs = header_bytes h @ subheader_bytes (fragment_subheader flags bs) @ bs"

text \<open>The messages on the wire: consecutive numbers, the flag on the last fragment only.\<close>

fun fragment_wires :: "(SeqNum \<Rightarrow> MessageHeader) \<Rightarrow> SeqNum \<Rightarrow> u8 list list \<Rightarrow> u8 list list" where
  "fragment_wires H q [] = []"
| "fragment_wires H q [c] = [fragment_bytes (H (seq_adv q 1)) (FLAG_LITTLE_ENDIANNESS OR FLAG_LAST_FRAGMENT) c]"
| "fragment_wires H q (c # cs) =
     fragment_bytes (H (seq_adv q 1)) FLAG_LITTLE_ENDIANNESS c # fragment_wires H (seq_adv q 1) cs"

lemma fragment_wires_Cons:
  "cs \<noteq> [] \<Longrightarrow> fragment_wires H q (c # cs) =
     fragment_bytes (H (seq_adv q 1)) FLAG_LITTLE_ENDIANNESS c # fragment_wires H (seq_adv q 1) cs"
  by (cases cs) simp_all

lemma length_fragment_wires [simp]: "length (fragment_wires H q cs) = length cs"
  by (induction H q cs rule: fragment_wires.induct) simp_all

definition header_len :: "SessionInfo \<Rightarrow> nat" where
  "header_len si = (if 128 > si_session_id si then 8 else 4)"

lemma stream_header_len [simp]: "length (header_bytes (stream_header si sid q)) = header_len si"
  by (simp add: length_header_bytes stream_header_def header_len_def)

lemma ros_append_last [simp]: "ros_last_unacked (ros_append m s) = seq_adv (ros_last_unacked s) 1"
  by (simp add: ros_append_def ros_insert_def ros_next_seq_def)

text \<open>The first fragment of a remainder in a buffer that fits: one more message in the stream.\<close>

lemma fragment_step:
  assumes C: "fastcdr_ok C" and small: "n \<le> 65535" "min k (length buf - n) \<le> 65535" and n: "n < length buf"
    and hs: "hs = length (header_bytes (stream_header si sid 0))"
    and mtu: "si_mtu si = hs + 4 + k" and id: "sh_submessage_id fsh = FRAGMENT"
    and flags: "sh_flags fsh = f0"
    and size: "p = min k (length buf - n)"
    and fl: "fl = (if k < length buf - n then f0 else FLAG_LITTLE_ENDIANNESS OR FLAG_LAST_FRAGMENT)"
  obtains m where
    "ros_fragment_step C si sid FLAG_LITTLE_ENDIANNESS buf hs 4 (of_nat n) fsh s =
       Some (True, of_nat (n + p), fragment_subheader fl (take p (drop n buf)), ros_append m s)"
    and "om_bytes C m = fragment_bytes (stream_header si sid (seq_adv (ros_last_unacked s) 1)) fl (take p (drop n buf))"
proof -
  have un: "unat (of_nat n :: u16) = n" using small(1) by (intro unat_of_nat_less) simp
  have up: "unat (of_nat p :: u16) = p" using small(2) by (intro unat_of_nat_less) (simp add: size)
  have k64: "of_nat (si_mtu si) - of_nat hs - of_nat 4 = (of_nat k :: u64)" by (simp add: mtu)
  have cut: "(if si_mtu si < hs + 4 + (length buf - n) then ucast (of_nat k :: u64)
      else of_nat (length buf - n)) = (of_nat p :: u16)"
  proof (cases "k < length buf - n")
    case True
    then have "k < 2 ^ 64" using small(2) by simp
    then have "ucast (of_nat k :: u64) = (of_nat k :: u16)"
      by (simp add: unsigned_of_nat take_bit_nat_eq_self)
    moreover have "si_mtu si < hs + 4 + (length buf - n)" unfolding mtu using True by linarith
    moreover have "p = k" unfolding size using True by (intro min_absorb1) linarith
    ultimately show ?thesis by (simp only: if_True)
  next
    case False
    then have "\<not> si_mtu si < hs + 4 + (length buf - n)" unfolding mtu by linarith
    moreover have "p = length buf - n" unfolding size using False by (intro min_absorb2) linarith
    ultimately show ?thesis by (simp only: if_False)
  qed
  let ?bs = "take p (drop n buf)" and ?h = "stream_header si sid (seq_adv (ros_last_unacked s) 1)"
  have len: "length ?bs = p" using n by (simp add: size)
  have "cdr_at C (om_serializer (OutputMessage_new C ?h (hs + 4 + p))) (header_bytes ?h) (replicate (4 + p) 0)"
    by (rule om_new_cursor [OF C]) (simp add: hs)
  then have "cdr_at C (om_serializer (OutputMessage_new C ?h (hs + 4 + p))) (header_bytes ?h) (replicate (4 + p) 0 @ [])"
    by simp
  moreover have "length (replicate (4 + p) (0 :: u8)) = 4 + length ?bs" unfolding len by (rule length_replicate)
  ultimately have "thesis" if "\<And>m'. append_fragment C (fragment_subheader fl ?bs) ?bs (OutputMessage_new C ?h (hs + 4 + p)) = (True, m') \<Longrightarrow>
      cdr_at C (om_serializer m') (header_bytes ?h @ subheader_bytes (fragment_subheader fl ?bs) @ ?bs) [] \<Longrightarrow> thesis" for thesis
    using that by (rule append_fragment_cursor [OF C _ dvd_length_header_bytes])
  then
  obtain m where m: "append_fragment C (fragment_subheader fl ?bs) ?bs (OutputMessage_new C ?h (hs + 4 + p)) = (True, m)"
    "cdr_at C (om_serializer m) (header_bytes ?h @ subheader_bytes (fragment_subheader fl ?bs) @ ?bs) []"
    .
  have sub: "(if si_mtu si < hs + 4 + (length buf - n) then fsh
      else fsh\<lparr>sh_flags := FLAG_LITTLE_ENDIANNESS OR FLAG_LAST_FRAGMENT\<rparr>)\<lparr>sh_submessage_length := of_nat p\<rparr>
      = fragment_subheader fl ?bs"
    using id flags unfolding fragment_subheader_def len by (cases fsh) (simp add: fl mtu)
  have "ros_fragment_step C si sid FLAG_LITTLE_ENDIANNESS buf hs 4 (of_nat n) fsh s =
       Some (True, of_nat n + of_nat p, fragment_subheader fl ?bs, ros_insert m (ros_next_seq s))"
    unfolding ros_fragment_step_def Let_def un k64 cut up sub
    using n m(1) by (simp add: size ros_next_seq_def)
  then show thesis
    using that [of m] om_bytes_cursor [OF m(2)] by (simp add: ros_append_def fragment_bytes_def)
qed

text \<open>The loop ends, with one message per chunk.\<close>

lemma fragment_loop:
  assumes C: "fastcdr_ok C" and buf: "length buf \<le> 65535" and "n < length buf"
    and hs: "hs = length (header_bytes (stream_header si sid 0))"
    and mtu: "si_mtu si = hs + 4 + k" "0 < k" and "sh_submessage_id fsh = FRAGMENT"
    and "sh_flags fsh = FLAG_LITTLE_ENDIANNESS"
  shows "\<exists>ms. ros_fragment_loop C si sid FLAG_LITTLE_ENDIANNESS buf hs 4 (of_nat n) fsh s =
       Some (of_nat (length buf), fold ros_append ms s)
     \<and> map (om_bytes C) ms = fragment_wires (stream_header si sid) (ros_last_unacked s) (chunks k (drop n buf))"
  using assms(3,7,8)
proof (induction "length buf - n" arbitrary: n fsh s rule: less_induct)
  case less
  let ?p = "min k (length buf - n)"
  let ?fl = "if k < length buf - n then FLAG_LITTLE_ENDIANNESS else FLAG_LITTLE_ENDIANNESS OR FLAG_LAST_FRAGMENT"
  have "n \<le> 65535" "?p \<le> 65535" using buf less.prems(1) by auto
  from fragment_step [OF C this less.prems(1) hs mtu(1) less.prems(2,3) refl refl] obtain m where
    step: "ros_fragment_step C si sid FLAG_LITTLE_ENDIANNESS buf hs 4 (of_nat n) fsh s =
       Some (True, of_nat (n + ?p), fragment_subheader ?fl (take ?p (drop n buf)), ros_append m s)"
    and m: "om_bytes C m = fragment_bytes (stream_header si sid (seq_adv (ros_last_unacked s) 1)) ?fl (take ?p (drop n buf))" .
  have un: "unat (of_nat (n + ?p) :: u16) = n + ?p" using buf less.prems(1) by (intro unat_of_nat_less) auto
  show ?case
  proof (cases "k < length buf - n")
    case True
    then have less: "length buf - (n + k) < length buf - n" "n + k < length buf" using mtu(2) by simp_all
    have "sh_submessage_id (fragment_subheader ?fl (take ?p (drop n buf))) = FRAGMENT"
      "sh_flags (fragment_subheader ?fl (take ?p (drop n buf))) = FLAG_LITTLE_ENDIANNESS"
      using True by (simp_all add: fragment_subheader_def)
    from less.hyps [OF less this, of "ros_append m s"] obtain ms where
      IH: "ros_fragment_loop C si sid FLAG_LITTLE_ENDIANNESS buf hs 4 (of_nat (n + k))
            (fragment_subheader ?fl (take ?p (drop n buf))) (ros_append m s) =
         Some (of_nat (length buf), fold ros_append ms (ros_append m s))"
        "map (om_bytes C) ms = fragment_wires (stream_header si sid) (seq_adv (ros_last_unacked s) 1)
          (chunks k (drop (n + k) buf))" by auto
    have c: "chunks k (drop n buf) = take k (drop n buf) # chunks k (drop (n + k) buf)"
      using True mtu(2) by (subst chunks.simps) (simp add: add.commute)
    have "ros_fragment_loop C si sid FLAG_LITTLE_ENDIANNESS buf hs 4 (of_nat n) fsh s =
        Some (of_nat (length buf), fold ros_append (m # ms) s)"
      using IH(1) un less True by (subst ros_fragment_loop.simps) (simp add: step)
    moreover have "map (om_bytes C) (m # ms) =
        fragment_wires (stream_header si sid) (ros_last_unacked s) (chunks k (drop n buf))"
      unfolding c using IH(2) m True by (simp add: fragment_wires_Cons)
    ultimately show ?thesis by blast
  next
    case False
    then have c: "chunks k (drop n buf) = [drop n buf]" by (subst chunks.simps) simp
    have "ros_fragment_loop C si sid FLAG_LITTLE_ENDIANNESS buf hs 4 (of_nat n) fsh s =
        Some (of_nat (length buf), fold ros_append [m] s)"
      using un False less.prems(1) by (subst ros_fragment_loop.simps) (simp add: step)
    moreover have "map (om_bytes C) [m] =
        fragment_wires (stream_header si sid) (ros_last_unacked s) (chunks k (drop n buf))"
      unfolding c using m False by simp
    ultimately show ?thesis by blast
  qed
qed

text \<open>
  A buffer a \<open>uint16_t\<close> cannot count is never used up: \<open>serialized_size\<close> wraps around and stays below
  \<open>submessage_size\<close>, so the loop appends fragments for ever.
\<close>

lemma fragment_loop_no_result:
  assumes "ros_fragment_loop C' si' sid' flags buf' hs' ss ser fsh s = Some y"
    and C: "fastcdr_ok C" and big: "65535 < length buf" and hs: "hs = length (header_bytes (stream_header si sid 0))"
    and mtu: "si_mtu si = hs + 4 + k" "0 < k" "k \<le> 65535"
  shows "\<not> (C' = C \<and> si' = si \<and> sid' = sid \<and> flags = FLAG_LITTLE_ENDIANNESS \<and> buf' = buf \<and> hs' = hs \<and> ss = 4
            \<and> sh_submessage_id fsh = FRAGMENT)"
proof (rule ros_fragment_loop.raw_induct [OF _ assms(1), where P = "\<lambda>C' si' sid' flags buf' hs' ss ser fsh s y.
    \<not> (C' = C \<and> si' = si \<and> sid' = sid \<and> flags = FLAG_LITTLE_ENDIANNESS \<and> buf' = buf \<and> hs' = hs \<and> ss = 4
            \<and> sh_submessage_id fsh = FRAGMENT)"], goal_cases)
  case (1 loop C' si' sid' fl buf' hs' ss ser fsh s y)
  show ?case
  proof
    assume eqs: "C' = C \<and> si' = si \<and> sid' = sid \<and> fl = FLAG_LITTLE_ENDIANNESS \<and> buf' = buf \<and> hs' = hs \<and> ss = 4
            \<and> sh_submessage_id fsh = FRAGMENT"
    then have id: "sh_submessage_id fsh = FRAGMENT" by blast
  define n where "n = unat ser"
  have n: "n \<le> 65535" "n < length buf" and ser: "ser = of_nat n"
    using unat_u16_less [of ser] big by (simp_all add: n_def)
  have p: "min k (length buf - n) \<le> 65535" using mtu(3) by simp
  let ?p = "min k (length buf - n)"
  let ?fl = "if k < length buf - n then sh_flags fsh else FLAG_LITTLE_ENDIANNESS OR FLAG_LAST_FRAGMENT"
  from fragment_step [OF C n(1) p n(2) hs mtu(1) id refl refl refl] obtain m where
    step: "ros_fragment_step C si sid FLAG_LITTLE_ENDIANNESS buf hs 4 (of_nat n) fsh s =
       Some (True, of_nat (n + ?p), fragment_subheader ?fl (take ?p (drop n buf)), ros_append m s)" .
  have "unat (of_nat (n + ?p) :: u16) < 65536" by (rule unat_u16_less)
  then have "unat (of_nat (n + ?p) :: u16) < length buf" using big by linarith
  moreover have "ser = of_nat n" by (rule ser)
  ultimately have "loop C si sid FLAG_LITTLE_ENDIANNESS buf hs 4 (of_nat (n + ?p))
      (fragment_subheader ?fl (take ?p (drop n buf))) (ros_append m s) = Some y"
    using 1(2) unfolding eqs step [folded ser] by (simp only: eqs step bind.bind_lunit prod.case simp_thms if_True)
  from 1(1) [OF this] show False by (simp add: fragment_subheader_def)
  qed
qed

text \<open>
  When the transport unit has room for just the two headers, every fragment is empty: the loop appends empty fragments for
  ever, however short the submessage.
\<close>

lemma fragment_loop_no_room:
  assumes "ros_fragment_loop C' si' sid' flags buf' hs' ss ser fsh s = Some y"
    and C: "fastcdr_ok C" and buf: "buf \<noteq> []" and hs: "hs = length (header_bytes (stream_header si sid 0))" and mtu: "si_mtu si = hs + 4"
  shows "\<not> (C' = C \<and> si' = si \<and> sid' = sid \<and> flags = FLAG_LITTLE_ENDIANNESS \<and> buf' = buf \<and> hs' = hs \<and> ss = 4 \<and> ser = 0
            \<and> sh_submessage_id fsh = FRAGMENT)"
proof (rule ros_fragment_loop.raw_induct [OF _ assms(1), where P = "\<lambda>C' si' sid' flags buf' hs' ss ser fsh s y.
    \<not> (C' = C \<and> si' = si \<and> sid' = sid \<and> flags = FLAG_LITTLE_ENDIANNESS \<and> buf' = buf \<and> hs' = hs \<and> ss = 4 \<and> ser = 0
            \<and> sh_submessage_id fsh = FRAGMENT)"], goal_cases)
  case (1 loop C' si' sid' fl buf' hs' ss ser fsh s y)
  show ?case
  proof
    assume eqs: "C' = C \<and> si' = si \<and> sid' = sid \<and> fl = FLAG_LITTLE_ENDIANNESS \<and> buf' = buf \<and> hs' = hs \<and> ss = 4 \<and> ser = 0
            \<and> sh_submessage_id fsh = FRAGMENT"
    then have id: "sh_submessage_id fsh = FRAGMENT" by blast
    have small: "0 \<le> (65535 :: nat)" "min 0 (length buf - 0) \<le> 65535" "0 < length buf" "si_mtu si = hs + 4 + 0" using buf mtu by simp_all
    from fragment_step [OF C small(1-3) hs small(4) id refl refl refl] obtain m where
      step: "ros_fragment_step C si sid FLAG_LITTLE_ENDIANNESS buf hs 4 0 fsh s =
         Some (True, 0, fragment_subheader (sh_flags fsh) [], ros_append m s)" using buf by auto
    have "unat (0 :: u16) < length buf" using buf by simp
    then have "loop C si sid FLAG_LITTLE_ENDIANNESS buf hs 4 0 (fragment_subheader (sh_flags fsh) []) (ros_append m s) = Some y"
      using 1(2) by (simp only: eqs step bind.bind_lunit prod.case simp_thms if_True)
    from 1(1) [OF this] show False by (simp add: fragment_subheader_def)
  qed
qed

section \<open>push_submessage\<close>

text \<open>The messages a submessage of \<open>bs\<close> bytes becomes after number \<open>q\<close>.\<close>

definition submessage_header :: "SubmessageId \<Rightarrow> u8 list \<Rightarrow> SubmessageHeader" where
  "submessage_header sub bs =
     \<lparr>sh_submessage_id = sub, sh_flags = FLAG_LITTLE_ENDIANNESS, sh_submessage_length = of_nat (length bs)\<rparr>"

definition submessage_wires :: "SessionInfo \<Rightarrow> StreamId \<Rightarrow> SeqNum \<Rightarrow> SubmessageId \<Rightarrow> u8 list \<Rightarrow> u8 list list" where
  "submessage_wires si sid q sub bs =
     (if header_len si + 4 + length bs \<le> si_mtu si
      then [header_bytes (stream_header si sid (seq_adv q 1)) @ subheader_bytes (submessage_header sub bs) @ bs]
      else fragment_wires (stream_header si sid) q
             (chunks (si_mtu si - header_len si - 4) (subheader_bytes (submessage_header sub bs) @ bs)))"

lemma stream_header_size: "fastcdr_ok C \<Longrightarrow> mh_getCdrSerializedSize C (stream_header si sid q) 0 = header_len si"
  by (simp add: mh_size)

lemma push_whole:
  assumes C: "fastcdr_ok C" and room: "ros_has_room s" and p: "payload_writes C p bs"
    and fits: "header_len si + 4 + length bs \<le> si_mtu si"
  obtains m where "ros_push_submessage C si sid sub p s = Some (Pushed True, ros_append m s)"
    and "om_bytes C m = header_bytes (stream_header si sid (seq_adv (ros_last_unacked s) 1))
           @ subheader_bytes (submessage_header sub bs) @ bs"
proof -
  let ?h = "stream_header si sid (ros_last_unacked (ros_next_seq s))"
  have size: "pl_size p = length bs" using p by (simp add: payload_writes_def)
  have "cdr_at C (om_serializer (OutputMessage_new C ?h (header_len si + (4 + length bs)))) (header_bytes ?h)
      (replicate (4 + length bs) 0)"
    by (rule om_new_cursor [OF C]) simp
  then have "cdr_at C (om_serializer (OutputMessage_new C ?h (header_len si + (4 + length bs)))) (header_bytes ?h)
      (replicate (4 + length bs) 0 @ [])" by simp
  moreover have "submessage_header sub bs = \<lparr>sh_submessage_id = sub, sh_flags = 0x01, sh_submessage_length = of_nat (length bs)\<rparr>"
    by (simp add: submessage_header_def FLAG_LITTLE_ENDIANNESS_def)
  ultimately obtain m where
    m: "append_submessage C sub p 0x01 (OutputMessage_new C ?h (header_len si + (4 + length bs))) = (True, m)"
      "cdr_at C (om_serializer m) (header_bytes ?h @ subheader_bytes (submessage_header sub bs) @ bs) []"
    using append_submessage_cursor [OF C _ dvd_length_header_bytes p length_replicate] by metis
  then have "ros_push_submessage C si sid sub p s = Some (Pushed True, ros_append m s)"
    using room fits by (simp add: ros_push_submessage_def Let_def stream_header_size [OF C] sh_size [OF C] size
        ros_append_def add.assoc)
  moreover have "om_bytes C m = header_bytes (stream_header si sid (seq_adv (ros_last_unacked s) 1))
           @ subheader_bytes (submessage_header sub bs) @ bs"
    using om_bytes_cursor [OF m(2)] by (simp add: ros_next_seq_def)
  ultimately show thesis by (rule that)
qed

text \<open>The part of the fragmenting branch before its loop.\<close>

lemma push_loop:
  assumes C: "fastcdr_ok C" and room: "ros_has_room s" and p: "payload_writes C p bs"
    and cut: "\<not> header_len si + 4 + length bs \<le> si_mtu si"
  defines "fsh \<equiv> \<lparr>sh_submessage_id = FRAGMENT, sh_flags = FLAG_LITTLE_ENDIANNESS,
                sh_submessage_length = ucast (of_nat (si_mtu si) - of_nat (header_len si) - of_nat 4 :: u64)\<rparr>"
  shows "ros_push_submessage C si sid sub p s =
     map_option (\<lambda>(n, s'). (Pushed (unat n = 4 + length bs), s'))
       (ros_fragment_loop C si sid FLAG_LITTLE_ENDIANNESS (subheader_bytes (submessage_header sub bs) @ bs)
          (header_len si) 4 0 fsh s)"
proof -
  let ?sh = "submessage_header sub bs" and ?buf = "subheader_bytes (submessage_header sub bs) @ bs"
  have size: "pl_size p = length bs" using p by (simp add: payload_writes_def)
  have "cdr_at C (cdr_open C (replicate (4 + length bs) 0)) [] (replicate 4 0 @ replicate (length bs) 0 @ [])"
    using cdr_at_open [OF C, of "replicate (4 + length bs) 0"] by (simp only: replicate_add append_Nil2)
  from sh_serialize_cursor [OF C this] obtain c1
    where c1: "sh_serialize C ?sh (cdr_open C (replicate (4 + length bs) 0)) = (True, c1)"
      "cdr_at C c1 (subheader_bytes ?sh) (replicate (length bs) 0 @ [])" by auto
  have "fst (pl_serialize p c1) \<and> cdr_at C (snd (pl_serialize p c1)) (subheader_bytes ?sh @ bs) []"
    using p c1(2) unfolding payload_writes_def by (metis dvd_refl length_replicate length_subheader_bytes)
  then obtain c2 where c2: "pl_serialize p c1 = (True, c2)" "cdr_at C c2 ?buf []"
    by (cases "pl_serialize p c1") auto
  have shdr: "\<lparr>sh_submessage_id = sub, sh_flags = FLAG_LITTLE_ENDIANNESS, sh_submessage_length = of_nat (length bs)\<rparr> = ?sh"
    by (simp add: submessage_header_def)
  have ser: "ser_then (sh_serialize C ?sh) (pl_serialize p) (cdr_open C (replicate (4 + length bs) 0)) = (True, c2)"
    by (simp add: ser_then_def c1(1) c2(1))
  have buf: "take (4 + length bs) (cdr_buffer C c2) = ?buf" using cdr_at_buffer [OF c2(2)] by simp
  have fits: "header_len si + (4 + length bs) \<le> si_mtu si \<longleftrightarrow> False" using cut by simp
  show ?thesis
    unfolding ros_push_submessage_def Let_def stream_header_size [OF C] sh_size [OF C] shdr size fits fsh_def
    using room by (simp add: shdr ser buf split: option.splits prod.splits)
qed

lemma push_cut:
  assumes C: "fastcdr_ok C" and room: "ros_has_room s" and p: "payload_writes C p bs"
    and cut: "\<not> header_len si + 4 + length bs \<le> si_mtu si"
    and mtu: "header_len si + 4 < si_mtu si" and small: "length bs \<le> 65531"
  obtains ms where "ros_push_submessage C si sid sub p s = Some (Pushed True, fold ros_append ms s)"
    and "map (om_bytes C) ms = fragment_wires (stream_header si sid) (ros_last_unacked s)
             (chunks (si_mtu si - header_len si - 4) (subheader_bytes (submessage_header sub bs) @ bs))"
proof -
  let ?buf = "subheader_bytes (submessage_header sub bs) @ bs" and ?k = "si_mtu si - header_len si - 4"
  let ?fsh = "\<lparr>sh_submessage_id = FRAGMENT, sh_flags = FLAG_LITTLE_ENDIANNESS,
                sh_submessage_length = ucast (of_nat (si_mtu si) - of_nat (header_len si) - of_nat 4 :: u64)\<rparr>"
  have "\<exists>ms. ros_fragment_loop C si sid FLAG_LITTLE_ENDIANNESS ?buf (header_len si) 4 (of_nat 0) ?fsh s =
       Some (of_nat (length ?buf), fold ros_append ms s)
     \<and> map (om_bytes C) ms = fragment_wires (stream_header si sid) (ros_last_unacked s) (chunks ?k (drop 0 ?buf))"
    using mtu small by (intro fragment_loop [OF C]) simp_all
  then obtain ms where ms: "ros_fragment_loop C si sid FLAG_LITTLE_ENDIANNESS ?buf (header_len si) 4 0 ?fsh s =
       Some (of_nat (4 + length bs), fold ros_append ms s)"
    "map (om_bytes C) ms = fragment_wires (stream_header si sid) (ros_last_unacked s) (chunks ?k ?buf)" by auto
  have "unat (of_nat (4 + length bs) :: u16) = 4 + length bs" using small by (intro unat_of_nat_less) simp
  with push_loop [OF C room p cut, of sid sub] ms(1)
  have "ros_push_submessage C si sid sub p s = Some (Pushed True, fold ros_append ms s)" by simp
  then show thesis using ms(2) by (rule that)
qed

text \<open>With room for an octet beside the headers, and a submessage a \<open>uint16_t\<close> can count, the push returns; with room for the
  headers only and a full window ahead it does not.\<close>

lemma fragment_loop_empty:
  assumes "hs + 4 \<le> si_mtu si"
  shows "ros_fragment_loop C si sid fl [] hs 4 0 fsh s \<noteq> None"
proof -
  have "ros_fragment_step C si sid fl [] hs 4 0 fsh s \<noteq> None"
    and "ros_fragment_step C si sid fl [] hs 4 0 fsh s = Some x \<Longrightarrow> fst x \<Longrightarrow> fst (snd x) = 0" for x
    using assms by (auto simp: ros_fragment_step_def Let_def split: prod.splits bool.splits)
  then show ?thesis by (subst ros_fragment_loop.simps) (auto split: prod.splits)
qed

lemma push_returns:
  assumes C: "fastcdr_ok C" and mtu: "header_len si + 4 < si_mtu si" and small: "pl_size p \<le> 65531"
  shows "ros_push_submessage C si sid sub p s \<noteq> None"
proof -
  let ?k = "si_mtu si - header_len si - 4"
  let ?fsh = "\<lparr>sh_submessage_id = FRAGMENT, sh_flags = FLAG_LITTLE_ENDIANNESS,
                sh_submessage_length = ucast (of_nat (si_mtu si) - of_nat (header_len si) - of_nat 4 :: u64)\<rparr>"
  have loop: "ros_fragment_loop C si sid FLAG_LITTLE_ENDIANNESS buf (header_len si) 4 0 ?fsh s \<noteq> None" if "length buf \<le> 65535" for buf
  proof (cases "buf = []")
    case True
    then show ?thesis using fragment_loop_empty [of "header_len si" si] mtu by simp
  next
    case False
    then have "\<exists>ms. ros_fragment_loop C si sid FLAG_LITTLE_ENDIANNESS buf (header_len si) 4 (of_nat 0) ?fsh s =
         Some (of_nat (length buf), fold ros_append ms s)
       \<and> map (om_bytes C) ms = fragment_wires (stream_header si sid) (ros_last_unacked s) (chunks ?k (drop 0 buf))"
      using mtu that by (intro fragment_loop [OF C]) simp_all
    then show ?thesis by auto
  qed
  have "length (take (4 + pl_size p) b) \<le> 65535" for b :: "u8 list" using small by simp
  note loop = loop [OF this]
  show ?thesis
    unfolding ros_push_submessage_def Let_def stream_header_size [OF C] sh_size [OF C]
    using loop by (auto split: prod.splits bool.splits option.splits simp del: not_None_eq)
qed

theorem push_without_room_never_returns:
  assumes C: "fastcdr_ok C" and "ros_has_room s" and p: "payload_writes C p bs" and "bs \<noteq> []" and mtu: "si_mtu si = header_len si + 4"
  shows "ros_push_submessage C si sid sub p s = None"
proof -
  let ?buf = "subheader_bytes (submessage_header sub bs) @ bs"
  let ?fsh = "\<lparr>sh_submessage_id = FRAGMENT, sh_flags = FLAG_LITTLE_ENDIANNESS,
                sh_submessage_length = ucast (of_nat (si_mtu si) - of_nat (header_len si) - of_nat 4 :: u64)\<rparr>"
  have cut: "\<not> header_len si + 4 + length bs \<le> si_mtu si" using mtu assms(4) by (cases bs) simp_all
  have "ros_fragment_loop C si sid FLAG_LITTLE_ENDIANNESS ?buf (header_len si) 4 0 ?fsh s = None"
  proof (rule ccontr)
    assume "ros_fragment_loop C si sid FLAG_LITTLE_ENDIANNESS ?buf (header_len si) 4 0 ?fsh s \<noteq> None"
    then obtain y where "ros_fragment_loop C si sid FLAG_LITTLE_ENDIANNESS ?buf (header_len si) 4 0 ?fsh s = Some y" by blast
    have "?buf \<noteq> []" using assms(4) by simp
    from fragment_loop_no_room [OF \<open>_ = Some y\<close> C this stream_header_len [of si sid 0, symmetric] mtu] show False by simp
  qed
  then show ?thesis by (simp add: push_loop [OF C assms(2) p cut])
qed

lemma fragment_wires_bound:
  assumes "w \<in> set (fragment_wires (stream_header si sid) q cs)" and "\<forall>c \<in> set cs. length c \<le> k"
  shows "length w \<le> header_len si + 4 + k"
  using assms
  by (induction "stream_header si sid" q cs rule: fragment_wires.induct)
    (auto simp: fragment_bytes_def)

section \<open>Reassembly\<close>

text \<open>What \<open>Processor::process_fragment_submessage\<close> does with a received \<open>FRAGMENT\<close> message.\<close>

definition receive_fragment :: "('c, 'x) fastcdr_scheme \<Rightarrow> u8 list \<Rightarrow> 'm ReliableInputStream \<Rightarrow> 'm ReliableInputStream option" where
  "receive_fragment C wire s =
     map_option snd (ris_push_fragment C (snd (prepare_next_submessage C (InputMessage_new C wire))) s)"

fun receive_fragments :: "('c, 'x) fastcdr_scheme \<Rightarrow> u8 list list \<Rightarrow> 'm ReliableInputStream \<Rightarrow> 'm ReliableInputStream option" where
  "receive_fragments C [] s = Some s"
| "receive_fragments C (w # ws) s = Option.bind (receive_fragment C w s) (receive_fragments C ws)"

lemma receive_fragment_bytes:
  assumes C: "fastcdr_ok C" and len: "length bs < 65536"
  shows "receive_fragment C (fragment_bytes h fl bs) s =
     Some (s\<lparr>ris_fragment_msg := (if ris_fragment_msg s = [] then header_bytes h else ris_fragment_msg s) @ bs,
             ris_fragment_message_available := (FLAG_LAST_FRAGMENT AND fl \<noteq> 0)\<rparr>)"
proof -
  let ?sh = "fragment_subheader fl bs" and ?i = "InputMessage_new C (fragment_bytes h fl bs)"
  have w: "fragment_bytes h fl bs = header_bytes h @ (subheader_bytes ?sh @ bs)" by (simp add: fragment_bytes_def)
  obtain c where i: "?i = \<lparr>im_buf = header_bytes h @ subheader_bytes ?sh @ bs, im_header = wire_header h,
      im_subheader = SubmessageHeader_init, im_deserializer = c\<rparr>"
    and c: "cdr_at C c (header_bytes h) (subheader_bytes ?sh @ bs)"
    unfolding w by (rule im_new_cursor [OF C])
  from c have "cdr_at C (im_deserializer ?i) (header_bytes h) (subheader_bytes ?sh @ bs)" by (simp add: i)
  from prepare_cursor [OF C this dvd_length_header_bytes] obtain c2
    where p: "prepare_next_submessage C ?i = (True, ?i\<lparr>im_subheader := ?sh, im_deserializer := c2\<rparr>)"
    and c2: "cdr_at C c2 (header_bytes h @ subheader_bytes ?sh) bs" by (auto simp: i)
  let ?m = "?i\<lparr>im_subheader := ?sh, im_deserializer := c2\<rparr>"
  have sz: "unat (sh_submessage_length (im_subheader ?m)) = length bs"
    using len by (simp add: fragment_subheader_def unat_of_nat_less)
  from c2 have "cdr_at C (im_deserializer ?m) (header_bytes h @ subheader_bytes ?sh) (bs @ [])" by simp
  from get_raw_payload_cursor [OF C this sz refl] obtain c3
    where g: "get_raw_payload C (length bs) ?m = (bs, True, ?m\<lparr>im_deserializer := c3\<rparr>)" .
  have raw: "get_raw_header ?m = Some (header_bytes h)"
    by (simp add: i get_raw_header_def wire_header_def length_header_bytes)
  show ?thesis
    unfolding receive_fragment_def p snd_conv ris_push_fragment_def raw sz g Let_def
    by (simp add: fragment_subheader_def)
qed

lemma header_bytes_not_Nil [simp]: "header_bytes h \<noteq> []"
  by (simp add: header_bytes_def)

lemma last_fragment_flags: "FLAG_LAST_FRAGMENT AND FLAG_LITTLE_ENDIANNESS = 0"
  "FLAG_LAST_FRAGMENT AND (FLAG_LITTLE_ENDIANNESS OR FLAG_LAST_FRAGMENT) \<noteq> 0"
  "FLAG_LAST_FRAGMENT \<noteq> 0"
  by (simp_all add: FLAG_LAST_FRAGMENT_def FLAG_LITTLE_ENDIANNESS_def)

lemma receive_fragment_wires:
  assumes C: "fastcdr_ok C" and "\<forall>c \<in> set cs. length c < 65536" and "cs \<noteq> []"
  shows "receive_fragments C (fragment_wires H q cs) s =
     Some (s\<lparr>ris_fragment_msg := (if ris_fragment_msg s = [] then header_bytes (H (seq_adv q 1))
                                  else ris_fragment_msg s) @ concat cs,
             ris_fragment_message_available := True\<rparr>)"
  using assms(2,3)
proof (induction cs arbitrary: q s)
  case (Cons c cs)
  show ?case
  proof (cases "cs = []")
    case True
    then show ?thesis using Cons.prems(1) by (simp add: receive_fragment_bytes [OF C] last_fragment_flags)
  next
    case False
    then show ?thesis
      using Cons by (simp add: fragment_wires_Cons receive_fragment_bytes [OF C] last_fragment_flags)
  qed
qed simp

text \<open>A payload of plain bytes, for the witnesses.\<close>

definition raw_payload :: "('c, 'x) fastcdr_scheme \<Rightarrow> u8 list \<Rightarrow> 'c payload" where
  "raw_payload C bs = \<lparr>pl_size = length bs, pl_serialize = cdr_put_array C bs\<rparr>"

lemma raw_payload_writes: "fastcdr_ok C \<Longrightarrow> payload_writes C (raw_payload C bs) bs"
  unfolding payload_writes_def raw_payload_def
  by (auto elim!: put_array_cursor [where bs = bs])

definition demo_session :: SessionInfo where
  "demo_session = \<lparr>si_client_key = (0xAA, 0xBB, 0xCC, 0xDD), si_session_id = 0x01, si_mtu = 20\<rparr>"

lemma init_has_room: "ros_has_room ReliableOutputStream_init"
  by (simp add: os_rel_room [OF os_rel_init]) (simp add: os_init_def)

section \<open>Properties\<close>

text \<open>C3. \<open>push_submessage\<close> of the reliable stream, whole and fragmented: with room in the window, a
  transport unit larger than the two headers and a submessage a \<open>uint16_t\<close> can count, it returns true,
  the fragmentation loop ends, and the messages it appends under consecutive numbers are exactly the
  unfragmented message or its fragments (last-fragment flag on the last one), none above the unit.\<close>

theorem reliable_push_submessage_wires:
  assumes "fastcdr_ok C" and "ros_has_room s" and "payload_writes C p bs"
    and "header_len si + 4 < si_mtu si" and "length bs \<le> 65531"
  shows "\<exists>ms. ros_push_submessage C si sid sub p s = Some (Pushed True, fold ros_append ms s)
    \<and> map (om_bytes C) ms = submessage_wires si sid (ros_last_unacked s) sub bs
    \<and> (\<forall>m \<in> set ms. length (om_bytes C m) \<le> si_mtu si)"
proof (cases "header_len si + 4 + length bs \<le> si_mtu si")
  case True
  then obtain m where "ros_push_submessage C si sid sub p s = Some (Pushed True, ros_append m s)"
    "om_bytes C m = header_bytes (stream_header si sid (seq_adv (ros_last_unacked s) 1))
           @ subheader_bytes (submessage_header sub bs) @ bs"
    by (rule push_whole [OF assms(1,2,3)])
  then show ?thesis using True by (intro exI [of _ "[m]"]) (simp add: submessage_wires_def)
next
  case False
  let ?cs = "chunks (si_mtu si - header_len si - 4) (subheader_bytes (submessage_header sub bs) @ bs)"
  from False obtain ms where ms: "ros_push_submessage C si sid sub p s = Some (Pushed True, fold ros_append ms s)"
    "map (om_bytes C) ms = fragment_wires (stream_header si sid) (ros_last_unacked s) ?cs"
    by (rule push_cut [OF assms(1,2,3) _ assms(4,5)])
  have "length (om_bytes C m) \<le> si_mtu si" if "m \<in> set ms" for m
  proof -
    have "om_bytes C m \<in> set (map (om_bytes C) ms)" using that by simp
    then have "om_bytes C m \<in> set (fragment_wires (stream_header si sid) (ros_last_unacked s) ?cs)" by (simp only: ms(2))
    then have "length (om_bytes C m) \<le> header_len si + 4 + (si_mtu si - header_len si - 4)"
      by (rule fragment_wires_bound) (use assms(4) chunks_bound [of "si_mtu si - header_len si - 4"] in fastforce)
    then show ?thesis using assms(4) by simp
  qed
  then show ?thesis using ms False by (auto simp: submessage_wires_def)
qed

theorem reliable_push_submessage_wires_witness:
  "\<exists>ms. ros_push_submessage byte_cdr demo_session 0x80 DATA (raw_payload byte_cdr (replicate 20 7)) ReliableOutputStream_init
      = Some (Pushed True, fold ros_append ms ReliableOutputStream_init)
    \<and> map (om_bytes byte_cdr) ms = submessage_wires demo_session 0x80 (ros_last_unacked (ReliableOutputStream_init :: (u8 list \<times> nat) ReliableOutputStream)) DATA (replicate 20 7)
    \<and> (\<forall>m \<in> set ms. length (om_bytes byte_cdr m) \<le> si_mtu demo_session)"
  by (rule reliable_push_submessage_wires [OF byte_cdr_ok init_has_room raw_payload_writes [OF byte_cdr_ok]])
    (simp_all add: demo_session_def header_len_def)

text \<open>C5. A submessage that a \<open>uint16_t\<close> cannot count, header included, makes \<open>push_submessage\<close> append
  fragments for ever, with the mutex of the stream held: there is no result.\<close>

theorem oversized_push_never_returns:
  assumes "fastcdr_ok C" and "ros_has_room s" and "payload_writes C p bs"
    and "header_len si + 4 < si_mtu si" and "si_mtu si \<le> 65535" and "length bs > 65531"
  shows "ros_push_submessage C si sid sub p s = None"
proof -
  let ?buf = "subheader_bytes (submessage_header sub bs) @ bs" and ?k = "si_mtu si - header_len si - 4"
  let ?fsh = "\<lparr>sh_submessage_id = FRAGMENT, sh_flags = FLAG_LITTLE_ENDIANNESS,
                sh_submessage_length = ucast (of_nat (si_mtu si) - of_nat (header_len si) - of_nat 4 :: u64)\<rparr>"
  have cut: "\<not> header_len si + 4 + length bs \<le> si_mtu si" using assms(5,6) by simp
  have big: "65535 < length ?buf" using assms(6) by simp
  have k: "si_mtu si = header_len si + 4 + ?k" "0 < ?k" "?k \<le> 65535" using assms(4,5) by simp_all
  have "ros_fragment_loop C si sid FLAG_LITTLE_ENDIANNESS ?buf (header_len si) 4 0 ?fsh s = None"
  proof (rule ccontr)
    assume "ros_fragment_loop C si sid FLAG_LITTLE_ENDIANNESS ?buf (header_len si) 4 0 ?fsh s \<noteq> None"
    then obtain y where "ros_fragment_loop C si sid FLAG_LITTLE_ENDIANNESS ?buf (header_len si) 4 0 ?fsh s = Some y" by blast
    from fragment_loop_no_result [OF this assms(1) big stream_header_len [of si sid 0, symmetric] k] show False by simp
  qed
  then show ?thesis by (simp add: push_loop [OF assms(1,2,3) cut])
qed

theorem oversized_push_never_returns_witness:
  "ros_push_submessage byte_cdr demo_session 0x80 DATA (raw_payload byte_cdr (replicate 65532 7)) ReliableOutputStream_init = None"
  by (rule oversized_push_never_returns [OF byte_cdr_ok init_has_room raw_payload_writes [OF byte_cdr_ok]])
    (simp_all only: length_replicate, simp_all add: demo_session_def header_len_def)

text \<open>C4. Fragmentation and reassembly are inverse: the fragments of a submessage, received in order by an
  input stream that holds none, leave exactly the message the agent would have sent unfragmented under
  the number of the first fragment, available to \<open>pop_fragment_message\<close>, which then starts afresh.\<close>

theorem fragments_reassemble:
  assumes "fastcdr_ok C" and "ris_fragment_msg r = []"
    and "header_len si + 4 < si_mtu si" and "si_mtu si < 65536" and "header_len si + 4 + length bs > si_mtu si"
  shows "\<exists>r'. receive_fragments C (submessage_wires si sid q sub bs) r = Some r'
    \<and> ris_pop_fragment_message C r' =
        (Some (InputMessage_new C (header_bytes (stream_header si sid (seq_adv q 1))
                 @ subheader_bytes (submessage_header sub bs) @ bs)), r\<lparr>ris_fragment_message_available := False\<rparr>)"
proof -
  let ?k = "si_mtu si - header_len si - 4"
  let ?cs = "chunks ?k (subheader_bytes (submessage_header sub bs) @ bs)"
  have "\<forall>c \<in> set ?cs. length c < 65536" using chunks_bound [of ?k] assms(3,4) by fastforce
  from receive_fragment_wires [OF assms(1) this, of "stream_header si sid" q r] assms(2,5)
  show ?thesis by (auto simp: submessage_wires_def ris_pop_fragment_message_def)
qed

theorem fragments_reassemble_witness:
  "\<exists>r'. receive_fragments byte_cdr (submessage_wires demo_session 0x80 5 DATA (replicate 20 7)) (ReliableInputStream_init :: unit ReliableInputStream) = Some r'
    \<and> ris_pop_fragment_message byte_cdr r' =
        (Some (InputMessage_new byte_cdr (header_bytes (stream_header demo_session 0x80 (seq_adv 5 1))
                 @ subheader_bytes (submessage_header DATA (replicate 20 7)) @ replicate 20 7)),
         ReliableInputStream_init\<lparr>ris_fragment_message_available := False\<rparr>)"
  by (rule fragments_reassemble [OF byte_cdr_ok])
    (simp_all add: demo_session_def header_len_def ReliableInputStream_init_def)

end
