(* ===== verification/Session.thy ===== *)
theory Session
  imports Fragmentation
begin

text \<open>
  \<open>Session\<close>, \<open>include/uxr/agent/client/session/Session.hpp\<close>: the streams of one client. A stream
  identifier selects the class of a stream; best-effort and reliable streams are created on first use
  (\<open>operator[]\<close> of their map). Each map is guarded by its own mutex, so an operation is atomic.
  The lemmas show that an operation on one stream is the operation of that stream alone.
\<close>

section \<open>Stream classes\<close>

definition is_none_stream :: "StreamId \<Rightarrow> bool" where
  "is_none_stream stream_id \<longleftrightarrow> STREAMID_NONE = stream_id"

definition is_besteffort_stream :: "StreamId \<Rightarrow> bool" where
  "is_besteffort_stream stream_id \<longleftrightarrow> STREAMID_BUILTIN_RELIABLE > stream_id \<and> STREAMID_NONE \<noteq> stream_id"

definition is_reliable_stream :: "StreamId \<Rightarrow> bool" where
  "is_reliable_stream stream_id \<longleftrightarrow> STREAMID_BUILTIN_RELIABLE \<le> stream_id"

lemma stream_classes:
  "is_none_stream k \<Longrightarrow> \<not> is_besteffort_stream k \<and> \<not> is_reliable_stream k"
  "is_besteffort_stream k \<Longrightarrow> \<not> is_none_stream k \<and> \<not> is_reliable_stream k"
  "\<not> is_none_stream k \<Longrightarrow> \<not> is_besteffort_stream k \<longleftrightarrow> is_reliable_stream k"
  by (auto simp: is_none_stream_def is_besteffort_stream_def is_reliable_stream_def
      STREAMID_NONE_def STREAMID_BUILTIN_RELIABLE_def)

section \<open>State\<close>

record 'c Session =
  ses_info :: SessionInfo
  ses_none_istream :: "'c InputMessage NoneInputStream"
  ses_best_effort_istreams :: "StreamId \<rightharpoonup> 'c InputMessage BestEffortInputStream"
  ses_reliable_istreams :: "StreamId \<rightharpoonup> 'c InputMessage ReliableInputStream"
  ses_none_ostream :: "'c NoneOutputStream"
  ses_best_effort_ostreams :: "StreamId \<rightharpoonup> 'c BestEffortOutputStream"
  ses_reliable_ostreams :: "StreamId \<rightharpoonup> 'c ReliableOutputStream"

definition Session_new :: "SessionInfo \<Rightarrow> 'c Session" where
  "Session_new info =
     \<lparr>ses_info = info, ses_none_istream = NoneInputStream_init,
      ses_best_effort_istreams = Map.empty, ses_reliable_istreams = Map.empty,
      ses_none_ostream = NoneOutputStream_init,
      ses_best_effort_ostreams = Map.empty, ses_reliable_ostreams = Map.empty\<rparr>"

text \<open>The stream \<open>operator[]\<close> finds or creates.\<close>

definition stream_at :: "(StreamId \<rightharpoonup> 's) \<Rightarrow> 's \<Rightarrow> StreamId \<Rightarrow> 's" where
  "stream_at m fresh stream_id = (case m stream_id of None \<Rightarrow> fresh | Some s \<Rightarrow> s)"

lemma stream_at_upd [simp]: "stream_at (m(k \<mapsto> s)) fresh k' = (if k' = k then s else stream_at m fresh k')"
  by (simp add: stream_at_def)

lemma stream_at_empty [simp]: "stream_at Map.empty fresh k = fresh"
  by (simp add: stream_at_def)

definition ses_be_in :: "'c Session \<Rightarrow> StreamId \<Rightarrow> 'c InputMessage BestEffortInputStream" where
  "ses_be_in s = stream_at (ses_best_effort_istreams s) BestEffortInputStream_init"

definition ses_rel_in :: "'c Session \<Rightarrow> StreamId \<Rightarrow> 'c InputMessage ReliableInputStream" where
  "ses_rel_in s = stream_at (ses_reliable_istreams s) ReliableInputStream_init"

definition ses_be_out :: "'c Session \<Rightarrow> StreamId \<Rightarrow> 'c BestEffortOutputStream" where
  "ses_be_out s = stream_at (ses_best_effort_ostreams s) BestEffortOutputStream_init"

text \<open>\<open>get_reliable_output_stream\<close>: the stream found, or created under the exclusive lock.\<close>

definition ses_get_reliable_output_stream :: "'c Session \<Rightarrow> StreamId \<Rightarrow> 'c ReliableOutputStream" where
  "ses_get_reliable_output_stream s = stream_at (ses_reliable_ostreams s) ReliableOutputStream_init"

definition ses_set_be_in :: "StreamId \<Rightarrow> 'c InputMessage BestEffortInputStream \<Rightarrow> 'c Session \<Rightarrow> 'c Session" where
  "ses_set_be_in k x s = s\<lparr>ses_best_effort_istreams := (ses_best_effort_istreams s)(k \<mapsto> x)\<rparr>"

definition ses_set_rel_in :: "StreamId \<Rightarrow> 'c InputMessage ReliableInputStream \<Rightarrow> 'c Session \<Rightarrow> 'c Session" where
  "ses_set_rel_in k x s = s\<lparr>ses_reliable_istreams := (ses_reliable_istreams s)(k \<mapsto> x)\<rparr>"

definition ses_set_be_out :: "StreamId \<Rightarrow> 'c BestEffortOutputStream \<Rightarrow> 'c Session \<Rightarrow> 'c Session" where
  "ses_set_be_out k x s = s\<lparr>ses_best_effort_ostreams := (ses_best_effort_ostreams s)(k \<mapsto> x)\<rparr>"

definition ses_set_rel_out :: "StreamId \<Rightarrow> 'c ReliableOutputStream \<Rightarrow> 'c Session \<Rightarrow> 'c Session" where
  "ses_set_rel_out k x s = s\<lparr>ses_reliable_ostreams := (ses_reliable_ostreams s)(k \<mapsto> x)\<rparr>"

lemmas ses_access_defs = ses_be_in_def ses_rel_in_def ses_be_out_def ses_get_reliable_output_stream_def
  ses_set_be_in_def ses_set_rel_in_def ses_set_be_out_def ses_set_rel_out_def

section \<open>Operations\<close>

definition ses_reset :: "'c Session \<Rightarrow> 'c Session" where
  "ses_reset s =
     s\<lparr>ses_best_effort_istreams := map_option bis_reset \<circ> ses_best_effort_istreams s,
       ses_reliable_istreams := map_option ris_reset \<circ> ses_reliable_istreams s,
       ses_none_ostream := nos_reset (ses_none_ostream s),
       ses_best_effort_ostreams := map_option bos_reset \<circ> ses_best_effort_ostreams s,
       ses_reliable_ostreams := map_option ros_reset \<circ> ses_reliable_ostreams s\<rparr>"

definition ses_push_input_message :: "'c InputMessage \<Rightarrow> StreamId \<Rightarrow> SequenceNr \<Rightarrow> 'c Session \<Rightarrow> bool \<times> 'c Session" where
  "ses_push_input_message message stream_id sequence_nr s =
     (if is_none_stream stream_id then
        let (rv, x) = nis_push_message message (ses_none_istream s) in (rv, s\<lparr>ses_none_istream := x\<rparr>)
      else if is_besteffort_stream stream_id then
        let (rv, x) = bis_push_message sequence_nr message (ses_be_in s stream_id) in (rv, ses_set_be_in stream_id x s)
      else
        let (rv, x) = ris_push_message sequence_nr message (ses_rel_in s stream_id) in (rv, ses_set_rel_in stream_id x s))"

definition ses_pop_input_message :: "StreamId \<Rightarrow> 'c Session \<Rightarrow> 'c InputMessage option \<times> 'c Session" where
  "ses_pop_input_message stream_id s =
     (if is_none_stream stream_id then
        let (rv, x) = nis_pop_message (ses_none_istream s) in (rv, s\<lparr>ses_none_istream := x\<rparr>)
      else if is_besteffort_stream stream_id then
        let (rv, x) = bis_pop_message (ses_be_in s stream_id) in (rv, ses_set_be_in stream_id x s)
      else
        let (rv, x) = ris_pop_message (ses_rel_in s stream_id) in (rv, ses_set_rel_in stream_id x s))"

definition ses_update_from_heartbeat :: "StreamId \<Rightarrow> SeqNum \<Rightarrow> SeqNum \<Rightarrow> 'c Session \<Rightarrow> 'c Session" where
  "ses_update_from_heartbeat stream_id first_unacked last_unacked s =
     (if is_reliable_stream stream_id
      then ses_set_rel_in stream_id (ris_update_from_heartbeat first_unacked last_unacked (ses_rel_in s stream_id)) s
      else s)"

definition ses_fill_acknack :: "StreamId \<Rightarrow> ACKNACK_Payload \<Rightarrow> 'c Session \<Rightarrow> ACKNACK_Payload \<times> 'c Session" where
  "ses_fill_acknack stream_id acknack s =
     (if is_reliable_stream stream_id
      then (ris_fill_acknack (ses_rel_in s stream_id) acknack, ses_set_rel_in stream_id (ses_rel_in s stream_id) s)
      else (acknack, s))"

definition ses_push_input_fragment :: "('c, 'x) fastcdr_scheme \<Rightarrow> StreamId \<Rightarrow> 'c InputMessage \<Rightarrow> 'c Session \<Rightarrow>
    ('c InputMessage \<times> 'c Session) option" where
  "ses_push_input_fragment C stream_id message s =
     (if is_reliable_stream stream_id
      then map_option (\<lambda>(m, x). (m, ses_set_rel_in stream_id x s)) (ris_push_fragment C message (ses_rel_in s stream_id))
      else Some (message, s))"

definition ses_pop_input_fragment_message :: "('c, 'x) fastcdr_scheme \<Rightarrow> StreamId \<Rightarrow> 'c Session \<Rightarrow>
    'c InputMessage option \<times> 'c Session" where
  "ses_pop_input_fragment_message C stream_id s =
     (let (rv, x) = ris_pop_fragment_message C (ses_rel_in s stream_id) in (rv, ses_set_rel_in stream_id x s))"

text \<open>
  The vector is created with one zero per stream and the identifiers are appended to it. The iteration
  order of the unordered map is not specified; it is ascending here.
\<close>

definition ses_get_output_streams :: "'c Session \<Rightarrow> u8 list" where
  "ses_get_output_streams s =
     (let ks = filter (\<lambda>k. ses_reliable_ostreams s k \<noteq> None) (map of_nat [0..<256])
      in replicate (length ks) 0 @ ks)"

definition ses_push_output_submessage :: "('c, 'x) fastcdr_scheme \<Rightarrow> StreamId \<Rightarrow> SubmessageId \<Rightarrow> 'c payload \<Rightarrow>
    'c Session \<Rightarrow> (push_result \<times> 'c Session) option" where
  "ses_push_output_submessage C stream_id submessage_id submessage s =
     (if is_none_stream stream_id then
        let (rv, x) = nos_push_submessage C (ses_info s) submessage_id submessage (ses_none_ostream s)
        in Some (Pushed rv, s\<lparr>ses_none_ostream := x\<rparr>)
      else if is_besteffort_stream stream_id then
        let (rv, x) = bos_push_submessage C (ses_info s) stream_id submessage_id submessage (ses_be_out s stream_id)
        in Some (Pushed rv, ses_set_be_out stream_id x s)
      else
        map_option (\<lambda>(rv, x). (rv, ses_set_rel_out stream_id x s))
          (ros_push_submessage C (ses_info s) stream_id submessage_id submessage
             (ses_get_reliable_output_stream s stream_id)))"

definition ses_get_next_output_message :: "StreamId \<Rightarrow> 'c Session \<Rightarrow> 'c OutputMessage next_message \<times> 'c Session" where
  "ses_get_next_output_message stream_id s =
     (if is_none_stream stream_id then
        let (rv, x) = nos_pop_message (ses_none_ostream s)
        in (case rv of None \<Rightarrow> NoMessage | Some m \<Rightarrow> NextMessage m, s\<lparr>ses_none_ostream := x\<rparr>)
      else if is_besteffort_stream stream_id then
        let (rv, x) = bos_pop_message (ses_be_out s stream_id)
        in (case rv of None \<Rightarrow> NoMessage | Some m \<Rightarrow> NextMessage m, ses_set_be_out stream_id x s)
      else
        let (rv, x) = ros_get_next_message (ses_get_reliable_output_stream s stream_id)
        in (rv, ses_set_rel_out stream_id x s))"

definition ses_get_output_message :: "StreamId \<Rightarrow> SeqNum \<Rightarrow> 'c Session \<Rightarrow> 'c OutputMessage option \<times> 'c Session" where
  "ses_get_output_message stream_id seq_num s =
     (if is_reliable_stream stream_id
      then (let x = ses_get_reliable_output_stream s stream_id
            in (ros_get_message seq_num x, ses_set_rel_out stream_id x s))
      else (None, s))"

definition ses_update_from_acknack :: "StreamId \<Rightarrow> SeqNum \<Rightarrow> 'c Session \<Rightarrow> 'c Session" where
  "ses_update_from_acknack stream_id first_unacked s =
     (if is_reliable_stream stream_id
      then ses_set_rel_out stream_id
             (ros_update_from_acknack first_unacked (ses_get_reliable_output_stream s stream_id)) s
      else s)"

definition ses_fill_heartbeat :: "StreamId \<Rightarrow> HEARTBEAT_Payload \<Rightarrow> 'c Session \<Rightarrow> bool \<times> HEARTBEAT_Payload \<times> 'c Session" where
  "ses_fill_heartbeat stream_id heartbeat s =
     (if is_reliable_stream stream_id
      then (let x = ses_get_reliable_output_stream s stream_id;
                (rv, heartbeat) = ros_fill_heartbeat x heartbeat
            in (rv, heartbeat\<lparr>hb_stream_id := stream_id\<rparr>, ses_set_rel_out stream_id x s))
      else (False, heartbeat, s))"

section \<open>One stream at a time\<close>

datatype 'c ses_op =
    PushIn "'c InputMessage" SequenceNr
  | PopIn
  | HeartbeatIn SeqNum SeqNum
  | AcknackFor
  | FragmentIn "'c InputMessage"
  | PopFragmentIn
  | PushOut SubmessageId "'c payload"
  | NextOut
  | GetOut SeqNum
  | AcknackIn SeqNum
  | HeartbeatFor

text \<open>The state after an operation on a stream; \<open>None\<close> when the operation has no result.\<close>

fun ses_step :: "('c, 'x) fastcdr_scheme \<Rightarrow> StreamId \<times> 'c ses_op \<Rightarrow> 'c Session \<Rightarrow> 'c Session option" where
  "ses_step C (k, PushIn m q) s = Some (snd (ses_push_input_message m k q s))"
| "ses_step C (k, PopIn) s = Some (snd (ses_pop_input_message k s))"
| "ses_step C (k, HeartbeatIn f l) s = Some (ses_update_from_heartbeat k f l s)"
| "ses_step C (k, AcknackFor) s = Some (snd (ses_fill_acknack k ACKNACK_init s))"
| "ses_step C (k, FragmentIn m) s = map_option snd (ses_push_input_fragment C k m s)"
| "ses_step C (k, PopFragmentIn) s = Some (snd (ses_pop_input_fragment_message C k s))"
| "ses_step C (k, PushOut sub p) s = map_option snd (ses_push_output_submessage C k sub p s)"
| "ses_step C (k, NextOut) s = Some (snd (ses_get_next_output_message k s))"
| "ses_step C (k, GetOut q) s = Some (snd (ses_get_output_message k q s))"
| "ses_step C (k, AcknackIn f) s = Some (ses_update_from_acknack k f s)"
| "ses_step C (k, HeartbeatFor) s =
     Some (snd (snd (ses_fill_heartbeat k \<lparr>hb_first_unacked_seq_nr = 0, hb_last_unacked_seq_nr = 0, hb_stream_id = 0\<rparr> s)))"

fun ses_run :: "('c, 'x) fastcdr_scheme \<Rightarrow> (StreamId \<times> 'c ses_op) list \<Rightarrow> 'c Session \<Rightarrow> 'c Session option" where
  "ses_run C [] s = Some s"
| "ses_run C (op # ops) s = Option.bind (ses_step C op s) (ses_run C ops)"

text \<open>Everything a session holds for one stream identifier.\<close>

record 'c stream_view =
  sv_info :: SessionInfo
  sv_none :: "('c InputMessage NoneInputStream \<times> 'c NoneOutputStream) option"
  sv_be_in :: "'c InputMessage BestEffortInputStream"
  sv_rel_in :: "'c InputMessage ReliableInputStream"
  sv_be_out :: "'c BestEffortOutputStream"
  sv_rel_out :: "'c ReliableOutputStream"

definition ses_view :: "'c Session \<Rightarrow> StreamId \<Rightarrow> 'c stream_view" where
  "ses_view s k =
     \<lparr>sv_info = ses_info s,
      sv_none = (if is_none_stream k then Some (ses_none_istream s, ses_none_ostream s) else None),
      sv_be_in = ses_be_in s k, sv_rel_in = ses_rel_in s k, sv_be_out = ses_be_out s k,
      sv_rel_out = ses_get_reliable_output_stream s k\<rparr>"

lemmas ses_op_defs = ses_push_input_message_def ses_pop_input_message_def ses_update_from_heartbeat_def
  ses_fill_acknack_def ses_push_input_fragment_def ses_pop_input_fragment_message_def
  ses_push_output_submessage_def ses_get_next_output_message_def ses_get_output_message_def
  ses_update_from_acknack_def ses_fill_heartbeat_def

lemma none_stream_unique: "is_none_stream k \<Longrightarrow> is_none_stream k' \<Longrightarrow> k = k'"
  by (simp add: is_none_stream_def)

lemma ses_step_other:
  assumes "ses_step C (k, op) s = Some s'" and "k' \<noteq> k"
  shows "ses_view s' k' = ses_view s k'"
  using assms none_stream_unique [of k k']
  by (cases op)
    (auto simp: ses_op_defs ses_view_def ses_access_defs Let_def split: prod.splits if_splits)

text \<open>What an operation does to its stream depends on nothing else.\<close>

lemma ses_step_same:
  assumes "ses_view s k = ses_view t k"
  shows "map_option (\<lambda>s'. ses_view s' k) (ses_step C (k, op) s) = map_option (\<lambda>s'. ses_view s' k) (ses_step C (k, op) t)"
proof -
  have eqs: "ses_info s = ses_info t" "ses_be_in s k = ses_be_in t k" "ses_rel_in s k = ses_rel_in t k"
    "ses_be_out s k = ses_be_out t k" "ses_get_reliable_output_stream s k = ses_get_reliable_output_stream t k"
    "is_none_stream k \<Longrightarrow> ses_none_istream s = ses_none_istream t"
    "is_none_stream k \<Longrightarrow> ses_none_ostream s = ses_none_ostream t"
    using assms by (auto simp: ses_view_def split: if_splits)
  have frame: "ses_view (ses_set_be_in k x u) k = (ses_view u k)\<lparr>sv_be_in := x\<rparr>"
    "ses_view (ses_set_rel_in k y u) k = (ses_view u k)\<lparr>sv_rel_in := y\<rparr>"
    "ses_view (ses_set_be_out k z u) k = (ses_view u k)\<lparr>sv_be_out := z\<rparr>"
    "ses_view (ses_set_rel_out k w u) k = (ses_view u k)\<lparr>sv_rel_out := w\<rparr>"
    "is_none_stream k \<Longrightarrow> ses_view (u\<lparr>ses_none_istream := a\<rparr>) k = (ses_view u k)\<lparr>sv_none := Some (a, ses_none_ostream u)\<rparr>"
    "is_none_stream k \<Longrightarrow> ses_view (u\<lparr>ses_none_ostream := b\<rparr>) k = (ses_view u k)\<lparr>sv_none := Some (ses_none_istream u, b)\<rparr>"
    for x y z w a b and u :: "'a Session"
    by (simp_all add: ses_view_def ses_access_defs)
  show ?thesis
    by (cases op)
      (simp_all add: ses_op_defs eqs frame Let_def option.map_comp comp_def assms split: prod.splits,
        auto simp: case_prod_beta frame assms)
qed

lemma ses_run_projects:
  assumes "ses_run C ops s = Some s'" and "ses_view s k = ses_view t k"
  shows "\<exists>t'. ses_run C (filter (\<lambda>op. fst op = k) ops) t = Some t' \<and> ses_view s' k = ses_view t' k"
  using assms
proof (induction ops arbitrary: s t)
  case (Cons op ops)
  obtain j o1 where op: "op = (j, o1)" by (cases op)
  from Cons.prems(1) obtain s1 where s1: "ses_step C op s = Some s1" "ses_run C ops s1 = Some s'"
    by (auto simp: bind_eq_Some_conv)
  show ?case
  proof (cases "j = k")
    case False
    then have "ses_view s1 k = ses_view t k"
      using ses_step_other [of C j o1 s s1 k] s1(1) Cons.prems(2) by (simp add: op)
    from Cons.IH [OF s1(2) this] False show ?thesis by (simp add: op)
  next
    case True
    have "map_option (\<lambda>x. ses_view x k) (ses_step C op s) = map_option (\<lambda>x. ses_view x k) (ses_step C op t)"
      unfolding op True by (rule ses_step_same) (rule Cons.prems(2))
    then obtain t1 where t1: "ses_step C op t = Some t1" "ses_view s1 k = ses_view t1 k"
      by (cases "ses_step C op t") (auto simp: s1(1))
    from Cons.IH [OF s1(2) t1(2)] t1(1) True show ?thesis by (auto simp: op)
  qed
qed simp

section \<open>Properties\<close>

text \<open>C11. Streams of a session do not interfere: after any history of operations on any streams, what the
  session holds for a stream is what the operations on that stream alone would have left.\<close>

theorem session_streams_independent:
  assumes "ses_run C ops (Session_new info) = Some s"
  shows "\<exists>s'. ses_run C (filter (\<lambda>op. fst op = k) ops) (Session_new info) = Some s' \<and> ses_view s k = ses_view s' k"
  using ses_run_projects [OF assms refl] .

theorem session_streams_independent_witness:
  "\<exists>s'. ses_run byte_cdr [(0x81, AcknackIn 3)] (Session_new demo_session) = Some s'
     \<and> ses_view (the (ses_run byte_cdr [(0x80, HeartbeatIn 1 2), (0x81, AcknackIn 3), (0x01, PopIn)] (Session_new demo_session))) 0x81
       = ses_view s' 0x81"
proof -
  have "ses_run byte_cdr [(0x80, HeartbeatIn 1 2), (0x81, AcknackIn 3), (0x01, PopIn)] (Session_new demo_session)
      = Some (the (ses_run byte_cdr [(0x80, HeartbeatIn 1 2), (0x81, AcknackIn 3), (0x01, PopIn)] (Session_new demo_session)))"
    by simp
  from session_streams_independent [OF this, of "0x81"] show ?thesis by simp
qed

end
