(* ===== verification/Link.thy ===== *)
theory Link
  imports Session
begin

text \<open>
  The reliable stream protocol end to end: a \<open>ReliableOutputStream\<close> and a \<open>ReliableInputStream\<close> over a
  network that loses, duplicates, delays and reorders. Messages, acknowledgements and heartbeats stay
  in the network for ever and may be taken from it at any time, or never, as long as they are inside
  the horizon of a 16 bit number. Packets carry what is on the wire (the number of the message and the
  message, an \<open>ACKNACK\<close> filled by \<open>fill_acknack\<close>, a \<open>HEARTBEAT\<close> filled by \<open>fill_heartbeat\<close>), which is all
  the ends read, and as ghost the unbounded numbers the serial numbers stand for; the specifications of both
  ends run along as ghost state and only say what is inside the horizon.
\<close>

section \<open>The system\<close>

datatype 'c packet =
    DataPacket nat SeqNum "'c OutputMessage"
  | AckPacket nat ACKNACK_Payload
  | HeartbeatPacket nat nat HEARTBEAT_Payload

record 'c link =
  lk_tx :: "'c ReliableOutputStream"
  lk_rx :: "'c OutputMessage ReliableInputStream"
  lk_net :: "'c packet set"
  lk_log :: "'c OutputMessage list"
  lk_out :: "'c OutputMessage list"
  lk_a :: "'c OutputMessage output_spec"
  lk_b :: "'c OutputMessage input_spec"

definition link_init :: "'c link" where
  "link_init = \<lparr>lk_tx = ReliableOutputStream_init, lk_rx = ReliableInputStream_init, lk_net = {},
     lk_log = [], lk_out = [], lk_a = os_init, lk_b = is_init\<rparr>"

text \<open>Bit \<open>i\<close> of the 16 bit map, as \<open>Processor::process_acknack_submessage\<close> reads it.\<close>

definition nack_bit :: "ACKNACK_Payload \<Rightarrow> nat \<Rightarrow> bool" where
  "nack_bit p i = (if i < 8 then bit (ack_nack_bitmap_1 p) i else bit (ack_nack_bitmap_0 p) (i - 8))"

text \<open>
  The steps: a submessage pushed (its fragments, by \<open>reliable_push_submessage_wires\<close>), a message sent,
  one retransmitted for a bit of an acknowledgement, an acknowledgement processed, a heartbeat sent when
  \<open>fill_heartbeat\<close> says there is one; at the other end a message received, handed out, acknowledged, a heartbeat
  received with the numbers it carries.
\<close>

inductive link_step :: "'c link \<Rightarrow> 'c link \<Rightarrow> bool" where
  push: "ros_has_room (lk_tx l) \<Longrightarrow> length ms \<le> 32000 \<Longrightarrow>
    link_step l (l\<lparr>lk_tx := fold ros_append ms (lk_tx l), lk_log := lk_log l @ ms,
                   lk_a := fold os_push ms (lk_a l)\<rparr>)"
| send: "ros_get_next_message (lk_tx l) = (NextMessage m, tx) \<Longrightarrow>
    link_step l (l\<lparr>lk_tx := tx, lk_net := insert (DataPacket (Suc (os_sent (lk_a l))) (ros_last_sent tx) m) (lk_net l),
                   lk_a := snd (os_next (lk_a l))\<rparr>)"
| resend: "AckPacket first p \<in> lk_net l \<Longrightarrow> os_sent (lk_a l) + 1 < first + 32768 \<Longrightarrow> i < 16 \<Longrightarrow> nack_bit p i \<Longrightarrow>
    q = seq_add_int (ack_first_unacked_seq_num p) (int i) \<Longrightarrow> ros_get_message q (lk_tx l) = Some m \<Longrightarrow>
    link_step l (l\<lparr>lk_net := insert (DataPacket (first + i) q m) (lk_net l)\<rparr>)"
| ack_in: "AckPacket first p \<in> lk_net l \<Longrightarrow> os_sent (lk_a l) + 1 < first + 32768 \<Longrightarrow>
    link_step l (l\<lparr>lk_tx := ros_update_from_acknack (ack_first_unacked_seq_num p) (lk_tx l),
                   lk_a := os_ack first (lk_a l)\<rparr>)"
| heartbeat_out: "ros_fill_heartbeat (lk_tx l) h = (True, p) \<Longrightarrow>
    link_step l (l\<lparr>lk_net := insert (HeartbeatPacket (os_first (lk_a l)) (os_last (lk_a l)) p) (lk_net l)\<rparr>)"
| data_in: "DataPacket k q m \<in> lk_net l \<Longrightarrow> is_handled (lk_b l) \<le> k + 32751 \<Longrightarrow>
    link_step l (l\<lparr>lk_rx := snd (ris_push_message q m (lk_rx l)), lk_b := snd (is_push k m (lk_b l))\<rparr>)"
| deliver: "ris_pop_message (lk_rx l) = (Some m, rx) \<Longrightarrow>
    link_step l (l\<lparr>lk_rx := rx, lk_out := lk_out l @ [m], lk_b := snd (is_pop (lk_b l))\<rparr>)"
| ack_out:
    "link_step l (l\<lparr>lk_net := insert (AckPacket (Suc (is_handled (lk_b l))) (ris_fill_acknack (lk_rx l) ACKNACK_init)) (lk_net l)\<rparr>)"
| heartbeat_in: "HeartbeatPacket first ann p \<in> lk_net l \<Longrightarrow>
    is_handled (lk_b l) < first + 32767 \<Longrightarrow> is_announced (lk_b l) < ann + 32768 \<Longrightarrow>
    link_step l (l\<lparr>lk_rx := ris_update_from_heartbeat (hb_first_unacked_seq_nr p) (hb_last_unacked_seq_nr p) (lk_rx l),
                   lk_b := is_heartbeat first ann (lk_b l)\<rparr>)"

inductive link_reachable :: "'c link \<Rightarrow> bool" where
  start: "link_reachable link_init"
| step: "link_reachable l \<Longrightarrow> link_step l l' \<Longrightarrow> link_reachable l'"

section \<open>The invariant\<close>

definition logged :: "'c OutputMessage list \<Rightarrow> nat \<Rightarrow> 'c OutputMessage \<Rightarrow> bool" where
  "logged ms k m \<longleftrightarrow> 0 < k \<and> k \<le> length ms \<and> m = ms ! (k - 1)"

fun packet_ok :: "'c link \<Rightarrow> 'c packet \<Rightarrow> bool" where
  "packet_ok l (DataPacket k q m) \<longleftrightarrow> logged (lk_log l) k m \<and> q = sq k"
| "packet_ok l (AckPacket first p) \<longleftrightarrow> 0 < first \<and> first \<le> is_handled (lk_b l) + 1 \<and> ack_first_unacked_seq_num p = sq first"
| "packet_ok l (HeartbeatPacket first ann p) \<longleftrightarrow> 0 < first \<and> first \<le> is_handled (lk_b l) + 1 \<and> ann \<le> length (lk_log l) \<and>
     hb_first_unacked_seq_nr p = sq first \<and> hb_last_unacked_seq_nr p = sq ann"

definition link_ok :: "'c link \<Rightarrow> bool" where
  "link_ok l \<longleftrightarrow> os_rel (lk_tx l) (lk_a l) \<and> is_rel (lk_rx l) (lk_b l) \<and> is_gapless (lk_b l) \<and>
     os_last (lk_a l) = length (lk_log l) \<and> os_first (lk_a l) \<le> is_handled (lk_b l) + 1 \<and>
     is_announced (lk_b l) \<le> length (lk_log l) \<and>
     (\<forall>k m. os_buffer (lk_a l) k = Some m \<longrightarrow> logged (lk_log l) k m) \<and>
     (\<forall>k m. is_buffer (lk_b l) k = Some m \<longrightarrow> logged (lk_log l) k m) \<and>
     (\<forall>p \<in> lk_net l. packet_ok l p) \<and>
     lk_out l = take (is_handled (lk_b l)) (lk_log l)"

lemma link_ok_D:
  assumes "link_ok l"
  shows "os_rel (lk_tx l) (lk_a l)" "is_rel (lk_rx l) (lk_b l)" "os_last (lk_a l) = length (lk_log l)"
    "os_first (lk_a l) \<le> is_handled (lk_b l) + 1" "is_announced (lk_b l) \<le> length (lk_log l)"
    "os_buffer (lk_a l) k = Some m \<Longrightarrow> logged (lk_log l) k m"
    "is_buffer (lk_b l) k = Some m \<Longrightarrow> logged (lk_log l) k m"
    "p \<in> lk_net l \<Longrightarrow> packet_ok l p" "lk_out l = take (is_handled (lk_b l)) (lk_log l)"
    "os_ok (lk_a l)" "is_ok (lk_b l)" "length (lk_log l) < is_handled (lk_b l) + 32767"
    "is_handled (lk_b l) \<le> length (lk_log l)" "is_gapless (lk_b l)"
  using assms by (auto simp: link_ok_def os_rel_def is_rel_def os_ok_def is_gapless_def)

lemma link_ok_init: "link_ok link_init"
  using os_rel_init is_rel_init is_gapless_init by (simp add: link_ok_def link_init_def) (simp add: os_init_def is_init_def)

lemma logged_append: "logged ms k m \<Longrightarrow> logged (ms @ ms') k m"
  by (auto simp: logged_def nth_append)

lemma packet_ok_mono:
  assumes "packet_ok l p" and "lk_log l' = lk_log l @ ms" and "is_handled (lk_b l) \<le> is_handled (lk_b l')"
  shows "packet_ok l' p"
  using assms by (cases p) (auto intro: logged_append)

lemma fold_os_push:
  "os_last (fold os_push ms a) = os_last a + length ms" "os_first (fold os_push ms a) = os_first a"
  "os_sent (fold os_push ms a) = os_sent a"
  by (induction ms arbitrary: a) (simp_all add: os_push_def)

lemma fold_os_push_buffer:
  assumes "\<And>k m. os_buffer a k = Some m \<Longrightarrow> logged log k m" and "os_last a = length log"
  shows "os_buffer (fold os_push ms a) k = Some m \<Longrightarrow> logged (log @ ms) k m"
  using assms
proof (induction ms arbitrary: a log)
  case (Cons x ms)
  have "os_buffer (os_push x a) k = Some m \<Longrightarrow> logged (log @ [x]) k m" for k m
    using Cons.prems(2,3) by (auto simp: os_push_def logged_append split: if_splits) (simp add: logged_def)
  from Cons.IH [of "os_push x a" "log @ [x]", OF _ this] Cons.prems(1,3) show ?case by (simp add: os_push_def)
qed simp

lemma os_rel_fold_append:
  "os_rel s a \<Longrightarrow> os_last a + length ms < os_first a + 32766 \<Longrightarrow> os_rel (fold ros_append ms s) (fold os_push ms a)"
proof (induction ms arbitrary: s a)
  case (Cons m ms)
  have "os_rel (ros_append m s) (os_push m a)" using Cons.prems by (intro os_rel_append) simp_all
  from Cons.IH [OF this] Cons.prems(2) show ?case by (simp add: os_push_def)
qed simp

text \<open>Every step keeps it; the packets of a step are the only new ones.\<close>

lemma packets_ok_insert:
  assumes "link_ok l" and "packet_ok l' p" and "lk_log l' = lk_log l" and "is_handled (lk_b l) \<le> is_handled (lk_b l')"
    and "lk_net l' = insert p (lk_net l)"
  shows "\<forall>q \<in> lk_net l'. packet_ok l' q"
  using assms(2) packet_ok_mono [OF link_ok_D(8) [OF assms(1)], of _ l' "[]"] assms(3,4) unfolding assms(5) by auto

lemma packets_ok_keep:
  assumes "link_ok l" and "lk_log l' = lk_log l @ ms" and "is_handled (lk_b l) \<le> is_handled (lk_b l')"
  shows "\<forall>q \<in> lk_net l. packet_ok l' q"
  using packet_ok_mono [OF _ assms(2,3)] link_ok_D(8) [OF assms(1)] by blast

lemma push_keeps:
  assumes ok: "link_ok l" and "ros_has_room (lk_tx l)" and "length ms \<le> 32000"
  shows "link_ok (l\<lparr>lk_tx := fold ros_append ms (lk_tx l), lk_log := lk_log l @ ms, lk_a := fold os_push ms (lk_a l)\<rparr>)"
    (is "link_ok ?l")
proof -
  note D = link_ok_D [OF ok]
  have "os_last (lk_a l) + length ms < os_first (lk_a l) + 32766"
    using assms(2,3) os_rel_room [OF D(1)] by simp
  from os_rel_fold_append [OF D(1) this] have "os_rel (lk_tx ?l) (lk_a ?l)" by simp
  moreover have "os_buffer (lk_a ?l) k = Some m \<Longrightarrow> logged (lk_log ?l) k m" for k m
    using fold_os_push_buffer [OF D(6) D(3), of ms k m] by simp
  moreover have "\<forall>q \<in> lk_net l. packet_ok ?l q" using ok by (rule packets_ok_keep) simp_all
  moreover have "is_buffer (lk_b l) k = Some m \<Longrightarrow> logged (lk_log ?l) k m" for k m
    using D(7) by (simp add: logged_append)
  ultimately show ?thesis using D(2-5,9,13,14) by (simp add: link_ok_def fold_os_push)
qed

lemma send_keeps:
  assumes ok: "link_ok l" and next_m: "ros_get_next_message (lk_tx l) = (NextMessage m, tx)"
  shows "link_ok (l\<lparr>lk_tx := tx, lk_net := insert (DataPacket (Suc (os_sent (lk_a l))) (ros_last_sent tx) m) (lk_net l),
                   lk_a := snd (os_next (lk_a l))\<rparr>)" (is "link_ok ?l")
proof -
  note D = link_ok_D [OF ok]
  from os_rel_next [OF D(1)] next_m have nx: "fst (os_next (lk_a l)) = NextMessage m"
    and rel: "os_rel tx (snd (os_next (lk_a l)))" by simp_all
  then have lt: "os_sent (lk_a l) < os_last (lk_a l)" and m: "m = the (os_buffer (lk_a l) (Suc (os_sent (lk_a l))))"
    by (auto simp: os_next_def split: if_splits)
  then have "Suc (os_sent (lk_a l)) \<in> dom (os_buffer (lk_a l))" using D(10) by (auto simp: os_ok_def)
  moreover have "ros_last_sent tx = sq (Suc (os_sent (lk_a l)))" using rel lt by (simp add: os_rel_def os_next_def)
  ultimately have "packet_ok ?l (DataPacket (Suc (os_sent (lk_a l))) (ros_last_sent tx) m)" using D(6) m by auto
  then have "\<forall>q \<in> lk_net ?l. packet_ok ?l q" by (rule packets_ok_insert [OF ok]) (simp_all add: is_pop_def)
  moreover have "os_first (snd (os_next (lk_a l))) = os_first (lk_a l)" "os_last (snd (os_next (lk_a l))) = os_last (lk_a l)"
    "os_buffer (snd (os_next (lk_a l))) = os_buffer (lk_a l)" by (simp_all add: os_next_def)
  ultimately show ?thesis using rel D(2-7,9,14) by (simp add: link_ok_def del: packet_ok.simps)
qed

lemma resent_is_logged:
  assumes ok: "link_ok l" and ack: "AckPacket first p \<in> lk_net l" and hor: "os_sent (lk_a l) + 1 < first + 32768"
    and i: "i < 16" and q: "q = seq_add_int (ack_first_unacked_seq_num p) (int i)" and m': "ros_get_message q (lk_tx l) = Some m"
  shows "logged (lk_log l) (first + i) m" and "q = sq (first + i)"
proof -
  note D = link_ok_D [OF ok]
  let ?F = "os_first (lk_a l)"
  have F: "?F \<le> os_sent (lk_a l) + 1" "os_last (lk_a l) < ?F + 32766" using D(10) by (simp_all add: os_ok_def)
  have first: "first \<le> is_handled (lk_b l) + 1" using D(8) [OF ack] by simp
  show q': "q = sq (first + i)" using D(8) [OF ack] i seq_add_int_adv [of i "sq first"] by (simp add: q sq_add)
  note m = m' [unfolded q']
  show "logged (lk_log l) (first + i) m"
  proof (cases "?F \<le> first + i")
    case True
    have "ros_messages (lk_tx l) (sq (first + i)) = os_buffer (lk_a l) (first + i)"
      using True F first i D(3,12,13) by (intro os_rel_lookup [OF D(1)]) simp_all
    then show ?thesis using m D(6) by (simp add: ros_get_message_def)
  next
    case False
    have "ros_messages (lk_tx l) (sq (first + i + 65536)) = os_buffer (lk_a l) (first + i + 65536)"
      using False F hor by (intro os_rel_lookup [OF D(1)]) simp_all
    moreover have "os_buffer (lk_a l) (first + i + 65536) = None"
      using F hor by (intro os_buffer_outside [OF D(10)]) simp
    ultimately show ?thesis using m by (simp add: ros_get_message_def)
  qed
qed

lemma resend_keeps:
  assumes ok: "link_ok l" and "AckPacket first p \<in> lk_net l" and "os_sent (lk_a l) + 1 < first + 32768" and "i < 16"
    and "q = seq_add_int (ack_first_unacked_seq_num p) (int i)" and "ros_get_message q (lk_tx l) = Some m"
  shows "link_ok (l\<lparr>lk_net := insert (DataPacket (first + i) q m) (lk_net l)\<rparr>)" (is "link_ok ?l")
proof -
  have "packet_ok ?l (DataPacket (first + i) q m)" using resent_is_logged [OF assms] by simp
  then have "\<forall>q \<in> lk_net ?l. packet_ok ?l q" by (rule packets_ok_insert [OF ok]) (simp_all add: is_pop_def)
  then show ?thesis using link_ok_D [OF ok] by (simp add: link_ok_def del: packet_ok.simps)
qed

lemma ack_in_keeps:
  assumes ok: "link_ok l" and ack: "AckPacket first p \<in> lk_net l" and hor: "os_sent (lk_a l) + 1 < first + 32768"
  shows "link_ok (l\<lparr>lk_tx := ros_update_from_acknack (ack_first_unacked_seq_num p) (lk_tx l), lk_a := os_ack first (lk_a l)\<rparr>)"
    (is "link_ok ?l")
proof -
  note D = link_ok_D [OF ok]
  have p: "ack_first_unacked_seq_num p = sq first" "first \<le> is_handled (lk_b l) + 1" using D(8) [OF ack] by simp_all
  have F: "os_first (lk_a l) \<le> os_sent (lk_a l) + 1" "os_last (lk_a l) < os_first (lk_a l) + 32766"
    using D(10) by (simp_all add: os_ok_def)
  have "os_rel (ros_update_from_acknack (sq first) (lk_tx l)) (os_ack first (lk_a l))"
    using F hor p(2) D(3,13) by (intro os_rel_ack [OF D(1)]) simp_all
  moreover have "os_buffer (os_ack first (lk_a l)) k = Some m \<Longrightarrow> logged (lk_log l) k m" for k m
    using D(6) by (auto simp: os_ack_def restrict_map_def split: if_splits)
  moreover have "os_last (os_ack first (lk_a l)) = os_last (lk_a l)" "os_first (os_ack first (lk_a l)) \<le> is_handled (lk_b l) + 1"
    using D(4) p(2) by (simp_all add: os_ack_def)
  moreover have "\<forall>q \<in> lk_net ?l. packet_ok ?l q" using packets_ok_keep [OF ok, of ?l "[]"] by simp
  ultimately show ?thesis using D(2,3,5,7,9,14) by (simp add: link_ok_def p(1))
qed

lemma heartbeat_out_keeps:
  assumes ok: "link_ok l" and hb: "ros_fill_heartbeat (lk_tx l) h = (True, p)"
  shows "link_ok (l\<lparr>lk_net := insert (HeartbeatPacket (os_first (lk_a l)) (os_last (lk_a l)) p) (lk_net l)\<rparr>)" (is "link_ok ?l")
proof -
  note D = link_ok_D [OF ok]
  have "packet_ok ?l (HeartbeatPacket (os_first (lk_a l)) (os_last (lk_a l)) p)"
    using D(3,4,10) os_rel_fill_heartbeat(2,3) [OF D(1), of h] by (simp add: os_ok_def hb)
  then have "\<forall>q \<in> lk_net ?l. packet_ok ?l q" by (rule packets_ok_insert [OF ok]) (simp_all add: is_pop_def)
  then show ?thesis using D by (simp add: link_ok_def)
qed

lemma data_in_keeps:
  assumes ok: "link_ok l" and data: "DataPacket k q m \<in> lk_net l" and hor: "is_handled (lk_b l) \<le> k + 32751"
  shows "link_ok (l\<lparr>lk_rx := snd (ris_push_message q m (lk_rx l)), lk_b := snd (is_push k m (lk_b l))\<rparr>)" (is "link_ok ?l")
proof -
  note D = link_ok_D [OF ok]
  have k: "logged (lk_log l) k m" "q = sq k" using D(8) [OF data] by simp_all
  from k(1) have "k \<le> length (lk_log l)" by (simp add: logged_def)
  then have "is_rel (lk_rx ?l) (lk_b ?l)"
    using is_rel_push(2) [OF D(2) hor] D(12) k(2) by simp
  moreover have "is_buffer (lk_b ?l) j = Some m' \<Longrightarrow> logged (lk_log l) j m'" for j m'
    using D(7) k(1) by (auto simp: is_push_def split: if_splits)
  moreover have "is_handled (lk_b ?l) = is_handled (lk_b l)" "is_announced (lk_b ?l) \<le> length (lk_log l)"
    using D(5) \<open>k \<le> length (lk_log l)\<close> by (auto simp: is_push_def)
  moreover from this have "\<forall>q \<in> lk_net ?l. packet_ok ?l q" using packets_ok_keep [OF ok, of ?l "[]"] by simp
  ultimately show ?thesis using D(1,3,4,6,9) is_gapless_push [OF D(14)] by (simp add: link_ok_def)
qed

lemma deliver_keeps:
  assumes ok: "link_ok l" and pop: "ris_pop_message (lk_rx l) = (Some m, rx)"
  shows "link_ok (l\<lparr>lk_rx := rx, lk_out := lk_out l @ [m], lk_b := snd (is_pop (lk_b l))\<rparr>)" (is "link_ok ?l")
    and "lk_out l @ [m] = take (length (lk_out l) + 1) (lk_log l)"
proof -
  note D = link_ok_D [OF ok]
  let ?H = "is_handled (lk_b l)"
  from is_rel_pop_gapless [OF D(2,14)] pop have p: "fst (is_pop (lk_b l)) = Some m" and rel: "is_rel rx (snd (is_pop (lk_b l)))"
    by simp_all
  then have buf: "is_buffer (lk_b l) (Suc ?H) = Some m"
    and b: "snd (is_pop (lk_b l)) = (lk_b l)\<lparr>is_handled := Suc ?H, is_buffer := (is_buffer (lk_b l))(Suc ?H := None)\<rparr>"
    by (auto simp: is_pop_def split: option.splits)
  from D(7) [OF buf] have m: "Suc ?H \<le> length (lk_log l)" "m = lk_log l ! ?H" by (simp_all add: logged_def)
  then have out: "lk_out l @ [m] = take (Suc ?H) (lk_log l)" by (simp add: D(9) take_Suc_conv_app_nth)
  then show "lk_out l @ [m] = take (length (lk_out l) + 1) (lk_log l)" using m(1) by (simp add: D(9))
  have "\<forall>q \<in> lk_net ?l. packet_ok ?l q" using packets_ok_keep [OF ok, of ?l "[]"] by (simp add: b)
  then show "link_ok ?l"
    using D(1,3-7) rel out is_gapless_pop [OF D(11,14)] unfolding b by (simp add: link_ok_def)
qed

lemma ack_out_keeps:
  assumes ok: "link_ok l"
  shows "link_ok (l\<lparr>lk_net := insert (AckPacket (Suc (is_handled (lk_b l))) (ris_fill_acknack (lk_rx l) ACKNACK_init)) (lk_net l)\<rparr>)"
    (is "link_ok ?l")
proof -
  note D = link_ok_D [OF ok]
  have "packet_ok ?l (AckPacket (Suc (is_handled (lk_b l))) (ris_fill_acknack (lk_rx l) ACKNACK_init))"
    using D(2) by (simp add: fill_acknack_bits is_rel_def)
  then have "\<forall>q \<in> lk_net ?l. packet_ok ?l q" by (rule packets_ok_insert [OF ok]) (simp_all add: is_pop_def)
  then show ?thesis using D by (simp add: link_ok_def)
qed

lemma heartbeat_in_keeps:
  assumes ok: "link_ok l" and hb: "HeartbeatPacket first ann p \<in> lk_net l"
    and hor: "is_handled (lk_b l) < first + 32767" "is_announced (lk_b l) < ann + 32768"
  shows "link_ok (l\<lparr>lk_rx := ris_update_from_heartbeat (hb_first_unacked_seq_nr p) (hb_last_unacked_seq_nr p) (lk_rx l),
                   lk_b := is_heartbeat first ann (lk_b l)\<rparr>)"
    (is "link_ok ?l")
proof -
  note D = link_ok_D [OF ok]
  have p: "0 < first" "first \<le> is_handled (lk_b l) + 1" "ann \<le> length (lk_log l)" "hb_first_unacked_seq_nr p = sq first"
    "hb_last_unacked_seq_nr p = sq ann" using D(8) [OF hb] by simp_all
  note b = is_heartbeat_no_skip [OF p(2), of ann]
  have "is_rel (lk_rx ?l) (lk_b ?l)"
    using is_rel_heartbeat_gapless [OF D(2,14) p(1,2) hor(1) _ hor(2)] D(12) p(3-5) by simp
  moreover have "\<forall>q \<in> lk_net ?l. packet_ok ?l q"
    using packets_ok_keep [OF ok, of ?l "[]"] by (simp add: b)
  ultimately show ?thesis using D(1,3-7,9,14) p(3) by (simp add: link_ok_def b is_gapless_def le_max_iff_disj)
qed

lemma link_step_keeps: "link_step l l' \<Longrightarrow> link_ok l \<Longrightarrow> link_ok l'"
  by (induction rule: link_step.induct)
    (auto intro: push_keeps send_keeps resend_keeps ack_in_keeps heartbeat_out_keeps data_in_keeps
      deliver_keeps ack_out_keeps heartbeat_in_keeps)

lemma link_reachable_ok: "link_reachable l \<Longrightarrow> link_ok l"
  by (induction rule: link_reachable.induct) (auto intro: link_ok_init link_step_keeps)

section \<open>Recovery\<close>

text \<open>
  When the next message is missing at the receiver, a heartbeat announces it, the acknowledgement asks
  for it in its lowest bit, the sender still has it, and its copy goes into the stream.
\<close>

lemma link_recovers:
  assumes ok: "link_ok l" and behind: "is_handled (lk_b l) < length (lk_log l)"
    and missing: "is_buffer (lk_b l) (Suc (is_handled (lk_b l))) = None"
  obtains l' where "link_step\<^sup>*\<^sup>* l l'" and "link_ok l'" and "lk_log l' = lk_log l" and "lk_out l' = lk_out l"
    and "is_handled (lk_b l') = is_handled (lk_b l)" and "is_buffer (lk_b l') (Suc (is_handled (lk_b l))) \<noteq> None"
proof -
  let ?H = "is_handled (lk_b l)" and ?a = "lk_a l"
  note D = link_ok_D [OF ok]
  have F: "0 < os_first ?a" "os_sent ?a \<le> os_last ?a" "os_last ?a < os_first ?a + 32766" "dom (os_buffer ?a) = {os_first ?a..os_last ?a}"
    using D(10) by (simp_all add: os_ok_def)
  define h where "h = snd (ros_fill_heartbeat (lk_tx l) HEARTBEAT_init)"
  have hb: "ros_fill_heartbeat (lk_tx l) HEARTBEAT_init = (True, h)"
    using os_rel_fill_heartbeat(1) [OF D(1), of HEARTBEAT_init] D(3,4) behind by (simp add: h_def prod_eq_iff)
  define l1 where "l1 = l\<lparr>lk_net := insert (HeartbeatPacket (os_first ?a) (os_last ?a) h) (lk_net l)\<rparr>"
  have s1: "link_step l l1" unfolding l1_def by (rule heartbeat_out [OF hb])
  define l2 where "l2 = l1\<lparr>lk_rx := ris_update_from_heartbeat (hb_first_unacked_seq_nr h) (hb_last_unacked_seq_nr h) (lk_rx l1),
                          lk_b := is_heartbeat (os_first ?a) (os_last ?a) (lk_b l1)\<rparr>"
  have s2: "link_step l1 l2" unfolding l2_def
    by (rule heartbeat_in) (use D(3,5,13) F in \<open>simp_all add: l1_def\<close>)
  have ok2: "link_ok l2" using s1 s2 ok link_step_keeps by blast
  define p where "p = ris_fill_acknack (lk_rx l2) ACKNACK_init"
  define l3 where "l3 = l2\<lparr>lk_net := insert (AckPacket (Suc (is_handled (lk_b l2))) p) (lk_net l2)\<rparr>"
  have s3: "link_step l2 l3" unfolding l3_def p_def by (rule ack_out)
  have b2: "is_handled (lk_b l2) = ?H" "is_buffer (lk_b l2) = is_buffer (lk_b l)" "length (lk_log l) \<le> is_announced (lk_b l2)"
    using D(3) is_heartbeat_no_skip [OF D(4)] by (simp_all add: l2_def l1_def)
  have "is_missing (lk_b l2) 0" using behind missing b2 by (simp add: is_missing_def)
  then have bit0: "nack_bit p 0"
    using is_rel_missing [OF link_ok_D(2) [OF ok2], of 0] by (simp add: nack_bit_def p_def fill_acknack_bits)
  have "Suc ?H \<in> dom (os_buffer ?a)" using F D(3,4) behind by simp
  then obtain m where m: "os_buffer ?a (Suc ?H) = Some m" by auto
  have "ros_messages (lk_tx l) (sq (Suc ?H)) = os_buffer ?a (Suc ?H)"
    using D(3,4) behind F by (intro os_rel_lookup [OF D(1)]) simp_all
  with m have get: "ros_get_message (sq (Suc ?H)) (lk_tx l) = Some m" by (simp add: ros_get_message_def)
  have "ack_first_unacked_seq_num p = sq (Suc ?H)" using link_ok_D(2) [OF ok2] b2(1) by (simp add: p_def fill_acknack_bits is_rel_def)
  then have q: "sq (Suc ?H) = seq_add_int (ack_first_unacked_seq_num p) (int 0)"
    using seq_add_int_adv [of 0 "sq (Suc ?H)"] by (simp add: sn.adv_0)
  define l4 where "l4 = l3\<lparr>lk_net := insert (DataPacket (Suc ?H + 0) (sq (Suc ?H)) m) (lk_net l3)\<rparr>"
  have s4: "link_step l3 l4" unfolding l4_def
    by (rule resend [of _ p _ 0, OF _ _ _ _ q]) (use D(4) F bit0 get b2 in \<open>simp_all add: l3_def l2_def l1_def\<close>)
  define l5 where "l5 = l4\<lparr>lk_rx := snd (ris_push_message (sq (Suc ?H)) m (lk_rx l4)), lk_b := snd (is_push (Suc ?H) m (lk_b l4))\<rparr>"
  have s5: "link_step l4 l5" unfolding l5_def
    by (rule data_in) (use b2 in \<open>simp_all add: l4_def l3_def\<close>)
  have "link_step\<^sup>*\<^sup>* l l5"
    using s1 s2 s3 s4 s5 by (meson rtranclp.rtrancl_into_rtrancl rtranclp.rtrancl_refl)
  moreover have "link_ok l5" using ok2 s3 s4 s5 link_step_keeps by blast
  moreover have "lk_log l5 = lk_log l" "lk_out l5 = lk_out l" by (simp_all add: l5_def l4_def l3_def l2_def l1_def)
  moreover have "is_handled (lk_b l5) = ?H" "is_buffer (lk_b l5) (Suc ?H) \<noteq> None"
    using b2 missing by (simp_all add: l5_def l4_def l3_def is_push_def)
  ultimately show thesis by (rule that)
qed

lemma link_delivers:
  assumes ok: "link_ok l" and buf: "is_buffer (lk_b l) (Suc (is_handled (lk_b l))) \<noteq> None"
  obtains l' where "link_step l l'" and "lk_log l' = lk_log l" and "lk_out l' = lk_out l @ [lk_log l ! length (lk_out l)]"
proof -
  note D = link_ok_D [OF ok]
  obtain m where m: "is_buffer (lk_b l) (Suc (is_handled (lk_b l))) = Some m" using buf by auto
  then have "fst (ris_pop_message (lk_rx l)) = Some m" using is_rel_pop_gapless(1) [OF D(2,14)] by (simp add: is_pop_def)
  then obtain rx where pop: "ris_pop_message (lk_rx l) = (Some m, rx)" by (cases "ris_pop_message (lk_rx l)") auto
  have "m = lk_log l ! length (lk_out l)" using D(7) [OF m] by (simp add: logged_def D(9))
  with that [OF deliver [OF pop]] show thesis by simp
qed

section \<open>Properties\<close>

text \<open>C7. Exactly once and in order over an unreliable network: in every reachable state of the reliable
  stream protocol, whatever the network lost, repeated, delayed or reordered, the messages handed out
  at the receiver are a prefix of the messages pushed at the sender.\<close>

theorem link_delivers_prefix:
  assumes "link_reachable l"
  shows "\<exists>rest. lk_log l = lk_out l @ rest"
  using link_ok_D(9) [OF link_reachable_ok [OF assms]] by (metis append_take_drop_id)

text \<open>\<open>get_next_message\<close> never looks up a number that is not in its map: in no reachable state
  does \<open>messages_.at\<close> throw.\<close>

theorem link_next_never_throws:
  assumes "link_reachable l"
  shows "fst (ros_get_next_message (lk_tx l)) \<noteq> NextThrew"
  using os_rel_next(1) [OF link_ok_D(1) [OF link_reachable_ok [OF assms]]] by (simp add: os_next_def)

text \<open>C8. The protocol recovers from any loss: from every reachable state in which a message has not been
  handed out yet, steps of the two streams alone (heartbeat, acknowledgement, retransmission of the
  message its lowest bit asks for) lead to a state in which the next message is handed out.\<close>

theorem link_progress:
  assumes "link_reachable l" and "length (lk_out l) < length (lk_log l)"
  shows "\<exists>l'. link_step\<^sup>*\<^sup>* l l' \<and> lk_log l' = lk_log l \<and> lk_out l' = lk_out l @ [lk_log l ! length (lk_out l)]"
proof -
  have ok: "link_ok l" using assms(1) by (rule link_reachable_ok)
  note D = link_ok_D [OF ok]
  have behind: "is_handled (lk_b l) < length (lk_log l)" using assms(2) D(9) by simp
  show ?thesis
  proof (cases "is_buffer (lk_b l) (Suc (is_handled (lk_b l)))")
    case (Some m)
    with link_delivers [OF ok] show ?thesis by (metis option.distinct(1) r_into_rtranclp)
  next
    case None
    from link_recovers [OF ok behind None] obtain l1 where l1: "link_step\<^sup>*\<^sup>* l l1" "link_ok l1" "lk_log l1 = lk_log l"
      "lk_out l1 = lk_out l" "is_buffer (lk_b l1) (Suc (is_handled (lk_b l1))) \<noteq> None" by metis
    from link_delivers [OF l1(2,5)] obtain l2 where "link_step l1 l2" "lk_log l2 = lk_log l1"
      "lk_out l2 = lk_out l1 @ [lk_log l1 ! length (lk_out l1)]" .
    with l1 show ?thesis by (metis rtranclp.rtrancl_into_rtrancl)
  qed
qed

definition demo_link :: "(u8 list \<times> nat) link" where
  "demo_link = link_init\<lparr>lk_tx := fold ros_append [OutputMessage_new byte_cdr demo_header 8] (lk_tx link_init),
     lk_log := lk_log link_init @ [OutputMessage_new byte_cdr demo_header 8],
     lk_a := fold os_push [OutputMessage_new byte_cdr demo_header 8] (lk_a link_init)\<rparr>"

lemma demo_link_reachable: "link_reachable demo_link"
  unfolding demo_link_def
  by (rule link_reachable.step [OF link_reachable.start link_step.push])
    (simp_all add: link_init_def init_has_room)

theorem link_delivers_prefix_witness: "\<exists>rest. lk_log demo_link = lk_out demo_link @ rest"
  by (rule link_delivers_prefix [OF demo_link_reachable])

theorem link_next_never_throws_witness: "fst (ros_get_next_message (lk_tx demo_link)) \<noteq> NextThrew"
  by (rule link_next_never_throws [OF demo_link_reachable])

theorem link_progress_witness:
  "\<exists>l'. link_step\<^sup>*\<^sup>* demo_link l' \<and> lk_log l' = lk_log demo_link
     \<and> lk_out l' = lk_out demo_link @ [lk_log demo_link ! length (lk_out demo_link)]"
  by (rule link_progress [OF demo_link_reachable]) (simp add: demo_link_def link_init_def)

end
