(* ===== verification/Transport.thy ===== *)
theory Transport
  imports XrceTypes "HOL-Library.Sublist"
begin

text \<open>
  The transport side of the agent that every transport shares: \<open>SessionManager\<close>
  (\<open>transport/SessionManager.hpp\<close>), which maps end points to clients and back, \<open>FCFSScheduler\<close>
  (\<open>scheduler/FCFSScheduler.hpp\<close>), the bounded queue between the threads of \<open>Server\<close>
  (\<open>transport/Server.cpp\<close>), and the bodies of the loops those threads run. Sockets are parameters of
  the loop bodies. The end point is a type parameter, as in the code.
\<close>

section \<open>SessionManager\<close>

definition has_session_client_key :: "u8 \<Rightarrow> bool" where
  "has_session_client_key session_id \<longleftrightarrow> 128 > session_id"

record 'e SessionManager =
  sm_endpoint_to_client_map :: "'e \<rightharpoonup> u32"
  sm_client_to_endpoint_map :: "u32 \<rightharpoonup> 'e"

definition SessionManager_init :: "'e SessionManager" where
  "SessionManager_init = \<lparr>sm_endpoint_to_client_map = Map.empty, sm_client_to_endpoint_map = Map.empty\<rparr>"

definition establish_session :: "'e \<Rightarrow> u32 \<Rightarrow> u8 \<Rightarrow> 'e SessionManager \<Rightarrow> 'e SessionManager" where
  "establish_session endpoint client_key session_id s =
     (let s = (case sm_client_to_endpoint_map s client_key of
                 Some old \<Rightarrow> s\<lparr>sm_endpoint_to_client_map := erase (sm_endpoint_to_client_map s) old,
                               sm_client_to_endpoint_map := (sm_client_to_endpoint_map s)(client_key \<mapsto> endpoint)\<rparr>
               | None \<Rightarrow> s\<lparr>sm_client_to_endpoint_map := fst (emplace (sm_client_to_endpoint_map s) client_key endpoint)\<rparr>)
      in if \<not> has_session_client_key session_id
         then (case sm_endpoint_to_client_map s endpoint of
                 Some _ \<Rightarrow> s\<lparr>sm_endpoint_to_client_map := (sm_endpoint_to_client_map s)(endpoint \<mapsto> client_key)\<rparr>
               | None \<Rightarrow> s\<lparr>sm_endpoint_to_client_map := fst (emplace (sm_endpoint_to_client_map s) endpoint client_key)\<rparr>)
         else s)"

definition destroy_session :: "'e \<Rightarrow> 'e SessionManager \<Rightarrow> 'e SessionManager" where
  "destroy_session endpoint s =
     (case sm_endpoint_to_client_map s endpoint of
        Some client_key \<Rightarrow>
          s\<lparr>sm_client_to_endpoint_map := erase (sm_client_to_endpoint_map s) client_key,
            sm_endpoint_to_client_map := erase (sm_endpoint_to_client_map s) endpoint\<rparr>
      | None \<Rightarrow> s)"

definition get_client_key :: "'e \<Rightarrow> 'e SessionManager \<Rightarrow> u32 option" where
  "get_client_key endpoint s = sm_endpoint_to_client_map s endpoint"

definition get_endpoint :: "u32 \<Rightarrow> 'e SessionManager \<Rightarrow> 'e option" where
  "get_endpoint client_key s = sm_client_to_endpoint_map s client_key"

lemmas sm_defs = establish_session_def destroy_session_def get_client_key_def get_endpoint_def

text \<open>Both ways agree: the client found for an end point is reached at that end point.\<close>

definition sm_ok :: "'e SessionManager \<Rightarrow> bool" where
  "sm_ok s \<longleftrightarrow> (\<forall>e k. get_client_key e s = Some k \<longrightarrow> get_endpoint k s = Some e)"

lemma sm_ok_init: "sm_ok SessionManager_init"
  by (simp add: sm_ok_def SessionManager_init_def sm_defs)

lemma sm_ok_establish: "sm_ok s \<Longrightarrow> sm_ok (establish_session e k sid s)"
  by (auto simp: sm_ok_def sm_defs Let_def erase_def split: option.splits if_splits)

lemma sm_ok_destroy: "sm_ok s \<Longrightarrow> sm_ok (destroy_session e s)"
  by (cases "sm_endpoint_to_client_map s e") (auto simp: sm_ok_def sm_defs erase_def, metis option.inject)

datatype 'e sm_op = Establish 'e u32 u8 | Destroy 'e

fun sm_step :: "'e sm_op \<Rightarrow> 'e SessionManager \<Rightarrow> 'e SessionManager" where
  "sm_step (Establish e k sid) s = establish_session e k sid s"
| "sm_step (Destroy e) s = destroy_session e s"

lemma sm_ok_run: "sm_ok s \<Longrightarrow> sm_ok (fold sm_step ops s)"
proof (induction ops arbitrary: s)
  case (Cons op ops)
  then show ?case by (cases op) (simp_all add: sm_ok_establish sm_ok_destroy)
qed simp

lemma get_endpoint_establish:
  "get_endpoint k' (establish_session e k sid s) = (if k' = k then Some e else get_endpoint k' s)"
  by (auto simp: sm_defs Let_def split: option.splits)

lemma get_client_key_establish:
  "get_client_key e' (establish_session e k sid s) =
     (if e' = e \<and> \<not> has_session_client_key sid then Some k
      else if get_endpoint k s = Some e' then None else get_client_key e' s)"
  by (auto simp: sm_defs Let_def erase_def split: option.splits)

section \<open>FCFSScheduler\<close>

record 't FCFSScheduler =
  fs_deque :: "'t list"
  fs_running_cond :: bool
  fs_max_size :: nat

definition FCFSScheduler_new :: "nat \<Rightarrow> 't FCFSScheduler" where
  "FCFSScheduler_new max_size = \<lparr>fs_deque = [], fs_running_cond = False, fs_max_size = max_size\<rparr>"

definition fs_init :: "'t FCFSScheduler \<Rightarrow> 't FCFSScheduler" where
  "fs_init s = s\<lparr>fs_running_cond := True\<rparr>"

definition fs_deinit :: "'t FCFSScheduler \<Rightarrow> 't FCFSScheduler" where
  "fs_deinit s = s\<lparr>fs_running_cond := False\<rparr>"

definition fs_push :: "'t \<Rightarrow> u8 \<Rightarrow> 't FCFSScheduler \<Rightarrow> 't FCFSScheduler" where
  "fs_push element priority s =
     (let d = (if fs_max_size s \<le> length (fs_deque s) then tl (fs_deque s) else fs_deque s)
      in s\<lparr>fs_deque := d @ [element]\<rparr>)"

definition fs_push_front :: "'t \<Rightarrow> 't FCFSScheduler \<Rightarrow> 't FCFSScheduler" where
  "fs_push_front element s = s\<lparr>fs_deque := element # fs_deque s\<rparr>"

text \<open>\<open>None\<close>: the thread waits. Otherwise the element, or nothing when the scheduler was stopped.\<close>

definition fs_pop :: "'t FCFSScheduler \<Rightarrow> ('t option \<times> 't FCFSScheduler) option" where
  "fs_pop s =
     (if fs_deque s = [] \<and> fs_running_cond s then None
      else if fs_running_cond s
           then Some (Some (hd (fs_deque s)), s\<lparr>fs_deque := tl (fs_deque s)\<rparr>)
           else Some (None, s))"

text \<open>A history of pushes and pops by any threads; a pop that waits is simply not there yet.\<close>

datatype 't fs_op = FsPush 't | FsPop

fun fs_run :: "'t fs_op list \<Rightarrow> 't FCFSScheduler \<Rightarrow> 't list \<times> 't list \<times> 't FCFSScheduler" where
  "fs_run [] s = ([], [], s)"
| "fs_run (FsPush x # ops) s =
     (let (ins, outs, s') = fs_run ops (fs_push x 0 s) in (x # ins, outs, s'))"
| "fs_run (FsPop # ops) s =
     (case fs_pop s of
        Some (Some x, s1) \<Rightarrow> (let (ins, outs, s') = fs_run ops s1 in (ins, x # outs, s'))
      | _ \<Rightarrow> fs_run ops s)"

lemma fs_run_idle: "\<not> (fs_running_cond s \<and> fs_deque s \<noteq> []) \<Longrightarrow> fs_run (FsPop # ops) s = fs_run ops s"
  by (cases "fs_running_cond s") (simp_all add: fs_pop_def)

lemma fs_run_order:
  assumes "fs_run ops s = (ins, outs, s')"
  shows "subseq (outs @ fs_deque s') (fs_deque s @ ins)"
  using assms
proof (induction ops arbitrary: s ins outs s')
  case (Cons op ops)
  show ?case
  proof (cases op)
    case (FsPush x)
    obtain ins1 where r: "fs_run ops (fs_push x 0 s) = (ins1, outs, s')" and ins: "ins = x # ins1"
      using Cons.prems FsPush by (auto simp: Let_def split: prod.splits)
    have "subseq (outs @ fs_deque s') (fs_deque (fs_push x 0 s) @ ins1)" by (rule Cons.IH [OF r])
    moreover have "subseq (fs_deque (fs_push x 0 s) @ ins1) (fs_deque s @ ins)"
      by (cases "fs_deque s") (auto simp: fs_push_def ins)
    ultimately show ?thesis by (rule subseq_order.trans)
  next
    case FsPop
    show ?thesis
    proof (cases "fs_running_cond s \<and> fs_deque s \<noteq> []")
      case False
      from Cons FsPop show ?thesis unfolding FsPop fs_run_idle [OF False] by simp
    next
      case True
      then obtain x d where d: "fs_deque s = x # d" by (cases "fs_deque s") auto
      with True Cons.prems FsPop obtain outs1 where r: "fs_run ops (s\<lparr>fs_deque := d\<rparr>) = (ins, outs1, s')"
        and outs: "outs = x # outs1" by (auto simp: fs_pop_def Let_def split: prod.splits)
      from Cons.IH [OF r] show ?thesis by (simp add: d outs)
    qed
  qed
qed simp

lemma fs_run_bounded:
  assumes "fs_run ops s = (ins, outs, s')" and "0 < fs_max_size s" and "length (fs_deque s) \<le> fs_max_size s"
  shows "length (fs_deque s') \<le> fs_max_size s' \<and> fs_max_size s' = fs_max_size s"
  using assms
proof (induction ops arbitrary: s ins outs s')
  case (Cons op ops)
  show ?case
  proof (cases op)
    case (FsPush x)
    obtain ins1 where r: "fs_run ops (fs_push x 0 s) = (ins1, outs, s')"
      using Cons.prems FsPush by (auto simp: Let_def split: prod.splits)
    have "length (fs_deque (fs_push x 0 s)) \<le> fs_max_size s" "fs_max_size (fs_push x 0 s) = fs_max_size s"
      using Cons.prems(2,3) by (cases "fs_deque s"; simp add: fs_push_def Let_def)+
    then show ?thesis using Cons.IH [OF r] Cons.prems(2) by simp
  next
    case FsPop
    show ?thesis
    proof (cases "fs_running_cond s \<and> fs_deque s \<noteq> []")
      case False
      from Cons.prems have "fs_run ops s = (ins, outs, s')" unfolding FsPop fs_run_idle [OF False] by simp
      from Cons.IH [OF this Cons.prems(2,3)] show ?thesis .
    next
      case True
      with Cons.prems FsPop obtain outs1 where r: "fs_run ops (s\<lparr>fs_deque := tl (fs_deque s)\<rparr>) = (ins, outs1, s')"
        by (auto simp: fs_pop_def Let_def split: prod.splits)
      have "length (fs_deque (s\<lparr>fs_deque := tl (fs_deque s)\<rparr>)) \<le> fs_max_size (s\<lparr>fs_deque := tl (fs_deque s)\<rparr>)"
        using Cons.prems(3) by simp
      from Cons.IH [OF r _ this] Cons.prems(2) show ?thesis by simp
    qed
  qed
qed simp

text \<open>Without overflow nothing is lost.\<close>

lemma fs_run_lossless:
  assumes "fs_run ops s = (ins, outs, s')" and "length (fs_deque s) + length ins \<le> fs_max_size s"
  shows "outs @ fs_deque s' = fs_deque s @ ins"
  using assms
proof (induction ops arbitrary: s ins outs s')
  case (Cons op ops)
  show ?case
  proof (cases op)
    case (FsPush x)
    obtain ins1 where r: "fs_run ops (fs_push x 0 s) = (ins1, outs, s')" and ins: "ins = x # ins1"
      using Cons.prems FsPush by (auto simp: Let_def split: prod.splits)
    have p: "fs_push x 0 s = s\<lparr>fs_deque := fs_deque s @ [x]\<rparr>" using Cons.prems(2) ins by (simp add: fs_push_def)
    from Cons.IH [OF r] Cons.prems(2) show ?thesis by (simp add: ins p)
  next
    case FsPop
    show ?thesis
    proof (cases "fs_running_cond s \<and> fs_deque s \<noteq> []")
      case False
      from Cons FsPop show ?thesis unfolding FsPop fs_run_idle [OF False] by simp
    next
      case True
      then obtain x d where d: "fs_deque s = x # d" by (cases "fs_deque s") auto
      with True Cons.prems FsPop obtain outs1 where r: "fs_run ops (s\<lparr>fs_deque := d\<rparr>) = (ins, outs1, s')"
        and outs: "outs = x # outs1" by (auto simp: fs_pop_def Let_def split: prod.splits)
      from Cons.IH [OF r] Cons.prems(2) show ?thesis by (simp add: d outs)
    qed
  qed
qed simp

section \<open>The loops of Server\<close>

datatype TransportRc = rc_ok | rc_server_error | rc_timeout_error | rc_connection_error

record ('i, 'o) Server =
  sv_running_cond :: bool
  sv_input_scheduler :: "'i FCFSScheduler"
  sv_output_scheduler :: "'o FCFSScheduler"
  sv_transport_rc :: TransportRc

definition push_output_packet :: "('o \<Rightarrow> bool) \<Rightarrow> 'o \<Rightarrow> ('i, 'o) Server \<Rightarrow> ('i, 'o) Server" where
  "push_output_packet has_message output_packet s =
     (if has_message output_packet
      then s\<lparr>sv_output_scheduler := fs_push output_packet 0 (sv_output_scheduler s)\<rparr> else s)"

text \<open>One round of each loop. The socket's answer is an argument of the round.\<close>

definition receiver_round :: "'i option \<times> TransportRc \<Rightarrow> ('i, 'o) Server \<Rightarrow> ('i, 'o) Server" where
  "receiver_round received s =
     (case received of
        (Some input_packet, _) \<Rightarrow> s\<lparr>sv_input_scheduler := fs_push input_packet 0 (sv_input_scheduler s)\<rparr>
      | (None, rc) \<Rightarrow> if rc_server_error = rc then s\<lparr>sv_transport_rc := rc\<rparr> else s)"

definition sender_round :: "('o \<Rightarrow> bool \<times> TransportRc) \<Rightarrow> ('i, 'o) Server \<Rightarrow> ('i, 'o) Server option" where
  "sender_round send_message s =
     (case fs_pop (sv_output_scheduler s) of
        None \<Rightarrow> None
      | Some (None, _) \<Rightarrow> Some s
      | Some (Some output_packet, d) \<Rightarrow>
          (let s = s\<lparr>sv_output_scheduler := d\<rparr>; (sent, rc) = send_message output_packet
           in if \<not> sent \<and> rc_server_error = rc
              then Some (s\<lparr>sv_transport_rc := rc,
                           sv_output_scheduler := fs_push_front output_packet (sv_output_scheduler s)\<rparr>)
              else Some s))"

definition processing_round :: "('i \<Rightarrow> ('i, 'o) Server \<Rightarrow> ('i, 'o) Server) \<Rightarrow> ('i, 'o) Server \<Rightarrow> ('i, 'o) Server option" where
  "processing_round process_input_packet s =
     (case fs_pop (sv_input_scheduler s) of
        None \<Rightarrow> None
      | Some (None, _) \<Rightarrow> Some s
      | Some (Some input_packet, d) \<Rightarrow> Some (process_input_packet input_packet (s\<lparr>sv_input_scheduler := d\<rparr>)))"

text \<open>The error handler after its wait, with the answers of \<open>handle_error\<close> until one is true.\<close>

definition error_handled :: "('i, 'o) Server \<Rightarrow> ('i, 'o) Server" where
  "error_handled s = (if sv_running_cond s then s\<lparr>sv_transport_rc := rc_ok\<rparr> else s)"

lemma sender_keeps_unsent:
  assumes "fs_running_cond (sv_output_scheduler s)" and "fs_deque (sv_output_scheduler s) = p # ps"
    and "send_message p = (False, rc_server_error)"
  shows "sender_round send_message s = Some (s\<lparr>sv_transport_rc := rc_server_error\<rparr>)"
  using assms by (simp add: sender_round_def fs_pop_def fs_push_front_def)

section \<open>Properties\<close>

text \<open>C12. Over any history of sessions established and destroyed, the two maps of the session manager
  agree: when a packet of an end point is attributed to a client, answers to that client go to that
  end point.\<close>

theorem session_maps_agree:
  assumes "get_client_key e (fold sm_step ops SessionManager_init) = Some k"
  shows "get_endpoint k (fold sm_step ops SessionManager_init) = Some e"
  using sm_ok_run [OF sm_ok_init, of ops] assms by (simp add: sm_ok_def)

theorem session_maps_agree_witness:
  "get_endpoint 7 (fold sm_step [Establish ''b'' 7 0x81, Establish ''a'' 7 0x81] SessionManager_init) = Some ''a''"
  by (rule session_maps_agree) code_simp

text \<open>C13. A session established without a key in its headers moves to its new end point: both look-ups
  find it there, its old end point is forgotten, every other client keeps its end point and every other
  end point its client. Destroying it removes exactly these two entries.\<close>

theorem session_established_and_destroyed:
  assumes "\<not> has_session_client_key sid" and "s = establish_session e k sid s0" and "s' = destroy_session e s"
  shows "get_client_key e s = Some k \<and> get_endpoint k s = Some e
    \<and> (\<forall>k' e'. k' \<noteq> k \<and> e' \<noteq> e \<longrightarrow> get_endpoint k' s = get_endpoint k' s0
        \<and> get_client_key e' s = (if get_endpoint k s0 = Some e' then None else get_client_key e' s0))
    \<and> get_client_key e s' = None \<and> get_endpoint k s' = None
    \<and> (\<forall>k' e'. k' \<noteq> k \<and> e' \<noteq> e \<longrightarrow> get_endpoint k' s' = get_endpoint k' s \<and> get_client_key e' s' = get_client_key e' s)"
proof -
  have a: "get_client_key e s = Some k" "get_endpoint k s = Some e"
    using assms(1,2) by (simp_all add: get_client_key_establish get_endpoint_establish)
  then have "sm_endpoint_to_client_map s e = Some k" by (simp add: get_client_key_def)
  then have s': "s' = s\<lparr>sm_client_to_endpoint_map := erase (sm_client_to_endpoint_map s) k,
            sm_endpoint_to_client_map := erase (sm_endpoint_to_client_map s) e\<rparr>"
    by (simp add: assms(3) destroy_session_def)
  have "get_client_key e s' = None" "get_endpoint k s' = None"
    "k' \<noteq> k \<Longrightarrow> get_endpoint k' s' = get_endpoint k' s" "e' \<noteq> e \<Longrightarrow> get_client_key e' s' = get_client_key e' s" for k' e'
    by (simp_all add: s' get_client_key_def get_endpoint_def)
  then show ?thesis
    using a by (simp add: assms(2) get_client_key_establish get_endpoint_establish)
qed

theorem session_established_and_destroyed_witness:
  "get_client_key ''a'' (destroy_session ''a'' (establish_session ''a'' 7 0x81 SessionManager_init)) = None"
  using session_established_and_destroyed [of "0x81", OF _ refl refl, of "''a''" 7 SessionManager_init]
  by (simp add: has_session_client_key_def)

text \<open>C16. The scheduler between the threads: over any history of pushes and pops, what comes out, with what
  is still queued, is a subsequence of what went in, in its order; the queue never exceeds its size; and
  nothing is dropped while no more than that many elements were pushed.\<close>

theorem scheduler_bounded_fifo:
  assumes "fs_run ops (fs_init (FCFSScheduler_new n)) = (ins, outs, s)" and "0 < n"
  shows "subseq (outs @ fs_deque s) ins \<and> length (fs_deque s) \<le> n \<and> (length ins \<le> n \<longrightarrow> outs @ fs_deque s = ins)"
  using fs_run_order [OF assms(1)] fs_run_bounded [OF assms(1)] fs_run_lossless [OF assms(1)] assms(2)
  by (simp add: fs_init_def FCFSScheduler_new_def)

theorem scheduler_bounded_fifo_witness:
  "subseq (fst (snd (fs_run [FsPush ''a'', FsPush ''b'', FsPush ''c'', FsPop] (fs_init (FCFSScheduler_new 2))))
      @ fs_deque (snd (snd (fs_run [FsPush ''a'', FsPush ''b'', FsPush ''c'', FsPop] (fs_init (FCFSScheduler_new 2)))))) [''a'', ''b'', ''c'']"
  using scheduler_bounded_fifo [of "[FsPush ''a'', FsPush ''b'', FsPush ''c'', FsPop]" 2]
  by (simp add: fs_init_def FCFSScheduler_new_def fs_push_def fs_pop_def)

end
