(* ===== verification/Framing.thy ===== *)
theory Framing
  imports Crc Messages Transport
begin

text \<open>
  The stream framing protocol of the serial and custom transports, \<open>FramingIO\<close> of
  \<open>transport/stream_framing/StreamFramingProtocol.hpp\<close> and \<open>.cpp\<close>: begin flag, escaped octets,
  little-endian length, CRC. The read and write callbacks of the transport are parameters that act on
  an environment \<open>'e\<close>; the return code they set lives in the environment, and so does the clock that
  shortens the timeout they are given.
\<close>

section \<open>State\<close>

definition framing_begin_flag :: u8 where "framing_begin_flag = 0x7E"
definition framing_esc_flag :: u8 where "framing_esc_flag = 0x7D"
definition framing_xor_flag :: u8 where "framing_xor_flag = 0x20"

datatype InputState =
    UXR_FRAMING_UNINITIALIZED
  | UXR_FRAMING_READING_SRC_ADDR
  | UXR_FRAMING_READING_DST_ADDR
  | UXR_FRAMING_READING_LEN_LSB
  | UXR_FRAMING_READING_LEN_MSB
  | UXR_FRAMING_READING_PAYLOAD
  | UXR_FRAMING_READING_CRC_LSB
  | UXR_FRAMING_READING_CRC_MSB

text \<open>Positions in the 42 octet buffers are \<open>uint8_t\<close> below 42: natural numbers here.\<close>

definition framing_buffer_size :: nat where "framing_buffer_size = 42"

record FramingIO =
  fr_state :: InputState
  fr_local_addr :: u8
  fr_remote_addr :: u8
  fr_read_buffer :: "u8 list"
  fr_read_buffer_head :: nat
  fr_read_buffer_tail :: nat
  fr_msg_len :: u16
  fr_msg_pos :: u16
  fr_msg_crc :: u16
  fr_cmp_crc :: u16
  fr_write_buffer :: "u8 list"
  fr_write_buffer_pos :: nat

definition FramingIO_new :: "u8 \<Rightarrow> FramingIO" where
  "FramingIO_new local_addr =
     \<lparr>fr_state = UXR_FRAMING_UNINITIALIZED, fr_local_addr = local_addr, fr_remote_addr = 0,
      fr_read_buffer = replicate framing_buffer_size 0, fr_read_buffer_head = 0, fr_read_buffer_tail = 0,
      fr_msg_len = 0, fr_msg_pos = 0, fr_msg_crc = 0, fr_cmp_crc = 0,
      fr_write_buffer = replicate framing_buffer_size 0, fr_write_buffer_pos = 0\<rparr>"

section \<open>Writing\<close>

definition add_next_octet :: "u8 \<Rightarrow> FramingIO \<Rightarrow> bool \<times> FramingIO" where
  "add_next_octet octet s =
     (let p = fr_write_buffer_pos s in
      if framing_begin_flag = octet \<or> framing_esc_flag = octet then
        if p + 1 < framing_buffer_size
        then (True, s\<lparr>fr_write_buffer := (fr_write_buffer s)[p := framing_esc_flag, p + 1 := octet XOR framing_xor_flag],
                      fr_write_buffer_pos := p + 2\<rparr>)
        else (False, s)
      else if p < framing_buffer_size
        then (True, s\<lparr>fr_write_buffer := (fr_write_buffer s)[p := octet], fr_write_buffer_pos := p + 1\<rparr>)
        else (False, s))"

text \<open>
  The write callback gets the octets to be written and answers how many it took (negative: failure).
  The loop always offers the buffer from its beginning.
\<close>

type_synonym 'e write_callback = "u8 list \<Rightarrow> 'e \<Rightarrow> int \<times> 'e"

function transport_write_loop :: "'e write_callback \<Rightarrow> u8 list \<Rightarrow> nat \<Rightarrow> 'e \<Rightarrow> nat \<times> 'e" where
  "transport_write_loop w octets bytes_written e =
     (let (write_res, e) = w octets e;
          last_written = (if 0 < write_res then nat write_res else 0);
          bytes_written = bytes_written + last_written
      in if bytes_written < length octets \<and> 0 < last_written
         then transport_write_loop w octets bytes_written e
         else (bytes_written, e))"
  by auto
termination
  by (relation "measure (\<lambda>(w, octets, n, e). length octets - n)") (auto split: if_splits)

declare transport_write_loop.simps [simp del]

definition transport_write :: "'e write_callback \<Rightarrow> FramingIO \<times> 'e \<Rightarrow> bool \<times> FramingIO \<times> 'e" where
  "transport_write w se =
     (let (s, e) = se;
          (n, e) = transport_write_loop w (take (fr_write_buffer_pos s) (fr_write_buffer s)) 0 e
      in if fr_write_buffer_pos s = n then (True, s\<lparr>fr_write_buffer_pos := 0\<rparr>, e) else (False, s, e))"

lemma add_next_octet_False: "add_next_octet octet s = (False, s') \<Longrightarrow> s' = s \<and> 0 < fr_write_buffer_pos s"
  by (auto simp: add_next_octet_def Let_def framing_buffer_size_def split: if_splits)

lemma transport_write_True: "transport_write w se = (True, se') \<Longrightarrow> fr_write_buffer_pos (fst se') = 0"
  by (auto simp: transport_write_def Let_def split: prod.splits if_splits)

text \<open>The loops over the payload and over the two octets of the checksum, which both update it.\<close>

function write_octets :: "'e write_callback \<Rightarrow> u8 list \<Rightarrow> u16 \<Rightarrow> FramingIO \<times> 'e \<Rightarrow> bool \<times> u16 \<times> FramingIO \<times> 'e" where
  "write_octets w [] crc se = (True, crc, se)"
| "write_octets w (octet # octets) crc se =
     (case add_next_octet octet (fst se) of
        (True, s) \<Rightarrow> write_octets w octets (update_crc crc octet) (s, snd se)
      | (False, _) \<Rightarrow>
          (case transport_write w se of
             (True, se) \<Rightarrow> write_octets w (octet # octets) crc se
           | (False, se) \<Rightarrow> (False, crc, se)))"
  by pat_completeness auto
termination
  by (relation "measure (\<lambda>(w, octets, crc, se). 2 * length octets + (if fr_write_buffer_pos (fst se) = 0 then 0 else 1))")
    (auto dest!: add_next_octet_False [OF sym] transport_write_True [OF sym])

text \<open>
  \<open>written_len\<close> counts the payload in a \<open>uint16_t\<close>: for a longer payload the loop does not end, and
  there is no result.
\<close>

definition write_framed_msg :: "'e write_callback \<Rightarrow> u8 list \<Rightarrow> u8 \<Rightarrow> FramingIO \<times> 'e \<Rightarrow> (nat \<times> FramingIO \<times> 'e) option" where
  "write_framed_msg w buf remote_addr se =
     (let (s, e) = se; len = length buf;
          s = s\<lparr>fr_write_buffer := (fr_write_buffer s)[0 := framing_begin_flag], fr_write_buffer_pos := 1\<rparr>;
          s = snd (add_next_octet (fr_local_addr s) s);
          s = snd (add_next_octet remote_addr s);
          s = snd (add_next_octet (of_nat len AND 0xFF) s);
          s = snd (add_next_octet (ucast (drop_bit 8 (of_nat len :: u64))) s)
      in if 65535 < len then None
         else (let (cond, crc, se) = write_octets w buf 0 (s, e);
                   (cond, _, se) = (if cond then write_octets w [ucast crc, ucast (drop_bit 8 crc)] crc se
                                    else (False, crc, se));
                   (cond, se) = (if cond \<and> 0 < fr_write_buffer_pos (fst se) then transport_write w se else (cond, se))
               in Some (if cond then len else 0, se)))"

section \<open>Reading\<close>

definition read_buffer_next :: "nat \<Rightarrow> nat" where
  "read_buffer_next i = (i + 1) mod framing_buffer_size"

definition get_next_octet :: "FramingIO \<Rightarrow> bool \<times> u8 \<times> FramingIO" where
  "get_next_octet s =
     (let h = fr_read_buffer_head s; t = fr_read_buffer_tail s in
      if h \<noteq> t then
        if framing_esc_flag \<noteq> fr_read_buffer s ! t then
          (let octet = fr_read_buffer s ! t
           in (framing_begin_flag \<noteq> octet, octet, s\<lparr>fr_read_buffer_tail := read_buffer_next t\<rparr>))
        else
          (let temp_tail = read_buffer_next t in
           if temp_tail \<noteq> h then
             (let octet = fr_read_buffer s ! temp_tail;
                  s = s\<lparr>fr_read_buffer_tail := (t + 2) mod framing_buffer_size\<rparr>
              in if framing_begin_flag \<noteq> octet then (True, octet XOR framing_xor_flag, s) else (False, octet, s))
           else (False, 0, s))
      else (False, 0, s))"

text \<open>The read callback gets how many octets fit and answers with what it read.\<close>

type_synonym 'e read_callback = "nat \<Rightarrow> 'e \<Rightarrow> u8 list \<times> 'e"

definition store_read :: "u8 list \<Rightarrow> FramingIO \<Rightarrow> FramingIO" where
  "store_read bs s =
     s\<lparr>fr_read_buffer := write_at (fr_read_buffer_head s) bs (fr_read_buffer s),
       fr_read_buffer_head := (fr_read_buffer_head s + length bs) mod framing_buffer_size\<rparr>"

definition available_length :: "FramingIO \<Rightarrow> nat \<times> nat" where
  "available_length s =
     (let h = fr_read_buffer_head s; t = fr_read_buffer_tail s in
      if h > t then
        if 0 < t then (framing_buffer_size - h, t - 1) else (framing_buffer_size - h - 1, 0)
      else (t - h - 1, 0))"

definition transport_read :: "'e read_callback \<Rightarrow> FramingIO \<times> 'e \<Rightarrow> nat \<times> FramingIO \<times> 'e" where
  "transport_read r se =
     (let (s, e) = se;
          (s, a0, a1) = (if fr_read_buffer_head s = fr_read_buffer_tail s
                         then (s\<lparr>fr_read_buffer_head := 0, fr_read_buffer_tail := 0\<rparr>, framing_buffer_size - 1, 0)
                         else (s, available_length s))
      in if 0 < a0 then
           (let (bs, e) = r a0 e; s = store_read bs s in
            if 0 < length bs \<and> length bs = a0 \<and> 0 < a1 then
              (let (bs1, e) = r a1 e in (length bs + length bs1, store_read bs1 s, e))
            else (length bs, s, e))
         else (0, s, e))"

text \<open>
  The first state: skipping up to a begin flag. The loop ends because the tail reaches the head;
  \<open>None\<close> would be a loop without end.
\<close>

partial_function (option) skip_to_flag :: "u8 \<Rightarrow> FramingIO \<Rightarrow> (u8 \<times> FramingIO) option" where
  "skip_to_flag octet s =
     (if framing_begin_flag \<noteq> octet \<and> fr_read_buffer_head s \<noteq> fr_read_buffer_tail s
      then skip_to_flag (fr_read_buffer s ! fr_read_buffer_tail s)
             (s\<lparr>fr_read_buffer_tail := read_buffer_next (fr_read_buffer_tail s)\<rparr>)
      else Some (octet, s))"

declare skip_to_flag.simps [code]

text \<open>The loop over the payload: the destination, the last octet, the state.\<close>

lemma get_next_octet_keeps:
  assumes "get_next_octet s = (ok, octet, s')"
  shows "s' = s\<lparr>fr_read_buffer_tail := fr_read_buffer_tail s'\<rparr>"
  using assms by (auto simp: get_next_octet_def Let_def split: if_splits)

lemma get_next_octet_fields:
  assumes "get_next_octet s = (ok, octet, s')"
  shows "fr_msg_pos s' = fr_msg_pos s" "fr_msg_len s' = fr_msg_len s" "fr_cmp_crc s' = fr_cmp_crc s"
  by (subst get_next_octet_keeps [OF assms], simp)+

lemma unat_add_one_less: "(x :: u16) < y \<Longrightarrow> unat (x + 1) = Suc (unat x)"
  using unat_u16_less [of y] by (simp add: unat_word_ariths word_less_nat_alt)

function read_payload :: "u8 list \<Rightarrow> u8 \<Rightarrow> FramingIO \<Rightarrow> u8 list \<times> u8 \<times> FramingIO" where
  "read_payload buf octet s =
     (if fr_msg_pos s < fr_msg_len s then
        (case get_next_octet s of
           (True, octet, s) \<Rightarrow>
             read_payload (buf[unat (fr_msg_pos s) := octet]) octet
               (s\<lparr>fr_msg_pos := fr_msg_pos s + 1, fr_cmp_crc := update_crc (fr_cmp_crc s) octet\<rparr>)
         | (False, octet, s) \<Rightarrow> (buf, octet, s))
      else (buf, octet, s))"
  by auto
termination
proof (relation "measure (\<lambda>(buf, octet, s). unat (fr_msg_len s) - unat (fr_msg_pos s))", goal_cases)
  case (2 buf octet s ok p octet' s')
  then have g: "get_next_octet s = (True, octet', s')" by simp
  have "unat (fr_msg_pos s + 1) = Suc (unat (fr_msg_pos s))" using 2(1) by (rule unat_add_one_less)
  moreover have "unat (fr_msg_pos s) < unat (fr_msg_len s)" using 2(1) by (simp add: word_less_nat_alt)
  ultimately show ?case by (simp add: get_next_octet_fields [OF g])
qed simp

declare read_payload.simps [simp del]

text \<open>
  One round of the state machine: whether it leaves the loop, the result so far, the remote address
  handed to the caller, the destination, the state, the environment.
\<close>

record 'e framing_round =
  rd_exit :: bool
  rd_result :: nat
  rd_remote :: u8
  rd_buf :: "u8 list"
  rd_io :: FramingIO
  rd_env :: 'e

text \<open>What every state does when there is no octet: a begin flag restarts the frame, otherwise leave.\<close>

definition no_octet :: "u8 \<Rightarrow> FramingIO \<Rightarrow> 'e framing_round \<Rightarrow> 'e framing_round" where
  "no_octet octet s R =
     (if framing_begin_flag = octet then R\<lparr>rd_io := s\<lparr>fr_state := UXR_FRAMING_READING_SRC_ADDR\<rparr>\<rparr>
      else R\<lparr>rd_io := s, rd_exit := True\<rparr>)"

definition framing_round :: "'e read_callback \<Rightarrow> nat \<Rightarrow> 'e framing_round \<Rightarrow> 'e framing_round option" where
  "framing_round r len R =
     (let s = rd_io R in
      case fr_state s of
        UXR_FRAMING_UNINITIALIZED \<Rightarrow>
          (case skip_to_flag 0 s of
             None \<Rightarrow> None
           | Some (octet, s) \<Rightarrow>
               Some (if framing_begin_flag = octet
                     then R\<lparr>rd_io := s\<lparr>fr_state := UXR_FRAMING_READING_SRC_ADDR\<rparr>\<rparr>
                     else R\<lparr>rd_io := s, rd_exit := True\<rparr>))
      | UXR_FRAMING_READING_SRC_ADDR \<Rightarrow>
          (case get_next_octet s of (ok, octet, s) \<Rightarrow>
             let s = s\<lparr>fr_remote_addr := octet\<rparr> in
             Some (if ok then R\<lparr>rd_io := s\<lparr>fr_state := UXR_FRAMING_READING_DST_ADDR\<rparr>\<rparr>
                   else if framing_begin_flag \<noteq> octet then R\<lparr>rd_io := s, rd_exit := True\<rparr>
                   else R\<lparr>rd_io := s\<rparr>))
      | UXR_FRAMING_READING_DST_ADDR \<Rightarrow>
          (case get_next_octet s of
             (True, octet, s) \<Rightarrow>
               Some (R\<lparr>rd_io := s\<lparr>fr_state := (if octet = fr_local_addr s then UXR_FRAMING_READING_LEN_LSB
                                              else UXR_FRAMING_UNINITIALIZED)\<rparr>\<rparr>)
           | (False, octet, s) \<Rightarrow> Some (no_octet octet s R))
      | UXR_FRAMING_READING_LEN_LSB \<Rightarrow>
          (case get_next_octet s of
             (True, octet, s) \<Rightarrow>
               Some (R\<lparr>rd_io := s\<lparr>fr_msg_len := ucast octet, fr_state := UXR_FRAMING_READING_LEN_MSB\<rparr>\<rparr>)
           | (False, octet, s) \<Rightarrow> Some (no_octet octet s R))
      | UXR_FRAMING_READING_LEN_MSB \<Rightarrow>
          (case get_next_octet s of
             (True, octet, s) \<Rightarrow>
               (let s = s\<lparr>fr_msg_len := fr_msg_len s + push_bit 8 (ucast octet), fr_msg_pos := 0, fr_cmp_crc := 0\<rparr>
                in Some (if len < unat (fr_msg_len s)
                         then R\<lparr>rd_io := s\<lparr>fr_state := UXR_FRAMING_UNINITIALIZED\<rparr>, rd_exit := True\<rparr>
                         else R\<lparr>rd_io := s\<lparr>fr_state := UXR_FRAMING_READING_PAYLOAD\<rparr>\<rparr>))
           | (False, octet, s) \<Rightarrow> Some (no_octet octet s R))
      | UXR_FRAMING_READING_PAYLOAD \<Rightarrow>
          (case read_payload (rd_buf R) 0 s of (buf, octet, s) \<Rightarrow>
             let R = R\<lparr>rd_buf := buf\<rparr> in
             if fr_msg_pos s = fr_msg_len s then Some (R\<lparr>rd_io := s\<lparr>fr_state := UXR_FRAMING_READING_CRC_LSB\<rparr>\<rparr>)
             else if framing_begin_flag = octet then Some (R\<lparr>rd_io := s\<lparr>fr_state := UXR_FRAMING_READING_SRC_ADDR\<rparr>\<rparr>)
             else (case transport_read r (s, rd_env R) of (n, s, e) \<Rightarrow>
                     Some (if 0 < n then R\<lparr>rd_io := s, rd_env := e\<rparr>
                           else R\<lparr>rd_io := s, rd_env := e, rd_exit := True\<rparr>)))
      | UXR_FRAMING_READING_CRC_LSB \<Rightarrow>
          (case get_next_octet s of
             (True, octet, s) \<Rightarrow>
               Some (R\<lparr>rd_io := s\<lparr>fr_msg_crc := ucast octet, fr_state := UXR_FRAMING_READING_CRC_MSB\<rparr>\<rparr>)
           | (False, octet, s) \<Rightarrow> Some (no_octet octet s R))
      | UXR_FRAMING_READING_CRC_MSB \<Rightarrow>
          (case get_next_octet s of
             (True, octet, s) \<Rightarrow>
               (let s = s\<lparr>fr_msg_crc := fr_msg_crc s + push_bit 8 (ucast octet), fr_state := UXR_FRAMING_UNINITIALIZED\<rparr>;
                    R = (if fr_cmp_crc s = fr_msg_crc s
                         then R\<lparr>rd_remote := fr_remote_addr s, rd_result := unat (fr_msg_len s)\<rparr> else R)
                in Some (R\<lparr>rd_io := s, rd_exit := True\<rparr>))
           | (False, octet, s) \<Rightarrow> Some (no_octet octet s R)))"

partial_function (option) framing_loop :: "'e read_callback \<Rightarrow> nat \<Rightarrow> 'e framing_round \<Rightarrow> 'e framing_round option" where
  "framing_loop r len R =
     (if rd_exit R then Some R else Option.bind (framing_round r len R) (framing_loop r len))"

declare framing_loop.simps [code]

text \<open>\<open>read_framed_msg\<close>: the number of octets, the destination, the remote address.\<close>

definition read_framed_msg :: "'e read_callback \<Rightarrow> u8 list \<Rightarrow> u8 \<Rightarrow> FramingIO \<times> 'e \<Rightarrow> 'e framing_round option" where
  "read_framed_msg r buf remote_addr se =
     (let (read_bytes, s, e) = transport_read r se;
          R = \<lparr>rd_exit = False, rd_result = 0, rd_remote = remote_addr, rd_buf = buf, rd_io = s, rd_env = e\<rparr>
      in if 0 < read_bytes \<or> fr_read_buffer_tail s \<noteq> fr_read_buffer_head s
         then framing_loop r (length buf) R else Some (R\<lparr>rd_exit := True\<rparr>))"

section \<open>Frames\<close>

definition escape :: "u8 \<Rightarrow> u8 list" where
  "escape octet = (if framing_begin_flag = octet \<or> framing_esc_flag = octet
     then [framing_esc_flag, octet XOR framing_xor_flag] else [octet])"

definition payload_crc :: "u8 list \<Rightarrow> u16" where
  "payload_crc bs = fold (\<lambda>octet crc. update_crc crc octet) bs 0"

text \<open>The octets of a frame after its begin flag, before escaping.\<close>

definition frame_octets :: "u8 \<Rightarrow> u8 \<Rightarrow> u8 list \<Rightarrow> u8 list" where
  "frame_octets src dst bs =
     [src, dst, of_nat (length bs) AND 0xFF, ucast (drop_bit 8 (of_nat (length bs) :: u64))] @ bs
     @ [ucast (payload_crc bs), ucast (drop_bit 8 (payload_crc bs))]"

definition frame_bytes :: "u8 \<Rightarrow> u8 \<Rightarrow> u8 list \<Rightarrow> u8 list" where
  "frame_bytes src dst bs = framing_begin_flag # concat (map escape (frame_octets src dst bs))"

text \<open>A write callback that takes everything; \<open>sent\<close> reads the octets it took from the environment.\<close>

definition writes_all :: "'e write_callback \<Rightarrow> ('e \<Rightarrow> u8 list) \<Rightarrow> bool" where
  "writes_all w sent \<longleftrightarrow> (\<forall>octets e. fst (w octets e) = int (length octets) \<and> sent (snd (w octets e)) = sent e @ octets)"

definition write_ok :: "FramingIO \<Rightarrow> bool" where
  "write_ok s \<longleftrightarrow> length (fr_write_buffer s) = framing_buffer_size \<and> fr_write_buffer_pos s \<le> framing_buffer_size"

definition pending :: "FramingIO \<Rightarrow> u8 list" where
  "pending s = take (fr_write_buffer_pos s) (fr_write_buffer s)"

lemma take_upd_end: "p < length xs \<Longrightarrow> take (Suc p) (xs[p := x]) = take p xs @ [x]"
  by (simp add: take_Suc_conv_app_nth)

lemma add_next_octet_True:
  assumes "add_next_octet octet s = (True, s')" and "write_ok s"
  shows "write_ok s' \<and> pending s' = pending s @ escape octet"
proof -
  let ?p = "fr_write_buffer_pos s"
  have l: "length (fr_write_buffer s) = 42" "?p \<le> 42" using assms(2) by (simp_all add: write_ok_def framing_buffer_size_def)
  show ?thesis
  proof (cases "framing_begin_flag = octet \<or> framing_esc_flag = octet")
    case True
    then have p: "Suc ?p < 42"
      and s': "s' = s\<lparr>fr_write_buffer := (fr_write_buffer s)[?p := framing_esc_flag, Suc ?p := octet XOR framing_xor_flag],
                      fr_write_buffer_pos := ?p + 2\<rparr>"
      using assms(1) by (auto simp: add_next_octet_def Let_def framing_buffer_size_def split: if_splits)
    have "take (Suc (Suc ?p)) ((fr_write_buffer s)[?p := framing_esc_flag, Suc ?p := octet XOR framing_xor_flag])
        = take ?p (fr_write_buffer s) @ [framing_esc_flag, octet XOR framing_xor_flag]"
      using p l by (simp add: take_upd_end)
    then show ?thesis using True p l by (simp add: s' pending_def escape_def write_ok_def framing_buffer_size_def)
  next
    case False
    then have p: "?p < 42" and s': "s' = s\<lparr>fr_write_buffer := (fr_write_buffer s)[?p := octet], fr_write_buffer_pos := Suc ?p\<rparr>"
      using assms(1) by (auto simp: add_next_octet_def Let_def framing_buffer_size_def split: if_splits)
    show ?thesis using False p l
      by (simp add: s' pending_def escape_def write_ok_def framing_buffer_size_def take_upd_end)
  qed
qed

lemma add_next_octet_room: "fr_write_buffer_pos s + 1 < framing_buffer_size \<Longrightarrow> fst (add_next_octet octet s)"
  by (simp add: add_next_octet_def Let_def)

lemma add_next_octet_pos: "fr_write_buffer_pos (snd (add_next_octet octet s)) \<le> fr_write_buffer_pos s + 2"
  by (simp add: add_next_octet_def Let_def)

lemma add_header_octet:
  assumes "write_ok s" and "fr_write_buffer_pos s + 1 < framing_buffer_size"
  shows "write_ok (snd (add_next_octet octet s)) \<and> pending (snd (add_next_octet octet s)) = pending s @ escape octet"
  using add_next_octet_True [of octet s] add_next_octet_room [OF assms(2), of octet] assms(1)
  by (cases "add_next_octet octet s") simp

lemma transport_write_all:
  assumes "writes_all w sent" and "write_ok s"
  obtains e' where "transport_write w (s, e) = (True, s\<lparr>fr_write_buffer_pos := 0\<rparr>, e')" and "sent e' = sent e @ pending s"
proof -
  have p: "length (pending s) = fr_write_buffer_pos s" using assms(2) by (simp add: write_ok_def pending_def)
  obtain n e' where w: "w (pending s) e = (n, e')" by (cases "w (pending s) e")
  with assms(1) have n: "n = int (length (pending s))" "sent e' = sent e @ pending s"
    unfolding writes_all_def by (metis fst_conv snd_conv)+
  have "transport_write_loop w (pending s) 0 e = (length (pending s), e')"
    by (subst transport_write_loop.simps) (simp add: w n)
  then have "transport_write w (s, e) = (True, s\<lparr>fr_write_buffer_pos := 0\<rparr>, e')"
    using p by (simp add: transport_write_def pending_def)
  then show thesis using n(2) by (rule that)
qed

lemma write_octets_all:
  assumes "writes_all w sent" and "write_ok (fst se)"
  shows "\<exists>s' e'. write_octets w octets crc se = (True, fold (\<lambda>octet crc. update_crc crc octet) octets crc, s', e')
     \<and> write_ok s' \<and> sent e' @ pending s' = sent (snd se) @ pending (fst se) @ concat (map escape octets)"
  using assms
proof (induction w octets crc se rule: write_octets.induct)
  case (1 w crc se)
  then show ?case by (cases se) simp
next
  case (2 w octet octets crc se)
  obtain s e where se: "se = (s, e)" by (cases se)
  show ?case
  proof (cases "add_next_octet octet s")
    case (Pair ok s1)
    show ?thesis
    proof (cases ok)
      case True
      with Pair have a: "add_next_octet octet s = (True, s1)" by simp
      with 2(4) se have s1: "write_ok s1" "pending s1 = pending s @ escape octet"
        using add_next_octet_True by auto
      from 2(1) [of True s1] a s1(1) 2(3) show ?thesis by (auto simp: se s1(2))
    next
      case False
      with Pair have a: "add_next_octet octet s = (False, s1)" by simp
      from transport_write_all [OF 2(3), of s e] 2(4) obtain e1
        where t: "transport_write w (s, e) = (True, s\<lparr>fr_write_buffer_pos := 0\<rparr>, e1)" "sent e1 = sent e @ pending s"
        by (auto simp: se)
      have "write_ok (s\<lparr>fr_write_buffer_pos := 0\<rparr>)" "pending (s\<lparr>fr_write_buffer_pos := 0\<rparr>) = []"
        using 2(4) by (simp_all add: se write_ok_def pending_def)
      with 2(2) [of False s1 True "(s\<lparr>fr_write_buffer_pos := 0\<rparr>, e1)"] a t 2(3) show ?thesis
        by (auto simp: se)
    qed
  qed
qed

section \<open>Properties\<close>

text \<open>C14. What goes on a serial line: over a callback that takes what it is given, \<open>write_framed_msg\<close> of at
  most 65535 octets returns their number and has sent exactly the frame: begin flag, then addresses,
  length, payload and checksum with every flag and escape octet escaped, however often the 42 octet
  buffer had to be flushed in between.\<close>

theorem write_framed_msg_frame:
  assumes "writes_all w sent" and "length buf \<le> 65535" and "length (fr_write_buffer s) = framing_buffer_size"
  shows "\<exists>s' e'. write_framed_msg w buf remote_addr (s, e) = Some (length buf, s', e')
    \<and> sent e' = sent e @ frame_bytes (fr_local_addr s) remote_addr buf"
proof -
  let ?len = "length buf"
  define s0 where "s0 = s\<lparr>fr_write_buffer := (fr_write_buffer s)[0 := framing_begin_flag], fr_write_buffer_pos := 1\<rparr>"
  define s1 where "s1 = snd (add_next_octet (fr_local_addr s0) s0)"
  define s2 where "s2 = snd (add_next_octet remote_addr s1)"
  define s3 where "s3 = snd (add_next_octet (of_nat ?len AND 0xFF) s2)"
  define s4 where "s4 = snd (add_next_octet (ucast (drop_bit 8 (of_nat ?len :: u64))) s3)"
  have pos: "fr_write_buffer_pos s0 = 1" "fr_write_buffer_pos s1 \<le> 3" "fr_write_buffer_pos s2 \<le> 5" "fr_write_buffer_pos s3 \<le> 7"
    using add_next_octet_pos [of "fr_local_addr s0" s0] add_next_octet_pos [of remote_addr s1]
      add_next_octet_pos [of "of_nat ?len AND 0xFF" s2] by (simp_all add: s0_def s1_def s2_def s3_def)
  have ok0: "write_ok s0" "pending s0 = [framing_begin_flag]"
    using assms(3) by (simp_all add: s0_def write_ok_def pending_def framing_buffer_size_def take_Suc_conv_app_nth)
  have ok1: "write_ok s1 \<and> pending s1 = pending s0 @ escape (fr_local_addr s)"
    using add_header_octet [OF ok0(1), of "fr_local_addr s"] pos(1) unfolding s1_def by (simp add: s0_def framing_buffer_size_def)
  then have ok2: "write_ok s2 \<and> pending s2 = pending s1 @ escape remote_addr"
    unfolding s2_def using pos(2) by (intro add_header_octet) (simp_all add: framing_buffer_size_def)
  then have ok3: "write_ok s3 \<and> pending s3 = pending s2 @ escape (of_nat ?len AND 0xFF)"
    unfolding s3_def using pos(3) by (intro add_header_octet) (simp_all add: framing_buffer_size_def)
  then have ok4: "write_ok s4 \<and> pending s4 = pending s3 @ escape (ucast (drop_bit 8 (of_nat ?len :: u64)))"
    unfolding s4_def using pos(4) by (intro add_header_octet) (simp_all add: framing_buffer_size_def)
  from write_octets_all [OF assms(1), of "(s4, e)" buf 0] ok4 obtain s5 e5
    where w5: "write_octets w buf 0 (s4, e) = (True, payload_crc buf, s5, e5)" "write_ok s5"
      "sent e5 @ pending s5 = sent e @ pending s4 @ concat (map escape buf)" by (auto simp: payload_crc_def)
  from write_octets_all [OF assms(1), of "(s5, e5)" "[ucast (payload_crc buf), ucast (drop_bit 8 (payload_crc buf))]" "payload_crc buf"] w5(2)
  obtain c6 s6 e6 where w6: "write_octets w [ucast (payload_crc buf), ucast (drop_bit 8 (payload_crc buf))] (payload_crc buf) (s5, e5) = (True, c6, s6, e6)"
    "write_ok s6" "sent e6 @ pending s6 = sent e @ frame_bytes (fr_local_addr s) remote_addr buf"
    using w5(3) ok0(2) ok1 ok2 ok3 ok4 by (fastforce simp: frame_bytes_def frame_octets_def)
  obtain s7 e7 where w7: "(if 0 < fr_write_buffer_pos s6 then transport_write w (s6, e6) else (True, s6, e6)) = (True, s7, e7)"
    "sent e7 = sent e6 @ pending s6"
  proof (cases "0 < fr_write_buffer_pos s6")
    case True
    then show thesis using transport_write_all [OF assms(1) w6(2)] that by metis
  next
    case False
    then show thesis using that [of s6 e6] by (simp add: pending_def)
  qed
  have "write_framed_msg w buf remote_addr (s, e) = Some (?len, s7, e7)"
    using assms(2) w7(1) unfolding write_framed_msg_def Let_def prod.case
      s0_def [symmetric] s1_def [symmetric] s2_def [symmetric] s3_def [symmetric] s4_def [symmetric] w5(1)
    by (auto simp: w6(1) simp del: write_octets.simps split: if_splits)
  then show ?thesis using w6(3) w7(2) by auto
qed

definition sink :: "u8 list write_callback" where
  "sink octets e = (int (length octets), e @ octets)"

theorem write_framed_msg_frame_witness:
  "\<exists>s' e'. write_framed_msg sink (replicate 60 0x7E) 0 (FramingIO_new 1, []) = Some (60, s', e')
    \<and> e' = frame_bytes 1 0 (replicate 60 0x7E)"
proof -
  have "writes_all sink (\<lambda>e. e)" by (simp add: writes_all_def sink_def)
  from write_framed_msg_frame [OF this, of "replicate 60 0x7E" "FramingIO_new 1" 0 "[]"] show ?thesis
    by (simp add: FramingIO_new_def)
qed

end
