(* ===== verification/Middleware.thy ===== *)
theory Middleware
  imports XrceTypes
begin

text \<open>
  The interface \<open>Middleware\<close> (\<open>include/uxr/agent/middleware/Middleware.hpp\<close>) through which the agent
  reaches a DDS implementation. Its virtual functions are the fields of a record of operations, so
  that the objects and the proxy client are written once for every middleware, as in the code. The
  state \<open>'w\<close> an operation works on is the middleware object of the client together with what the
  middleware objects of different clients share. A creation can end in a fault instead of a result.

  The contract is the locale \<open>middleware_contract\<close>: the identifiers in use, per kind, and how each
  operation changes them. \<open>CedMiddleware\<close> proves it for the centralised middleware of the agent; for the
  two Fast DDS middlewares, which call code outside the repository, it is a hypothesis.
\<close>

section \<open>Faults\<close>

text \<open>
  What can end a call beside a return: the exception \<open>BadParamException\<close> that the accessors of a
  union throw for a member that is not selected, and the use of a reference or
  pointer that has no object.
\<close>

datatype fault = BadParamException | DanglingReference

section \<open>The operations\<close>

type_synonym i16 = "16 word"

type_synonym 'w create_op = "u16 \<Rightarrow> u16 \<Rightarrow> string \<Rightarrow> 'w \<Rightarrow> fault + bool \<times> 'w"
type_synonym 'w delete_op = "u16 \<Rightarrow> 'w \<Rightarrow> bool \<times> 'w"
type_synonym 'w matched_op = "u16 \<Rightarrow> string \<Rightarrow> 'w \<Rightarrow> bool"
type_synonym 'w write_op = "u16 \<Rightarrow> u8 list \<Rightarrow> 'w \<Rightarrow> bool \<times> 'w"
type_synonym 'w read_op = "u16 \<Rightarrow> int \<Rightarrow> 'w \<Rightarrow> u8 list option \<times> 'w"

record 'w Middleware =
  mw_create_participant_by_ref :: "u16 \<Rightarrow> i16 \<Rightarrow> string \<Rightarrow> 'w \<Rightarrow> fault + bool \<times> 'w"
  mw_create_participant_by_xml :: "u16 \<Rightarrow> i16 \<Rightarrow> string \<Rightarrow> 'w \<Rightarrow> fault + bool \<times> 'w"
  mw_create_topic_by_ref :: "'w create_op"
  mw_create_topic_by_xml :: "'w create_op"
  mw_create_publisher_by_xml :: "'w create_op"
  mw_create_subscriber_by_xml :: "'w create_op"
  mw_create_datawriter_by_ref :: "'w create_op"
  mw_create_datawriter_by_xml :: "'w create_op"
  mw_create_datareader_by_ref :: "'w create_op"
  mw_create_datareader_by_xml :: "'w create_op"
  mw_create_requester_by_ref :: "'w create_op"
  mw_create_requester_by_xml :: "'w create_op"
  mw_create_replier_by_ref :: "'w create_op"
  mw_create_replier_by_xml :: "'w create_op"
  mw_delete_participant :: "'w delete_op"
  mw_delete_topic :: "'w delete_op"
  mw_delete_publisher :: "'w delete_op"
  mw_delete_subscriber :: "'w delete_op"
  mw_delete_datawriter :: "'w delete_op"
  mw_delete_datareader :: "'w delete_op"
  mw_delete_requester :: "'w delete_op"
  mw_delete_replier :: "'w delete_op"
  mw_write_data :: "'w write_op"
  mw_write_request :: "u16 \<Rightarrow> u32 \<Rightarrow> u8 list \<Rightarrow> 'w \<Rightarrow> bool \<times> 'w"
  mw_write_reply :: "'w write_op"
  mw_read_data :: "'w read_op"
  mw_read_request :: "'w read_op"
  mw_read_reply :: "u16 \<Rightarrow> int \<Rightarrow> 'w \<Rightarrow> (u32 \<times> u8 list) option \<times> 'w"
  mw_matched_participant_from_ref :: "u16 \<Rightarrow> i16 \<Rightarrow> string \<Rightarrow> 'w \<Rightarrow> bool"
  mw_matched_participant_from_xml :: "u16 \<Rightarrow> i16 \<Rightarrow> string \<Rightarrow> 'w \<Rightarrow> bool"
  mw_matched_topic_from_ref :: "'w matched_op"
  mw_matched_topic_from_xml :: "'w matched_op"
  mw_matched_datawriter_from_ref :: "'w matched_op"
  mw_matched_datawriter_from_xml :: "'w matched_op"
  mw_matched_datareader_from_ref :: "'w matched_op"
  mw_matched_datareader_from_xml :: "'w matched_op"
  mw_matched_requester_from_ref :: "'w matched_op"
  mw_matched_requester_from_xml :: "'w matched_op"
  mw_matched_replier_from_ref :: "'w matched_op"
  mw_matched_replier_from_xml :: "'w matched_op"

section \<open>The contract\<close>

text \<open>
  \<open>ents w k\<close> is the set of identifiers of kind \<open>k\<close> in use in \<open>w\<close>. \<open>creates\<close> and \<open>deletes\<close> say how one
  operation changes it: a creation succeeds only for a free identifier, which it takes, and takes
  none when it fails; a deletion frees its identifier and no other.
\<close>

definition creates :: "('w \<Rightarrow> ObjectKind \<Rightarrow> u16 set) \<Rightarrow> ObjectKind \<Rightarrow> u16 \<Rightarrow> ('w \<Rightarrow> fault + bool \<times> 'w) \<Rightarrow> bool" where
  "creates ents k i f \<longleftrightarrow> (\<forall>w rv w'. f w = Inr (rv, w') \<longrightarrow>
     (rv \<longrightarrow> i \<notin> ents w k) \<and> ents w' = (if rv then (ents w)(k := insert i (ents w k)) else ents w))"

definition deletes :: "('w \<Rightarrow> ObjectKind \<Rightarrow> u16 set) \<Rightarrow> ObjectKind \<Rightarrow> u16 \<Rightarrow> ('w \<Rightarrow> bool \<times> 'w) \<Rightarrow> bool" where
  "deletes ents k i f \<longleftrightarrow> (\<forall>w. ents (snd (f w)) = (ents w)(k := ents w k - {i}))"

lemma createsD:
  assumes "creates ents k i f" and "f w = Inr (rv, w')"
  shows "rv \<Longrightarrow> i \<notin> ents w k" and "ents w' = (if rv then (ents w)(k := insert i (ents w k)) else ents w)"
  using assms unfolding creates_def by blast+

lemma deletesD: "deletes ents k i f \<Longrightarrow> ents (snd (f w)) = (ents w)(k := ents w k - {i})"
  by (simp add: deletes_def)

locale middleware_contract =
  fixes M :: "'w Middleware" and ents :: "'w \<Rightarrow> ObjectKind \<Rightarrow> u16 set"
  assumes create_participant:
      "creates ents OBJK_PARTICIPANT i (mw_create_participant_by_ref M i d s)"
      "creates ents OBJK_PARTICIPANT i (mw_create_participant_by_xml M i d s)"
    and create_topic:
      "creates ents OBJK_TOPIC i (mw_create_topic_by_ref M i p s)"
      "creates ents OBJK_TOPIC i (mw_create_topic_by_xml M i p s)"
    and create_publisher: "creates ents OBJK_PUBLISHER i (mw_create_publisher_by_xml M i p s)"
    and create_subscriber: "creates ents OBJK_SUBSCRIBER i (mw_create_subscriber_by_xml M i p s)"
    and create_datawriter:
      "creates ents OBJK_DATAWRITER i (mw_create_datawriter_by_ref M i p s)"
      "creates ents OBJK_DATAWRITER i (mw_create_datawriter_by_xml M i p s)"
    and create_datareader:
      "creates ents OBJK_DATAREADER i (mw_create_datareader_by_ref M i p s)"
      "creates ents OBJK_DATAREADER i (mw_create_datareader_by_xml M i p s)"
    and create_requester:
      "creates ents OBJK_REQUESTER i (mw_create_requester_by_ref M i p s)"
      "creates ents OBJK_REQUESTER i (mw_create_requester_by_xml M i p s)"
    and create_replier:
      "creates ents OBJK_REPLIER i (mw_create_replier_by_ref M i p s)"
      "creates ents OBJK_REPLIER i (mw_create_replier_by_xml M i p s)"
    and delete_participant: "deletes ents OBJK_PARTICIPANT i (mw_delete_participant M i)"
    and delete_topic: "deletes ents OBJK_TOPIC i (mw_delete_topic M i)"
    and delete_publisher: "deletes ents OBJK_PUBLISHER i (mw_delete_publisher M i)"
    and delete_subscriber: "deletes ents OBJK_SUBSCRIBER i (mw_delete_subscriber M i)"
    and delete_datawriter: "deletes ents OBJK_DATAWRITER i (mw_delete_datawriter M i)"
    and delete_datareader: "deletes ents OBJK_DATAREADER i (mw_delete_datareader M i)"
    and delete_requester: "deletes ents OBJK_REQUESTER i (mw_delete_requester M i)"
    and delete_replier: "deletes ents OBJK_REPLIER i (mw_delete_replier M i)"
    and writes_keep:
      "ents (snd (mw_write_data M i data w)) = ents w"
      "ents (snd (mw_write_request M i n data w)) = ents w"
      "ents (snd (mw_write_reply M i data w)) = ents w"
    and reads_keep:
      "ents (snd (mw_read_data M i timeout w)) = ents w"
      "ents (snd (mw_read_request M i timeout w)) = ents w"
      "ents (snd (mw_read_reply M i timeout w)) = ents w"

end
