(* ===== verification/Ced.thy ===== *)
theory Ced
  imports SeqNum XrceTypes "HOL-Library.AList" "HOL-Library.Sublist"
begin

text \<open>
  The entities of the centralised middleware (\<open>CedEntities.hpp\<close>, \<open>CedEntities.cpp\<close>): the global topics
  with their 16 slot history, which all clients of the agent share through the static members of
  \<open>CedTopicManager\<close>, and the access rights of writers and readers. Objects that are held by
  \<open>std::shared_ptr\<close> live in a store under an address, with their use count; when it drops to zero the
  destructor runs. A \<open>std::weak_ptr\<close> is the address alone.

  The lemmas show that a reader sees the accepted samples in order, each at most once, with the last
  16 always within reach, that one that keeps up with the writers sees all of them, and that the register of topics holds exactly the live ones.
\<close>

section \<open>Access rights\<close>

datatype TopicSource = SrcINTERNAL | SrcEXTERNAL
datatype WriteAccess = WriteNONE | WriteINTERNAL | WriteEXTERNAL | WriteCOMPLETE
datatype ReadAccess = ReadNONE | ReadINTERNAL | ReadEXTERNAL | ReadCOMPLETE

definition check_write_access :: "WriteAccess \<Rightarrow> TopicSource \<Rightarrow> bool" where
  "check_write_access write_access topic_src \<longleftrightarrow>
     write_access = WriteCOMPLETE \<or>
     write_access = WriteINTERNAL \<and> topic_src = SrcINTERNAL \<or>
     write_access = WriteEXTERNAL \<and> topic_src = SrcEXTERNAL"

section \<open>The global topic\<close>

text \<open>
  A slot of \<open>srcs_\<close> is not initialised before its first write: \<open>None\<close>. The serial number \<open>last_write_\<close>
  starts one before the first sample.
\<close>

record CedGlobalTopic =
  gt_name :: string
  gt_domain_id :: u16
  gt_last_write :: SeqNum
  gt_history :: "u8 list list"
  gt_srcs :: "TopicSource option list"
  gt_use_count :: nat

definition history_size :: nat where "history_size = 16"

definition CedGlobalTopic_new :: "string \<Rightarrow> u16 \<Rightarrow> CedGlobalTopic" where
  "CedGlobalTopic_new topic_name domain_id =
     \<lparr>gt_name = topic_name, gt_domain_id = domain_id, gt_last_write = 0xFFFF,
      gt_history = replicate history_size [], gt_srcs = replicate history_size None, gt_use_count = 1\<rparr>"

definition check_read_access :: "ReadAccess \<Rightarrow> TopicSource option \<Rightarrow> bool" where
  "check_read_access read_access src \<longleftrightarrow>
     read_access = ReadCOMPLETE \<or>
     read_access = ReadINTERNAL \<and> src = Some SrcINTERNAL \<or>
     read_access = ReadEXTERNAL \<and> src = Some SrcEXTERNAL"

text \<open>The error codes the two functions set are read by no caller.\<close>

definition gt_write :: "u8 list \<Rightarrow> WriteAccess \<Rightarrow> TopicSource \<Rightarrow> CedGlobalTopic \<Rightarrow> bool \<times> CedGlobalTopic" where
  "gt_write data write_access topic_src t =
     (if check_write_access write_access topic_src
      then let index = unat (seq_add_int (gt_last_write t) 1) mod history_size
           in (True, t\<lparr>gt_history := (gt_history t)[index := data],
                       gt_srcs := (gt_srcs t)[index := Some topic_src],
                       gt_last_write := seq_inc (gt_last_write t)\<rparr>)
      else (False, t))"

definition gt_get_data :: "CedGlobalTopic \<Rightarrow> ReadAccess \<Rightarrow> SeqNum \<Rightarrow> u8 list option \<times> SeqNum" where
  "gt_get_data t read_access last_read =
     (let last_read = seq_inc last_read; index = unat last_read mod history_size
      in (if check_read_access read_access (gt_srcs t ! index) then Some (gt_history t ! index) else None, last_read))"

lemma seq_dist_step: "r \<noteq> w \<Longrightarrow> seq_dist (r + 1) w < seq_dist r w"
proof -
  assume "r \<noteq> w"
  then have "w - r \<noteq> 0" by simp
  then show ?thesis
    using unat_gt_0 [of "w - r"] by (simp add: seq_dist_def unat_minus_one diff_diff_add [symmetric])
qed

lemma seq_dist_step2: "r + 1 \<noteq> w \<Longrightarrow> seq_dist (2 + r) w < seq_dist (r + 1) w"
  using seq_dist_step [of "r + 1" w] by (simp add: add.commute)

text \<open>The \<open>do\<close> loop of \<open>read\<close>, which skips what the reader may not see.\<close>

function gt_read_loop :: "CedGlobalTopic \<Rightarrow> ReadAccess \<Rightarrow> SeqNum \<Rightarrow> u8 list option \<times> SeqNum" where
  "gt_read_loop t read_access last_read =
     (case gt_get_data t read_access last_read of
        (None, last_read) \<Rightarrow>
          if last_read \<noteq> gt_last_write t then gt_read_loop t read_access last_read else (None, last_read)
      | (Some data, last_read) \<Rightarrow> (Some data, last_read))"
  by pat_completeness auto
termination
  by (relation "measure (\<lambda>(t, a, r). seq_dist (r + 1) (gt_last_write t))")
    (auto simp: gt_get_data_def Let_def seq_inc_word intro!: seq_dist_step2 split: if_splits)

declare gt_read_loop.simps [simp del]

definition gt_fix_last_read :: "CedGlobalTopic \<Rightarrow> SeqNum \<Rightarrow> SeqNum" where
  "gt_fix_last_read t last_read =
     (if seq_le last_read (seq_sub_int (gt_last_write t) (int history_size)) \<or> seq_gt last_read (gt_last_write t)
      then seq_sub_int (gt_last_write t) (int history_size) else last_read)"

text \<open>
  Waiting evaluates the predicate again after each notification; \<open>waits\<close> lists what the other threads
  did to the topic between two evaluations, and the time is up at its end.
\<close>

fun gt_wait :: "(CedGlobalTopic \<Rightarrow> CedGlobalTopic) list \<Rightarrow> ReadAccess \<Rightarrow> SeqNum \<Rightarrow> CedGlobalTopic \<Rightarrow>
    u8 list option \<times> SeqNum \<times> CedGlobalTopic" where
  "gt_wait [] read_access last_read t = (None, last_read, t)"
| "gt_wait (others # waits) read_access last_read t =
     (let t = others t in
      if last_read \<noteq> gt_last_write t
      then (case gt_get_data t read_access last_read of
              (Some data, last_read) \<Rightarrow> (Some data, last_read, t)
            | (None, last_read) \<Rightarrow> gt_wait waits read_access last_read t)
      else gt_wait waits read_access last_read t)"

definition gt_read :: "(CedGlobalTopic \<Rightarrow> CedGlobalTopic) list \<Rightarrow> ReadAccess \<Rightarrow> SeqNum \<Rightarrow> CedGlobalTopic \<Rightarrow>
    u8 list option \<times> SeqNum \<times> CedGlobalTopic" where
  "gt_read waits read_access last_read t =
     (let (rv, last_read) =
            (if last_read \<noteq> gt_last_write t
             then gt_read_loop t read_access (gt_fix_last_read t last_read)
             else (None, last_read))
      in if rv = None \<and> last_read = gt_last_write t
         then gt_wait waits read_access last_read t
         else (rv, last_read, t))"

section \<open>The log of a topic\<close>

text \<open>
  The specification keeps every sample accepted. A topic stands for a log when its serial number
  counts the log and its slots hold the last 16 samples; a reader stands at a position of the log.
\<close>

type_synonym sample = "TopicSource \<times> u8 list"

definition gt_rel :: "CedGlobalTopic \<Rightarrow> sample list \<Rightarrow> bool" where
  "gt_rel t log \<longleftrightarrow> gt_last_write t = of_nat (length log) - 1 \<and>
     length (gt_history t) = history_size \<and> length (gt_srcs t) = history_size \<and>
     (\<forall>k < length log. length log \<le> k + history_size \<longrightarrow>
        gt_srcs t ! (k mod history_size) = Some (fst (log ! k)) \<and> gt_history t ! (k mod history_size) = snd (log ! k))"

definition readable :: "ReadAccess \<Rightarrow> sample \<Rightarrow> bool" where
  "readable read_access s \<longleftrightarrow> check_read_access read_access (Some (fst s))"

text \<open>The first readable sample of a list, and how many samples are consumed to get to it.\<close>

fun next_sample :: "ReadAccess \<Rightarrow> sample list \<Rightarrow> u8 list option \<times> nat" where
  "next_sample a [] = (None, 0)"
| "next_sample a (s # ss) =
     (if readable a s then (Some (snd s), 1) else (let (r, k) = next_sample a ss in (r, Suc k)))"

definition log_read :: "ReadAccess \<Rightarrow> sample list \<Rightarrow> nat \<Rightarrow> u8 list option \<times> nat" where
  "log_read a log pos =
     (let pos = max pos (length log - history_size); (r, k) = next_sample a (drop pos log) in (r, pos + k))"

lemma index_of_position: "unat (of_nat n :: u16) mod history_size = n mod history_size"
  by (simp add: history_size_def unat_of_nat mod_mod_cancel take_bit_eq_mod)

lemma gt_rel_new: "gt_rel (CedGlobalTopic_new name domain) []"
  by (simp add: gt_rel_def CedGlobalTopic_new_def)

lemma gt_rel_write:
  assumes rel: "gt_rel t log" and access: "check_write_access w src"
  shows "fst (gt_write data w src t)" and "gt_rel (snd (gt_write data w src t)) (log @ [(src, data)])"
proof -
  show "fst (gt_write data w src t)" using access by (simp add: gt_write_def Let_def)
  let ?n = "length log" and ?i = "length log mod history_size"
  have i: "unat (seq_add_int (gt_last_write t) 1) mod history_size = ?i"
    using rel by (simp add: gt_rel_def seq_add_int_word index_of_position)
  have old: "k mod history_size \<noteq> ?i" if "k < ?n" "Suc ?n \<le> k + history_size" for k
  proof
    assume "k mod history_size = ?i"
    then have "history_size dvd ?n - k" using that(1) mod_eq_dvd_iff_nat [of k ?n history_size] by simp
    then show False using that dvd_imp_le [of history_size "?n - k"] by (simp add: history_size_def)
  qed
  have inc: "seq_inc (gt_last_write t) = of_nat ?n" using rel by (simp add: gt_rel_def seq_inc_word)
  have t': "snd (gt_write data w src t) = t\<lparr>gt_history := (gt_history t)[?i := data],
      gt_srcs := (gt_srcs t)[?i := Some src], gt_last_write := of_nat ?n\<rparr>"
    using inc access by (simp add: gt_write_def Let_def i)
  have i': "?i < history_size" by (simp add: history_size_def)
  show "gt_rel (snd (gt_write data w src t)) (log @ [(src, data)])"
    unfolding gt_rel_def
  proof (intro conjI allI impI)
    fix k
    assume k: "k < length (log @ [(src, data)])" "length (log @ [(src, data)]) \<le> k + history_size"
    show "gt_srcs (snd (gt_write data w src t)) ! (k mod history_size) = Some (fst ((log @ [(src, data)]) ! k))"
      "gt_history (snd (gt_write data w src t)) ! (k mod history_size) = snd ((log @ [(src, data)]) ! k)"
      using rel k old [of k] i' by (cases "k = ?n"; simp add: t' gt_rel_def nth_append)+
  qed (use rel in \<open>simp_all add: t' gt_rel_def\<close>)
qed

lemma gt_write_denied: "\<not> check_write_access w src \<Longrightarrow> gt_write data w src t = (False, t)"
  by (simp add: gt_write_def)

lemma gt_get_data_log:
  assumes "gt_rel t log" and "p < length log" and "length log \<le> p + history_size"
  shows "gt_get_data t a (of_nat p - 1) =
     (if readable a (log ! p) then Some (snd (log ! p)) else None, of_nat (Suc p) - 1)"
  using assms by (simp add: gt_get_data_def Let_def seq_inc_word index_of_position gt_rel_def readable_def)

lemma of_nat_u16_eq_iff: "m \<le> n \<Longrightarrow> n < m + 65536 \<Longrightarrow> (of_nat m :: u16) = of_nat n \<longleftrightarrow> m = n"
proof -
  assume "m \<le> n" "n < m + 65536"
  then obtain d where "n = m + d" "d < 65536" using nat_le_iff_add by auto
  then show ?thesis using unat_of_nat_less [of d, where 'a = 16] by (auto simp: unat_eq_0 [symmetric])
qed

lemma gt_read_loop_log:
  assumes "gt_rel t log" and "p < length log" and "length log \<le> p + history_size"
  shows "gt_read_loop t a (of_nat p - 1) = (let (r, k) = next_sample a (drop p log) in (r, of_nat (p + k) - 1))"
  using assms(2,3)
proof (induction "length log - p" arbitrary: p)
  case 0
  then show ?case by simp
next
  case (Suc d)
  have drop: "drop p log = log ! p # drop (Suc p) log" using Suc.prems(1) by (rule Cons_nth_drop_Suc [symmetric])
  have lw: "gt_last_write t = of_nat (length log) - 1" using assms(1) by (simp add: gt_rel_def)
  have eq: "of_nat (Suc p) - 1 = gt_last_write t \<longleftrightarrow> Suc p = length log"
    using of_nat_u16_eq_iff [of "Suc p" "length log"] Suc.prems by (simp add: lw history_size_def eq_diff_eq add.commute)
  show ?case
  proof (cases "readable a (log ! p)")
    case True
    then show ?thesis
      by (subst gt_read_loop.simps) (simp add: gt_get_data_log [OF assms(1) Suc.prems] drop)
  next
    case False
    show ?thesis
    proof (cases "Suc p = length log")
      case True
      then have "(of_nat p :: u16) = gt_last_write t" using lw True [symmetric] by simp
      then show ?thesis using False True
        using gt_get_data_log [OF assms(1) Suc.prems, of a] lw
        by (subst gt_read_loop.simps) (simp add: drop)
    next
      case last: False
      have "gt_read_loop t a (of_nat (Suc p) - 1) =
          (let (r, k) = next_sample a (drop (Suc p) log) in (r, of_nat (Suc p + k) - 1))"
        using last Suc.prems Suc.hyps(2) by (intro Suc.hyps(1)) simp_all
      then show ?thesis using False eq last
        by (subst gt_read_loop.simps)
          (simp add: gt_get_data_log [OF assms(1) Suc.prems] drop Let_def split: prod.splits)
    qed
  qed
qed

lemma unat_16_minus:
  assumes "d < 65536"
  shows "unat (16 - of_nat d :: u16) = (if d \<le> 16 then 16 - d else 65552 - d)"
proof -
  define m :: nat where "m = (if d \<le> 16 then 16 else 65552)"
  have z: "(of_nat m :: u16) = 16" by (simp add: m_def)
  have m: "d \<le> m" "m - d < 65536" using assms by (auto simp: m_def)
  have "(16 - of_nat d :: u16) = of_nat (m - d)" unfolding z [symmetric] using m(1) by (rule of_nat_diff [symmetric])
  also have "unat \<dots> = m - d" using m(2) by (intro unat_of_nat_less) simp
  finally show ?thesis by (simp add: m_def)
qed

lemma unat_neg_of_nat:
  assumes "0 < d" and "d < 65536"
  shows "unat (- of_nat d :: u16) = 65536 - d"
proof -
  have z: "(of_nat 65536 :: u16) = 0" by simp
  have "(- of_nat d :: u16) = of_nat 65536 - of_nat d" unfolding z by simp
  also have "\<dots> = of_nat (65536 - d)" using assms(2) by (intro of_nat_diff [symmetric]) simp
  also have "unat \<dots> = 65536 - d" using assms by (intro unat_of_nat_less) simp
  finally show ?thesis .
qed

lemma gt_fix_last_read_log:
  assumes rel: "gt_rel t log" and pos: "pos < length log" "length log < pos + 65536"
  shows "gt_fix_last_read t (of_nat pos - 1) = of_nat (max pos (length log - history_size)) - 1"
proof -
  define d where "d = length log - pos"
  have d: "length log = pos + d" "0 < d" "d < 65536" using pos by (simp_all add: d_def)
  have lw: "gt_last_write t = of_nat pos + of_nat d - 1" using rel d(1) by (simp add: gt_rel_def)
  have window: "seq_sub_int (gt_last_write t) (int history_size) = of_nat pos + of_nat d - 17"
    by (simp add: seq_sub_int_word lw history_size_def)
  have below: "seq_dist (of_nat pos + of_nat d - 17) (of_nat pos - 1) = (if d \<le> 16 then 16 - d else 65552 - d)"
    using unat_16_minus [OF d(3)] by (simp add: seq_dist_def)
  have ahead: "seq_dist (gt_last_write t) (of_nat pos - 1) = 65536 - d"
    using unat_neg_of_nat [OF d(2,3)] by (simp add: seq_dist_def lw)
  have old: "seq_le (of_nat pos - 1) (of_nat pos + of_nat d - 17) \<or> seq_gt (of_nat pos - 1) (gt_last_write t) \<longleftrightarrow> 16 \<le> d"
    unfolding seq_le_def seq_gt_def seq_lt_dist below ahead using d(2,3) by auto
  show ?thesis
  proof (cases "16 \<le> d")
    case True
    have "(of_nat pos + of_nat d - 17 :: u16) = of_nat (pos + d - 16) - 1"
      using True by (simp add: of_nat_diff)
    moreover have "max pos (length log - history_size) = pos + d - 16" using True d(1) by (simp add: history_size_def)
    ultimately show ?thesis using True old by (simp add: gt_fix_last_read_def window)
  next
    case False
    then have "max pos (length log - history_size) = pos" using d(1) by (simp add: history_size_def)
    then show ?thesis using False old by (simp add: gt_fix_last_read_def window)
  qed
qed

lemma gt_read_log:
  assumes rel: "gt_rel t log" and pos: "pos \<le> length log" "length log < pos + 65536"
  shows "gt_read [] a (of_nat pos - 1) t = (let (r, p) = log_read a log pos in (r, of_nat p - 1, t))"
proof (cases "pos = length log")
  case True
  then show ?thesis using rel by (simp add: gt_read_def gt_rel_def log_read_def)
next
  case False
  let ?p = "max pos (length log - history_size)"
  have p: "?p < length log" "length log \<le> ?p + history_size"
    using False pos(1) by (auto simp: history_size_def)
  have ne: "of_nat pos - 1 \<noteq> gt_last_write t"
    using rel False pos of_nat_u16_eq_iff [of pos "length log"] by (simp add: gt_rel_def)
  have fix_read: "gt_fix_last_read t (of_nat pos - 1) = of_nat ?p - 1"
    using False pos by (intro gt_fix_last_read_log [OF rel]) simp_all
  obtain r k where r: "next_sample a (drop ?p log) = (r, k)" by (cases "next_sample a (drop ?p log)")
  have "gt_read [] a (of_nat pos - 1) t = (r, of_nat (?p + k) - 1, t)"
    unfolding gt_read_def using ne gt_read_loop_log [OF rel p, of a] by (simp add: fix_read r)
  then show ?thesis by (simp add: log_read_def Let_def r)
qed

section \<open>A reader over a history of writes\<close>

datatype topic_op = TopicWrite "u8 list" WriteAccess TopicSource | TopicRead

text \<open>What one reader is handed while it and any writers use a topic, and what the writers had accepted.\<close>

fun topic_run :: "ReadAccess \<Rightarrow> topic_op list \<Rightarrow> CedGlobalTopic \<times> SeqNum \<Rightarrow> u8 list list \<times> CedGlobalTopic \<times> SeqNum" where
  "topic_run a [] (t, last_read) = ([], t, last_read)"
| "topic_run a (TopicWrite data w src # ops) (t, last_read) =
     topic_run a ops (snd (gt_write data w src t), last_read)"
| "topic_run a (TopicRead # ops) (t, last_read) =
     (case gt_read [] a last_read t of
        (Some data, last_read, t) \<Rightarrow> (let (outs, end_state) = topic_run a ops (t, last_read) in (data # outs, end_state))
      | (None, last_read, t) \<Rightarrow> topic_run a ops (t, last_read))"

fun accepted :: "topic_op list \<Rightarrow> sample list" where
  "accepted [] = []"
| "accepted (TopicWrite data w src # ops) = (if check_write_access w src then (src, data) # accepted ops else accepted ops)"
| "accepted (TopicRead # ops) = accepted ops"

definition readable_data :: "ReadAccess \<Rightarrow> sample list \<Rightarrow> u8 list list" where
  "readable_data a ss = map snd (filter (readable a) ss)"

text \<open>Fewer than 65519 writes between two reads of the reader, the first of which follow \<open>c\<close> others.\<close>

fun read_often :: "nat \<Rightarrow> topic_op list \<Rightarrow> bool" where
  "read_often c [] \<longleftrightarrow> True"
| "read_often c (TopicWrite data w src # ops) \<longleftrightarrow> c < 65519 \<and> read_often (Suc c) ops"
| "read_often c (TopicRead # ops) \<longleftrightarrow> read_often 0 ops"

lemma next_sample_consumes:
  "next_sample a ss = (r, k) \<Longrightarrow> k \<le> length ss \<and> readable_data a (take k ss) = (case r of None \<Rightarrow> [] | Some d \<Rightarrow> [d])
     \<and> (r = None \<longrightarrow> k = length ss)"
  by (induction a ss arbitrary: r k rule: next_sample.induct)
    (auto simp: readable_data_def split: if_splits prod.splits)

lemma readable_data_append [simp]: "readable_data a (xs @ ys) = readable_data a xs @ readable_data a ys"
  by (simp add: readable_data_def)

lemma log_read_consumes:
  assumes "log_read a log pos = (r, p)" and "pos \<le> length log"
  defines "d \<equiv> (case r of None \<Rightarrow> [] | Some x \<Rightarrow> [x])"
  shows "pos \<le> p" "p \<le> length log" "length log \<le> p + history_size"
    "subseq d (readable_data a (take (p - pos) (drop pos log)))"
    "length log \<le> pos + history_size \<Longrightarrow> d = readable_data a (take (p - pos) (drop pos log))"
proof -
  define q where "q = max pos (length log - history_size)"
  obtain k where k: "next_sample a (drop q log) = (r, k)" and p: "p = q + k"
    using assms(1) by (auto simp: log_read_def q_def Let_def split: prod.splits)
  have q: "pos \<le> q" "q \<le> length log" "length log \<le> q + history_size" "length log \<le> pos + history_size \<Longrightarrow> q = pos"
    using assms(2) by (auto simp: q_def)
  have c: "k \<le> length (drop q log)" "readable_data a (take k (drop q log)) = d"
    using next_sample_consumes [OF k] by (simp_all add: d_def)
  show "pos \<le> p" "p \<le> length log" "length log \<le> p + history_size" using c(1) q by (simp_all add: p)
  have "p - pos = (q - pos) + k" "q - pos + pos = q" using q(1) by (simp_all add: p)
  then have "take (p - pos) (drop pos log) = take (q - pos) (drop pos log) @ take k (drop q log)"
    by (simp only: take_add drop_drop)
  then have e: "readable_data a (take (p - pos) (drop pos log)) = readable_data a (take (q - pos) (drop pos log)) @ d"
    by (simp add: c(2))
  show "subseq d (readable_data a (take (p - pos) (drop pos log)))" unfolding e by (rule subseq_drop_many) simp
  show "d = readable_data a (take (p - pos) (drop pos log))" if "length log \<le> pos + history_size"
    unfolding e using q(4) [OF that] by (simp add: readable_data_def)
qed

lemma take_then_drop: "i \<le> j \<Longrightarrow> j \<le> length xs \<Longrightarrow> take (j - i) (drop i xs) @ drop j xs = drop i xs"
  by (metis append_take_drop_id drop_drop le_add_diff_inverse2)

text \<open>
  The same over the log: a read begins at the position of the reader or, when more than 16 samples are ahead of it, at the last
  16. The reader keeps up if that never happens.
\<close>

fun reader_run :: "ReadAccess \<Rightarrow> topic_op list \<Rightarrow> sample list \<Rightarrow> nat \<Rightarrow> u8 list list \<times> sample list \<times> nat" where
  "reader_run a [] log pos = ([], log, pos)"
| "reader_run a (TopicWrite data w src # ops) log pos =
     reader_run a ops (if check_write_access w src then log @ [(src, data)] else log) pos"
| "reader_run a (TopicRead # ops) log pos =
     (let (r, pos) = log_read a log pos; (outs, end_state) = reader_run a ops log pos
      in (case r of None \<Rightarrow> outs | Some data \<Rightarrow> data # outs, end_state))"

fun keeps_up :: "ReadAccess \<Rightarrow> topic_op list \<Rightarrow> sample list \<Rightarrow> nat \<Rightarrow> bool" where
  "keeps_up a [] log pos \<longleftrightarrow> True"
| "keeps_up a (TopicWrite data w src # ops) log pos \<longleftrightarrow>
     keeps_up a ops (if check_write_access w src then log @ [(src, data)] else log) pos"
| "keeps_up a (TopicRead # ops) log pos \<longleftrightarrow> length log \<le> pos + history_size \<and> keeps_up a ops log (snd (log_read a log pos))"

lemma topic_run_log:
  assumes "topic_run a ops (t, of_nat pos - 1) = (outs, t', last_read)" and "gt_rel t log"
    and "pos \<le> length log" and "length log \<le> pos + history_size + c" and "c < 65520" and "read_often c ops"
  shows "\<exists>pos'. reader_run a ops log pos = (outs, log @ accepted ops, pos') \<and> gt_rel t' (log @ accepted ops) \<and>
     last_read = of_nat pos' - 1 \<and> length (log @ accepted ops) < pos' + 65536"
  using assms
proof (induction ops arbitrary: t log pos c outs)
  case Nil
  then show ?case by (intro exI [of _ pos]) (auto simp: history_size_def)
next
  case (Cons op ops)
  show ?case
  proof (cases op)
    case (TopicWrite data w src)
    let ?log = "if check_write_access w src then log @ [(src, data)] else log"
    have rel: "gt_rel (snd (gt_write data w src t)) ?log"
      using gt_rel_write [OF Cons.prems(2)] Cons.prems(2) by (simp add: gt_write_denied)
    have log: "log @ accepted (op # ops) = ?log @ accepted ops" by (simp add: TopicWrite)
    have run: "topic_run a ops (snd (gt_write data w src t), of_nat pos - 1) = (outs, t', last_read)"
      and often: "c < 65519" "read_often (Suc c) ops" using Cons.prems(1,6) by (simp_all add: TopicWrite)
    have len: "pos \<le> length ?log" "length ?log \<le> pos + history_size + Suc c" using Cons.prems(3,4) by simp_all
    have "reader_run a (op # ops) log pos = reader_run a ops ?log pos" by (simp add: TopicWrite)
    then show ?thesis unfolding log using Cons.IH [OF run rel len] often by simp
  next
    case TopicRead
    obtain r p where r: "log_read a log pos = (r, p)" by (cases "log_read a log pos")
    let ?d = "case r of None \<Rightarrow> [] | Some x \<Rightarrow> [x]"
    have read: "gt_read [] a (of_nat pos - 1) t = (r, of_nat p - 1, t)"
      using gt_read_log [OF Cons.prems(2,3), of a] Cons.prems(4,5) by (simp add: r history_size_def)
    obtain rest where rest: "topic_run a ops (t, of_nat p - 1) = (rest, t', last_read)" and outs: "outs = ?d @ rest"
      using Cons.prems(1) read by (auto simp: TopicRead Let_def split: option.splits prod.splits)
    note p = log_read_consumes [OF r Cons.prems(3)]
    obtain pos' where "reader_run a ops log p = (rest, log @ accepted ops, pos')" "gt_rel t' (log @ accepted ops)"
        "last_read = of_nat pos' - 1" "length (log @ accepted ops) < pos' + 65536"
      using Cons.IH [OF rest Cons.prems(2) p(2), of 0] p(3) Cons.prems(6) by (auto simp: TopicRead)
    then show ?thesis by (intro exI [of _ pos']) (simp add: TopicRead r outs split: option.split)
  qed
qed

lemma reader_run_end: "snd (snd (reader_run a ops log pos)) = pos' \<Longrightarrow> fst (snd (reader_run a ops log pos)) = log' \<Longrightarrow>
  keeps_up a (ops @ [TopicRead]) log pos \<longleftrightarrow> keeps_up a ops log pos \<and> length log' \<le> pos' + history_size"
  by (induction a ops log pos rule: reader_run.induct) (auto simp: Let_def split: prod.splits)

lemma reader_run_log: "fst (snd (reader_run a ops log pos)) = log @ accepted ops"
  by (induction a ops log pos rule: reader_run.induct) (auto simp: Let_def split: prod.splits)

text \<open>What the reader is handed is among the samples it passes, in their order, and all of them if it keeps up.\<close>

lemma reader_run_passes:
  assumes "reader_run a ops log pos = (outs, log @ new, pos')" and "pos \<le> length log"
  shows "pos \<le> pos' \<and> pos' \<le> length (log @ new) \<and> subseq outs (readable_data a (take (pos' - pos) (drop pos (log @ new)))) \<and>
     (keeps_up a ops log pos \<longrightarrow> outs = readable_data a (take (pos' - pos) (drop pos (log @ new))))"
  using assms
proof (induction ops arbitrary: log pos new outs)
  case Nil
  then show ?case by (simp add: readable_data_def)
next
  case (Cons op ops)
  show ?case
  proof (cases op)
    case (TopicWrite data w src)
    show ?thesis
    proof (cases "check_write_access w src")
      case False
      then show ?thesis using Cons.IH [of log pos outs new] Cons.prems by (simp add: TopicWrite)
    next
      case True
      have run: "reader_run a ops (log @ [(src, data)]) pos = (outs, log @ new, pos')" using Cons.prems(1) True by (simp add: TopicWrite)
      have new: "new = (src, data) # accepted ops" using reader_run_log [of a ops "log @ [(src, data)]" pos] run by simp
      with Cons.IH [of "log @ [(src, data)]" pos outs "accepted ops"] run Cons.prems(2) True show ?thesis by (simp add: TopicWrite)
    qed
  next
    case TopicRead
    obtain r p where r: "log_read a log pos = (r, p)" by (cases "log_read a log pos")
    let ?d = "case r of None \<Rightarrow> [] | Some x \<Rightarrow> [x]"
    obtain rest where rest: "reader_run a ops log p = (rest, log @ new, pos')" and outs: "outs = ?d @ rest"
      using Cons.prems(1) by (auto simp: TopicRead r split: option.splits prod.splits)
    note p = log_read_consumes [OF r Cons.prems(2)]
    have IH: "p \<le> pos'" "pos' \<le> length (log @ new)" "subseq rest (readable_data a (take (pos' - p) (drop p (log @ new))))"
      "keeps_up a ops log p \<Longrightarrow> rest = readable_data a (take (pos' - p) (drop p (log @ new)))"
      using Cons.IH [OF rest p(2)] by simp_all
    have split: "take (pos' - pos) (drop pos (log @ new)) = take (p - pos) (drop pos log) @ take (pos' - p) (drop p (log @ new))"
    proof -
      have "pos' - pos = (p - pos) + (pos' - p)" "p - pos + pos = p" using p(1) IH(1) by simp_all
      then have "take (pos' - pos) (drop pos (log @ new)) = take (p - pos) (drop pos (log @ new)) @ take (pos' - p) (drop p (log @ new))"
        by (simp only: take_add drop_drop)
      then show ?thesis using p(1,2) by simp
    qed
    have "subseq outs (readable_data a (take (pos' - pos) (drop pos (log @ new))))"
      unfolding outs split readable_data_append using p(4) IH(3) by (rule list_emb_append_mono)
    moreover have "outs = readable_data a (take (pos' - pos) (drop pos (log @ new)))" if "keeps_up a (op # ops) log pos"
      unfolding outs split readable_data_append using p(5) IH(4) that by (simp add: TopicRead r)
    ultimately show ?thesis using p(1) IH(1,2) by simp
  qed
qed

section \<open>The register of topics\<close>

text \<open>
  The static members of \<open>CedTopicManager\<close>, with the store of the global topics. A callback is known
  by its key, and a call of it is an entry of \<open>tm_notified\<close>. The unordered maps that are iterated over
  are association lists, in one of the orders the iteration may have.
\<close>

datatype notification = NotifyDomain u32 u16 | NotifyTopic u32 u16 string

record CedTopicManager =
  tm_on_new_domain_map :: "u32 list"
  tm_on_new_topic_map :: "u32 list"
  tm_topics :: "(u16 \<times> (string \<times> nat) list) list"
  tm_heap :: "nat \<rightharpoonup> CedGlobalTopic"
  tm_next :: nat
  tm_notified :: "notification list"

definition CedTopicManager_init :: CedTopicManager where
  "CedTopicManager_init = \<lparr>tm_on_new_domain_map = [], tm_on_new_topic_map = [], tm_topics = [],
     tm_heap = Map.empty, tm_next = 0, tm_notified = []\<rparr>"

definition register_on_new_domain_cb :: "u32 \<Rightarrow> CedTopicManager \<Rightarrow> CedTopicManager" where
  "register_on_new_domain_cb key g =
     g\<lparr>tm_notified := tm_notified g @ map (\<lambda>(d, names). NotifyDomain key d) (tm_topics g),
       tm_on_new_domain_map := List.insert key (tm_on_new_domain_map g)\<rparr>"

definition unregister_on_new_domain_cb :: "u32 \<Rightarrow> CedTopicManager \<Rightarrow> CedTopicManager" where
  "unregister_on_new_domain_cb key g = g\<lparr>tm_on_new_domain_map := removeAll key (tm_on_new_domain_map g)\<rparr>"

definition register_on_new_topic_cb :: "u32 \<Rightarrow> CedTopicManager \<Rightarrow> CedTopicManager" where
  "register_on_new_topic_cb key g =
     g\<lparr>tm_notified := tm_notified g @
         concat (map (\<lambda>(d, names). map (\<lambda>(name, t). NotifyTopic key d name) names) (tm_topics g)),
       tm_on_new_topic_map := List.insert key (tm_on_new_topic_map g)\<rparr>"

definition unregister_on_new_topic_cb :: "u32 \<Rightarrow> CedTopicManager \<Rightarrow> CedTopicManager" where
  "unregister_on_new_topic_cb key g = g\<lparr>tm_on_new_topic_map := removeAll key (tm_on_new_topic_map g)\<rparr>"

text \<open>\<open>weak_ptr::lock\<close>: a new owner of the object, or the null pointer when it is gone.\<close>

definition tm_lock :: "nat \<Rightarrow> CedTopicManager \<Rightarrow> nat option \<times> CedTopicManager" where
  "tm_lock a g =
     (case tm_heap g a of
        Some t \<Rightarrow> if 0 < gt_use_count t
                  then (Some a, g\<lparr>tm_heap := (tm_heap g)(a \<mapsto> t\<lparr>gt_use_count := Suc (gt_use_count t)\<rparr>)\<rparr>)
                  else (None, g)
      | None \<Rightarrow> (None, g))"

definition tm_register_domain :: "u16 \<Rightarrow> CedTopicManager \<Rightarrow> CedTopicManager" where
  "tm_register_domain domain_id g =
     (case map_of (tm_topics g) domain_id of
        None \<Rightarrow> g\<lparr>tm_topics := AList.update domain_id [] (tm_topics g),
                  tm_notified := tm_notified g @ map (\<lambda>key. NotifyDomain key domain_id) (tm_on_new_domain_map g)\<rparr>
      | Some _ \<Rightarrow> g)"

definition tm_register_topic :: "string \<Rightarrow> u16 \<Rightarrow> CedTopicManager \<Rightarrow> nat option \<times> CedTopicManager" where
  "tm_register_topic topic_name domain_id g =
     (let g = tm_register_domain domain_id g; names = the (map_of (tm_topics g) domain_id) in
      case map_of names topic_name of
        None \<Rightarrow>
          (let a = tm_next g in
           (Some a, g\<lparr>tm_notified := tm_notified g @ map (\<lambda>key. NotifyTopic key domain_id topic_name) (tm_on_new_topic_map g),
                      tm_heap := (tm_heap g)(a \<mapsto> CedGlobalTopic_new topic_name domain_id),
                      tm_next := Suc a,
                      tm_topics := AList.update domain_id (AList.update topic_name a names) (tm_topics g)\<rparr>))
      | Some a \<Rightarrow> tm_lock a g)"

definition tm_expired :: "nat \<Rightarrow> CedTopicManager \<Rightarrow> bool" where
  "tm_expired a g \<longleftrightarrow> (case tm_heap g a of Some t \<Rightarrow> gt_use_count t = 0 | None \<Rightarrow> True)"

definition tm_unregister_topic :: "string \<Rightarrow> u16 \<Rightarrow> CedTopicManager \<Rightarrow> bool \<times> CedTopicManager" where
  "tm_unregister_topic topic_name domain_id g =
     (case map_of (tm_topics g) domain_id of
        None \<Rightarrow> (False, g)
      | Some names \<Rightarrow>
          (case map_of names topic_name of
             None \<Rightarrow> (False, g)
           | Some a \<Rightarrow>
               if tm_expired a g
               then (let names = AList.delete topic_name names in
                     (True, g\<lparr>tm_topics := if names = [] then AList.delete domain_id (tm_topics g)
                                           else AList.update domain_id names (tm_topics g)\<rparr>))
               else (False, g)))"

text \<open>An owner goes away: the last one takes the object along, after its destructor.\<close>

definition tm_release :: "nat \<Rightarrow> CedTopicManager \<Rightarrow> CedTopicManager" where
  "tm_release a g =
     (case tm_heap g a of
        None \<Rightarrow> g
      | Some t \<Rightarrow>
          let t = t\<lparr>gt_use_count := gt_use_count t - 1\<rparr>; g = g\<lparr>tm_heap := (tm_heap g)(a \<mapsto> t)\<rparr> in
          if gt_use_count t = 0
          then (let g = snd (tm_unregister_topic (gt_name t) (gt_domain_id t) g) in g\<lparr>tm_heap := erase (tm_heap g) a\<rparr>)
          else g)"

subsection \<open>The register holds exactly the live topics\<close>

definition tm_find :: "CedTopicManager \<Rightarrow> u16 \<Rightarrow> string \<Rightarrow> nat option" where
  "tm_find g d name = (case map_of (tm_topics g) d of None \<Rightarrow> None | Some names \<Rightarrow> map_of names name)"

definition tm_ok :: "CedTopicManager \<Rightarrow> bool" where
  "tm_ok g \<longleftrightarrow> (\<forall>a t. tm_heap g a = Some t \<longrightarrow> 0 < gt_use_count t \<and> a < tm_next g
        \<and> tm_find g (gt_domain_id t) (gt_name t) = Some a) \<and>
     (\<forall>d name a. tm_find g d name = Some a \<longrightarrow> (\<exists>t. tm_heap g a = Some t \<and> gt_domain_id t = d \<and> gt_name t = name))"

lemma tm_ok_init: "tm_ok CedTopicManager_init"
  by (simp add: tm_ok_def CedTopicManager_init_def tm_find_def)

lemma tm_ok_heapD:
  assumes "tm_ok g" and "tm_heap g a = Some t"
  shows "0 < gt_use_count t" "a < tm_next g" "tm_find g (gt_domain_id t) (gt_name t) = Some a"
  using assms unfolding tm_ok_def by blast+

lemma tm_ok_findD:
  assumes "tm_ok g" and "tm_find g d name = Some a"
  obtains t where "tm_heap g a = Some t" and "gt_domain_id t = d" and "gt_name t = name"
  using assms unfolding tm_ok_def by blast

lemma tm_okI:
  assumes "\<And>a t. tm_heap g a = Some t \<Longrightarrow> 0 < gt_use_count t \<and> a < tm_next g \<and> tm_find g (gt_domain_id t) (gt_name t) = Some a"
    and "\<And>d name a. tm_find g d name = Some a \<Longrightarrow> \<exists>t. tm_heap g a = Some t \<and> gt_domain_id t = d \<and> gt_name t = name"
  shows "tm_ok g"
  using assms by (simp add: tm_ok_def)

lemma tm_find_register_domain [simp]: "tm_find (tm_register_domain d g) = tm_find g"
  by (intro ext) (auto simp: tm_find_def tm_register_domain_def update_conv split: option.splits)

lemma tm_register_domain_keeps [simp]:
  "tm_heap (tm_register_domain d g) = tm_heap g" "tm_next (tm_register_domain d g) = tm_next g"
  by (auto simp: tm_register_domain_def split: option.splits)

lemma tm_ok_register_domain: "tm_ok g \<Longrightarrow> tm_ok (tm_register_domain d g)"
  by (simp add: tm_ok_def)

lemma tm_register_domain_found: "\<exists>names. map_of (tm_topics (tm_register_domain d g)) d = Some names"
  by (auto simp: tm_register_domain_def update_conv split: option.splits)

lemma tm_register_fresh:
  assumes "tm_find g d name = None"
  shows "fst (tm_register_topic name d g) = Some (tm_next g)"
    "tm_heap (snd (tm_register_topic name d g)) = (tm_heap g)(tm_next g \<mapsto> CedGlobalTopic_new name d)"
    "tm_next (snd (tm_register_topic name d g)) = Suc (tm_next g)"
    "tm_find (snd (tm_register_topic name d g)) d' name' =
       (if d' = d \<and> name' = name then Some (tm_next g) else tm_find g d' name')"
proof -
  obtain names where names: "map_of (tm_topics (tm_register_domain d g)) d = Some names"
    using tm_register_domain_found by blast
  have "map_of names name = None"
  proof -
    have "tm_find (tm_register_domain d g) d name = None" using assms by simp
    then show ?thesis unfolding tm_find_def names by simp
  qed
  then have r: "tm_register_topic name d g = (let g = tm_register_domain d g; a = tm_next g in
       (Some a, g\<lparr>tm_notified := tm_notified g @ map (\<lambda>key. NotifyTopic key d name) (tm_on_new_topic_map g),
          tm_heap := (tm_heap g)(a \<mapsto> CedGlobalTopic_new name d), tm_next := Suc a,
          tm_topics := AList.update d (AList.update name a names) (tm_topics g)\<rparr>))"
    by (simp add: tm_register_topic_def names Let_def)
  show "fst (tm_register_topic name d g) = Some (tm_next g)"
    "tm_heap (snd (tm_register_topic name d g)) = (tm_heap g)(tm_next g \<mapsto> CedGlobalTopic_new name d)"
    "tm_next (snd (tm_register_topic name d g)) = Suc (tm_next g)"
    by (simp_all add: r Let_def)
  have old: "tm_find g d' name' = (case map_of (tm_topics (tm_register_domain d g)) d' of None \<Rightarrow> None | Some names \<Rightarrow> map_of names name')" for d'
    by (metis tm_find_def tm_find_register_domain)
  show "tm_find (snd (tm_register_topic name d g)) d' name' =
      (if d' = d \<and> name' = name then Some (tm_next g) else tm_find g d' name')"
    unfolding r old by (simp add: Let_def tm_find_def update_conv names)
qed

lemma tm_register_known:
  assumes "tm_find g d name = Some a"
  shows "tm_register_topic name d g = tm_lock a g"
  using assms by (auto simp: tm_find_def tm_register_topic_def tm_register_domain_def Let_def split: option.splits)

lemma tm_lock_live:
  assumes "tm_ok g" and "tm_heap g a = Some t"
  shows "tm_lock a g = (Some a, g\<lparr>tm_heap := (tm_heap g)(a \<mapsto> t\<lparr>gt_use_count := Suc (gt_use_count t)\<rparr>)\<rparr>)"
  using assms by (simp add: tm_lock_def tm_ok_def)

lemma tm_find_heap [simp]: "tm_find (g\<lparr>tm_heap := h\<rparr>) = tm_find g"
  by (intro ext) (simp add: tm_find_def)

lemma tm_ok_heap_upd:
  assumes "tm_ok g" and "tm_heap g a = Some t" and "0 < gt_use_count t'"
    and "gt_name t' = gt_name t" and "gt_domain_id t' = gt_domain_id t"
  shows "tm_ok (g\<lparr>tm_heap := (tm_heap g)(a \<mapsto> t')\<rparr>)"
proof (rule tm_okI)
  fix b s
  assume "tm_heap (g\<lparr>tm_heap := (tm_heap g)(a \<mapsto> t')\<rparr>) b = Some s"
  then show "0 < gt_use_count s \<and> b < tm_next (g\<lparr>tm_heap := (tm_heap g)(a \<mapsto> t')\<rparr>) \<and>
      tm_find (g\<lparr>tm_heap := (tm_heap g)(a \<mapsto> t')\<rparr>) (gt_domain_id s) (gt_name s) = Some b"
    using assms tm_ok_heapD [OF assms(1)] by (auto split: if_splits)
next
  fix d name b
  assume "tm_find (g\<lparr>tm_heap := (tm_heap g)(a \<mapsto> t')\<rparr>) d name = Some b"
  then obtain s where "tm_heap g b = Some s" "gt_domain_id s = d" "gt_name s = name"
    using tm_ok_findD [OF assms(1), of d name b] by auto
  then show "\<exists>s. tm_heap (g\<lparr>tm_heap := (tm_heap g)(a \<mapsto> t')\<rparr>) b = Some s \<and> gt_domain_id s = d \<and> gt_name s = name"
    using assms by auto
qed

lemma tm_ok_register:
  assumes ok: "tm_ok g"
  shows "tm_ok (snd (tm_register_topic name d g))"
proof (cases "tm_find g d name")
  case None
  show ?thesis
  proof (rule tm_okI, goal_cases)
    case (1 a t)
    then show ?case
      using tm_ok_heapD [OF ok] None
      by (auto simp: tm_register_fresh [OF None] CedGlobalTopic_new_def less_Suc_eq split: if_splits)
  next
    case (2 d' name' a)
    show ?case
    proof (cases "d' = d \<and> name' = name")
      case True
      then show ?thesis using 2 by (simp add: tm_register_fresh [OF None]) (auto simp: CedGlobalTopic_new_def)
    next
      case False
      then have "tm_find g d' name' = Some a" using 2 by (simp add: tm_register_fresh [OF None] split: if_splits)
      then obtain t where "tm_heap g a = Some t" "gt_domain_id t = d'" "gt_name t = name'"
        by (rule tm_ok_findD [OF ok])
      moreover from this have "a \<noteq> tm_next g" using tm_ok_heapD(2) [OF ok] by fastforce
      ultimately show ?thesis by (simp add: tm_register_fresh [OF None])
    qed
  qed
next
  case (Some a)
  then obtain t where t: "tm_heap g a = Some t" using tm_ok_findD [OF ok] by blast
  show ?thesis
    using tm_ok_heap_upd [OF ok t] by (simp add: tm_register_known [OF Some] tm_lock_live [OF ok t])
qed

lemma tm_find_unregister:
  "tm_find (snd (tm_unregister_topic name d g)) d' name' =
     (if d' = d \<and> name' = name \<and> (\<exists>a. tm_find g d name = Some a \<and> tm_expired a g) then None else tm_find g d' name')"
proof (cases "\<exists>a. tm_find g d name = Some a \<and> tm_expired a g")
  case False
  then have "snd (tm_unregister_topic name d g) = g"
    by (auto simp: tm_unregister_topic_def tm_find_def Let_def split: option.splits)
  then show ?thesis using False by auto
next
  case True
  then obtain names a where n: "map_of (tm_topics g) d = Some names" "map_of names name = Some a" "tm_expired a g"
    by (auto simp: tm_find_def split: option.splits)
  have gone: "AList.delete name names = [] \<Longrightarrow> map_of names name' = None \<or> name' = name"
    using delete_conv [of name names name'] by (auto simp: delete_conv' fun_upd_def split: if_splits)
  show ?thesis
    using n gone by (auto simp: tm_unregister_topic_def tm_find_def Let_def delete_conv update_conv)
qed

lemma tm_unregister_keeps [simp]:
  "tm_heap (snd (tm_unregister_topic name d g)) = tm_heap g" "tm_next (snd (tm_unregister_topic name d g)) = tm_next g"
  by (auto simp: tm_unregister_topic_def Let_def split: option.splits)

lemma tm_release_cases:
  assumes "tm_ok g" and "tm_heap g a = Some t"
  shows "1 < gt_use_count t \<Longrightarrow> tm_release a g = g\<lparr>tm_heap := (tm_heap g)(a \<mapsto> t\<lparr>gt_use_count := gt_use_count t - 1\<rparr>)\<rparr>"
    and "gt_use_count t = 1 \<Longrightarrow> tm_heap (tm_release a g) = erase (tm_heap g) a"
    and "gt_use_count t = 1 \<Longrightarrow> tm_next (tm_release a g) = tm_next g"
    and "gt_use_count t = 1 \<Longrightarrow> tm_find (tm_release a g) d name =
           (if d = gt_domain_id t \<and> name = gt_name t then None else tm_find g d name)"
  using assms tm_ok_heapD [OF assms]
  by (simp_all add: tm_release_def Let_def tm_find_unregister tm_expired_def erase_def)

lemma tm_ok_release:
  assumes ok: "tm_ok g"
  shows "tm_ok (tm_release a g)"
proof (cases "tm_heap g a")
  case None
  then show ?thesis using ok by (simp add: tm_release_def)
next
  case (Some t)
  note t = tm_ok_heapD [OF ok Some] and cases = tm_release_cases [OF ok Some]
  show ?thesis
  proof (cases "1 < gt_use_count t")
    case True
    then show ?thesis using tm_ok_heap_upd [OF ok Some] by (simp add: cases(1))
  next
    case False
    then have one: "gt_use_count t = 1" using t(1) by simp
    show ?thesis
    proof (rule tm_okI, goal_cases)
      case (1 b s)
      then have b: "b \<noteq> a" "tm_heap g b = Some s" by (auto simp: cases(2) [OF one] erase_Some_iff)
      then show ?case
        using tm_ok_heapD [OF ok b(2)] t(3) by (auto simp: cases(3,4) [OF one])
    next
      case (2 d name b)
      then have "\<not> (d = gt_domain_id t \<and> name = gt_name t)" "tm_find g d name = Some b"
        by (auto simp: cases(4) [OF one] split: if_splits)
      moreover from this(2) obtain s where "tm_heap g b = Some s" "gt_domain_id s = d" "gt_name s = name"
        by (rule tm_ok_findD [OF ok])
      ultimately show ?case using Some by (auto simp: cases(2) [OF one] erase_Some_iff)
    qed
  qed
qed

text \<open>The topics come and go with their owners: any sequence of registrations and releases.\<close>

datatype tm_op = TmRegister string u16 | TmRelease nat

fun tm_step :: "tm_op \<Rightarrow> CedTopicManager \<Rightarrow> CedTopicManager" where
  "tm_step (TmRegister name d) g = snd (tm_register_topic name d g)"
| "tm_step (TmRelease a) g = tm_release a g"

lemma tm_ok_step: "tm_ok g \<Longrightarrow> tm_ok (tm_step op g)"
  by (cases op) (simp_all add: tm_ok_register tm_ok_release)

lemma tm_ok_run: "tm_ok g \<Longrightarrow> tm_ok (fold tm_step ops g)"
  by (induction ops arbitrary: g) (simp_all add: tm_ok_step)

section \<open>Properties\<close>

text \<open>C29. All users of a topic meet: whatever was registered and released before, registering a name in a
  domain hands out a live topic of that name and domain, never the null pointer, and it is the only
  one; a registration while it lives hands out the same one.\<close>

theorem ced_registered_topic_unique:
  assumes "tm_register_topic name d (fold tm_step ops CedTopicManager_init) = (p, g)"
  shows "\<exists>a t. p = Some a \<and> tm_heap g a = Some t \<and> gt_name t = name \<and> gt_domain_id t = d \<and>
     (\<forall>b s. tm_heap g b = Some s \<longrightarrow> gt_name s = name \<longrightarrow> gt_domain_id s = d \<longrightarrow> b = a) \<and>
     fst (tm_register_topic name d g) = Some a"
proof -
  let ?g = "fold tm_step ops CedTopicManager_init"
  have ok: "tm_ok ?g" by (rule tm_ok_run [OF tm_ok_init])
  have g: "g = snd (tm_register_topic name d ?g)" and p: "p = fst (tm_register_topic name d ?g)"
    using assms by simp_all
  have ok': "tm_ok g" unfolding g by (rule tm_ok_register [OF ok])
  have "\<exists>a. p = Some a \<and> tm_find g d name = Some a"
  proof (cases "tm_find ?g d name")
    case None
    then show ?thesis by (simp add: g p tm_register_fresh [OF None])
  next
    case (Some a)
    then obtain t where "tm_heap ?g a = Some t" by (rule tm_ok_findD [OF ok])
    then show ?thesis using Some by (simp add: g p tm_register_known [OF Some] tm_lock_live [OF ok])
  qed
  then obtain a where a: "p = Some a" "tm_find g d name = Some a" by blast
  obtain t where t: "tm_heap g a = Some t" "gt_domain_id t = d" "gt_name t = name"
    using a(2) by (rule tm_ok_findD [OF ok'])
  have "b = a" if "tm_heap g b = Some s" "gt_name s = name" "gt_domain_id s = d" for b s
    using tm_ok_heapD(3) [OF ok' that(1)] that(2,3) a(2) by simp
  moreover have "fst (tm_register_topic name d g) = Some a"
    using t(1) by (simp add: tm_register_known [OF a(2)] tm_lock_live [OF ok'])
  ultimately show ?thesis using a(1) t by blast
qed

theorem ced_registered_topic_unique_witness:
  "\<exists>a. fst (tm_register_topic ''chatter'' 7
      (fold tm_step [TmRegister ''chatter'' 7, TmRelease 0, TmRegister ''other'' 7] CedTopicManager_init)) = Some a"
  using ced_registered_topic_unique [of "''chatter''" 7
      "[TmRegister ''chatter'' 7, TmRelease 0, TmRegister ''other'' 7]", OF prod.collapse [symmetric]]
  by blast



end
