(* ===== verification/CedMiddleware.thy ===== *)
theory CedMiddleware
  imports Ced Middleware
begin

text \<open>
  The centralised middleware of one client (\<open>CedMiddleware.cpp\<close>): its tables of participants, topics,
  publishers, subscribers, writers and readers, over the global topics all clients share. The state of
  its operations is the middleware object together with the topic manager. It is an interpretation of
  the contract of \<open>Middleware\<close>; requesters and repliers it does not have.

  Participants and topics are held by several pointers and live in a store. A publisher is known by
  the participant it keeps alive; a subscriber keeps a reference to the table entry of its participant
  (\<open>CedEntities.hpp:244\<close>), which dangles once the entry is erased.
\<close>

section \<open>Strings\<close>

fun string_find :: "string \<Rightarrow> string \<Rightarrow> nat option" where
  "string_find pat s =
     (if take (length pat) s = pat then Some 0
      else (case s of [] \<Rightarrow> None | c # cs \<Rightarrow> map_option Suc (string_find pat cs)))"

declare string_find.simps [simp del]

text \<open>\<open>ref.substr(0, ref.find(suffix))\<close>, where \<open>npos\<close> takes everything.\<close>

definition remove_from :: "string \<Rightarrow> string \<Rightarrow> string" where
  "remove_from mark ref = (case string_find mark ref of Some i \<Rightarrow> take i ref | None \<Rightarrow> ref)"

definition remove_suffix_form_topic_ref :: "string \<Rightarrow> string" where
  "remove_suffix_form_topic_ref = remove_from ''__t''"

definition remove_suffix_form_datawriter_ref :: "string \<Rightarrow> string" where
  "remove_suffix_form_datawriter_ref = remove_from ''__dw''"

definition remove_suffix_form_datareader_ref :: "string \<Rightarrow> string" where
  "remove_suffix_form_datareader_ref = remove_from ''__dr''"

section \<open>The state\<close>

record CedParticipant =
  cp_domain_id :: i16
  cp_topic_register :: "string \<rightharpoonup> nat"

record CedTopic =
  ct_participant :: nat
  ct_global_topic :: nat
  ct_use_count :: nat

record CedDataWriter =
  dw_topic :: nat
  dw_write_access :: WriteAccess
  dw_topic_src :: TopicSource

record CedDataReader =
  dr_topic :: nat
  dr_last_read :: SeqNum
  dr_read_access :: ReadAccess

record CedMiddleware =
  cm_participants :: "u16 \<rightharpoonup> nat"
  cm_topics :: "u16 \<rightharpoonup> nat"
  cm_publishers :: "u16 \<rightharpoonup> nat"
  cm_subscribers :: "u16 \<rightharpoonup> u16 \<times> nat"
  cm_datawriters :: "u16 \<rightharpoonup> CedDataWriter"
  cm_datareaders :: "u16 \<rightharpoonup> CedDataReader"
  cm_topics_src :: TopicSource
  cm_write_access :: WriteAccess
  cm_read_access :: ReadAccess
  cm_participant_store :: "nat \<rightharpoonup> CedParticipant"
  cm_topic_store :: "nat \<rightharpoonup> CedTopic"
  cm_next :: nat

type_synonym ced = "CedMiddleware \<times> CedTopicManager"

definition INTERNAL_CLIENT_KEY :: u32 where "INTERNAL_CLIENT_KEY = 0xEAEAEAEA"
definition EXTERNAL_CLIENT_KEY_PREFIX :: u8 where "EXTERNAL_CLIENT_KEY_PREFIX = 0xEA"

definition CedMiddleware_new :: "u32 \<Rightarrow> CedMiddleware" where
  "CedMiddleware_new client_key =
     (let (src, wr, rd) =
        (if client_key = INTERNAL_CLIENT_KEY then (SrcEXTERNAL, WriteEXTERNAL, ReadNONE)
         else if drop_bit 24 client_key = ucast EXTERNAL_CLIENT_KEY_PREFIX then (SrcEXTERNAL, WriteNONE, ReadINTERNAL)
         else (SrcINTERNAL, WriteCOMPLETE, ReadCOMPLETE))
      in \<lparr>cm_participants = Map.empty, cm_topics = Map.empty, cm_publishers = Map.empty, cm_subscribers = Map.empty,
          cm_datawriters = Map.empty, cm_datareaders = Map.empty, cm_topics_src = src, cm_write_access = wr,
          cm_read_access = rd, cm_participant_store = Map.empty, cm_topic_store = Map.empty, cm_next = 0\<rparr>)"

section \<open>Topics of a participant\<close>

definition ced_topic_name :: "nat \<Rightarrow> ced \<Rightarrow> string" where
  "ced_topic_name a w =
     (case cm_topic_store (fst w) a of
        Some t \<Rightarrow> (case tm_heap (snd w) (ct_global_topic t) of Some gt \<Rightarrow> gt_name gt | None \<Rightarrow> [])
      | None \<Rightarrow> [])"

definition cp_register_topic :: "nat \<Rightarrow> string \<Rightarrow> nat \<Rightarrow> CedMiddleware \<Rightarrow> bool \<times> CedMiddleware" where
  "cp_register_topic p name a m =
     (case cm_participant_store m p of
        Some cp \<Rightarrow> (let (reg, rv) = emplace (cp_topic_register cp) name a
                   in (rv, m\<lparr>cm_participant_store := (cm_participant_store m)(p \<mapsto> cp\<lparr>cp_topic_register := reg\<rparr>)\<rparr>))
      | None \<Rightarrow> (False, m))"

definition cp_unregister_topic :: "nat \<Rightarrow> string \<Rightarrow> CedMiddleware \<Rightarrow> CedMiddleware" where
  "cp_unregister_topic p name m =
     (case cm_participant_store m p of
        Some cp \<Rightarrow> m\<lparr>cm_participant_store :=
                      (cm_participant_store m)(p \<mapsto> cp\<lparr>cp_topic_register := erase (cp_topic_register cp) name\<rparr>)\<rparr>
      | None \<Rightarrow> m)"

text \<open>\<open>find_topic\<close> locks the weak pointer, so the caller owns the topic as well.\<close>

definition cp_find_topic :: "nat \<Rightarrow> string \<Rightarrow> CedMiddleware \<Rightarrow> nat option \<times> CedMiddleware" where
  "cp_find_topic p name m =
     (case Option.bind (cm_participant_store m p) (\<lambda>cp. cp_topic_register cp name) of
        None \<Rightarrow> (None, m)
      | Some a \<Rightarrow>
          (case cm_topic_store m a of
             Some t \<Rightarrow> if 0 < ct_use_count t
                       then (Some a, m\<lparr>cm_topic_store := (cm_topic_store m)(a \<mapsto> t\<lparr>ct_use_count := Suc (ct_use_count t)\<rparr>)\<rparr>)
                       else (None, m)
           | None \<Rightarrow> (None, m)))"

text \<open>An owner of a topic goes away; \<open>~CedTopic\<close> runs with the last one, then its members go.\<close>

definition ct_release :: "nat \<Rightarrow> ced \<Rightarrow> ced" where
  "ct_release a w =
     (case cm_topic_store (fst w) a of
        None \<Rightarrow> w
      | Some t \<Rightarrow>
          if 1 < ct_use_count t
          then ((fst w)\<lparr>cm_topic_store := (cm_topic_store (fst w))(a \<mapsto> t\<lparr>ct_use_count := ct_use_count t - 1\<rparr>)\<rparr>, snd w)
          else (let m = cp_unregister_topic (ct_participant t) (ced_topic_name a w) (fst w)
                in (m\<lparr>cm_topic_store := erase (cm_topic_store m) a\<rparr>, tm_release (ct_global_topic t) (snd w))))"

text \<open>The name of a new topic is asked from its global topic: a null pointer there is used.\<close>

definition ced_create_topic :: "nat \<Rightarrow> string \<Rightarrow> ced \<Rightarrow> fault + nat option \<times> ced" where
  "ced_create_topic p name w =
     (let (topic, m) = cp_find_topic p name (fst w); w = (m, snd w) in
      case topic of
        Some a \<Rightarrow> Inr (Some a, w)
      | None \<Rightarrow>
          (let domain = (case cm_participant_store m p of Some cp \<Rightarrow> cp_domain_id cp | None \<Rightarrow> 0);
               (global_topic, g) = tm_register_topic name domain (snd w)
           in case global_topic of
                None \<Rightarrow> Inl DanglingReference
              | Some gt \<Rightarrow>
                  (let a = cm_next m;
                       m = m\<lparr>cm_next := Suc a,
                            cm_topic_store := (cm_topic_store m)(a \<mapsto> \<lparr>ct_participant = p, ct_global_topic = gt, ct_use_count = 1\<rparr>)\<rparr>;
                       (rv, m) = cp_register_topic p (ced_topic_name a (m, g)) a m
                   in if rv then Inr (Some a, (m, g)) else Inr (None, ct_release a (m, g)))))"

section \<open>Create functions\<close>

definition ced_create_participant :: "u16 \<Rightarrow> i16 \<Rightarrow> string \<Rightarrow> ced \<Rightarrow> fault + bool \<times> ced" where
  "ced_create_participant participant_id domain_id ref w =
     (let m = fst w in
      case cm_participants m participant_id of
        Some _ \<Rightarrow> Inr (False, w)
      | None \<Rightarrow> Inr (True, (m\<lparr>cm_participants := (cm_participants m)(participant_id \<mapsto> cm_next m),
                   cm_participant_store := (cm_participant_store m)
                     (cm_next m \<mapsto> \<lparr>cp_domain_id = domain_id, cp_topic_register = Map.empty\<rparr>),
                   cm_next := Suc (cm_next m)\<rparr>, snd w)))"

definition ced_create_topic_by_ref :: "ced create_op" where
  "ced_create_topic_by_ref topic_id participant_id ref w =
     (case cm_participants (fst w) participant_id of
        None \<Rightarrow> Inr (False, w)
      | Some p \<Rightarrow>
          (case cm_topics (fst w) topic_id of
             Some _ \<Rightarrow> Inr (False, w)
           | None \<Rightarrow>
               (case ced_create_topic p (remove_suffix_form_topic_ref ref) w of
                  Inl e \<Rightarrow> Inl e
                | Inr (None, w) \<Rightarrow> Inr (False, w)
                | Inr (Some a, w) \<Rightarrow>
                    Inr (True, ((fst w)\<lparr>cm_topics := (cm_topics (fst w))(topic_id \<mapsto> a)\<rparr>, snd w)))))"

definition ced_create_publisher :: "ced create_op" where
  "ced_create_publisher publisher_id participant_id xml w =
     (case cm_participants (fst w) participant_id of
        None \<Rightarrow> Inr (False, w)
      | Some p \<Rightarrow>
          (case cm_publishers (fst w) publisher_id of
             Some _ \<Rightarrow> Inr (False, w)
           | None \<Rightarrow> Inr (True, ((fst w)\<lparr>cm_publishers := (cm_publishers (fst w))(publisher_id \<mapsto> p)\<rparr>, snd w))))"

definition ced_create_subscriber :: "ced create_op" where
  "ced_create_subscriber subscriber_id participant_id xml w =
     (case cm_participants (fst w) participant_id of
        None \<Rightarrow> Inr (False, w)
      | Some p \<Rightarrow>
          (case cm_subscribers (fst w) subscriber_id of
             Some _ \<Rightarrow> Inr (False, w)
           | None \<Rightarrow> Inr (True, ((fst w)\<lparr>cm_subscribers :=
               (cm_subscribers (fst w))(subscriber_id \<mapsto> (participant_id, p))\<rparr>, snd w))))"

definition ced_create_datawriter :: "ced create_op" where
  "ced_create_datawriter datawriter_id publisher_id ref w =
     (case cm_publishers (fst w) publisher_id of
        None \<Rightarrow> Inr (False, w)
      | Some p \<Rightarrow>
          (case cm_datawriters (fst w) datawriter_id of
             Some _ \<Rightarrow> Inr (False, w)
           | None \<Rightarrow>
               (case cp_find_topic p (remove_suffix_form_datawriter_ref ref) (fst w) of
                  (None, m) \<Rightarrow> Inr (False, (m, snd w))
                | (Some a, m) \<Rightarrow>
                    Inr (True, (m\<lparr>cm_datawriters := (cm_datawriters m)(datawriter_id \<mapsto>
                      \<lparr>dw_topic = a, dw_write_access = cm_write_access m, dw_topic_src = cm_topics_src m\<rparr>)\<rparr>, snd w)))))"

text \<open>The participant of a subscriber, through its reference to the entry of \<open>participants_\<close>.\<close>

definition cs_get_participant :: "u16 \<times> nat \<Rightarrow> CedMiddleware \<Rightarrow> nat option" where
  "cs_get_participant s m = (if cm_participants m (fst s) = Some (snd s) then Some (snd s) else None)"

definition ced_create_datareader :: "ced create_op" where
  "ced_create_datareader datareader_id subscriber_id ref w =
     (case cm_subscribers (fst w) subscriber_id of
        None \<Rightarrow> Inr (False, w)
      | Some s \<Rightarrow>
          (case cm_datareaders (fst w) datareader_id of
             Some _ \<Rightarrow> Inr (False, w)
           | None \<Rightarrow>
               (case cs_get_participant s (fst w) of
                  None \<Rightarrow> Inl DanglingReference
                | Some p \<Rightarrow>
                    (case cp_find_topic p (remove_suffix_form_datareader_ref ref) (fst w) of
                       (None, m) \<Rightarrow> Inr (False, (m, snd w))
                     | (Some a, m) \<Rightarrow>
                         Inr (True, (m\<lparr>cm_datareaders := (cm_datareaders m)(datareader_id \<mapsto>
                           \<lparr>dr_topic = a, dr_last_read = 0xFFFF, dr_read_access = cm_read_access m\<rparr>)\<rparr>, snd w))))))"

section \<open>Delete functions\<close>

definition ced_delete_participant :: "ced delete_op" where
  "ced_delete_participant participant_id w =
     (cm_participants (fst w) participant_id \<noteq> None,
      ((fst w)\<lparr>cm_participants := erase (cm_participants (fst w)) participant_id\<rparr>, snd w))"

definition ced_delete_topic :: "ced delete_op" where
  "ced_delete_topic topic_id w =
     (case cm_topics (fst w) topic_id of
        None \<Rightarrow> (False, w)
      | Some a \<Rightarrow> (True, ct_release a ((fst w)\<lparr>cm_topics := erase (cm_topics (fst w)) topic_id\<rparr>, snd w)))"

definition ced_delete_publisher :: "ced delete_op" where
  "ced_delete_publisher publisher_id w =
     (cm_publishers (fst w) publisher_id \<noteq> None,
      ((fst w)\<lparr>cm_publishers := erase (cm_publishers (fst w)) publisher_id\<rparr>, snd w))"

definition ced_delete_subscriber :: "ced delete_op" where
  "ced_delete_subscriber subscriber_id w =
     (cm_subscribers (fst w) subscriber_id \<noteq> None,
      ((fst w)\<lparr>cm_subscribers := erase (cm_subscribers (fst w)) subscriber_id\<rparr>, snd w))"

definition ced_delete_datawriter :: "ced delete_op" where
  "ced_delete_datawriter datawriter_id w =
     (case cm_datawriters (fst w) datawriter_id of
        None \<Rightarrow> (False, w)
      | Some dw \<Rightarrow> (True, ct_release (dw_topic dw)
            ((fst w)\<lparr>cm_datawriters := erase (cm_datawriters (fst w)) datawriter_id\<rparr>, snd w)))"

definition ced_delete_datareader :: "ced delete_op" where
  "ced_delete_datareader datareader_id w =
     (case cm_datareaders (fst w) datareader_id of
        None \<Rightarrow> (False, w)
      | Some dr \<Rightarrow> (True, ct_release (dr_topic dr)
            ((fst w)\<lparr>cm_datareaders := erase (cm_datareaders (fst w)) datareader_id\<rparr>, snd w)))"

section \<open>Write and read functions\<close>

definition ced_global_of :: "nat \<Rightarrow> ced \<Rightarrow> (nat \<times> CedGlobalTopic) option" where
  "ced_global_of a w =
     (case cm_topic_store (fst w) a of
        None \<Rightarrow> None
      | Some t \<Rightarrow> map_option (Pair (ct_global_topic t)) (tm_heap (snd w) (ct_global_topic t)))"

definition ced_write_data :: "ced write_op" where
  "ced_write_data datawriter_id data w =
     (case cm_datawriters (fst w) datawriter_id of
        None \<Rightarrow> (False, w)
      | Some dw \<Rightarrow>
          (case ced_global_of (dw_topic dw) w of
             None \<Rightarrow> (False, w)
           | Some (g, gt) \<Rightarrow>
               (let (rv, gt) = gt_write data (dw_write_access dw) (dw_topic_src dw) gt
                in (rv, (fst w, (snd w)\<lparr>tm_heap := (tm_heap (snd w))(g \<mapsto> gt)\<rparr>)))))"

text \<open>A read during which no other thread writes; \<open>gt_read\<close> has the general one.\<close>

definition ced_read_data :: "ced read_op" where
  "ced_read_data datareader_id timeout w =
     (case cm_datareaders (fst w) datareader_id of
        None \<Rightarrow> (None, w)
      | Some dr \<Rightarrow>
          (case ced_global_of (dr_topic dr) w of
             None \<Rightarrow> (None, w)
           | Some (g, gt) \<Rightarrow>
               (let (rv, last_read, gt) = gt_read [] (dr_read_access dr) (dr_last_read dr) gt
                in (rv, ((fst w)\<lparr>cm_datareaders := (cm_datareaders (fst w))(datareader_id \<mapsto> dr\<lparr>dr_last_read := last_read\<rparr>)\<rparr>,
                         (snd w)\<lparr>tm_heap := (tm_heap (snd w))(g \<mapsto> gt)\<rparr>)))))"

section \<open>Matched functions\<close>

definition ced_matched_participant :: "u16 \<Rightarrow> i16 \<Rightarrow> string \<Rightarrow> ced \<Rightarrow> bool" where
  "ced_matched_participant participant_id domain_id ref w =
     (case Option.bind (cm_participants (fst w) participant_id) (cm_participant_store (fst w)) of
        Some cp \<Rightarrow> domain_id = cp_domain_id cp
      | None \<Rightarrow> False)"

definition ced_matched_topic :: "ced matched_op" where
  "ced_matched_topic topic_id ref w =
     (case cm_topics (fst w) topic_id of
        Some a \<Rightarrow> remove_suffix_form_topic_ref ref = ced_topic_name a w
      | None \<Rightarrow> False)"

definition ced_matched_datawriter :: "ced matched_op" where
  "ced_matched_datawriter datawriter_id ref w =
     (case cm_datawriters (fst w) datawriter_id of
        Some dw \<Rightarrow> remove_suffix_form_datawriter_ref ref = ced_topic_name (dw_topic dw) w
      | None \<Rightarrow> False)"

definition ced_matched_datareader :: "ced matched_op" where
  "ced_matched_datareader datareader_id ref w =
     (case cm_datareaders (fst w) datareader_id of
        Some dr \<Rightarrow> remove_suffix_form_datareader_ref ref = ced_topic_name (dr_topic dr) w
      | None \<Rightarrow> False)"

section \<open>The middleware\<close>

text \<open>The XML variants call the others; requesters and repliers are refused.\<close>

definition ced_refused :: "ced create_op" where
  "ced_refused entity_id participant_id ref w = Inr (False, w)"

definition ced_middleware :: "ced Middleware" where
  "ced_middleware =
     \<lparr>mw_create_participant_by_ref = ced_create_participant, mw_create_participant_by_xml = ced_create_participant,
      mw_create_topic_by_ref = ced_create_topic_by_ref, mw_create_topic_by_xml = ced_create_topic_by_ref,
      mw_create_publisher_by_xml = ced_create_publisher, mw_create_subscriber_by_xml = ced_create_subscriber,
      mw_create_datawriter_by_ref = ced_create_datawriter, mw_create_datawriter_by_xml = ced_create_datawriter,
      mw_create_datareader_by_ref = ced_create_datareader, mw_create_datareader_by_xml = ced_create_datareader,
      mw_create_requester_by_ref = ced_refused, mw_create_requester_by_xml = ced_refused,
      mw_create_replier_by_ref = ced_refused, mw_create_replier_by_xml = ced_refused,
      mw_delete_participant = ced_delete_participant, mw_delete_topic = ced_delete_topic,
      mw_delete_publisher = ced_delete_publisher, mw_delete_subscriber = ced_delete_subscriber,
      mw_delete_datawriter = ced_delete_datawriter, mw_delete_datareader = ced_delete_datareader,
      mw_delete_requester = (\<lambda>i w. (False, w)), mw_delete_replier = (\<lambda>i w. (False, w)),
      mw_write_data = ced_write_data, mw_write_request = (\<lambda>i n d w. (False, w)), mw_write_reply = (\<lambda>i d w. (False, w)),
      mw_read_data = ced_read_data, mw_read_request = (\<lambda>i t w. (None, w)), mw_read_reply = (\<lambda>i t w. (None, w)),
      mw_matched_participant_from_ref = ced_matched_participant, mw_matched_participant_from_xml = ced_matched_participant,
      mw_matched_topic_from_ref = ced_matched_topic, mw_matched_topic_from_xml = ced_matched_topic,
      mw_matched_datawriter_from_ref = ced_matched_datawriter, mw_matched_datawriter_from_xml = ced_matched_datawriter,
      mw_matched_datareader_from_ref = ced_matched_datareader, mw_matched_datareader_from_xml = ced_matched_datareader,
      mw_matched_requester_from_ref = (\<lambda>i s w. False), mw_matched_requester_from_xml = (\<lambda>i s w. False),
      mw_matched_replier_from_ref = (\<lambda>i s w. False), mw_matched_replier_from_xml = (\<lambda>i s w. False)\<rparr>"

section \<open>The contract\<close>

definition ced_ents :: "ced \<Rightarrow> ObjectKind \<Rightarrow> u16 set" where
  "ced_ents w k =
     (if k = OBJK_PARTICIPANT then dom (cm_participants (fst w))
      else if k = OBJK_TOPIC then dom (cm_topics (fst w))
      else if k = OBJK_PUBLISHER then dom (cm_publishers (fst w))
      else if k = OBJK_SUBSCRIBER then dom (cm_subscribers (fst w))
      else if k = OBJK_DATAWRITER then dom (cm_datawriters (fst w))
      else if k = OBJK_DATAREADER then dom (cm_datareaders (fst w))
      else {})"

text \<open>What only the stores see leaves the tables alone.\<close>

definition same_tables :: "CedMiddleware \<Rightarrow> CedMiddleware \<Rightarrow> bool" where
  "same_tables m m' \<longleftrightarrow> cm_participants m' = cm_participants m \<and> cm_topics m' = cm_topics m \<and>
     cm_publishers m' = cm_publishers m \<and> cm_subscribers m' = cm_subscribers m \<and>
     cm_datawriters m' = cm_datawriters m \<and> cm_datareaders m' = cm_datareaders m \<and>
     cm_topics_src m' = cm_topics_src m \<and> cm_write_access m' = cm_write_access m \<and> cm_read_access m' = cm_read_access m"

lemma same_tables_refl [simp]: "same_tables m m"
  by (simp add: same_tables_def)

lemma same_tables_trans: "same_tables m m' \<Longrightarrow> same_tables m' m'' \<Longrightarrow> same_tables m m''"
  by (simp add: same_tables_def)

lemma cp_unregister_tables [simp]: "same_tables m (cp_unregister_topic p name m)"
  by (auto simp: same_tables_def cp_unregister_topic_def split: option.splits)

lemma cp_register_tables [simp]: "same_tables m (snd (cp_register_topic p name a m))"
  by (auto simp: same_tables_def cp_register_topic_def Let_def split: option.splits prod.splits)

lemma cp_find_tables [simp]: "same_tables m (snd (cp_find_topic p name m))"
  by (auto simp: same_tables_def cp_find_topic_def split: option.splits)

lemma ct_release_tables [simp]: "same_tables (fst w) (fst (ct_release a w))"
proof -
  have "same_tables (fst w) (m\<lparr>cm_topic_store := h\<rparr>)" if "same_tables (fst w) m" for m h
    using that by (simp add: same_tables_def)
  then show ?thesis by (auto simp: ct_release_def Let_def split: option.splits)
qed

lemma ced_create_topic_tables:
  assumes "ced_create_topic p name w = Inr (r, w')"
  shows "same_tables (fst w) (fst w')"
proof -
  obtain topic m where f: "cp_find_topic p name (fst w) = (topic, m)" by (cases "cp_find_topic p name (fst w)")
  then have m: "same_tables (fst w) m" by (metis cp_find_tables snd_conv)
  show ?thesis
  proof (cases topic)
    case (Some a)
    then show ?thesis using assms f m by (auto simp: ced_create_topic_def)
  next
    case None
    let ?d = "case cm_participant_store m p of Some cp \<Rightarrow> cp_domain_id cp | None \<Rightarrow> 0"
    obtain gt g where g: "tm_register_topic name ?d (snd w) = (Some gt, g)"
      using assms f None by (auto simp: ced_create_topic_def Let_def split: option.splits prod.splits)
    let ?m = "m\<lparr>cm_next := Suc (cm_next m), cm_topic_store := (cm_topic_store m)
        (cm_next m \<mapsto> \<lparr>ct_participant = p, ct_global_topic = gt, ct_use_count = 1\<rparr>)\<rparr>"
    have m': "same_tables (fst w) ?m" using m by (simp add: same_tables_def)
    obtain rv m2 where r: "cp_register_topic p (ced_topic_name (cm_next m) (?m, g)) (cm_next m) ?m = (rv, m2)"
      by (metis prod.collapse)
    have "same_tables ?m m2"
      using cp_register_tables [of ?m p "ced_topic_name (cm_next m) (?m, g)" "cm_next m"] by (simp only: r snd_conv)
    then have m2: "same_tables (fst w) m2" by (rule same_tables_trans [OF m'])
    show ?thesis
      using assms f None g r m2 same_tables_trans [OF m2, of "fst (ct_release (cm_next m) (m2, g))"]
        ct_release_tables [of "(m2, g)" "cm_next m"]
      by (auto simp: ced_create_topic_def Let_def split: if_splits)
  qed
qed

lemma ced_ents_same: "same_tables (fst w) (fst w') \<Longrightarrow> ced_ents w' = ced_ents w"
  by (intro ext) (simp add: ced_ents_def same_tables_def)

lemma ced_ents_release [simp]: "ced_ents (ct_release a w) = ced_ents w"
  by (rule ced_ents_same [OF ct_release_tables])

lemma ced_ents_find: "cp_find_topic p name (fst w) = (r, m) \<Longrightarrow> ced_ents (m, g) = ced_ents w"
  using cp_find_tables [of "fst w" p name] by (auto intro: ced_ents_same [of w "(m, g)"])

lemma ced_ents_upd [simp]:
  "ced_ents (m\<lparr>cm_participants := f_participants\<rparr>, g) = (ced_ents (m, g))(OBJK_PARTICIPANT := dom f_participants)"
  "ced_ents (m\<lparr>cm_topics := f_topics\<rparr>, g) = (ced_ents (m, g))(OBJK_TOPIC := dom f_topics)"
  "ced_ents (m\<lparr>cm_publishers := f_publishers\<rparr>, g) = (ced_ents (m, g))(OBJK_PUBLISHER := dom f_publishers)"
  "ced_ents (m\<lparr>cm_subscribers := f_subscribers\<rparr>, g) = (ced_ents (m, g))(OBJK_SUBSCRIBER := dom f_subscribers)"
  "ced_ents (m\<lparr>cm_datawriters := f_datawriters\<rparr>, g) = (ced_ents (m, g))(OBJK_DATAWRITER := dom f_datawriters)"
  "ced_ents (m\<lparr>cm_datareaders := f_datareaders\<rparr>, g) = (ced_ents (m, g))(OBJK_DATAREADER := dom f_datareaders)"
  "ced_ents (m\<lparr>cm_participant_store := h\<rparr>, g) = ced_ents (m, g)"
  "ced_ents (m\<lparr>cm_next := n\<rparr>, g) = ced_ents (m, g)"
  by (rule ext, simp add: ced_ents_def objk_defs)+

lemma ced_ents_idle: "i \<notin> ced_ents w k \<Longrightarrow> (ced_ents w)(k := ced_ents w k - {i}) = ced_ents w"
  by auto

lemma ced_ents_at:
  "ced_ents w OBJK_PARTICIPANT = dom (cm_participants (fst w))"
  "ced_ents w OBJK_TOPIC = dom (cm_topics (fst w))"
  "ced_ents w OBJK_PUBLISHER = dom (cm_publishers (fst w))"
  "ced_ents w OBJK_SUBSCRIBER = dom (cm_subscribers (fst w))"
  "ced_ents w OBJK_DATAWRITER = dom (cm_datawriters (fst w))"
  "ced_ents w OBJK_DATAREADER = dom (cm_datareaders (fst w))"
  by (simp_all add: ced_ents_def objk_defs)

lemma creates_topic: "creates ced_ents OBJK_TOPIC i (ced_create_topic_by_ref i p s)"
  unfolding creates_def
proof (intro allI impI)
  fix w rv w'
  assume c: "ced_create_topic_by_ref i p s w = Inr (rv, w')"
  show "(rv \<longrightarrow> i \<notin> ced_ents w OBJK_TOPIC) \<and>
      ced_ents w' = (if rv then (ced_ents w)(OBJK_TOPIC := insert i (ced_ents w OBJK_TOPIC)) else ced_ents w)"
  proof (cases "cm_participants (fst w) p = None \<or> cm_topics (fst w) i \<noteq> None")
    case True
    then show ?thesis using c by (auto simp: ced_create_topic_by_ref_def split: option.splits)
  next
    case False
    then obtain q where q: "cm_participants (fst w) p = Some q" "cm_topics (fst w) i = None" by auto
    then obtain r w1 where r: "ced_create_topic q (remove_suffix_form_topic_ref s) w = Inr (r, w1)"
      using c by (auto simp: ced_create_topic_by_ref_def split: sum.splits)
    note same = ced_create_topic_tables [OF r]
    show ?thesis
    proof (cases r)
      case None
      then show ?thesis using c q r ced_ents_same [OF same] by (simp add: ced_create_topic_by_ref_def)
    next
      case (Some a)
      then show ?thesis
        using c q r same ced_ents_same [OF same]
        by (cases w1) (auto simp: ced_create_topic_by_ref_def ced_ents_at same_tables_def)
    qed
  qed
qed

lemma creates_participant: "creates ced_ents OBJK_PARTICIPANT i (ced_create_participant i d s)"
  by (auto simp: creates_def ced_create_participant_def Let_def ced_ents_at split: option.splits)

lemma creates_publisher: "creates ced_ents OBJK_PUBLISHER i (ced_create_publisher i p s)"
  by (auto simp: creates_def ced_create_publisher_def ced_ents_at split: option.splits)

lemma creates_subscriber: "creates ced_ents OBJK_SUBSCRIBER i (ced_create_subscriber i p s)"
  by (auto simp: creates_def ced_create_subscriber_def ced_ents_at split: option.splits)

lemma creates_datawriter: "creates ced_ents OBJK_DATAWRITER i (ced_create_datawriter i p s)"
  unfolding creates_def
proof (intro allI impI)
  fix w rv w'
  assume c: "ced_create_datawriter i p s w = Inr (rv, w')"
  show "(rv \<longrightarrow> i \<notin> ced_ents w OBJK_DATAWRITER) \<and>
      ced_ents w' = (if rv then (ced_ents w)(OBJK_DATAWRITER := insert i (ced_ents w OBJK_DATAWRITER)) else ced_ents w)"
  proof (cases "cm_publishers (fst w) p = None \<or> cm_datawriters (fst w) i \<noteq> None")
    case True
    then show ?thesis using c by (auto simp: ced_create_datawriter_def split: option.splits)
  next
    case False
    then obtain q where q: "cm_publishers (fst w) p = Some q" "cm_datawriters (fst w) i = None" by auto
    obtain r m where r: "cp_find_topic q (remove_suffix_form_datawriter_ref s) (fst w) = (r, m)"
      by (metis prod.collapse)
    have same: "same_tables (fst w) m" using r by (metis cp_find_tables snd_conv)
    show ?thesis
    proof (cases r)
      case None
      then show ?thesis using c q r ced_ents_find [OF r] by (auto simp: ced_create_datawriter_def)
    next
      case (Some a)
      then show ?thesis using c q r same ced_ents_find [OF r]
        by (auto simp: ced_create_datawriter_def ced_ents_at same_tables_def)
    qed
  qed
qed

lemma creates_datareader: "creates ced_ents OBJK_DATAREADER i (ced_create_datareader i p s)"
  unfolding creates_def
proof (intro allI impI)
  fix w rv w'
  assume c: "ced_create_datareader i p s w = Inr (rv, w')"
  show "(rv \<longrightarrow> i \<notin> ced_ents w OBJK_DATAREADER) \<and>
      ced_ents w' = (if rv then (ced_ents w)(OBJK_DATAREADER := insert i (ced_ents w OBJK_DATAREADER)) else ced_ents w)"
  proof (cases "cm_subscribers (fst w) p = None \<or> cm_datareaders (fst w) i \<noteq> None")
    case True
    then show ?thesis using c by (auto simp: ced_create_datareader_def split: option.splits)
  next
    case False
    then obtain s' where q: "cm_subscribers (fst w) p = Some s'" "cm_datareaders (fst w) i = None" by auto
    then obtain q where p: "cs_get_participant s' (fst w) = Some q"
      using c by (auto simp: ced_create_datareader_def split: option.splits)
    obtain r m where r: "cp_find_topic q (remove_suffix_form_datareader_ref s) (fst w) = (r, m)"
      by (metis prod.collapse)
    have same: "same_tables (fst w) m" using r by (metis cp_find_tables snd_conv)
    show ?thesis
    proof (cases r)
      case None
      then show ?thesis using c q p r ced_ents_find [OF r] by (auto simp: ced_create_datareader_def)
    next
      case (Some a)
      then show ?thesis using c q p r same ced_ents_find [OF r]
        by (auto simp: ced_create_datareader_def ced_ents_at same_tables_def)
    qed
  qed
qed

lemma creates_refused: "creates ced_ents k i (ced_refused i p s)"
  by (simp add: creates_def ced_refused_def)

lemma ced_deletes:
  "deletes ced_ents OBJK_PARTICIPANT i (ced_delete_participant i)"
  "deletes ced_ents OBJK_TOPIC i (ced_delete_topic i)"
  "deletes ced_ents OBJK_PUBLISHER i (ced_delete_publisher i)"
  "deletes ced_ents OBJK_SUBSCRIBER i (ced_delete_subscriber i)"
  "deletes ced_ents OBJK_DATAWRITER i (ced_delete_datawriter i)"
  "deletes ced_ents OBJK_DATAREADER i (ced_delete_datareader i)"
proof -
  have erased: "dom (erase m i) = dom m - {i}" for m :: "u16 \<rightharpoonup> 'v" by simp
  show "deletes ced_ents OBJK_PARTICIPANT i (ced_delete_participant i)"
    "deletes ced_ents OBJK_PUBLISHER i (ced_delete_publisher i)"
    "deletes ced_ents OBJK_SUBSCRIBER i (ced_delete_subscriber i)"
    by (simp_all add: deletes_def ced_delete_participant_def ced_delete_publisher_def ced_delete_subscriber_def ced_ents_at)
  have idle: "m i = None \<Longrightarrow> (ced_ents w)(k := dom m - {i}) = ced_ents w" if "ced_ents w k = dom m" for w k and m :: "u16 \<rightharpoonup> 'v"
    using that by (auto simp: fun_eq_iff)
  show "deletes ced_ents OBJK_TOPIC i (ced_delete_topic i)"
    unfolding deletes_def ced_delete_topic_def
    by (auto split: option.split simp: ced_ents_at intro!: idle [symmetric] ced_ents_at)
  show "deletes ced_ents OBJK_DATAWRITER i (ced_delete_datawriter i)"
    unfolding deletes_def ced_delete_datawriter_def
    by (auto split: option.split simp: ced_ents_at intro!: idle [symmetric] ced_ents_at)
  show "deletes ced_ents OBJK_DATAREADER i (ced_delete_datareader i)"
    unfolding deletes_def ced_delete_datareader_def
    by (auto split: option.split simp: ced_ents_at intro!: idle [symmetric] ced_ents_at)
qed

lemma ced_ents_global: "ced_ents (fst w, g) = ced_ents w"
  by (rule ced_ents_same) simp

lemma ced_write_keeps: "ced_ents (snd (ced_write_data i data w)) = ced_ents w"
  by (rule ced_ents_same) (auto simp: ced_write_data_def Let_def split: option.splits prod.splits)

lemma ced_read_keeps: "ced_ents (snd (ced_read_data i timeout w)) = ced_ents w"
proof (cases "cm_datareaders (fst w) i")
  case None
  then show ?thesis by (simp add: ced_read_data_def)
next
  case (Some dr)
  then have "(ced_ents w)(OBJK_DATAREADER := insert i (dom (cm_datareaders (fst w)))) = ced_ents w"
    by (auto simp: ced_ents_at [symmetric] fun_upd_idem_iff) (simp add: ced_ents_at domIff)
  then show ?thesis
    using Some by (auto simp: ced_read_data_def ced_ents_global split: option.splits prod.splits)
qed

lemma deletes_nothing:
  "deletes ced_ents OBJK_REQUESTER i (Pair False)" "deletes ced_ents OBJK_REPLIER i (Pair False)"
  by (auto simp: deletes_def ced_ents_def objk_defs fun_eq_iff)

interpretation ced: middleware_contract ced_middleware ced_ents
  by unfold_locales
    (simp_all add: ced_middleware_def creates_participant creates_topic creates_publisher creates_subscriber
      creates_datawriter creates_datareader creates_refused ced_deletes deletes_nothing ced_write_keeps ced_read_keeps)

section \<open>A writer and a reader of two clients\<close>

text \<open>One creation after the other, as long as they succeed.\<close>

fun ced_creates :: "(ced \<Rightarrow> fault + bool \<times> ced) list \<Rightarrow> ced \<Rightarrow> fault + bool \<times> ced" where
  "ced_creates [] w = Inr (True, w)"
| "ced_creates (f # fs) w =
     (case f w of
        Inr (True, w) \<Rightarrow> ced_creates fs w
      | r \<Rightarrow> r)"

definition ced_writer_client :: "u32 \<Rightarrow> i16 \<Rightarrow> u16 \<Rightarrow> u16 \<Rightarrow> u16 \<Rightarrow> u16 \<Rightarrow> string \<Rightarrow> string \<Rightarrow> CedTopicManager \<Rightarrow> fault + bool \<times> ced" where
  "ced_writer_client key domain participant topic publisher writer tref wref g =
     ced_creates [ced_create_participant participant domain [], ced_create_topic_by_ref topic participant tref,
       ced_create_publisher publisher participant [], ced_create_datawriter writer publisher wref] (CedMiddleware_new key, g)"

definition ced_reader_client :: "u32 \<Rightarrow> i16 \<Rightarrow> u16 \<Rightarrow> u16 \<Rightarrow> u16 \<Rightarrow> u16 \<Rightarrow> string \<Rightarrow> string \<Rightarrow> CedTopicManager \<Rightarrow> fault + bool \<times> ced" where
  "ced_reader_client key domain participant topic subscriber reader tref rref g =
     ced_creates [ced_create_participant participant domain [], ced_create_topic_by_ref topic participant tref,
       ced_create_subscriber subscriber participant [], ced_create_datareader reader subscriber rref] (CedMiddleware_new key, g)"

lemma CedMiddleware_new_empty:
  "cm_participants (CedMiddleware_new key) = Map.empty" "cm_topics (CedMiddleware_new key) = Map.empty"
  "cm_publishers (CedMiddleware_new key) = Map.empty" "cm_subscribers (CedMiddleware_new key) = Map.empty"
  "cm_datawriters (CedMiddleware_new key) = Map.empty" "cm_datareaders (CedMiddleware_new key) = Map.empty"
  "cm_participant_store (CedMiddleware_new key) = Map.empty" "cm_topic_store (CedMiddleware_new key) = Map.empty"
  "cm_next (CedMiddleware_new key) = 0"
  by (simp_all add: CedMiddleware_new_def Let_def)

lemmas ced_client_simps = CedMiddleware_new_empty ced_create_participant_def ced_create_topic_by_ref_def ced_create_topic_def
  ced_create_publisher_def ced_create_subscriber_def ced_create_datawriter_def ced_create_datareader_def cs_get_participant_def
  cp_find_topic_def cp_register_topic_def ced_topic_name_def Let_def

lemma ced_writer_client_works:
  assumes "tm_register_topic (remove_suffix_form_topic_ref tref) d g = (Some a, g')"
    and "tm_heap g' a = Some gt" and "gt_name gt = remove_suffix_form_topic_ref tref"
    and "remove_suffix_form_datawriter_ref wref = remove_suffix_form_topic_ref tref"
  obtains m dw ct where "ced_writer_client key d participant topic publisher writer tref wref g = Inr (True, (m, g'))"
    and "cm_datawriters m writer = Some dw" and "cm_topic_store m (dw_topic dw) = Some ct" and "ct_global_topic ct = a"
    and "dw_write_access dw = cm_write_access (CedMiddleware_new key)" and "dw_topic_src dw = cm_topics_src (CedMiddleware_new key)"
  using that assms by (simp add: ced_writer_client_def ced_client_simps)

lemma ced_reader_client_works:
  assumes "tm_register_topic (remove_suffix_form_topic_ref tref) d g = (Some a, g')"
    and "tm_heap g' a = Some gt" and "gt_name gt = remove_suffix_form_topic_ref tref"
    and "remove_suffix_form_datareader_ref rref = remove_suffix_form_topic_ref tref"
  obtains m dr ct where "ced_reader_client key d participant topic subscriber reader tref rref g = Inr (True, (m, g'))"
    and "cm_datareaders m reader = Some dr" and "cm_topic_store m (dr_topic dr) = Some ct" and "ct_global_topic ct = a"
    and "dr_read_access dr = cm_read_access (CedMiddleware_new key)" and "dr_last_read dr = 0xFFFF"
  using that assms by (simp add: ced_reader_client_def ced_client_simps)

lemma ced_write_data_global:
  assumes "cm_datawriters m i = Some dw" and "cm_topic_store m (dw_topic dw) = Some ct"
    and "tm_heap g (ct_global_topic ct) = Some gt"
  shows "ced_write_data i data (m, g) =
     (let (rv, gt) = gt_write data (dw_write_access dw) (dw_topic_src dw) gt
      in (rv, (m, g\<lparr>tm_heap := (tm_heap g)(ct_global_topic ct \<mapsto> gt)\<rparr>)))"
  using assms by (simp add: ced_write_data_def ced_global_of_def)

lemma ced_read_data_global:
  assumes "cm_datareaders m i = Some dr" and "cm_topic_store m (dr_topic dr) = Some ct"
    and "tm_heap g (ct_global_topic ct) = Some gt"
  shows "fst (ced_read_data i timeout (m, g)) = fst (gt_read [] (dr_read_access dr) (dr_last_read dr) gt)"
  using assms by (simp add: ced_read_data_def ced_global_of_def Let_def split: prod.split)

lemma gt_rel_use_count [simp]: "gt_rel (t\<lparr>gt_use_count := n\<rparr>) log = gt_rel t log"
  by (simp add: gt_rel_def)

lemma gt_read_first:
  assumes "gt_rel t log" and "length log \<le> 1"
  shows "fst (gt_read [] a 0xFFFF t) = (case log of [] \<Rightarrow> None | s # _ \<Rightarrow> if readable a s then Some (snd s) else None)"
proof -
  have start: "(0xFFFF :: u16) = of_nat 0 - 1" by simp
  have "gt_read [] a (of_nat 0 - 1) t = (let (r, p) = log_read a log 0 in (r, of_nat p - 1, t))"
    using assms(2) by (intro gt_read_log [OF assms(1)]) simp_all
  then have "fst (gt_read [] a (of_nat 0 - 1) t) = fst (log_read a log 0)"
    by (simp add: Let_def split: prod.splits)
  also have "\<dots> = (case log of [] \<Rightarrow> None | s # _ \<Rightarrow> if readable a s then Some (snd s) else None)"
    using assms(2) by (cases log) (auto simp: log_read_def history_size_def)
  finally show ?thesis unfolding start .
qed

section \<open>Properties\<close>

text \<open>C27. Publish and subscribe across clients: on a fresh topic of a domain a client opens a writer and
  another client a reader, under references that name the same topic. All creations succeed; a write
  is accepted exactly when the writing client has the right to, and the reader is handed the data
  exactly when it was accepted and the reading client may see its source.\<close>

theorem ced_data_reaches_reader:
  fixes key key' :: u32
  assumes ok: "tm_ok g" and fresh: "tm_find g d (remove_suffix_form_topic_ref tref) = None"
    and "remove_suffix_form_datawriter_ref wref = remove_suffix_form_topic_ref tref"
    and "remove_suffix_form_topic_ref tref' = remove_suffix_form_topic_ref tref"
    and "remove_suffix_form_datareader_ref rref = remove_suffix_form_topic_ref tref"
  defines "A \<equiv> CedMiddleware_new key" and "B \<equiv> CedMiddleware_new key'"
  shows "\<exists>m m' g1 g2. ced_writer_client key d p t b wr tref wref g = Inr (True, (m, g1)) \<and>
     ced_reader_client key' d p' t' s rd tref' rref g1 = Inr (True, (m', g2)) \<and>
     fst (ced_write_data wr data (m, g2)) = check_write_access (cm_write_access A) (cm_topics_src A) \<and>
     fst (ced_read_data rd timeout (m', snd (snd (ced_write_data wr data (m, g2))))) =
       (if check_write_access (cm_write_access A) (cm_topics_src A) \<and>
           check_read_access (cm_read_access B) (Some (cm_topics_src A)) then Some data else None)"
proof -
  let ?name = "remove_suffix_form_topic_ref tref" and ?a = "tm_next g"
  define g1 where "g1 = snd (tm_register_topic ?name d g)"
  have reg1: "tm_register_topic ?name d g = (Some ?a, g1)"
    unfolding g1_def using tm_register_fresh(1) [OF fresh] by (simp add: prod_eq_iff)
  have heap1: "tm_heap g1 ?a = Some (CedGlobalTopic_new ?name d)"
    unfolding g1_def tm_register_fresh(2) [OF fresh] by simp
  have ok1: "tm_ok g1" unfolding g1_def by (rule tm_ok_register [OF ok])
  have find1: "tm_find g1 d (remove_suffix_form_topic_ref tref') = Some ?a"
    unfolding g1_def assms(4) tm_register_fresh(4) [OF fresh] by simp
  define gt where "gt = (CedGlobalTopic_new ?name d)\<lparr>gt_use_count := Suc (gt_use_count (CedGlobalTopic_new ?name d))\<rparr>"
  define g2 where "g2 = g1\<lparr>tm_heap := (tm_heap g1)(?a \<mapsto> gt)\<rparr>"
  have reg2: "tm_register_topic (remove_suffix_form_topic_ref tref') d g1 = (Some ?a, g2)"
    using tm_lock_live [OF ok1 heap1] by (simp add: tm_register_known [OF find1] g2_def gt_def)
  have name: "gt_name gt = ?name" "gt_name (CedGlobalTopic_new ?name d) = ?name"
    by (simp_all add: gt_def CedGlobalTopic_new_def)
  have name': "gt_name gt = remove_suffix_form_topic_ref tref'"
    "remove_suffix_form_datareader_ref rref = remove_suffix_form_topic_ref tref'"
    using name(1) assms(4,5) by simp_all
  have heap2: "tm_heap g2 ?a = Some gt" by (simp add: g2_def)
  obtain m dw ct where A: "ced_writer_client key d p t b wr tref wref g = Inr (True, (m, g1))"
      "cm_datawriters m wr = Some dw" "cm_topic_store m (dw_topic dw) = Some ct" "ct_global_topic ct = ?a"
      "dw_write_access dw = cm_write_access A" "dw_topic_src dw = cm_topics_src A"
    unfolding A_def by (rule ced_writer_client_works [OF reg1 heap1 name(2) assms(3), where key = key])
  obtain m' dr ct' where B: "ced_reader_client key' d p' t' s rd tref' rref g1 = Inr (True, (m', g2))"
      "cm_datareaders m' rd = Some dr" "cm_topic_store m' (dr_topic dr) = Some ct'" "ct_global_topic ct' = ?a"
      "dr_read_access dr = cm_read_access B" "dr_last_read dr = 0xFFFF"
    unfolding B_def by (rule ced_reader_client_works [OF reg2 heap2 name', where key = key'])
  let ?w = "check_write_access (cm_write_access A) (cm_topics_src A)"
  obtain rv gt' where w: "gt_write data (cm_write_access A) (cm_topics_src A) gt = (rv, gt')"
    by (cases "gt_write data (cm_write_access A) (cm_topics_src A) gt")
  have rel: "gt_rel gt []" by (simp add: gt_def gt_rel_new)
  have written: "rv = ?w" "gt_rel gt' (if ?w then [(cm_topics_src A, data)] else [])"
    using w rel gt_rel_write [OF rel, of "cm_write_access A" "cm_topics_src A" data]
    by (auto simp: gt_write_denied gt_write_def split: if_splits)
  have wrote: "ced_write_data wr data (m, g2) = (rv, (m, g2\<lparr>tm_heap := (tm_heap g2)(?a \<mapsto> gt')\<rparr>))"
    using ced_write_data_global [OF A(2,3), of g2 gt data] by (simp add: A(4-6) heap2 w)
  have "fst (ced_read_data rd timeout (m', g2\<lparr>tm_heap := (tm_heap g2)(?a \<mapsto> gt')\<rparr>)) = fst (gt_read [] (cm_read_access B) 0xFFFF gt')"
    using ced_read_data_global [OF B(2,3)] by (simp add: B(4-6))
  also have "\<dots> = (if ?w \<and> check_read_access (cm_read_access B) (Some (cm_topics_src A)) then Some data else None)"
    using gt_read_first [OF written(2)] by (simp add: readable_def)
  finally show ?thesis using A(1) B(1) written(1) by (intro exI [of _ m] exI [of _ m'] exI [of _ g1] exI [of _ g2]) (simp add: wrote)
qed

text \<open>A client of the agent itself reads what an ordinary client writes, and not the other way round.\<close>

theorem ced_data_reaches_reader_witness:
  "\<exists>m m' g1 g2. ced_writer_client 5 0 1 2 3 4 ''t__t'' ''t__dw'' CedTopicManager_init = Inr (True, (m, g1)) \<and>
     ced_reader_client 0xEA000001 0 1 2 3 4 ''t__t'' ''t__dr'' g1 = Inr (True, (m', g2)) \<and>
     fst (ced_read_data 4 0 (m', snd (snd (ced_write_data 4 [9] (m, g2))))) = Some [9]"
proof -
  have n: "remove_suffix_form_topic_ref ''t__t'' = ''t''" "remove_suffix_form_datawriter_ref ''t__dw'' = ''t''"
    "remove_suffix_form_datareader_ref ''t__dr'' = ''t''"
    by (simp_all add: remove_suffix_form_topic_ref_def remove_suffix_form_datawriter_ref_def
        remove_suffix_form_datareader_ref_def remove_from_def string_find.simps)
  have "check_write_access (cm_write_access (CedMiddleware_new 5)) (cm_topics_src (CedMiddleware_new 5))"
    "check_read_access (cm_read_access (CedMiddleware_new 0xEA000001)) (Some (cm_topics_src (CedMiddleware_new 5)))"
    by (simp_all add: CedMiddleware_new_def INTERNAL_CLIENT_KEY_def EXTERNAL_CLIENT_KEY_PREFIX_def
        drop_bit_eq_div check_write_access_def check_read_access_def)
  then show ?thesis
    using ced_data_reaches_reader [OF tm_ok_init, of 0 "''t__t''" "''t__dw''" "''t__t''" "''t__dr''" 5 1 2 3 4 "0xEA000001" 1 2 3 4 "[9]" 0]
    by (simp add: n) (auto simp: tm_find_def CedTopicManager_init_def)
qed

text \<open>C32. A subscriber does not outlive its participant safely: once the participant it was created under
  is deleted, creating a reader under it uses a reference to a table entry that is gone.\<close>

theorem ced_subscriber_dangles:
  assumes "ced_create_subscriber subscriber participant xml w = Inr (True, w1)"
    and "cm_datareaders (fst w) reader = None"
  shows "ced_create_datareader reader subscriber ref (snd (ced_delete_participant participant w1)) = Inl DanglingReference"
proof -
  obtain p where "w1 = ((fst w)\<lparr>cm_subscribers := (cm_subscribers (fst w))(subscriber \<mapsto> (participant, p))\<rparr>, snd w)"
    using assms(1) by (auto simp: ced_create_subscriber_def split: option.splits)
  then show ?thesis
    using assms(2) by (simp add: ced_create_datareader_def ced_delete_participant_def cs_get_participant_def)
qed

theorem ced_subscriber_dangles_witness:
  "ced_create_datareader 4 3 ''t__dr'' (snd (ced_delete_participant 1
     ((CedMiddleware_new 5)\<lparr>cm_participants := [1 \<mapsto> 0], cm_next := 1,
        cm_participant_store := [0 \<mapsto> \<lparr>cp_domain_id = 0, cp_topic_register = Map.empty\<rparr>],
        cm_subscribers := [3 \<mapsto> (1, 0)]\<rparr>, CedTopicManager_init))) = Inl DanglingReference"
  by (rule ced_subscriber_dangles
      [where w = "((CedMiddleware_new 5)\<lparr>cm_participants := [1 \<mapsto> 0], cm_next := 1,
        cm_participant_store := [0 \<mapsto> \<lparr>cp_domain_id = 0, cp_topic_register = Map.empty\<rparr>]\<rparr>, CedTopicManager_init)"
       and xml = "[]"])
    (simp_all add: ced_create_subscriber_def CedMiddleware_new_def INTERNAL_CLIENT_KEY_def
      EXTERNAL_CLIENT_KEY_PREFIX_def)

end
