(* ===== verification/Objects.thy ===== *)
theory Objects
  imports Middleware
begin

text \<open>
  The XRCE objects a client creates in the agent (\<open>object/XRCEObject\<close>, \<open>participant\<close>, \<open>topic\<close>,
  \<open>publisher\<close>, \<open>subscriber\<close>, \<open>datawriter\<close>, \<open>datareader\<close>, \<open>requester\<close>, \<open>replier\<close>): how they are created
  from a representation through the middleware, matched against another representation, and what
  their destructors give back. The representations are the unions and structures of
  \<open>types/XRCETypes\<close> as the agent reads them: a union is a \<open>datatype\<close>, whose accessor for a member that
  is not selected throws.

  An object has no pointer to its parent; it knows its identifier and its client. All state it has in
  the agent is its \<open>Reader\<close>, when it is of a class that reads.
\<close>

section \<open>Representations\<close>

record CLIENT_Representation =
  cr_xrce_cookie :: XrceCookie
  cr_xrce_version :: XrceVersion
  cr_xrce_vendor_id :: XrceVendorId
  cr_client_key :: ClientKey
  cr_session_id :: SessionId
  cr_properties :: "(string \<times> string) list option"
  cr_mtu :: u16

record AGENT_Representation =
  ar_xrce_cookie :: XrceCookie
  ar_xrce_version :: XrceVersion
  ar_xrce_vendor_id :: XrceVendorId
  ar_properties :: "(string \<times> string) list option"

text \<open>The last constructor of a union is a discriminator that selects no member.\<close>

datatype OBJK_Representation3Formats =
    Rep3Reference string
  | Rep3Xml string
  | Rep3Binary "u8 list"
  | Rep3None u8

datatype OBJK_RepresentationBinAndXMLFormats =
    RepBinary "u8 list"
  | RepXml string
  | RepNone u8

datatype OBJK_RepresentationRefAndXMLFormats =
    RefReference string
  | RefXml string
  | RefNone u8

record OBJK_PARTICIPANT_Representation =
  pr_representation :: OBJK_Representation3Formats
  pr_domain_id :: i16

text \<open>The identifier is that of the participant, publisher or subscriber the object belongs to.\<close>

record OBJK_Representation3_Child =
  r3_representation :: OBJK_Representation3Formats
  r3_parent_id :: ObjectId

record OBJK_RepresentationBinAndXML_Child =
  rb_representation :: OBJK_RepresentationBinAndXMLFormats
  rb_participant_id :: ObjectId

datatype ObjectVariant =
    VariantAGENT AGENT_Representation
  | VariantCLIENT CLIENT_Representation
  | VariantAPPLICATION OBJK_RepresentationRefAndXMLFormats
  | VariantQOSPROFILE OBJK_RepresentationRefAndXMLFormats
  | VariantTYPE OBJK_RepresentationRefAndXMLFormats
  | VariantPARTICIPANT OBJK_PARTICIPANT_Representation
  | VariantTOPIC OBJK_Representation3_Child
  | VariantPUBLISHER OBJK_RepresentationBinAndXML_Child
  | VariantSUBSCRIBER OBJK_RepresentationBinAndXML_Child
  | VariantDATAWRITER OBJK_Representation3_Child
  | VariantDATAREADER OBJK_Representation3_Child
  | VariantREQUESTER OBJK_Representation3_Child
  | VariantREPLIER OBJK_Representation3_Child
  | VariantOther ObjectKind

fun ov_d :: "ObjectVariant \<Rightarrow> ObjectKind" where
  "ov_d (VariantAGENT _) = OBJK_AGENT"
| "ov_d (VariantCLIENT _) = OBJK_CLIENT"
| "ov_d (VariantAPPLICATION _) = OBJK_APPLICATION"
| "ov_d (VariantQOSPROFILE _) = OBJK_QOSPROFILE"
| "ov_d (VariantTYPE _) = OBJK_TYPE"
| "ov_d (VariantPARTICIPANT _) = OBJK_PARTICIPANT"
| "ov_d (VariantTOPIC _) = OBJK_TOPIC"
| "ov_d (VariantPUBLISHER _) = OBJK_PUBLISHER"
| "ov_d (VariantSUBSCRIBER _) = OBJK_SUBSCRIBER"
| "ov_d (VariantDATAWRITER _) = OBJK_DATAWRITER"
| "ov_d (VariantDATAREADER _) = OBJK_DATAREADER"
| "ov_d (VariantREQUESTER _) = OBJK_REQUESTER"
| "ov_d (VariantREPLIER _) = OBJK_REPLIER"
| "ov_d (VariantOther k) = k"

text \<open>The accessors the agent uses.\<close>

fun ov_participant :: "ObjectVariant \<Rightarrow> fault + OBJK_PARTICIPANT_Representation" where
  "ov_participant (VariantPARTICIPANT r) = Inr r"
| "ov_participant _ = Inl BadParamException"

fun ov_topic :: "ObjectVariant \<Rightarrow> fault + OBJK_Representation3_Child" where
  "ov_topic (VariantTOPIC r) = Inr r"
| "ov_topic _ = Inl BadParamException"

fun ov_data_writer :: "ObjectVariant \<Rightarrow> fault + OBJK_Representation3_Child" where
  "ov_data_writer (VariantDATAWRITER r) = Inr r"
| "ov_data_writer _ = Inl BadParamException"

fun ov_data_reader :: "ObjectVariant \<Rightarrow> fault + OBJK_Representation3_Child" where
  "ov_data_reader (VariantDATAREADER r) = Inr r"
| "ov_data_reader _ = Inl BadParamException"

fun ov_requester :: "ObjectVariant \<Rightarrow> fault + OBJK_Representation3_Child" where
  "ov_requester (VariantREQUESTER r) = Inr r"
| "ov_requester _ = Inl BadParamException"

fun ov_replier :: "ObjectVariant \<Rightarrow> fault + OBJK_Representation3_Child" where
  "ov_replier (VariantREPLIER r) = Inr r"
| "ov_replier _ = Inl BadParamException"

fun r3_object_reference :: "OBJK_Representation3Formats \<Rightarrow> fault + string" where
  "r3_object_reference (Rep3Reference s) = Inr s"
| "r3_object_reference _ = Inl BadParamException"

section \<open>Readers\<close>

text \<open>
  \<open>Reader\<close> (\<open>include/uxr/agent/reader/Reader.hpp\<close>) without its thread: what it was started with, the
  flag its thread polls, and whether there is a thread to join. A thread that ends by itself leaves
  both as they are.
\<close>

record DataDeliveryControl =
  dc_max_samples :: u16
  dc_max_elapsed_time :: u16
  dc_max_bytes_per_second :: u16
  dc_min_pace_period :: u16

record WriteFnArgs =
  wa_client_key :: ClientKey
  wa_stream_id :: StreamId
  wa_object_id :: ObjectId
  wa_request_id :: RequestId

record Reader =
  rd_task :: "(DataDeliveryControl \<times> WriteFnArgs) option"
  rd_running_cond :: bool
  rd_joinable :: bool

definition Reader_new :: Reader where
  "Reader_new = \<lparr>rd_task = None, rd_running_cond = False, rd_joinable = False\<rparr>"

definition start_reading :: "DataDeliveryControl \<Rightarrow> WriteFnArgs \<Rightarrow> Reader \<Rightarrow> bool \<times> Reader" where
  "start_reading delivery_control write_args r =
     (if \<not> rd_running_cond r
      then (True, r\<lparr>rd_task := Some (delivery_control, write_args), rd_running_cond := True, rd_joinable := True\<rparr>)
      else (False, r))"

definition stop_reading :: "Reader \<Rightarrow> bool \<times> Reader" where
  "stop_reading r =
     (if rd_running_cond r
      then if rd_joinable r then (True, r\<lparr>rd_running_cond := False, rd_joinable := False\<rparr>)
           else (False, r\<lparr>rd_running_cond := False\<rparr>)
      else (True, r))"

record ReadSpecification =
  rs_preferred_stream_id :: StreamId
  rs_data_format :: u8
  rs_content_filter_expression :: "string option"
  rs_delivery_control :: "DataDeliveryControl option"

text \<open>What \<open>DataReader::read\<close>, \<open>Requester::read\<close> and \<open>Replier::read\<close> have in common.\<close>

definition read_delivery_control :: "ReadSpecification \<Rightarrow> DataDeliveryControl" where
  "read_delivery_control spec =
     (case rs_delivery_control spec of
        Some dc \<Rightarrow> dc
      | None \<Rightarrow> \<lparr>dc_max_samples = 1, dc_max_elapsed_time = 0, dc_max_bytes_per_second = 0, dc_min_pace_period = 0\<rparr>)"

definition reader_read :: "ReadSpecification \<Rightarrow> WriteFnArgs \<Rightarrow> Reader \<Rightarrow> bool \<times> Reader" where
  "reader_read spec write_args r =
     (case stop_reading r of
        (True, r) \<Rightarrow> start_reading (read_delivery_control spec) write_args r
      | (False, r) \<Rightarrow> (False, r))"

definition reader_ok :: "Reader \<Rightarrow> bool" where
  "reader_ok r \<longleftrightarrow> (rd_running_cond r \<longrightarrow> rd_joinable r)"

lemma reader_ok_new: "reader_ok Reader_new"
  by (simp add: reader_ok_def Reader_new_def)

lemma reader_read_ok:
  assumes "reader_ok r"
  shows "reader_read spec args r = (True, r\<lparr>rd_task := Some (read_delivery_control spec, args),
      rd_running_cond := True, rd_joinable := True\<rparr>)"
  using assms by (cases r) (simp add: reader_read_def stop_reading_def start_reading_def reader_ok_def)

section \<open>Objects\<close>

datatype ObjectClass =
    Participant | Topic | Publisher | Subscriber | DataWriter | DataReader | Requester | Replier

record XRCEObject =
  xo_class :: ObjectClass
  xo_id :: ObjectId
  xo_reader :: Reader

definition get_raw_id :: "XRCEObject \<Rightarrow> u16" where
  "get_raw_id ob = objectid_to_raw (xo_id ob)"

definition XRCEObject_new :: "ObjectClass \<Rightarrow> ObjectId \<Rightarrow> XRCEObject" where
  "XRCEObject_new cl object_id = \<lparr>xo_class = cl, xo_id = object_id, xo_reader = Reader_new\<rparr>"

fun class_kind :: "ObjectClass \<Rightarrow> ObjectKind" where
  "class_kind Participant = OBJK_PARTICIPANT"
| "class_kind Topic = OBJK_TOPIC"
| "class_kind Publisher = OBJK_PUBLISHER"
| "class_kind Subscriber = OBJK_SUBSCRIBER"
| "class_kind DataWriter = OBJK_DATAWRITER"
| "class_kind DataReader = OBJK_DATAREADER"
| "class_kind Requester = OBJK_REQUESTER"
| "class_kind Replier = OBJK_REPLIER"

lemma class_kind_inject [simp]: "class_kind c = class_kind c' \<longleftrightarrow> c = c'"
  by (cases c; cases c') (simp_all add: objk_defs)

section \<open>Creation\<close>

text \<open>The end of every \<open>create\<close>: an object when the middleware made its entity, else the null pointer.\<close>

definition new_object :: "ObjectClass \<Rightarrow> ObjectId \<Rightarrow> fault + bool \<times> 'w \<Rightarrow> fault + XRCEObject option \<times> 'w" where
  "new_object cl object_id r =
     (case r of
        Inl e \<Rightarrow> Inl e
      | Inr (created_entity, w) \<Rightarrow> Inr (if created_entity then Some (XRCEObject_new cl object_id) else None, w))"

definition Participant_create :: "'w Middleware \<Rightarrow> ObjectId \<Rightarrow> OBJK_PARTICIPANT_Representation \<Rightarrow> 'w \<Rightarrow> fault + XRCEObject option \<times> 'w" where
  "Participant_create M object_id rep w =
     new_object Participant object_id
       (case pr_representation rep of
          Rep3Reference ref \<Rightarrow> mw_create_participant_by_ref M (objectid_to_raw object_id) (pr_domain_id rep) ref w
        | Rep3Xml xml \<Rightarrow> mw_create_participant_by_xml M (objectid_to_raw object_id) (pr_domain_id rep) xml w
        | _ \<Rightarrow> Inr (False, w))"

type_synonym 'w create_child = "'w Middleware \<Rightarrow> ObjectId \<Rightarrow> u16 \<Rightarrow> OBJK_Representation3_Child \<Rightarrow> 'w \<Rightarrow> fault + XRCEObject option \<times> 'w"
type_synonym 'w create_group = "'w Middleware \<Rightarrow> ObjectId \<Rightarrow> u16 \<Rightarrow> OBJK_RepresentationBinAndXML_Child \<Rightarrow> 'w \<Rightarrow> fault + XRCEObject option \<times> 'w"

definition Topic_create :: "'w create_child" where
  "Topic_create M object_id participant_id rep w =
     new_object Topic object_id
       (case r3_representation rep of
          Rep3Reference ref \<Rightarrow> mw_create_topic_by_ref M (objectid_to_raw object_id) participant_id ref w
        | Rep3Xml xml \<Rightarrow> mw_create_topic_by_xml M (objectid_to_raw object_id) participant_id xml w
        | _ \<Rightarrow> Inr (False, w))"

definition Publisher_create :: "'w create_group" where
  "Publisher_create M object_id participant_id rep w =
     new_object Publisher object_id
       (case rb_representation rep of
          RepXml xml \<Rightarrow> mw_create_publisher_by_xml M (objectid_to_raw object_id) participant_id xml w
        | _ \<Rightarrow> Inr (False, w))"

definition Subscriber_create :: "'w create_group" where
  "Subscriber_create M object_id participant_id rep w =
     new_object Subscriber object_id
       (case rb_representation rep of
          RepXml xml \<Rightarrow> mw_create_subscriber_by_xml M (objectid_to_raw object_id) participant_id xml w
        | _ \<Rightarrow> Inr (False, w))"

definition DataWriter_create :: "'w create_child" where
  "DataWriter_create M object_id publisher_id rep w =
     new_object DataWriter object_id
       (case r3_representation rep of
          Rep3Reference ref \<Rightarrow> mw_create_datawriter_by_ref M (objectid_to_raw object_id) publisher_id ref w
        | Rep3Xml xml \<Rightarrow> mw_create_datawriter_by_xml M (objectid_to_raw object_id) publisher_id xml w
        | _ \<Rightarrow> Inr (False, w))"

definition DataReader_create :: "'w create_child" where
  "DataReader_create M object_id subscriber_id rep w =
     new_object DataReader object_id
       (case r3_representation rep of
          Rep3Reference ref \<Rightarrow> mw_create_datareader_by_ref M (objectid_to_raw object_id) subscriber_id ref w
        | Rep3Xml xml \<Rightarrow> mw_create_datareader_by_xml M (objectid_to_raw object_id) subscriber_id xml w
        | _ \<Rightarrow> Inr (False, w))"

definition Requester_create :: "'w create_child" where
  "Requester_create M object_id participant_id rep w =
     new_object Requester object_id
       (case r3_representation rep of
          Rep3Reference ref \<Rightarrow> mw_create_requester_by_ref M (objectid_to_raw object_id) participant_id ref w
        | Rep3Xml xml \<Rightarrow> mw_create_requester_by_xml M (objectid_to_raw object_id) participant_id xml w
        | _ \<Rightarrow> Inr (False, w))"

definition Replier_create :: "'w create_child" where
  "Replier_create M object_id participant_id rep w =
     new_object Replier object_id
       (case r3_representation rep of
          Rep3Reference ref \<Rightarrow> mw_create_replier_by_ref M (objectid_to_raw object_id) participant_id ref w
        | Rep3Xml xml \<Rightarrow> mw_create_replier_by_xml M (objectid_to_raw object_id) participant_id xml w
        | _ \<Rightarrow> Inr (False, w))"

section \<open>Destruction\<close>

text \<open>
  The destructors give the entity back. A \<open>Reader\<close> is stopped by its own destructor; in a \<open>DataReader\<close>
  before the entity goes, in a \<open>Requester\<close> or \<open>Replier\<close> after.
\<close>

type_synonym 'w destroy = "'w Middleware \<Rightarrow> XRCEObject \<Rightarrow> 'w \<Rightarrow> 'w"

definition Participant_destroy :: "'w destroy" where
  "Participant_destroy M ob w = snd (mw_delete_participant M (get_raw_id ob) w)"

definition Topic_destroy :: "'w destroy" where
  "Topic_destroy M ob w = snd (mw_delete_topic M (get_raw_id ob) w)"

definition Publisher_destroy :: "'w destroy" where
  "Publisher_destroy M ob w = snd (mw_delete_publisher M (get_raw_id ob) w)"

definition Subscriber_destroy :: "'w destroy" where
  "Subscriber_destroy M ob w = snd (mw_delete_subscriber M (get_raw_id ob) w)"

definition DataWriter_destroy :: "'w destroy" where
  "DataWriter_destroy M ob w = snd (mw_delete_datawriter M (get_raw_id ob) w)"

definition DataReader_destroy :: "'w destroy" where
  "DataReader_destroy M ob w = snd (mw_delete_datareader M (get_raw_id ob) w)"

definition Requester_destroy :: "'w destroy" where
  "Requester_destroy M ob w = snd (mw_delete_requester M (get_raw_id ob) w)"

definition Replier_destroy :: "'w destroy" where
  "Replier_destroy M ob w = snd (mw_delete_replier M (get_raw_id ob) w)"

text \<open>The virtual destructor of \<open>XRCEObject\<close>.\<close>

definition object_destroy :: "'w destroy" where
  "object_destroy M ob =
     (case xo_class ob of
        Participant \<Rightarrow> Participant_destroy M ob
      | Topic \<Rightarrow> Topic_destroy M ob
      | Publisher \<Rightarrow> Publisher_destroy M ob
      | Subscriber \<Rightarrow> Subscriber_destroy M ob
      | DataWriter \<Rightarrow> DataWriter_destroy M ob
      | DataReader \<Rightarrow> DataReader_destroy M ob
      | Requester \<Rightarrow> Requester_destroy M ob
      | Replier \<Rightarrow> Replier_destroy M ob)"

lemmas destroy_defs = object_destroy_def Participant_destroy_def Topic_destroy_def Publisher_destroy_def Subscriber_destroy_def DataWriter_destroy_def DataReader_destroy_def Requester_destroy_def Replier_destroy_def

section \<open>Matching\<close>

text \<open>
  Whether an object is what another representation asks for. The kind is compared first; publishers
  and subscribers match anything. \<open>Requester::matched\<close> and \<open>Replier::matched\<close> ask the union for its
  data writer.
\<close>

type_synonym 'w matched = "'w Middleware \<Rightarrow> XRCEObject \<Rightarrow> ObjectVariant \<Rightarrow> 'w \<Rightarrow> fault + bool"

definition Participant_matched :: "'w matched" where
  "Participant_matched M ob new_object_rep w =
     (if objectid_kind (xo_id ob) \<noteq> ov_d new_object_rep then Inr False
      else (case ov_participant new_object_rep of
              Inl e \<Rightarrow> Inl e
            | Inr r \<Rightarrow>
                Inr (case pr_representation r of
                       Rep3Reference ref \<Rightarrow> mw_matched_participant_from_ref M (get_raw_id ob) (pr_domain_id r) ref w
                     | Rep3Xml xml \<Rightarrow> mw_matched_participant_from_xml M (get_raw_id ob) (pr_domain_id r) xml w
                     | _ \<Rightarrow> False)))"

definition Topic_matched :: "'w matched" where
  "Topic_matched M ob new_object_rep w =
     (if objectid_kind (xo_id ob) \<noteq> ov_d new_object_rep then Inr False
      else (case ov_topic new_object_rep of
              Inl e \<Rightarrow> Inl e
            | Inr r \<Rightarrow>
                Inr (case r3_representation r of
                       Rep3Reference ref \<Rightarrow> mw_matched_topic_from_ref M (get_raw_id ob) ref w
                     | Rep3Xml xml \<Rightarrow> mw_matched_topic_from_xml M (get_raw_id ob) xml w
                     | _ \<Rightarrow> False)))"

definition DataWriter_matched :: "'w matched" where
  "DataWriter_matched M ob new_object_rep w =
     (if objectid_kind (xo_id ob) \<noteq> ov_d new_object_rep then Inr False
      else (case ov_data_writer new_object_rep of
              Inl e \<Rightarrow> Inl e
            | Inr r \<Rightarrow>
                Inr (case r3_representation r of
                       Rep3Reference ref \<Rightarrow> mw_matched_datawriter_from_ref M (get_raw_id ob) ref w
                     | Rep3Xml xml \<Rightarrow> mw_matched_datawriter_from_xml M (get_raw_id ob) xml w
                     | _ \<Rightarrow> False)))"

definition DataReader_matched :: "'w matched" where
  "DataReader_matched M ob new_object_rep w =
     (if objectid_kind (xo_id ob) \<noteq> ov_d new_object_rep then Inr False
      else (case ov_data_reader new_object_rep of
              Inl e \<Rightarrow> Inl e
            | Inr r \<Rightarrow>
                Inr (case r3_representation r of
                       Rep3Reference ref \<Rightarrow> mw_matched_datareader_from_ref M (get_raw_id ob) ref w
                     | Rep3Xml xml \<Rightarrow> mw_matched_datareader_from_xml M (get_raw_id ob) xml w
                     | _ \<Rightarrow> False)))"

definition Requester_matched :: "'w matched" where
  "Requester_matched M ob new_object_rep w =
     (if objectid_kind (xo_id ob) \<noteq> ov_d new_object_rep then Inr False
      else (case ov_data_writer new_object_rep of
              Inl e \<Rightarrow> Inl e
            | Inr r \<Rightarrow>
                (case r3_representation r of
                   Rep3Reference _ \<Rightarrow>
                     (case ov_requester new_object_rep of
                        Inl e \<Rightarrow> Inl e
                      | Inr r \<Rightarrow> map_sum id (\<lambda>ref. mw_matched_requester_from_ref M (get_raw_id ob) ref w)
                                    (r3_object_reference (r3_representation r)))
                 | Rep3Xml _ \<Rightarrow>
                     (case ov_requester new_object_rep of
                        Inl e \<Rightarrow> Inl e
                      | Inr r \<Rightarrow> map_sum id (\<lambda>xml. mw_matched_requester_from_xml M (get_raw_id ob) xml w)
                                    (r3_object_reference (r3_representation r)))
                 | _ \<Rightarrow> Inr False)))"

definition Replier_matched :: "'w matched" where
  "Replier_matched M ob new_object_rep w =
     (if objectid_kind (xo_id ob) \<noteq> ov_d new_object_rep then Inr False
      else (case ov_data_writer new_object_rep of
              Inl e \<Rightarrow> Inl e
            | Inr r \<Rightarrow>
                (case r3_representation r of
                   Rep3Reference _ \<Rightarrow>
                     (case ov_replier new_object_rep of
                        Inl e \<Rightarrow> Inl e
                      | Inr r \<Rightarrow> map_sum id (\<lambda>ref. mw_matched_replier_from_ref M (get_raw_id ob) ref w)
                                    (r3_object_reference (r3_representation r)))
                 | Rep3Xml _ \<Rightarrow>
                     (case ov_replier new_object_rep of
                        Inl e \<Rightarrow> Inl e
                      | Inr r \<Rightarrow> map_sum id (\<lambda>xml. mw_matched_replier_from_xml M (get_raw_id ob) xml w)
                                    (r3_object_reference (r3_representation r)))
                 | _ \<Rightarrow> Inr False)))"

definition object_matched :: "'w matched" where
  "object_matched M ob new_object_rep w =
     (case xo_class ob of
        Participant \<Rightarrow> Participant_matched M ob new_object_rep w
      | Topic \<Rightarrow> Topic_matched M ob new_object_rep w
      | Publisher \<Rightarrow> Inr True
      | Subscriber \<Rightarrow> Inr True
      | DataWriter \<Rightarrow> DataWriter_matched M ob new_object_rep w
      | DataReader \<Rightarrow> DataReader_matched M ob new_object_rep w
      | Requester \<Rightarrow> Requester_matched M ob new_object_rep w
      | Replier \<Rightarrow> Replier_matched M ob new_object_rep w)"

section \<open>Data\<close>

definition DataWriter_write :: "'w Middleware \<Rightarrow> XRCEObject \<Rightarrow> u8 list \<Rightarrow> 'w \<Rightarrow> bool \<times> 'w" where
  "DataWriter_write M ob data w = mw_write_data M (get_raw_id ob) data w"

text \<open>The sequence number of a request holds the object and the request identifier.\<close>

definition request_sequence_number :: "XRCEObject \<Rightarrow> RequestId \<Rightarrow> u32" where
  "request_sequence_number ob request_id =
     push_bit 16 (ucast (get_raw_id ob)) + push_bit 8 (ucast (fst request_id)) + ucast (snd request_id)"

definition Requester_write :: "'w Middleware \<Rightarrow> XRCEObject \<Rightarrow> u8 list \<Rightarrow> RequestId \<Rightarrow> 'w \<Rightarrow> bool \<times> 'w" where
  "Requester_write M ob data request_id w =
     mw_write_request M (get_raw_id ob) (request_sequence_number ob request_id) data w"

definition Replier_write :: "'w Middleware \<Rightarrow> XRCEObject \<Rightarrow> u8 list \<Rightarrow> 'w \<Rightarrow> bool \<times> 'w" where
  "Replier_write M ob data w = mw_write_reply M (get_raw_id ob) data w"

definition DataReader_read_fn :: "'w Middleware \<Rightarrow> XRCEObject \<Rightarrow> int \<Rightarrow> 'w \<Rightarrow> u8 list option \<times> 'w" where
  "DataReader_read_fn M ob timeout w = mw_read_data M (get_raw_id ob) timeout w"

text \<open>A reply is handed on behind a \<open>BaseObjectRequest\<close>, four octets without padding.\<close>

definition request_id_of :: "u32 \<Rightarrow> RequestId" where
  "request_id_of sequence_number = (ucast (drop_bit 8 sequence_number AND 0xFF), ucast (sequence_number AND 0xFF))"

definition Requester_read_fn :: "'w Middleware \<Rightarrow> XRCEObject \<Rightarrow> int \<Rightarrow> 'w \<Rightarrow> u8 list option \<times> 'w" where
  "Requester_read_fn M ob timeout w =
     (case mw_read_reply M (get_raw_id ob) timeout w of
        (Some (sequence_number, temp_data), w) \<Rightarrow>
          (let request_id = request_id_of sequence_number
           in (Some ([fst request_id, snd request_id, fst (xo_id ob), snd (xo_id ob)] @ temp_data), w))
      | (None, w) \<Rightarrow> (None, w))"

definition Replier_read_fn :: "'w Middleware \<Rightarrow> XRCEObject \<Rightarrow> int \<Rightarrow> 'w \<Rightarrow> u8 list option \<times> 'w" where
  "Replier_read_fn M ob timeout w = mw_read_request M (get_raw_id ob) timeout w"

lemma request_sequence_number_or:
  "request_sequence_number ob (a, b) = push_bit 16 (ucast (get_raw_id ob)) OR push_bit 8 (ucast a) OR ucast b"
proof -
  have "push_bit 16 (ucast (get_raw_id ob) :: u32) + push_bit 8 (ucast a)
      = push_bit 16 (ucast (get_raw_id ob)) OR push_bit 8 (ucast a)"
    by (rule disjunctive_add) (auto simp: bit_simps dest: bit_imp_le_length)
  moreover have "(push_bit 16 (ucast (get_raw_id ob) :: u32) OR push_bit 8 (ucast a)) + ucast b
      = (push_bit 16 (ucast (get_raw_id ob)) OR push_bit 8 (ucast a)) OR ucast b"
    by (rule disjunctive_add) (auto simp: bit_simps dest: bit_imp_le_length)
  ultimately show ?thesis by (simp add: request_sequence_number_def or.assoc)
qed

lemma request_id_recovered: "request_id_of (request_sequence_number ob request_id) = request_id"
proof -
  have m: "(0xFF :: u32) = mask 8" by (simp add: mask_eq_exp_minus_1)
  obtain a b where r: "request_id = (a, b)" by (cases request_id)
  have "(ucast (drop_bit 8 (request_sequence_number ob (a, b)) AND 0xFF) :: u8) = a"
    unfolding m by (rule bit_word_eqI) (auto simp: request_sequence_number_or bit_simps dest: bit_imp_le_length)
  moreover have "(ucast (request_sequence_number ob (a, b) AND 0xFF) :: u8) = b"
    unfolding m by (rule bit_word_eqI) (auto simp: request_sequence_number_or bit_simps dest: bit_imp_le_length)
  ultimately show ?thesis by (simp add: request_id_of_def r)
qed

section \<open>Properties\<close>

text \<open>C31. A reply finds its request: when the middleware returns a reply under the sequence number its
  request was written with, the client is handed the identifier of that request and of the
  requester in front of the reply.\<close>

theorem reply_carries_request_id:
  assumes "mw_read_reply M (get_raw_id ob) timeout w = (Some (request_sequence_number ob request_id, reply), w')"
  shows "Requester_read_fn M ob timeout w =
     (Some ([fst request_id, snd request_id, fst (xo_id ob), snd (xo_id ob)] @ reply), w')"
  using assms by (simp add: Requester_read_fn_def request_id_recovered Let_def)

theorem reply_carries_request_id_witness:
  "\<exists>M :: (u32 \<times> u8 list) option Middleware. fst (Requester_read_fn M (XRCEObject_new Requester (0x12, 0x37)) 0
     (Some (request_sequence_number (XRCEObject_new Requester (0x12, 0x37)) (0xAB, 0xCD), [1, 2])))
   = Some [0xAB, 0xCD, 0x12, 0x37, 1, 2]"
  using reply_carries_request_id
    [of "(undefined :: (u32 \<times> u8 list) option Middleware)\<lparr>mw_read_reply := \<lambda>i t w. (w, None)\<rparr>"
       "XRCEObject_new Requester (0x12, 0x37)" 0
       "Some (request_sequence_number (XRCEObject_new Requester (0x12, 0x37)) (0xAB, 0xCD), [1, 2])" "(0xAB, 0xCD)" "[1, 2]" None]
  by (intro exI [of _ "(undefined :: (u32 \<times> u8 list) option Middleware)\<lparr>mw_read_reply := \<lambda>i t w. (w, None)\<rparr>"])
    (simp add: XRCEObject_new_def)

end
