(* ===== verification/Cdr.thy ===== *)
theory Cdr
  imports OutputStream
begin

text \<open>
  The part of Fast CDR the payloads of \<open>types/XRCETypes.cpp\<close> need beyond the headers, again as a
  parameter with its documented behaviour as a hypothesis; the ways the generated classes put
  serializations together (in sequence, optional, sequences of elements, unions); and the calculus that
  goes with them: \<open>writes\<close>, \<open>reads\<close> and \<open>sized\<close> relate an operation to the bytes it stands for, which may
  depend on the position through the alignment.
\<close>

section \<open>The rest of Fast CDR\<close>

text \<open>Reading can also throw \<open>BadParamException\<close>: for a Boolean that is neither 0 nor 1.\<close>

datatype 'a got = Got 'a | NotEnoughMemory | BadParam

record 'c xrce_cdr = "'c fastcdr" +
  cdr_put_u32_le :: "u32 \<Rightarrow> 'c \<Rightarrow> bool \<times> 'c"
  cdr_put_string :: "string \<Rightarrow> 'c \<Rightarrow> bool \<times> 'c"
  cdr_get_u32_le :: "'c \<Rightarrow> u32 option \<times> 'c"
  cdr_get_bool :: "'c \<Rightarrow> bool got \<times> 'c"
  cdr_get_string :: "'c \<Rightarrow> string option \<times> 'c"

definition bytes_of_u32_le :: "u32 \<Rightarrow> u8 list" where
  "bytes_of_u32_le w = [ucast w, ucast (drop_bit 8 w), ucast (drop_bit 16 w), ucast (drop_bit 24 w)]"

definition u32_of_bytes_le :: "u8 list \<Rightarrow> u32" where
  "u32_of_bytes_le bs = ucast (bs ! 0) OR push_bit 8 (ucast (bs ! 1)) OR push_bit 16 (ucast (bs ! 2)) OR push_bit 24 (ucast (bs ! 3))"

text \<open>A string is its length with the terminating zero, its characters and the zero.\<close>

definition string_octets :: "string \<Rightarrow> u8 list" where
  "string_octets s = bytes_of_u32_le (of_nat (length s + 1)) @ map of_char s @ [0]"

definition string_ok :: "string \<Rightarrow> bool" where
  "string_ok s \<longleftrightarrow> length s + 1 < 2 ^ 32 \<and> CHR 0x00 \<notin> set s"

definition xrce_cdr_ok :: "('c, 'x) xrce_cdr_scheme \<Rightarrow> bool" where
  "xrce_cdr_ok C \<longleftrightarrow> fastcdr_ok C \<and>
     (\<forall>p. cdr_alignment C p 4 = pad4 p) \<and>
     (\<forall>w c. put_ok C (cdr_put_u32_le C w c) c (pad4 (cdr_offset C c)) (bytes_of_u32_le w)) \<and>
     (\<forall>s c. put_ok C (cdr_put_string C s c) c (pad4 (cdr_offset C c)) (string_octets s)) \<and>
     (\<forall>c. get_ok C (cdr_get_u32_le C c) c (pad4 (cdr_offset C c)) 4 u32_of_bytes_le) \<and>
     (\<forall>b c pre rest. cdr_is C c (pre @ b # rest) (length pre) \<longrightarrow>
        (if b = 0 \<or> b = 1 then fst (cdr_get_bool C c) = Got (b = 1) \<and> cdr_is C (snd (cdr_get_bool C c)) (pre @ b # rest) (length pre + 1)
         else fst (cdr_get_bool C c) = BadParam)) \<and>
     (\<forall>s c pre pad rest. string_ok s \<longrightarrow> length pad = pad4 (length pre) \<longrightarrow>
        cdr_is C c (pre @ pad @ string_octets s @ rest) (length pre) \<longrightarrow>
        fst (cdr_get_string C c) = Some s \<and>
        cdr_is C (snd (cdr_get_string C c)) (pre @ pad @ string_octets s @ rest) (length (pre @ pad @ string_octets s)))"

section \<open>Putting serializations together\<close>

definition ser_skip :: "'c \<Rightarrow> bool \<times> 'c" where
  "ser_skip c = (True, c)"

type_synonym ('c, 'a) reader = "'c \<Rightarrow> 'a got \<times> 'c"

definition read_return :: "'a \<Rightarrow> ('c, 'a) reader" where
  "read_return a c = (Got a, c)"

definition read_then :: "('c, 'a) reader \<Rightarrow> ('a \<Rightarrow> ('c, 'b) reader) \<Rightarrow> ('c, 'b) reader" where
  "read_then f g c =
     (case f c of
        (Got a, c) \<Rightarrow> g a c
      | (NotEnoughMemory, c) \<Rightarrow> (NotEnoughMemory, c)
      | (BadParam, c) \<Rightarrow> (BadParam, c))"

definition read_option :: "('c \<Rightarrow> 'a option \<times> 'c) \<Rightarrow> ('c, 'a) reader" where
  "read_option f c = (case f c of (Some a, c) \<Rightarrow> (Got a, c) | (None, c) \<Rightarrow> (NotEnoughMemory, c))"

definition put_bool :: "('c, 'x) fastcdr_scheme \<Rightarrow> bool \<Rightarrow> 'c \<Rightarrow> bool \<times> 'c" where
  "put_bool C b = cdr_put_u8 C (if b then 1 else 0)"

text \<open>Arrays of two and four octets.\<close>

definition put_octet2 :: "('c, 'x) fastcdr_scheme \<Rightarrow> u8 \<times> u8 \<Rightarrow> 'c \<Rightarrow> bool \<times> 'c" where
  "put_octet2 C a = cdr_put_array C [fst a, snd a]"

definition get_octet2 :: "('c, 'x) fastcdr_scheme \<Rightarrow> ('c, u8 \<times> u8) reader" where
  "get_octet2 C = read_then (read_option (cdr_get_array C 2)) (\<lambda>bs. read_return (bs ! 0, bs ! 1))"

definition put_octet4 :: "('c, 'x) fastcdr_scheme \<Rightarrow> u8 \<times> u8 \<times> u8 \<times> u8 \<Rightarrow> 'c \<Rightarrow> bool \<times> 'c" where
  "put_octet4 C a = cdr_put_array C (key_bytes a)"

definition get_octet4 :: "('c, 'x) fastcdr_scheme \<Rightarrow> ('c, u8 \<times> u8 \<times> u8 \<times> u8) reader" where
  "get_octet4 C = read_then (read_option (cdr_get_array C 4)) (\<lambda>bs. read_return (bytes_key bs))"

text \<open>A flag, and the value when it is there.\<close>

definition put_optional :: "('c, 'x) fastcdr_scheme \<Rightarrow> ('a \<Rightarrow> 'c \<Rightarrow> bool \<times> 'c) \<Rightarrow> 'a option \<Rightarrow> 'c \<Rightarrow> bool \<times> 'c" where
  "put_optional C f x = ser_then (put_bool C (x \<noteq> None)) (case x of None \<Rightarrow> ser_skip | Some v \<Rightarrow> f v)"

definition get_optional :: "('c, 'x) xrce_cdr_scheme \<Rightarrow> ('c, 'a) reader \<Rightarrow> ('c, 'a option) reader" where
  "get_optional C g = read_then (cdr_get_bool C) (\<lambda>b. if b then read_then g (\<lambda>v. read_return (Some v)) else read_return None)"

text \<open>A vector: its length, and its elements.\<close>

fun put_elements :: "('a \<Rightarrow> 'c \<Rightarrow> bool \<times> 'c) \<Rightarrow> 'a list \<Rightarrow> 'c \<Rightarrow> bool \<times> 'c" where
  "put_elements f [] = ser_skip"
| "put_elements f (x # xs) = ser_then (f x) (put_elements f xs)"

definition put_sequence :: "('c, 'x) xrce_cdr_scheme \<Rightarrow> ('a \<Rightarrow> 'c \<Rightarrow> bool \<times> 'c) \<Rightarrow> 'a list \<Rightarrow> 'c \<Rightarrow> bool \<times> 'c" where
  "put_sequence C f xs = ser_then (cdr_put_u32_le C (of_nat (length xs))) (put_elements f xs)"

fun get_elements :: "('c, 'a) reader \<Rightarrow> nat \<Rightarrow> ('c, 'a list) reader" where
  "get_elements g 0 = read_return []"
| "get_elements g (Suc n) = read_then g (\<lambda>x. read_then (get_elements g n) (\<lambda>xs. read_return (x # xs)))"

definition get_sequence :: "('c, 'x) xrce_cdr_scheme \<Rightarrow> ('c, 'a) reader \<Rightarrow> ('c, 'a list) reader" where
  "get_sequence C g = read_then (read_option (cdr_get_u32_le C)) (\<lambda>n. get_elements g (unat n))"

definition put_octets :: "('c, 'x) xrce_cdr_scheme \<Rightarrow> u8 list \<Rightarrow> 'c \<Rightarrow> bool \<times> 'c" where
  "put_octets C bs = ser_then (cdr_put_u32_le C (of_nat (length bs))) (cdr_put_array C bs)"

definition get_octets :: "('c, 'x) xrce_cdr_scheme \<Rightarrow> ('c, u8 list) reader" where
  "get_octets C = read_then (read_option (cdr_get_u32_le C)) (\<lambda>n. read_option (cdr_get_array C (unat n)))"

section \<open>What the operations stand for\<close>

text \<open>Bytes that depend on where they start.\<close>

type_synonym wire = "nat \<Rightarrow> u8 list"

definition w_then :: "wire \<Rightarrow> wire \<Rightarrow> wire" where
  "w_then e1 e2 p = e1 p @ e2 (p + length (e1 p))"

definition w_nil :: wire where
  "w_nil p = []"

definition w_bytes :: "u8 list \<Rightarrow> wire" where
  "w_bytes bs p = bs"

definition w_padded :: "(nat \<Rightarrow> nat) \<Rightarrow> u8 list \<Rightarrow> wire" where
  "w_padded pad bs p = replicate (pad p) 0 @ bs"

definition pad2 :: "nat \<Rightarrow> nat" where
  "pad2 p = p mod 2"

abbreviation w_u16 :: "u16 \<Rightarrow> wire" where
  "w_u16 w \<equiv> w_padded pad2 (bytes_of_u16_le w)"

abbreviation w_u32 :: "u32 \<Rightarrow> wire" where
  "w_u32 w \<equiv> w_padded pad4 (bytes_of_u32_le w)"

abbreviation w_string :: "string \<Rightarrow> wire" where
  "w_string s \<equiv> w_padded pad4 (string_octets s)"

definition w_optional :: "('a \<Rightarrow> wire) \<Rightarrow> 'a option \<Rightarrow> wire" where
  "w_optional e x = w_then (w_bytes [if x \<noteq> None then 1 else 0]) (case x of None \<Rightarrow> w_nil | Some v \<Rightarrow> e v)"

fun w_elements :: "('a \<Rightarrow> wire) \<Rightarrow> 'a list \<Rightarrow> wire" where
  "w_elements e [] = w_nil"
| "w_elements e (x # xs) = w_then (e x) (w_elements e xs)"

definition w_sequence :: "('a \<Rightarrow> wire) \<Rightarrow> 'a list \<Rightarrow> wire" where
  "w_sequence e xs = w_then (w_u32 (of_nat (length xs))) (w_elements e xs)"

definition w_octets :: "u8 list \<Rightarrow> wire" where
  "w_octets bs = w_then (w_u32 (of_nat (length bs))) (w_bytes bs)"

text \<open>Into a buffer of zeros, as the constructor of \<open>OutputMessage\<close> leaves it; out of any buffer.\<close>

definition writes :: "('c, 'x) fastcdr_scheme \<Rightarrow> ('c \<Rightarrow> bool \<times> 'c) \<Rightarrow> wire \<Rightarrow> bool" where
  "writes C f e \<longleftrightarrow> (\<forall>c pre n. cdr_at C c pre (replicate n 0) \<longrightarrow> length (e (length pre)) \<le> n \<longrightarrow>
     (\<exists>c'. f c = (True, c') \<and> cdr_at C c' (pre @ e (length pre)) (replicate (n - length (e (length pre))) 0)))"

definition reads :: "('c, 'x) fastcdr_scheme \<Rightarrow> ('c, 'a) reader \<Rightarrow> 'a \<Rightarrow> wire \<Rightarrow> bool" where
  "reads C g v e \<longleftrightarrow> (\<forall>c pre rest. cdr_at C c pre (e (length pre) @ rest) \<longrightarrow>
     (\<exists>c'. g c = (Got v, c') \<and> cdr_at C c' (pre @ e (length pre)) rest))"

text \<open>A size computation of the generated classes: where the position stands after it.\<close>

definition sized :: "(nat \<Rightarrow> nat) \<Rightarrow> wire \<Rightarrow> bool" where
  "sized f e \<longleftrightarrow> (\<forall>p. f p = p + length (e p))"

named_theorems wire_intros \<open>rules for writing, reading and measuring payloads\<close>
named_theorems size_simps \<open>sizes of payloads and of their bytes\<close>

lemma writesD:
  assumes "writes C f e" and "cdr_at C c pre (replicate n 0)" and "length (e (length pre)) \<le> n"
  obtains c' where "f c = (True, c')" and "cdr_at C c' (pre @ e (length pre)) (replicate (n - length (e (length pre))) 0)"
  using assms unfolding writes_def by blast

lemma readsD:
  assumes "reads C g v e" and "cdr_at C c pre (e (length pre) @ rest)"
  obtains c' where "g c = (Got v, c')" and "cdr_at C c' (pre @ e (length pre)) rest"
  using assms unfolding reads_def by blast

lemma writes_skip [wire_intros]: "writes C ser_skip w_nil"
  by (simp add: writes_def ser_skip_def w_nil_def)

lemma writes_then [wire_intros]:
  assumes "writes C f e1" and "writes C g e2"
  shows "writes C (ser_then f g) (w_then e1 e2)"
  unfolding writes_def
proof (intro allI impI)
  fix c pre n
  assume c: "cdr_at C c pre (replicate n 0)" and n: "length (w_then e1 e2 (length pre)) \<le> n"
  from writesD [OF assms(1) c] n obtain c1 where c1: "f c = (True, c1)"
      "cdr_at C c1 (pre @ e1 (length pre)) (replicate (n - length (e1 (length pre))) 0)"
    by (auto simp: w_then_def)
  have "length (e2 (length (pre @ e1 (length pre)))) \<le> n - length (e1 (length pre))" using n by (simp add: w_then_def)
  from writesD [OF assms(2) c1(2) this] obtain c2 where "g c1 = (True, c2)"
      "cdr_at C c2 ((pre @ e1 (length pre)) @ e2 (length (pre @ e1 (length pre))))
         (replicate (n - length (e1 (length pre)) - length (e2 (length (pre @ e1 (length pre))))) 0)" .
  then show "\<exists>c'. ser_then f g c = (True, c') \<and> cdr_at C c' (pre @ w_then e1 e2 (length pre))
      (replicate (n - length (w_then e1 e2 (length pre))) 0)"
    using c1(1) by (simp add: ser_then_def w_then_def)
qed

lemma reads_return [wire_intros]: "reads C (read_return v) v w_nil"
  by (simp add: reads_def read_return_def w_nil_def)

lemma w_then_nil [simp]: "w_then e w_nil = e"
  by (simp add: w_then_def w_nil_def fun_eq_iff)

lemma w_then_assoc: "w_then (w_then e1 e2) e3 = w_then e1 (w_then e2 e3)"
  by (simp add: w_then_def fun_eq_iff add.assoc)

lemma reads_then [wire_intros]:
  assumes "reads C f v e1" and "reads C (g v) u e2"
  shows "reads C (read_then f g) u (w_then e1 e2)"
  unfolding reads_def
proof (intro allI impI)
  fix c pre rest
  assume "cdr_at C c pre (w_then e1 e2 (length pre) @ rest)"
  then have "cdr_at C c pre (e1 (length pre) @ e2 (length (pre @ e1 (length pre))) @ rest)" by (simp add: w_then_def)
  from readsD [OF assms(1) this] obtain c1 where c1: "f c = (Got v, c1)"
      "cdr_at C c1 (pre @ e1 (length pre)) (e2 (length (pre @ e1 (length pre))) @ rest)" .
  from readsD [OF assms(2) c1(2)] obtain c2 where "g v c1 = (Got u, c2)"
      "cdr_at C c2 ((pre @ e1 (length pre)) @ e2 (length (pre @ e1 (length pre)))) rest" .
  then show "\<exists>c'. read_then f g c = (Got u, c') \<and> cdr_at C c' (pre @ w_then e1 e2 (length pre)) rest"
    using c1(1) by (simp add: read_then_def w_then_def)
qed

lemma reads_map: "reads C f v e \<Longrightarrow> reads C (read_then f (\<lambda>x. read_return (h x))) (h v) e"
  using reads_then [OF _ reads_return, of C f v e h] by simp

lemma sized_id [wire_intros]: "sized (\<lambda>p. p) w_nil"
  by (simp add: sized_def w_nil_def)

lemma sized_then: "sized f e1 \<Longrightarrow> sized g e2 \<Longrightarrow> sized (\<lambda>p. g (f p)) (w_then e1 e2)"
  by (simp add: sized_def w_then_def)

text \<open>The primitive operations, from the documented behaviour.\<close>

lemma xrce_cdr_okD:
  assumes "xrce_cdr_ok C"
  shows "fastcdr_ok C" and "cdr_alignment C p 4 = pad4 p"
    and "put_ok C (cdr_put_u32_le C w c) c (pad4 (cdr_offset C c)) (bytes_of_u32_le w)"
    and "put_ok C (cdr_put_string C s c) c (pad4 (cdr_offset C c)) (string_octets s)"
    and "get_ok C (cdr_get_u32_le C c) c (pad4 (cdr_offset C c)) 4 u32_of_bytes_le"
  using assms unfolding xrce_cdr_ok_def by (elim conjE; blast)+

lemma fastcdr_okD:
  assumes "fastcdr_ok C"
  shows "put_ok C (cdr_put_u8 C b c) c 0 [b]"
    and "put_ok C (cdr_put_u16_le C w c) c (pad2 (cdr_offset C c)) (bytes_of_u16_le w)"
    and "put_ok C (cdr_put_array C bs c) c 0 bs"
    and "get_ok C (cdr_get_u8 C c) c 0 1 hd"
    and "get_ok C (cdr_get_u16_le C c) c (pad2 (cdr_offset C c)) 2 (\<lambda>bs. u16_of_bytes_le (bs ! 0) (bs ! 1))"
    and "get_ok C (cdr_get_array C n c) c 0 n id"
  using assms unfolding fastcdr_ok_def pad2_def by (elim conjE; blast)+

lemma put_ok_writes:
  assumes "\<And>c. put_ok C (f c) c (pad (cdr_offset C c)) bs"
  shows "writes C f (w_padded pad bs)"
  unfolding writes_def
proof (intro allI impI)
  fix c pre n
  assume c: "cdr_at C c pre (replicate n 0)" and n: "length (w_padded pad bs (length pre)) \<le> n"
  let ?p = "pad (length pre)"
  have "fst (f c) \<and> cdr_is C (snd (f c)) (write_at (length pre + ?p) bs (pre @ replicate n 0)) (length pre + ?p + length bs)"
    using assms [of c] n by (simp add: put_ok_def Let_def cdr_at_offset [OF c] cdr_at_buffer [OF c] w_padded_def)
  moreover have "write_at (length pre + ?p) bs (pre @ replicate n 0) = (pre @ replicate ?p 0 @ bs) @ replicate (n - (?p + length bs)) 0"
    using n by (simp add: write_at_def w_padded_def min_def)
  ultimately show "\<exists>c'. f c = (True, c') \<and> cdr_at C c' (pre @ w_padded pad bs (length pre))
      (replicate (n - length (w_padded pad bs (length pre))) 0)"
    by (cases "f c") (simp add: cdr_at_def w_padded_def add.assoc)
qed

lemma get_ok_reads:
  assumes "\<And>c. get_ok C (f c) c (pad (cdr_offset C c)) (length bs) dec"
  shows "reads C (read_option f) (dec bs) (w_padded pad bs)"
  unfolding reads_def
proof (intro allI impI)
  fix c pre rest
  assume c: "cdr_at C c pre (w_padded pad bs (length pre) @ rest)"
  let ?p = "pad (length pre)"
  have "read_at (length pre + ?p) (length bs) (pre @ replicate ?p 0 @ bs @ rest) = bs" by (simp add: read_at_def)
  then have "fst (f c) = Some (dec bs) \<and> cdr_is C (snd (f c)) (pre @ replicate ?p 0 @ bs @ rest) (length pre + ?p + length bs)"
    using assms [of c] by (simp add: get_ok_def Let_def cdr_at_offset [OF c] cdr_at_buffer [OF c] w_padded_def)
  then show "\<exists>c'. read_option f c = (Got (dec bs), c') \<and> cdr_at C c' (pre @ w_padded pad bs (length pre)) rest"
    by (cases "f c") (simp add: read_option_def cdr_at_def w_padded_def add.assoc)
qed

lemma w_padded_0 [simp]: "w_padded (\<lambda>_. 0) bs = w_bytes bs"
  by (simp add: w_padded_def w_bytes_def fun_eq_iff)

lemma length_u32_bytes [simp]: "length (bytes_of_u32_le w) = 4"
  by (simp add: bytes_of_u32_le_def)

lemma bytes_u32_roundtrip [simp]: "u32_of_bytes_le (bytes_of_u32_le w) = w"
proof (rule bit_word_eqI)
  fix n
  assume "n < LENGTH(32)"
  then consider "n < 8" | "8 \<le> n \<and> n < 16" | "16 \<le> n \<and> n < 24" | "24 \<le> n \<and> n < 32"
    by fastforce
  then show "bit (u32_of_bytes_le (bytes_of_u32_le w)) n = bit w n"
    by cases (auto simp: u32_of_bytes_le_def bytes_of_u32_le_def bit_simps)
qed

lemma writes_primitive [wire_intros]:
  assumes "xrce_cdr_ok C"
  shows "writes C (cdr_put_u8 C b) (w_bytes [b])"
    and "writes C (cdr_put_u16_le C w) (w_u16 w)"
    and "writes C (cdr_put_array C bs) (w_bytes bs)"
    and "writes C (cdr_put_u32_le C v) (w_u32 v)"
    and "writes C (cdr_put_string C s) (w_string s)"
  using put_ok_writes [of C "cdr_put_u8 C b" "\<lambda>_. 0"] put_ok_writes [of C "cdr_put_array C bs" "\<lambda>_. 0"]
    put_ok_writes [of C "cdr_put_u16_le C w" pad2] put_ok_writes [of C "cdr_put_u32_le C v" pad4]
    put_ok_writes [of C "cdr_put_string C s" pad4]
    fastcdr_okD(1-3) [OF xrce_cdr_okD(1) [OF assms]] xrce_cdr_okD(3,4) [OF assms]
  by simp_all

lemma reads_u8 [wire_intros]: "xrce_cdr_ok C \<Longrightarrow> reads C (read_option (cdr_get_u8 C)) b (w_bytes [b])"
  using get_ok_reads [of C "cdr_get_u8 C" "\<lambda>_. 0" "[b]" hd] fastcdr_okD(4) [OF xrce_cdr_okD(1), of C] by simp

lemma reads_u16 [wire_intros]: "xrce_cdr_ok C \<Longrightarrow> reads C (read_option (cdr_get_u16_le C)) w (w_u16 w)"
proof -
  assume ok: "xrce_cdr_ok C"
  have "u16_of_bytes_le (bytes_of_u16_le w ! 0) (bytes_of_u16_le w ! 1) = w" by (simp add: bytes_of_u16_le_def)
  then show ?thesis
    using get_ok_reads [of C "cdr_get_u16_le C" pad2 "bytes_of_u16_le w" "\<lambda>bs. u16_of_bytes_le (bs ! 0) (bs ! 1)"]
      fastcdr_okD(5) [OF xrce_cdr_okD(1) [OF ok]] by simp
qed

lemma reads_array [wire_intros]: "xrce_cdr_ok C \<Longrightarrow> n = length bs \<Longrightarrow> reads C (read_option (cdr_get_array C n)) bs (w_bytes bs)"
  using get_ok_reads [of C "cdr_get_array C n" "\<lambda>_. 0" bs id] fastcdr_okD(6) [OF xrce_cdr_okD(1), of C] by simp

lemma reads_u32 [wire_intros]: "xrce_cdr_ok C \<Longrightarrow> reads C (read_option (cdr_get_u32_le C)) w (w_u32 w)"
  using get_ok_reads [of C "cdr_get_u32_le C" pad4 "bytes_of_u32_le w" u32_of_bytes_le] xrce_cdr_okD(5) [of C] by simp

lemma reads_string [wire_intros]:
  assumes "xrce_cdr_ok C" and "string_ok s"
  shows "reads C (read_option (cdr_get_string C)) s (w_string s)"
  unfolding reads_def
proof (intro allI impI)
  fix c and pre rest :: "u8 list"
  let ?pad = "replicate (pad4 (length pre)) (0 :: u8)"
  assume "cdr_at C c pre (w_string s (length pre) @ rest)"
  then have "cdr_is C c (pre @ ?pad @ string_octets s @ rest) (length pre)" by (simp add: cdr_at_def w_padded_def)
  then have "fst (cdr_get_string C c) = Some s \<and>
      cdr_is C (snd (cdr_get_string C c)) (pre @ ?pad @ string_octets s @ rest) (length (pre @ ?pad @ string_octets s))"
    using assms unfolding xrce_cdr_ok_def by (elim conjE) (blast intro: length_replicate)
  then show "\<exists>c'. read_option (cdr_get_string C) c = (Got s, c') \<and> cdr_at C c' (pre @ w_string s (length pre)) rest"
    by (cases "cdr_get_string C c") (simp add: read_option_def cdr_at_def w_padded_def)
qed

lemma reads_bool [wire_intros]:
  assumes "xrce_cdr_ok C"
  shows "reads C (cdr_get_bool C) b (w_bytes [if b then 1 else 0])"
  unfolding reads_def
proof (intro allI impI)
  fix c pre rest
  assume "cdr_at C c pre (w_bytes [if b then 1 else 0] (length pre) @ rest)"
  then have "cdr_is C c (pre @ (if b then 1 else 0) # rest) (length pre)" by (simp add: cdr_at_def w_bytes_def)
  moreover have "\<forall>b c pre rest. cdr_is C c (pre @ b # rest) (length pre) \<longrightarrow>
        (if b = 0 \<or> b = 1 then fst (cdr_get_bool C c) = Got (b = 1) \<and> cdr_is C (snd (cdr_get_bool C c)) (pre @ b # rest) (length pre + 1)
         else fst (cdr_get_bool C c) = BadParam)"
    using assms unfolding xrce_cdr_ok_def by (elim conjE) assumption
  ultimately have "fst (cdr_get_bool C c) = Got b \<and>
      cdr_is C (snd (cdr_get_bool C c)) (pre @ (if b then 1 else 0) # rest) (length pre + 1)"
    by (cases b) fastforce+
  then show "\<exists>c'. cdr_get_bool C c = (Got b, c') \<and> cdr_at C c' (pre @ w_bytes [if b then 1 else 0] (length pre)) rest"
    by (cases "cdr_get_bool C c") (simp add: cdr_at_def w_bytes_def)
qed

text \<open>The composite ones.\<close>

lemma writes_composite [wire_intros]:
  assumes "xrce_cdr_ok C"
  shows "writes C (put_bool C b) (w_bytes [if b then 1 else 0])"
    and "writes C (put_octet2 C a) (w_bytes [fst a, snd a])"
    and "writes C (put_octet4 C k) (w_bytes (key_bytes k))"
    and "writes C (put_octets C bs) (w_octets bs)"
  using assms by (auto simp: put_bool_def put_octet2_def put_octet4_def put_octets_def w_octets_def intro!: wire_intros)

lemma reads_composite [wire_intros]:
  assumes "xrce_cdr_ok C"
  shows "reads C (get_octet2 C) a (w_bytes [fst a, snd a])"
    and "reads C (get_octet4 C) k (w_bytes (key_bytes k))"
    and "length bs < 2 ^ 32 \<Longrightarrow> reads C (get_octets C) bs (w_octets bs)"
proof -
  have "reads C (get_octet2 C) ([fst a, snd a] ! 0, [fst a, snd a] ! 1) (w_bytes [fst a, snd a])"
    unfolding get_octet2_def by (rule reads_map) (simp add: reads_array [OF assms])
  then show "reads C (get_octet2 C) a (w_bytes [fst a, snd a])" by simp
  have "reads C (get_octet4 C) (bytes_key (key_bytes k)) (w_bytes (key_bytes k))"
    unfolding get_octet4_def by (rule reads_map) (simp add: reads_array [OF assms])
  then show "reads C (get_octet4 C) k (w_bytes (key_bytes k))" by simp
  show "reads C (get_octets C) bs (w_octets bs)" if "length bs < 2 ^ 32"
    unfolding get_octets_def w_octets_def
    by (rule reads_then [OF reads_u32 [OF assms] reads_array [OF assms]])
      (use that in \<open>simp add: unat_of_nat take_bit_nat_eq_self\<close>)
qed

lemma writes_optional [wire_intros]:
  assumes "xrce_cdr_ok C" and "\<And>v. x = Some v \<Longrightarrow> writes C (f v) (e v)"
  shows "writes C (put_optional C f x) (w_optional e x)"
  unfolding put_optional_def w_optional_def
  by (rule writes_then [OF writes_composite(1) [OF assms(1)]]) (use assms(2) in \<open>cases x; simp add: writes_skip\<close>)

lemma reads_optional [wire_intros]:
  assumes "xrce_cdr_ok C" and "\<And>v. x = Some v \<Longrightarrow> reads C g v (e v)"
  shows "reads C (get_optional C g) x (w_optional e x)"
proof -
  have b: "reads C (cdr_get_bool C) (x \<noteq> None) (w_bytes [if x \<noteq> None then 1 else 0])" by (rule reads_bool [OF assms(1)])
  show ?thesis unfolding get_optional_def w_optional_def
    by (rule reads_then [OF b]) (use assms(2) in \<open>cases x; simp add: reads_return reads_map\<close>)
qed

lemma writes_elements: "(\<And>x. x \<in> set xs \<Longrightarrow> writes C (f x) (e x)) \<Longrightarrow> writes C (put_elements f xs) (w_elements e xs)"
  by (induction xs) (auto intro!: wire_intros)

lemma writes_sequence [wire_intros]:
  "xrce_cdr_ok C \<Longrightarrow> (\<And>x. x \<in> set xs \<Longrightarrow> writes C (f x) (e x)) \<Longrightarrow> writes C (put_sequence C f xs) (w_sequence e xs)"
  unfolding put_sequence_def w_sequence_def by (intro writes_then writes_elements wire_intros)

lemma reads_elements:
  "(\<And>x. x \<in> set xs \<Longrightarrow> reads C g x (e x)) \<Longrightarrow> reads C (get_elements g (length xs)) xs (w_elements e xs)"
proof (induction xs)
  case (Cons x xs)
  have "reads C (read_then (get_elements g (length xs)) (\<lambda>xs. read_return (x # xs))) (x # xs) (w_elements e xs)"
    by (rule reads_map) (simp add: Cons)
  then show ?case using Cons.prems [of x] by (simp add: reads_then)
qed (simp add: reads_return)

lemma reads_sequence [wire_intros]:
  assumes "xrce_cdr_ok C" and "length xs < 2 ^ 32" and "\<And>x. x \<in> set xs \<Longrightarrow> reads C g x (e x)"
  shows "reads C (get_sequence C g) xs (w_sequence e xs)"
proof -
  have "unat (of_nat (length xs) :: u32) = length xs" using assms(2) by (simp add: unat_of_nat take_bit_nat_eq_self)
  then show ?thesis
    unfolding get_sequence_def w_sequence_def using reads_elements [of xs C g e, OF assms(3)]
    by (intro reads_then [OF reads_u32 [OF assms(1)]]) simp
qed

text \<open>Sizes: a field of the generated size computations adds its width and its alignment.\<close>

definition sz :: "('c, 'x) fastcdr_scheme \<Rightarrow> nat \<Rightarrow> nat \<Rightarrow> nat \<Rightarrow> nat" where
  "sz C n al current_alignment = current_alignment + (n + cdr_alignment C current_alignment al)"

definition sz_string :: "('c, 'x) fastcdr_scheme \<Rightarrow> string \<Rightarrow> nat \<Rightarrow> nat" where
  "sz_string C s current_alignment = current_alignment + (4 + cdr_alignment C current_alignment 4 + length s + 1)"

definition sz_octets :: "('c, 'x) fastcdr_scheme \<Rightarrow> u8 list \<Rightarrow> nat \<Rightarrow> nat" where
  "sz_octets C bs current_alignment = sz C (length bs * 1) 1 (sz C 4 4 current_alignment)"

lemma length_string_octets: "length (string_octets s) = length s + 5"
  by (simp add: string_octets_def)

lemma sized_fields [wire_intros]:
  assumes "xrce_cdr_ok C"
  shows "n = length bs \<Longrightarrow> sized (sz C n 1) (w_bytes bs)"
    and "sized (sz C 2 2) (w_u16 w)"
    and "sized (sz C 4 4) (w_u32 v)"
    and "sized (sz_string C s) (w_string s)"
    and "sized (sz_octets C bs) (w_octets bs)"
  using fastcdr_alignment [OF xrce_cdr_okD(1) [OF assms]] xrce_cdr_okD(2) [OF assms]
  by (simp_all add: sized_def sz_def sz_string_def sz_octets_def w_bytes_def w_padded_def pad2_def length_string_octets
      w_octets_def w_then_def)

section \<open>An instance\<close>

text \<open>The byte array of the previous theory with the additional operations, so that the hypothesis holds of something.\<close>

definition byte_get_string :: "u8 list \<times> nat \<Rightarrow> string option \<times> (u8 list \<times> nat)" where
  "byte_get_string c =
     (case byte_get (pad4 (snd (byte_pos c))) 4 u32_of_bytes_le (byte_pos c) of
        (None, _) \<Rightarrow> (None, c)
      | (Some n, c') \<Rightarrow>
          (case byte_get 0 (unat n) (\<lambda>bs. map (\<lambda>b. char_of (unat b)) (butlast bs)) c' of
             (None, _) \<Rightarrow> (None, c)
           | (Some s, c'') \<Rightarrow> (Some s, c'')))"

definition byte_get_bool :: "u8 list \<times> nat \<Rightarrow> bool got \<times> (u8 list \<times> nat)" where
  "byte_get_bool c =
     (case byte_get 0 1 hd (byte_pos c) of
        (None, _) \<Rightarrow> (NotEnoughMemory, c)
      | (Some b, c') \<Rightarrow> if b = 0 \<or> b = 1 then (Got (b = 1), c') else (BadParam, c))"

definition byte_xcdr :: "(u8 list \<times> nat) xrce_cdr" where
  "byte_xcdr = fastcdr.extend byte_cdr (xrce_cdr.fields
     (\<lambda>w c. let r = byte_put (pad4 (snd (byte_pos c))) (bytes_of_u32_le w) (byte_pos c) in if fst r then r else (False, c))
     (\<lambda>s c. let r = byte_put (pad4 (snd (byte_pos c))) (string_octets s) (byte_pos c) in if fst r then r else (False, c))
     (\<lambda>c. let r = byte_get (pad4 (snd (byte_pos c))) 4 u32_of_bytes_le (byte_pos c) in if fst r \<noteq> None then r else (None, c))
     byte_get_bool byte_get_string)"

lemma byte_xcdr_sel:
  "cdr_open byte_xcdr = cdr_open byte_cdr" "cdr_buffer byte_xcdr = cdr_buffer byte_cdr"
  "cdr_offset byte_xcdr = cdr_offset byte_cdr" "cdr_alignment byte_xcdr = cdr_alignment byte_cdr"
  "cdr_jump byte_xcdr = cdr_jump byte_cdr" "cdr_put_u8 byte_xcdr = cdr_put_u8 byte_cdr"
  "cdr_put_u16_le byte_xcdr = cdr_put_u16_le byte_cdr" "cdr_put_array byte_xcdr = cdr_put_array byte_cdr"
  "cdr_get_u8 byte_xcdr = cdr_get_u8 byte_cdr" "cdr_get_u16_le byte_xcdr = cdr_get_u16_le byte_cdr"
  "cdr_get_array byte_xcdr = cdr_get_array byte_cdr"
  unfolding byte_xcdr_def fastcdr.defs xrce_cdr.defs fastcdr.select_convs by (rule refl)+

lemma byte_xcdr_sel_more:
  "cdr_put_u32_le byte_xcdr w c = (let r = byte_put (pad4 (snd (byte_pos c))) (bytes_of_u32_le w) (byte_pos c) in if fst r then r else (False, c))"
  "cdr_put_string byte_xcdr s c = (let r = byte_put (pad4 (snd (byte_pos c))) (string_octets s) (byte_pos c) in if fst r then r else (False, c))"
  "cdr_get_u32_le byte_xcdr c = (let r = byte_get (pad4 (snd (byte_pos c))) 4 u32_of_bytes_le (byte_pos c) in if fst r \<noteq> None then r else (None, c))"
  "cdr_get_bool byte_xcdr = byte_get_bool" "cdr_get_string byte_xcdr = byte_get_string"
  unfolding byte_xcdr_def fastcdr.defs xrce_cdr.defs xrce_cdr.select_convs by (rule refl)+

lemmas byte_xcdr_pos = byte_xcdr_sel(2) [unfolded byte_cdr_sel(1)] byte_xcdr_sel(3) [unfolded byte_cdr_sel(2)]

lemma byte_xcdr_is: "cdr_is byte_xcdr c buf p \<longleftrightarrow> fst c = buf \<and> snd (byte_pos c) = p"
  by (simp add: cdr_is_def byte_xcdr_pos)

lemma byte_xcdr_at: "cdr_is byte_xcdr c buf p \<Longrightarrow> byte_pos c = (buf, p)"
  by (auto simp: byte_xcdr_is byte_pos_def)

lemma byte_xcdr_stays: "p \<le> length buf \<Longrightarrow> cdr_is byte_xcdr (buf, p) buf p"
  by (simp add: byte_xcdr_is byte_pos_def)

lemma byte_get_cursor:
  assumes "length pad = k" and "length bs = n"
  shows "byte_get k n dec (pre @ pad @ bs @ rest, length pre) = (Some (dec bs), pre @ pad @ bs @ rest, length (pre @ pad @ bs))"
  using assms by (simp add: byte_get_def read_at_def)

lemma map_char_of_octets: "map (\<lambda>b. char_of (unat b)) (map of_char s :: u8 list) = s"
proof -
  have "char_of (unat (of_char c :: u8)) = c" for c
  proof -
    have u: "(of_char c :: u8) = of_nat (of_char c)" by (rule of_nat_of_char [symmetric])
    have "unat (of_char c :: u8) = of_char c" unfolding u by (simp add: unat_of_nat take_bit_nat_eq_self del: of_nat_of_char)
    then show ?thesis by simp
  qed
  then show ?thesis by (simp add: comp_def)
qed

lemma byte_get_string_law:
  assumes "string_ok s" and "length pad = pad4 (length pre)"
    and "cdr_is byte_xcdr c (pre @ pad @ string_octets s @ rest) (length pre)"
  shows "byte_get_string c = (Some s, pre @ pad @ string_octets s @ rest, length (pre @ pad @ string_octets s))"
proof -
  let ?n = "bytes_of_u32_le (of_nat (length s + 1))" and ?s = "map of_char s @ [0] :: u8 list"
  have c: "byte_pos c = (pre @ pad @ ?n @ ?s @ rest, length pre)"
    using byte_xcdr_at [OF assms(3)] by (simp add: string_octets_def)
  have n: "length ?n = 4" by (simp add: bytes_of_u32_le_def)
  have u: "unat (of_nat (length s + 1) :: u32) = length s + 1"
    using assms(1) by (simp add: string_ok_def unat_of_nat take_bit_nat_eq_self del: of_nat_add of_nat_Suc)
  have "byte_get 0 (length s + 1) dec (pre @ pad @ ?n @ ?s @ rest, length (pre @ pad @ ?n))
      = (Some (dec ?s), pre @ pad @ ?n @ ?s @ rest, length (pre @ pad @ ?n @ ?s))" for dec :: "u8 list \<Rightarrow> string"
    using byte_get_cursor [of "[]" 0 ?s "length s + 1" dec "pre @ pad @ ?n" rest] by simp
  then show ?thesis
    unfolding byte_get_string_def c snd_conv byte_get_cursor [OF assms(2) n] bytes_u32_roundtrip prod.case option.case u string_octets_def
    using map_char_of_octets [of s] by simp
qed

lemma byte_get_bool_law:
  assumes "cdr_is byte_xcdr c (pre @ b # rest) (length pre)"
  shows "byte_get_bool c = (if b = 0 \<or> b = 1 then (Got (b = 1), pre @ b # rest, length pre + 1) else (BadParam, c))"
  using byte_get_cursor [of "[]" 0 "[b]" 1 hd pre rest] byte_xcdr_at [OF assms] by (simp add: byte_get_bool_def)

lemma byte_xcdr_ok: "xrce_cdr_ok byte_xcdr"
  unfolding xrce_cdr_ok_def
proof (intro conjI allI impI)
  show "fastcdr_ok byte_xcdr"
    using byte_cdr_ok unfolding fastcdr_ok_def put_ok_def get_ok_def cdr_is_def byte_xcdr_sel .
  show "cdr_alignment byte_xcdr p 4 = pad4 p" for p by (simp add: byte_xcdr_sel byte_cdr_sel pad4_def)
  show "put_ok byte_xcdr (cdr_put_u32_le byte_xcdr w c) c (pad4 (cdr_offset byte_xcdr c)) (bytes_of_u32_le w)" for w c
    unfolding byte_xcdr_sel_more byte_xcdr_pos by (rule byte_put_ok [OF byte_xcdr_pos])
  show "put_ok byte_xcdr (cdr_put_string byte_xcdr s c) c (pad4 (cdr_offset byte_xcdr c)) (string_octets s)" for s c
    unfolding byte_xcdr_sel_more byte_xcdr_pos by (rule byte_put_ok [OF byte_xcdr_pos])
  show "get_ok byte_xcdr (cdr_get_u32_le byte_xcdr c) c (pad4 (cdr_offset byte_xcdr c)) 4 u32_of_bytes_le" for c
    unfolding byte_xcdr_sel_more byte_xcdr_pos by (rule byte_get_ok [OF byte_xcdr_pos])
next
  fix b c pre rest
  assume "cdr_is byte_xcdr c (pre @ b # rest) (length pre)"
  from byte_get_bool_law [OF this]
  show "if b = 0 \<or> b = 1
    then fst (cdr_get_bool byte_xcdr c) = Got (b = 1) \<and> cdr_is byte_xcdr (snd (cdr_get_bool byte_xcdr c)) (pre @ b # rest) (length pre + 1)
    else fst (cdr_get_bool byte_xcdr c) = BadParam"
    by (simp add: byte_xcdr_sel_more byte_xcdr_stays)
next
  fix s c pre pad rest
  assume "string_ok s" "length pad = pad4 (length pre)" "cdr_is byte_xcdr c (pre @ pad @ string_octets s @ rest) (length pre)"
  from byte_get_string_law [OF this]
  show "fst (cdr_get_string byte_xcdr c) = Some s"
    and "cdr_is byte_xcdr (snd (cdr_get_string byte_xcdr c)) (pre @ pad @ string_octets s @ rest) (length (pre @ pad @ string_octets s))"
    by (simp_all add: byte_xcdr_sel_more byte_xcdr_stays)
qed

end
