(* ===== verification/Payloads.thy ===== *)
theory Payloads
  imports Cdr Objects
begin

text \<open>
  The payloads of the submessages (\<open>include/uxr/agent/types/XRCETypes.hpp\<close>, \<open>src/cpp/types/XRCETypes.cpp\<close>) that
  the agent reads and writes. Each generated class has three operations here: \<open>serialize\<close>, \<open>deserialize\<close>
  and the computation of \<open>getCdrSerializedSize\<close>, as a function from the \<open>current_alignment\<close> it begins at to
  the one it ends at. The accessors, copies and assignments of the classes are those of records. \<open>wire\<close>
  is the specification: the bytes of a value, from the position where they begin.
\<close>

section \<open>Times and addresses\<close>

record Time_t =
  tm_seconds :: u32
  tm_nanoseconds :: u32

definition Time_t_serialize :: "('c, 'x) xrce_cdr_scheme \<Rightarrow> Time_t \<Rightarrow> 'c \<Rightarrow> bool \<times> 'c" where
  "Time_t_serialize C t = ser_then (cdr_put_u32_le C (tm_seconds t)) (cdr_put_u32_le C (tm_nanoseconds t))"

definition Time_t_deserialize :: "('c, 'x) xrce_cdr_scheme \<Rightarrow> ('c, Time_t) reader" where
  "Time_t_deserialize C =
     read_then (read_option (cdr_get_u32_le C)) (\<lambda>s.
     read_then (read_option (cdr_get_u32_le C)) (\<lambda>n. read_return \<lparr>tm_seconds = s, tm_nanoseconds = n\<rparr>))"

definition Time_t_size :: "('c, 'x) fastcdr_scheme \<Rightarrow> nat \<Rightarrow> nat" where
  "Time_t_size C p = sz C 4 4 (sz C 4 4 p)"

definition Time_t_wire :: "Time_t \<Rightarrow> wire" where
  "Time_t_wire t = w_then (w_u32 (tm_seconds t)) (w_u32 (tm_nanoseconds t))"

datatype TransportAddress =
    AddressSmall "u8 \<times> u8" u8
  | AddressMedium "u8 \<times> u8 \<times> u8 \<times> u8" u16
  | AddressLarge "u8 list" u32
  | AddressString string

fun ta_d :: "TransportAddress \<Rightarrow> u8" where
  "ta_d (AddressSmall _ _) = 0"
| "ta_d (AddressMedium _ _) = 1"
| "ta_d (AddressLarge _ _) = 2"
| "ta_d (AddressString _) = 3"

definition TransportAddress_serialize :: "('c, 'x) xrce_cdr_scheme \<Rightarrow> TransportAddress \<Rightarrow> 'c \<Rightarrow> bool \<times> 'c" where
  "TransportAddress_serialize C a =
     ser_then (cdr_put_u8 C (ta_d a))
       (case a of
          AddressSmall addr port \<Rightarrow> ser_then (put_octet2 C addr) (cdr_put_u8 C port)
        | AddressMedium addr port \<Rightarrow> ser_then (put_octet4 C addr) (cdr_put_u16_le C port)
        | AddressLarge addr port \<Rightarrow> ser_then (cdr_put_array C addr) (cdr_put_u32_le C port)
        | AddressString v \<Rightarrow> cdr_put_string C v)"

definition TransportAddress_size :: "('c, 'x) fastcdr_scheme \<Rightarrow> TransportAddress \<Rightarrow> nat \<Rightarrow> nat" where
  "TransportAddress_size C a p =
     (case a of
        AddressSmall addr port \<Rightarrow> sz C 1 1 (sz C (2 * 1) 1 (sz C 1 1 p))
      | AddressMedium addr port \<Rightarrow> sz C 2 2 (sz C (4 * 1) 1 (sz C 1 1 p))
      | AddressLarge addr port \<Rightarrow> sz C 4 4 (sz C (16 * 1) 1 (sz C 1 1 p))
      | AddressString v \<Rightarrow> sz_string C v (sz C 1 1 p))"

definition TransportAddress_wire :: "TransportAddress \<Rightarrow> wire" where
  "TransportAddress_wire a =
     w_then (w_bytes [ta_d a])
       (case a of
          AddressSmall addr port \<Rightarrow> w_then (w_bytes [fst addr, snd addr]) (w_bytes [port])
        | AddressMedium addr port \<Rightarrow> w_then (w_bytes (key_bytes addr)) (w_u16 port)
        | AddressLarge addr port \<Rightarrow> w_then (w_bytes addr) (w_u32 port)
        | AddressString v \<Rightarrow> w_string v)"

text \<open>A large address is an array of 16 octets.\<close>

fun address_ok :: "TransportAddress \<Rightarrow> bool" where
  "address_ok (AddressLarge addr _) \<longleftrightarrow> length addr = 16"
| "address_ok _ \<longleftrightarrow> True"

section \<open>Representations\<close>

definition Property_serialize :: "('c, 'x) xrce_cdr_scheme \<Rightarrow> string \<times> string \<Rightarrow> 'c \<Rightarrow> bool \<times> 'c" where
  "Property_serialize C p = ser_then (cdr_put_string C (fst p)) (cdr_put_string C (snd p))"

definition Property_deserialize :: "('c, 'x) xrce_cdr_scheme \<Rightarrow> ('c, string \<times> string) reader" where
  "Property_deserialize C =
     read_then (read_option (cdr_get_string C)) (\<lambda>n. read_then (read_option (cdr_get_string C)) (\<lambda>v. read_return (n, v)))"

definition Property_size :: "('c, 'x) fastcdr_scheme \<Rightarrow> string \<times> string \<Rightarrow> nat \<Rightarrow> nat" where
  "Property_size C x p = sz_string C (snd x) (sz_string C (fst x) p)"

definition Property_wire :: "string \<times> string \<Rightarrow> wire" where
  "Property_wire p = w_then (w_string (fst p)) (w_string (snd p))"

definition property_ok :: "string \<times> string \<Rightarrow> bool" where
  "property_ok p \<longleftrightarrow> string_ok (fst p) \<and> string_ok (snd p)"

definition CLIENT_Representation_serialize :: "('c, 'x) xrce_cdr_scheme \<Rightarrow> CLIENT_Representation \<Rightarrow> 'c \<Rightarrow> bool \<times> 'c" where
  "CLIENT_Representation_serialize C r =
     ser_then (put_octet4 C (cr_xrce_cookie r))
    (ser_then (put_octet2 C (cr_xrce_version r))
    (ser_then (put_octet2 C (cr_xrce_vendor_id r))
    (ser_then (put_octet4 C (cr_client_key r))
    (ser_then (cdr_put_u8 C (cr_session_id r))
    (ser_then (put_optional C (put_sequence C (Property_serialize C)) (cr_properties r))
       (cdr_put_u16_le C (cr_mtu r)))))))"

definition CLIENT_Representation_deserialize :: "('c, 'x) xrce_cdr_scheme \<Rightarrow> ('c, CLIENT_Representation) reader" where
  "CLIENT_Representation_deserialize C =
     read_then (get_octet4 C) (\<lambda>cookie.
     read_then (get_octet2 C) (\<lambda>version.
     read_then (get_octet2 C) (\<lambda>vendor.
     read_then (get_octet4 C) (\<lambda>key.
     read_then (read_option (cdr_get_u8 C)) (\<lambda>session.
     read_then (get_optional C (get_sequence C (Property_deserialize C))) (\<lambda>properties.
     read_then (read_option (cdr_get_u16_le C)) (\<lambda>mtu. read_return
       \<lparr>cr_xrce_cookie = cookie, cr_xrce_version = version, cr_xrce_vendor_id = vendor, cr_client_key = key,
        cr_session_id = session, cr_properties = properties, cr_mtu = mtu\<rparr>)))))))"

definition CLIENT_Representation_wire :: "CLIENT_Representation \<Rightarrow> wire" where
  "CLIENT_Representation_wire r =
     w_then (w_bytes (key_bytes (cr_xrce_cookie r)))
    (w_then (w_bytes [fst (cr_xrce_version r), snd (cr_xrce_version r)])
    (w_then (w_bytes [fst (cr_xrce_vendor_id r), snd (cr_xrce_vendor_id r)])
    (w_then (w_bytes (key_bytes (cr_client_key r)))
    (w_then (w_bytes [cr_session_id r])
    (w_then (w_optional (w_sequence Property_wire) (cr_properties r)) (w_u16 (cr_mtu r)))))))"

definition properties_ok :: "(string \<times> string) list option \<Rightarrow> bool" where
  "properties_ok x \<longleftrightarrow> (\<forall>ps. x = Some ps \<longrightarrow> length ps < 2 ^ 32 \<and> (\<forall>p \<in> set ps. property_ok p))"

text \<open>The size leaves out the length of the sequence of properties.\<close>

definition CLIENT_Representation_size :: "('c, 'x) fastcdr_scheme \<Rightarrow> CLIENT_Representation \<Rightarrow> nat \<Rightarrow> nat" where
  "CLIENT_Representation_size C r p =
     sz C (2 * 1) 1 (fold (Property_size C) (case cr_properties r of Some ps \<Rightarrow> ps | None \<Rightarrow> [])
       (sz C 1 1 (sz C 1 1 (sz C (4 * 1) 1 (sz C (2 * 1) 1 (sz C (2 * 1) 1 (sz C (4 * 1) 1 p)))))))"

definition AGENT_Representation_serialize :: "('c, 'x) xrce_cdr_scheme \<Rightarrow> AGENT_Representation \<Rightarrow> 'c \<Rightarrow> bool \<times> 'c" where
  "AGENT_Representation_serialize C r =
     ser_then (put_octet4 C (ar_xrce_cookie r))
    (ser_then (put_octet2 C (ar_xrce_version r))
    (ser_then (put_octet2 C (ar_xrce_vendor_id r))
       (put_optional C (put_sequence C (Property_serialize C)) (ar_properties r))))"

definition AGENT_Representation_deserialize :: "('c, 'x) xrce_cdr_scheme \<Rightarrow> ('c, AGENT_Representation) reader" where
  "AGENT_Representation_deserialize C =
     read_then (get_octet4 C) (\<lambda>cookie.
     read_then (get_octet2 C) (\<lambda>version.
     read_then (get_octet2 C) (\<lambda>vendor.
     read_then (get_optional C (get_sequence C (Property_deserialize C))) (\<lambda>properties. read_return
       \<lparr>ar_xrce_cookie = cookie, ar_xrce_version = version, ar_xrce_vendor_id = vendor, ar_properties = properties\<rparr>))))"

definition AGENT_Representation_size :: "('c, 'x) fastcdr_scheme \<Rightarrow> AGENT_Representation \<Rightarrow> nat \<Rightarrow> nat" where
  "AGENT_Representation_size C r p =
     fold (Property_size C) (case ar_properties r of Some ps \<Rightarrow> ps | None \<Rightarrow> [])
       (sz C 1 1 (sz C (2 * 1) 1 (sz C (2 * 1) 1 (sz C (4 * 1) 1 p))))"

definition AGENT_Representation_wire :: "AGENT_Representation \<Rightarrow> wire" where
  "AGENT_Representation_wire r =
     w_then (w_bytes (key_bytes (ar_xrce_cookie r)))
    (w_then (w_bytes [fst (ar_xrce_version r), snd (ar_xrce_version r)])
    (w_then (w_bytes [fst (ar_xrce_vendor_id r), snd (ar_xrce_vendor_id r)])
       (w_optional (w_sequence Property_wire) (ar_properties r))))"

definition REPRESENTATION_BY_REFERENCE :: u8 where "REPRESENTATION_BY_REFERENCE = 0x01"
definition REPRESENTATION_AS_XML_STRING :: u8 where "REPRESENTATION_AS_XML_STRING = 0x02"
definition REPRESENTATION_IN_BINARY :: u8 where "REPRESENTATION_IN_BINARY = 0x03"

lemmas format_defs = REPRESENTATION_BY_REFERENCE_def REPRESENTATION_AS_XML_STRING_def REPRESENTATION_IN_BINARY_def

fun Rep3_serialize :: "('c, 'x) xrce_cdr_scheme \<Rightarrow> OBJK_Representation3Formats \<Rightarrow> 'c \<Rightarrow> bool \<times> 'c" where
  "Rep3_serialize C (Rep3Reference s) = ser_then (cdr_put_u8 C REPRESENTATION_BY_REFERENCE) (cdr_put_string C s)"
| "Rep3_serialize C (Rep3Xml s) = ser_then (cdr_put_u8 C REPRESENTATION_AS_XML_STRING) (cdr_put_string C s)"
| "Rep3_serialize C (Rep3Binary bs) = ser_then (cdr_put_u8 C REPRESENTATION_IN_BINARY) (put_octets C bs)"
| "Rep3_serialize C (Rep3None d) = cdr_put_u8 C d"

definition Rep3_deserialize :: "('c, 'x) xrce_cdr_scheme \<Rightarrow> ('c, OBJK_Representation3Formats) reader" where
  "Rep3_deserialize C =
     read_then (read_option (cdr_get_u8 C)) (\<lambda>d.
       if d = REPRESENTATION_BY_REFERENCE then read_then (read_option (cdr_get_string C)) (\<lambda>s. read_return (Rep3Reference s))
       else if d = REPRESENTATION_AS_XML_STRING then read_then (read_option (cdr_get_string C)) (\<lambda>s. read_return (Rep3Xml s))
       else if d = REPRESENTATION_IN_BINARY then read_then (get_octets C) (\<lambda>bs. read_return (Rep3Binary bs))
       else read_return (Rep3None d))"

fun Rep3_size :: "('c, 'x) fastcdr_scheme \<Rightarrow> OBJK_Representation3Formats \<Rightarrow> nat \<Rightarrow> nat" where
  "Rep3_size C (Rep3Reference s) p = sz_string C s (sz C 1 1 p)"
| "Rep3_size C (Rep3Xml s) p = sz_string C s (sz C 1 1 p)"
| "Rep3_size C (Rep3Binary bs) p = sz_octets C bs (sz C 1 1 p)"
| "Rep3_size C (Rep3None d) p = sz C 1 1 p"

fun Rep3_wire :: "OBJK_Representation3Formats \<Rightarrow> wire" where
  "Rep3_wire (Rep3Reference s) = w_then (w_bytes [REPRESENTATION_BY_REFERENCE]) (w_string s)"
| "Rep3_wire (Rep3Xml s) = w_then (w_bytes [REPRESENTATION_AS_XML_STRING]) (w_string s)"
| "Rep3_wire (Rep3Binary bs) = w_then (w_bytes [REPRESENTATION_IN_BINARY]) (w_octets bs)"
| "Rep3_wire (Rep3None d) = w_bytes [d]"

fun rep3_ok :: "OBJK_Representation3Formats \<Rightarrow> bool" where
  "rep3_ok (Rep3Reference s) \<longleftrightarrow> string_ok s"
| "rep3_ok (Rep3Xml s) \<longleftrightarrow> string_ok s"
| "rep3_ok (Rep3Binary bs) \<longleftrightarrow> length bs < 2 ^ 32"
| "rep3_ok (Rep3None d) \<longleftrightarrow> d \<notin> {REPRESENTATION_BY_REFERENCE, REPRESENTATION_AS_XML_STRING, REPRESENTATION_IN_BINARY}"

fun RepRef_serialize :: "('c, 'x) xrce_cdr_scheme \<Rightarrow> OBJK_RepresentationRefAndXMLFormats \<Rightarrow> 'c \<Rightarrow> bool \<times> 'c" where
  "RepRef_serialize C (RefReference s) = ser_then (cdr_put_u8 C REPRESENTATION_BY_REFERENCE) (cdr_put_string C s)"
| "RepRef_serialize C (RefXml s) = ser_then (cdr_put_u8 C REPRESENTATION_AS_XML_STRING) (cdr_put_string C s)"
| "RepRef_serialize C (RefNone d) = cdr_put_u8 C d"

definition RepRef_deserialize :: "('c, 'x) xrce_cdr_scheme \<Rightarrow> ('c, OBJK_RepresentationRefAndXMLFormats) reader" where
  "RepRef_deserialize C =
     read_then (read_option (cdr_get_u8 C)) (\<lambda>d.
       if d = REPRESENTATION_BY_REFERENCE then read_then (read_option (cdr_get_string C)) (\<lambda>s. read_return (RefReference s))
       else if d = REPRESENTATION_AS_XML_STRING then read_then (read_option (cdr_get_string C)) (\<lambda>s. read_return (RefXml s))
       else read_return (RefNone d))"

fun RepRef_size :: "('c, 'x) fastcdr_scheme \<Rightarrow> OBJK_RepresentationRefAndXMLFormats \<Rightarrow> nat \<Rightarrow> nat" where
  "RepRef_size C (RefReference s) p = sz_string C s (sz C 1 1 p)"
| "RepRef_size C (RefXml s) p = sz_string C s (sz C 1 1 p)"
| "RepRef_size C (RefNone d) p = sz C 1 1 p"

fun RepRef_wire :: "OBJK_RepresentationRefAndXMLFormats \<Rightarrow> wire" where
  "RepRef_wire (RefReference s) = w_then (w_bytes [REPRESENTATION_BY_REFERENCE]) (w_string s)"
| "RepRef_wire (RefXml s) = w_then (w_bytes [REPRESENTATION_AS_XML_STRING]) (w_string s)"
| "RepRef_wire (RefNone d) = w_bytes [d]"

fun rep_ref_ok :: "OBJK_RepresentationRefAndXMLFormats \<Rightarrow> bool" where
  "rep_ref_ok (RefReference s) \<longleftrightarrow> string_ok s"
| "rep_ref_ok (RefXml s) \<longleftrightarrow> string_ok s"
| "rep_ref_ok (RefNone d) \<longleftrightarrow> d \<notin> {REPRESENTATION_BY_REFERENCE, REPRESENTATION_AS_XML_STRING}"

fun RepBin_serialize :: "('c, 'x) xrce_cdr_scheme \<Rightarrow> OBJK_RepresentationBinAndXMLFormats \<Rightarrow> 'c \<Rightarrow> bool \<times> 'c" where
  "RepBin_serialize C (RepBinary bs) = ser_then (cdr_put_u8 C REPRESENTATION_IN_BINARY) (put_octets C bs)"
| "RepBin_serialize C (RepXml s) = ser_then (cdr_put_u8 C REPRESENTATION_AS_XML_STRING) (cdr_put_string C s)"
| "RepBin_serialize C (RepNone d) = cdr_put_u8 C d"

definition RepBin_deserialize :: "('c, 'x) xrce_cdr_scheme \<Rightarrow> ('c, OBJK_RepresentationBinAndXMLFormats) reader" where
  "RepBin_deserialize C =
     read_then (read_option (cdr_get_u8 C)) (\<lambda>d.
       if d = REPRESENTATION_IN_BINARY then read_then (get_octets C) (\<lambda>bs. read_return (RepBinary bs))
       else if d = REPRESENTATION_AS_XML_STRING then read_then (read_option (cdr_get_string C)) (\<lambda>s. read_return (RepXml s))
       else read_return (RepNone d))"

fun RepBin_size :: "('c, 'x) fastcdr_scheme \<Rightarrow> OBJK_RepresentationBinAndXMLFormats \<Rightarrow> nat \<Rightarrow> nat" where
  "RepBin_size C (RepBinary bs) p = sz_octets C bs (sz C 1 1 p)"
| "RepBin_size C (RepXml s) p = sz_string C s (sz C 1 1 p)"
| "RepBin_size C (RepNone d) p = sz C 1 1 p"

fun RepBin_wire :: "OBJK_RepresentationBinAndXMLFormats \<Rightarrow> wire" where
  "RepBin_wire (RepBinary bs) = w_then (w_bytes [REPRESENTATION_IN_BINARY]) (w_octets bs)"
| "RepBin_wire (RepXml s) = w_then (w_bytes [REPRESENTATION_AS_XML_STRING]) (w_string s)"
| "RepBin_wire (RepNone d) = w_bytes [d]"

fun rep_bin_ok :: "OBJK_RepresentationBinAndXMLFormats \<Rightarrow> bool" where
  "rep_bin_ok (RepBinary bs) \<longleftrightarrow> length bs < 2 ^ 32"
| "rep_bin_ok (RepXml s) \<longleftrightarrow> string_ok s"
| "rep_bin_ok (RepNone d) \<longleftrightarrow> d \<notin> {REPRESENTATION_IN_BINARY, REPRESENTATION_AS_XML_STRING}"

definition Participant_serialize :: "('c, 'x) xrce_cdr_scheme \<Rightarrow> OBJK_PARTICIPANT_Representation \<Rightarrow> 'c \<Rightarrow> bool \<times> 'c" where
  "Participant_serialize C r = ser_then (Rep3_serialize C (pr_representation r)) (cdr_put_u16_le C (pr_domain_id r))"

definition Participant_deserialize :: "('c, 'x) xrce_cdr_scheme \<Rightarrow> ('c, OBJK_PARTICIPANT_Representation) reader" where
  "Participant_deserialize C =
     read_then (Rep3_deserialize C) (\<lambda>rep. read_then (read_option (cdr_get_u16_le C)) (\<lambda>d.
       read_return \<lparr>pr_representation = rep, pr_domain_id = d\<rparr>))"

definition Participant_size :: "('c, 'x) fastcdr_scheme \<Rightarrow> OBJK_PARTICIPANT_Representation \<Rightarrow> nat \<Rightarrow> nat" where
  "Participant_size C r p = sz C 2 2 (Rep3_size C (pr_representation r) p)"

definition Participant_wire :: "OBJK_PARTICIPANT_Representation \<Rightarrow> wire" where
  "Participant_wire r = w_then (Rep3_wire (pr_representation r)) (w_u16 (pr_domain_id r))"

text \<open>Topics, data writers and readers, requesters and repliers: the same three fields, the same code.\<close>

definition Child3_serialize :: "('c, 'x) xrce_cdr_scheme \<Rightarrow> OBJK_Representation3_Child \<Rightarrow> 'c \<Rightarrow> bool \<times> 'c" where
  "Child3_serialize C r = ser_then (Rep3_serialize C (r3_representation r)) (put_octet2 C (r3_parent_id r))"

definition Child3_deserialize :: "('c, 'x) xrce_cdr_scheme \<Rightarrow> ('c, OBJK_Representation3_Child) reader" where
  "Child3_deserialize C =
     read_then (Rep3_deserialize C) (\<lambda>rep. read_then (get_octet2 C) (\<lambda>i.
       read_return \<lparr>r3_representation = rep, r3_parent_id = i\<rparr>))"

definition Child3_size :: "('c, 'x) fastcdr_scheme \<Rightarrow> OBJK_Representation3_Child \<Rightarrow> nat \<Rightarrow> nat" where
  "Child3_size C r p = sz C (2 * 1) 1 (Rep3_size C (r3_representation r) p)"

definition Child3_wire :: "OBJK_Representation3_Child \<Rightarrow> wire" where
  "Child3_wire r = w_then (Rep3_wire (r3_representation r)) (w_bytes [fst (r3_parent_id r), snd (r3_parent_id r)])"

text \<open>Publishers and subscribers.\<close>

definition ChildBin_serialize :: "('c, 'x) xrce_cdr_scheme \<Rightarrow> OBJK_RepresentationBinAndXML_Child \<Rightarrow> 'c \<Rightarrow> bool \<times> 'c" where
  "ChildBin_serialize C r = ser_then (RepBin_serialize C (rb_representation r)) (put_octet2 C (rb_participant_id r))"

definition ChildBin_deserialize :: "('c, 'x) xrce_cdr_scheme \<Rightarrow> ('c, OBJK_RepresentationBinAndXML_Child) reader" where
  "ChildBin_deserialize C =
     read_then (RepBin_deserialize C) (\<lambda>rep. read_then (get_octet2 C) (\<lambda>i.
       read_return \<lparr>rb_representation = rep, rb_participant_id = i\<rparr>))"

definition ChildBin_size :: "('c, 'x) fastcdr_scheme \<Rightarrow> OBJK_RepresentationBinAndXML_Child \<Rightarrow> nat \<Rightarrow> nat" where
  "ChildBin_size C r p = sz C (2 * 1) 1 (RepBin_size C (rb_representation r) p)"

definition ChildBin_wire :: "OBJK_RepresentationBinAndXML_Child \<Rightarrow> wire" where
  "ChildBin_wire r = w_then (RepBin_wire (rb_representation r)) (w_bytes [fst (rb_participant_id r), snd (rb_participant_id r)])"

definition ObjectVariant_serialize :: "('c, 'x) xrce_cdr_scheme \<Rightarrow> ObjectVariant \<Rightarrow> 'c \<Rightarrow> bool \<times> 'c" where
  "ObjectVariant_serialize C v =
     ser_then (cdr_put_u8 C (ov_d v))
       (case v of
          VariantAGENT r \<Rightarrow> AGENT_Representation_serialize C r
        | VariantCLIENT r \<Rightarrow> CLIENT_Representation_serialize C r
        | VariantAPPLICATION r \<Rightarrow> RepRef_serialize C r
        | VariantQOSPROFILE r \<Rightarrow> RepRef_serialize C r
        | VariantTYPE r \<Rightarrow> RepRef_serialize C r
        | VariantPARTICIPANT r \<Rightarrow> Participant_serialize C r
        | VariantTOPIC r \<Rightarrow> Child3_serialize C r
        | VariantPUBLISHER r \<Rightarrow> ChildBin_serialize C r
        | VariantSUBSCRIBER r \<Rightarrow> ChildBin_serialize C r
        | VariantDATAWRITER r \<Rightarrow> Child3_serialize C r
        | VariantDATAREADER r \<Rightarrow> Child3_serialize C r
        | VariantREQUESTER r \<Rightarrow> Child3_serialize C r
        | VariantREPLIER r \<Rightarrow> Child3_serialize C r
        | VariantOther _ \<Rightarrow> ser_skip)"

definition read_variant :: "('c, 'a) reader \<Rightarrow> ('a \<Rightarrow> 'b) \<Rightarrow> ('c, 'b) reader" where
  "read_variant g f = read_then g (\<lambda>r. read_return (f r))"

definition ObjectVariant_deserialize :: "('c, 'x) xrce_cdr_scheme \<Rightarrow> ('c, ObjectVariant) reader" where
  "ObjectVariant_deserialize C =
     read_then (read_option (cdr_get_u8 C)) (\<lambda>d.
       if d = OBJK_AGENT then read_variant (AGENT_Representation_deserialize C) VariantAGENT
       else if d = OBJK_CLIENT then read_variant (CLIENT_Representation_deserialize C) VariantCLIENT
       else if d = OBJK_APPLICATION then read_variant (RepRef_deserialize C) VariantAPPLICATION
       else if d = OBJK_PARTICIPANT then read_variant (Participant_deserialize C) VariantPARTICIPANT
       else if d = OBJK_QOSPROFILE then read_variant (RepRef_deserialize C) VariantQOSPROFILE
       else if d = OBJK_TYPE then read_variant (RepRef_deserialize C) VariantTYPE
       else if d = OBJK_TOPIC then read_variant (Child3_deserialize C) VariantTOPIC
       else if d = OBJK_PUBLISHER then read_variant (ChildBin_deserialize C) VariantPUBLISHER
       else if d = OBJK_SUBSCRIBER then read_variant (ChildBin_deserialize C) VariantSUBSCRIBER
       else if d = OBJK_DATAWRITER then read_variant (Child3_deserialize C) VariantDATAWRITER
       else if d = OBJK_DATAREADER then read_variant (Child3_deserialize C) VariantDATAREADER
       else if d = OBJK_REQUESTER then read_variant (Child3_deserialize C) VariantREQUESTER
       else if d = OBJK_REPLIER then read_variant (Child3_deserialize C) VariantREPLIER
       else read_return (VariantOther d))"

definition ObjectVariant_size :: "('c, 'x) fastcdr_scheme \<Rightarrow> ObjectVariant \<Rightarrow> nat \<Rightarrow> nat" where
  "ObjectVariant_size C v p =
     (let p = sz C 1 1 p in
      case v of
        VariantAGENT r \<Rightarrow> AGENT_Representation_size C r p
      | VariantCLIENT r \<Rightarrow> CLIENT_Representation_size C r p
      | VariantAPPLICATION r \<Rightarrow> RepRef_size C r p
      | VariantQOSPROFILE r \<Rightarrow> RepRef_size C r p
      | VariantTYPE r \<Rightarrow> RepRef_size C r p
      | VariantPARTICIPANT r \<Rightarrow> Participant_size C r p
      | VariantTOPIC r \<Rightarrow> Child3_size C r p
      | VariantPUBLISHER r \<Rightarrow> ChildBin_size C r p
      | VariantSUBSCRIBER r \<Rightarrow> ChildBin_size C r p
      | VariantDATAWRITER r \<Rightarrow> Child3_size C r p
      | VariantDATAREADER r \<Rightarrow> Child3_size C r p
      | VariantREQUESTER r \<Rightarrow> Child3_size C r p
      | VariantREPLIER r \<Rightarrow> Child3_size C r p
      | VariantOther _ \<Rightarrow> p)"

fun variant_wire :: "ObjectVariant \<Rightarrow> wire" where
  "variant_wire (VariantAGENT r) = AGENT_Representation_wire r"
| "variant_wire (VariantCLIENT r) = CLIENT_Representation_wire r"
| "variant_wire (VariantAPPLICATION r) = RepRef_wire r"
| "variant_wire (VariantQOSPROFILE r) = RepRef_wire r"
| "variant_wire (VariantTYPE r) = RepRef_wire r"
| "variant_wire (VariantPARTICIPANT r) = Participant_wire r"
| "variant_wire (VariantTOPIC r) = Child3_wire r"
| "variant_wire (VariantPUBLISHER r) = ChildBin_wire r"
| "variant_wire (VariantSUBSCRIBER r) = ChildBin_wire r"
| "variant_wire (VariantDATAWRITER r) = Child3_wire r"
| "variant_wire (VariantDATAREADER r) = Child3_wire r"
| "variant_wire (VariantREQUESTER r) = Child3_wire r"
| "variant_wire (VariantREPLIER r) = Child3_wire r"
| "variant_wire (VariantOther _) = w_nil"

definition ObjectVariant_wire :: "ObjectVariant \<Rightarrow> wire" where
  "ObjectVariant_wire v = w_then (w_bytes [ov_d v]) (variant_wire v)"

fun variant_ok :: "ObjectVariant \<Rightarrow> bool" where
  "variant_ok (VariantAGENT r) \<longleftrightarrow> properties_ok (ar_properties r)"
| "variant_ok (VariantCLIENT r) \<longleftrightarrow> properties_ok (cr_properties r)"
| "variant_ok (VariantAPPLICATION r) \<longleftrightarrow> rep_ref_ok r"
| "variant_ok (VariantQOSPROFILE r) \<longleftrightarrow> rep_ref_ok r"
| "variant_ok (VariantTYPE r) \<longleftrightarrow> rep_ref_ok r"
| "variant_ok (VariantPARTICIPANT r) \<longleftrightarrow> rep3_ok (pr_representation r)"
| "variant_ok (VariantTOPIC r) \<longleftrightarrow> rep3_ok (r3_representation r)"
| "variant_ok (VariantPUBLISHER r) \<longleftrightarrow> rep_bin_ok (rb_representation r)"
| "variant_ok (VariantSUBSCRIBER r) \<longleftrightarrow> rep_bin_ok (rb_representation r)"
| "variant_ok (VariantDATAWRITER r) \<longleftrightarrow> rep3_ok (r3_representation r)"
| "variant_ok (VariantDATAREADER r) \<longleftrightarrow> rep3_ok (r3_representation r)"
| "variant_ok (VariantREQUESTER r) \<longleftrightarrow> rep3_ok (r3_representation r)"
| "variant_ok (VariantREPLIER r) \<longleftrightarrow> rep3_ok (r3_representation r)"
| "variant_ok (VariantOther k) \<longleftrightarrow> k \<notin> {OBJK_AGENT, OBJK_CLIENT, OBJK_APPLICATION, OBJK_PARTICIPANT, OBJK_QOSPROFILE,
     OBJK_TYPE, OBJK_TOPIC, OBJK_PUBLISHER, OBJK_SUBSCRIBER, OBJK_DATAWRITER, OBJK_DATAREADER, OBJK_REQUESTER, OBJK_REPLIER}"

section \<open>Requests and replies\<close>

record ResultStatus =
  res_status :: StatusValue
  res_implementation_status :: u8

definition ResultStatus_serialize :: "('c, 'x) xrce_cdr_scheme \<Rightarrow> ResultStatus \<Rightarrow> 'c \<Rightarrow> bool \<times> 'c" where
  "ResultStatus_serialize C r = ser_then (cdr_put_u8 C (status_code (res_status r))) (cdr_put_u8 C (res_implementation_status r))"

definition ResultStatus_size :: "('c, 'x) fastcdr_scheme \<Rightarrow> nat \<Rightarrow> nat" where
  "ResultStatus_size C p = sz C 1 1 (sz C 1 1 p)"

definition ResultStatus_wire :: "ResultStatus \<Rightarrow> wire" where
  "ResultStatus_wire r = w_then (w_bytes [status_code (res_status r)]) (w_bytes [res_implementation_status r])"

record BaseObjectRequest =
  bor_request_id :: RequestId
  bor_object_id :: ObjectId

definition BaseObjectRequest_serialize :: "('c, 'x) xrce_cdr_scheme \<Rightarrow> BaseObjectRequest \<Rightarrow> 'c \<Rightarrow> bool \<times> 'c" where
  "BaseObjectRequest_serialize C r = ser_then (put_octet2 C (bor_request_id r)) (put_octet2 C (bor_object_id r))"

definition BaseObjectRequest_deserialize :: "('c, 'x) xrce_cdr_scheme \<Rightarrow> ('c, BaseObjectRequest) reader" where
  "BaseObjectRequest_deserialize C =
     read_then (get_octet2 C) (\<lambda>r. read_then (get_octet2 C) (\<lambda>i. read_return \<lparr>bor_request_id = r, bor_object_id = i\<rparr>))"

definition BaseObjectRequest_size :: "('c, 'x) fastcdr_scheme \<Rightarrow> nat \<Rightarrow> nat" where
  "BaseObjectRequest_size C p = sz C (2 * 1) 1 (sz C (2 * 1) 1 p)"

definition BaseObjectRequest_wire :: "BaseObjectRequest \<Rightarrow> wire" where
  "BaseObjectRequest_wire r = w_then (w_bytes [fst (bor_request_id r), snd (bor_request_id r)])
     (w_bytes [fst (bor_object_id r), snd (bor_object_id r)])"

record BaseObjectReply =
  rep_related_request :: BaseObjectRequest
  rep_result :: ResultStatus

definition BaseObjectReply_serialize :: "('c, 'x) xrce_cdr_scheme \<Rightarrow> BaseObjectReply \<Rightarrow> 'c \<Rightarrow> bool \<times> 'c" where
  "BaseObjectReply_serialize C r =
     ser_then (BaseObjectRequest_serialize C (rep_related_request r)) (ResultStatus_serialize C (rep_result r))"

definition BaseObjectReply_size :: "('c, 'x) fastcdr_scheme \<Rightarrow> nat \<Rightarrow> nat" where
  "BaseObjectReply_size C p = ResultStatus_size C (BaseObjectRequest_size C p)"

definition BaseObjectReply_wire :: "BaseObjectReply \<Rightarrow> wire" where
  "BaseObjectReply_wire r = w_then (BaseObjectRequest_wire (rep_related_request r)) (ResultStatus_wire (rep_result r))"

text \<open>The information of an object: the agent fills in the activity of an agent only.\<close>

record AGENT_ActivityInfo =
  ai_availability :: u16
  ai_address_seq :: "TransportAddress list"

definition AGENT_ActivityInfo_serialize :: "('c, 'x) xrce_cdr_scheme \<Rightarrow> AGENT_ActivityInfo \<Rightarrow> 'c \<Rightarrow> bool \<times> 'c" where
  "AGENT_ActivityInfo_serialize C i =
     ser_then (cdr_put_u16_le C (ai_availability i)) (put_sequence C (TransportAddress_serialize C) (ai_address_seq i))"

definition AGENT_ActivityInfo_size :: "('c, 'x) fastcdr_scheme \<Rightarrow> AGENT_ActivityInfo \<Rightarrow> nat \<Rightarrow> nat" where
  "AGENT_ActivityInfo_size C i p = fold (TransportAddress_size C) (ai_address_seq i) (sz C 4 4 (sz C 2 2 p))"

definition AGENT_ActivityInfo_wire :: "AGENT_ActivityInfo \<Rightarrow> wire" where
  "AGENT_ActivityInfo_wire i = w_then (w_u16 (ai_availability i)) (w_sequence TransportAddress_wire (ai_address_seq i))"

datatype ActivityInfoVariant = ActivityAGENT AGENT_ActivityInfo

definition ActivityInfoVariant_serialize :: "('c, 'x) xrce_cdr_scheme \<Rightarrow> ActivityInfoVariant \<Rightarrow> 'c \<Rightarrow> bool \<times> 'c" where
  "ActivityInfoVariant_serialize C v =
     (case v of ActivityAGENT i \<Rightarrow> ser_then (cdr_put_u8 C OBJK_AGENT) (AGENT_ActivityInfo_serialize C i))"

definition ActivityInfoVariant_size :: "('c, 'x) fastcdr_scheme \<Rightarrow> ActivityInfoVariant \<Rightarrow> nat \<Rightarrow> nat" where
  "ActivityInfoVariant_size C v p = (case v of ActivityAGENT i \<Rightarrow> AGENT_ActivityInfo_size C i (sz C 1 1 p))"

definition ActivityInfoVariant_wire :: "ActivityInfoVariant \<Rightarrow> wire" where
  "ActivityInfoVariant_wire v = (case v of ActivityAGENT i \<Rightarrow> w_then (w_bytes [OBJK_AGENT]) (AGENT_ActivityInfo_wire i))"

record ObjectInfo =
  oi_config :: "ObjectVariant option"
  oi_activity :: "ActivityInfoVariant option"

definition ObjectInfo_serialize :: "('c, 'x) xrce_cdr_scheme \<Rightarrow> ObjectInfo \<Rightarrow> 'c \<Rightarrow> bool \<times> 'c" where
  "ObjectInfo_serialize C i =
     ser_then (put_optional C (ObjectVariant_serialize C) (oi_config i))
       (put_optional C (ActivityInfoVariant_serialize C) (oi_activity i))"

definition ObjectInfo_size :: "('c, 'x) fastcdr_scheme \<Rightarrow> ObjectInfo \<Rightarrow> nat \<Rightarrow> nat" where
  "ObjectInfo_size C i p =
     (let p = sz C 1 1 p;
          p = (case oi_config i of None \<Rightarrow> p | Some v \<Rightarrow> ObjectVariant_size C v p);
          p = sz C 1 1 p
      in case oi_activity i of None \<Rightarrow> p | Some v \<Rightarrow> ActivityInfoVariant_size C v p)"

definition ObjectInfo_wire :: "ObjectInfo \<Rightarrow> wire" where
  "ObjectInfo_wire i = w_then (w_optional ObjectVariant_wire (oi_config i)) (w_optional ActivityInfoVariant_wire (oi_activity i))"

text \<open>What a reader asks for.\<close>

definition DataDeliveryControl_serialize :: "('c, 'x) xrce_cdr_scheme \<Rightarrow> DataDeliveryControl \<Rightarrow> 'c \<Rightarrow> bool \<times> 'c" where
  "DataDeliveryControl_serialize C d =
     ser_then (cdr_put_u16_le C (dc_max_samples d))
    (ser_then (cdr_put_u16_le C (dc_max_elapsed_time d))
    (ser_then (cdr_put_u16_le C (dc_max_bytes_per_second d)) (cdr_put_u16_le C (dc_min_pace_period d))))"

definition DataDeliveryControl_deserialize :: "('c, 'x) xrce_cdr_scheme \<Rightarrow> ('c, DataDeliveryControl) reader" where
  "DataDeliveryControl_deserialize C =
     read_then (read_option (cdr_get_u16_le C)) (\<lambda>a.
     read_then (read_option (cdr_get_u16_le C)) (\<lambda>b.
     read_then (read_option (cdr_get_u16_le C)) (\<lambda>c.
     read_then (read_option (cdr_get_u16_le C)) (\<lambda>d. read_return
       \<lparr>dc_max_samples = a, dc_max_elapsed_time = b, dc_max_bytes_per_second = c, dc_min_pace_period = d\<rparr>))))"

definition DataDeliveryControl_wire :: "DataDeliveryControl \<Rightarrow> wire" where
  "DataDeliveryControl_wire d = w_then (w_u16 (dc_max_samples d)) (w_then (w_u16 (dc_max_elapsed_time d))
     (w_then (w_u16 (dc_max_bytes_per_second d)) (w_u16 (dc_min_pace_period d))))"

definition ReadSpecification_serialize :: "('c, 'x) xrce_cdr_scheme \<Rightarrow> ReadSpecification \<Rightarrow> 'c \<Rightarrow> bool \<times> 'c" where
  "ReadSpecification_serialize C r =
     ser_then (cdr_put_u8 C (rs_preferred_stream_id r))
    (ser_then (cdr_put_u8 C (rs_data_format r))
    (ser_then (put_optional C (cdr_put_string C) (rs_content_filter_expression r))
       (put_optional C (DataDeliveryControl_serialize C) (rs_delivery_control r))))"

definition ReadSpecification_deserialize :: "('c, 'x) xrce_cdr_scheme \<Rightarrow> ('c, ReadSpecification) reader" where
  "ReadSpecification_deserialize C =
     read_then (read_option (cdr_get_u8 C)) (\<lambda>stream.
     read_then (read_option (cdr_get_u8 C)) (\<lambda>format.
     read_then (get_optional C (read_option (cdr_get_string C))) (\<lambda>filter.
     read_then (get_optional C (DataDeliveryControl_deserialize C)) (\<lambda>control. read_return
       \<lparr>rs_preferred_stream_id = stream, rs_data_format = format, rs_content_filter_expression = filter,
        rs_delivery_control = control\<rparr>))))"

definition ReadSpecification_wire :: "ReadSpecification \<Rightarrow> wire" where
  "ReadSpecification_wire r =
     w_then (w_bytes [rs_preferred_stream_id r])
    (w_then (w_bytes [rs_data_format r])
    (w_then (w_optional (\<lambda>s. w_string s) (rs_content_filter_expression r))
       (w_optional DataDeliveryControl_wire (rs_delivery_control r))))"

section \<open>Payloads\<close>

text \<open>From the client.\<close>

record CREATE_Payload =
  cp_request :: BaseObjectRequest
  cp_object_representation :: ObjectVariant

definition CREATE_Payload_serialize :: "('c, 'x) xrce_cdr_scheme \<Rightarrow> CREATE_Payload \<Rightarrow> 'c \<Rightarrow> bool \<times> 'c" where
  "CREATE_Payload_serialize C r =
     ser_then (BaseObjectRequest_serialize C (cp_request r)) (ObjectVariant_serialize C (cp_object_representation r))"

definition CREATE_Payload_deserialize :: "('c, 'x) xrce_cdr_scheme \<Rightarrow> ('c, CREATE_Payload) reader" where
  "CREATE_Payload_deserialize C =
     read_then (BaseObjectRequest_deserialize C) (\<lambda>r. read_then (ObjectVariant_deserialize C) (\<lambda>v.
       read_return \<lparr>cp_request = r, cp_object_representation = v\<rparr>))"

definition CREATE_Payload_wire :: "CREATE_Payload \<Rightarrow> wire" where
  "CREATE_Payload_wire r = w_then (BaseObjectRequest_wire (cp_request r)) (ObjectVariant_wire (cp_object_representation r))"

text \<open>
  \<open>process_get_info_packet\<close> does not look whether it could read the payload: the fields that were
  read have their values, the others are zero.
\<close>

record GET_INFO_Payload =
  gi_request :: BaseObjectRequest
  gi_info_mask :: u32

definition GET_INFO_Payload_read :: "('c, 'x) xrce_cdr_scheme \<Rightarrow> 'c \<Rightarrow> GET_INFO_Payload \<times> 'c" where
  "GET_INFO_Payload_read C c =
     (let info = (\<lambda>r i m. \<lparr>gi_request = \<lparr>bor_request_id = r, bor_object_id = i\<rparr>, gi_info_mask = m\<rparr>) in
      case get_octet2 C c of
        (Got r, c) \<Rightarrow>
          (case get_octet2 C c of
             (Got i, c) \<Rightarrow> (case cdr_get_u32_le C c of (Some m, c) \<Rightarrow> (info r i m, c) | (None, c) \<Rightarrow> (info r i 0, c))
           | (_, c) \<Rightarrow> (info r (0, 0) 0, c))
      | (_, c) \<Rightarrow> (info (0, 0) (0, 0) 0, c))"

record READ_DATA_Payload =
  rd_request :: BaseObjectRequest
  rd_read_specification :: ReadSpecification

definition READ_DATA_Payload_serialize :: "('c, 'x) xrce_cdr_scheme \<Rightarrow> READ_DATA_Payload \<Rightarrow> 'c \<Rightarrow> bool \<times> 'c" where
  "READ_DATA_Payload_serialize C r =
     ser_then (BaseObjectRequest_serialize C (rd_request r)) (ReadSpecification_serialize C (rd_read_specification r))"

definition READ_DATA_Payload_deserialize :: "('c, 'x) xrce_cdr_scheme \<Rightarrow> ('c, READ_DATA_Payload) reader" where
  "READ_DATA_Payload_deserialize C =
     read_then (BaseObjectRequest_deserialize C) (\<lambda>r. read_then (ReadSpecification_deserialize C) (\<lambda>v.
       read_return \<lparr>rd_request = r, rd_read_specification = v\<rparr>))"

definition READ_DATA_Payload_wire :: "READ_DATA_Payload \<Rightarrow> wire" where
  "READ_DATA_Payload_wire r = w_then (BaseObjectRequest_wire (rd_request r)) (ReadSpecification_wire (rd_read_specification r))"

text \<open>\<open>WRITE_DATA\<close> and \<open>DATA\<close>: a request and raw octets. The reader is told how many octets there are.\<close>

record DATA_Payload_Data =
  dp_request :: BaseObjectRequest
  dp_data :: "u8 list"

definition DATA_Payload_serialize :: "('c, 'x) xrce_cdr_scheme \<Rightarrow> DATA_Payload_Data \<Rightarrow> 'c \<Rightarrow> bool \<times> 'c" where
  "DATA_Payload_serialize C r = ser_then (BaseObjectRequest_serialize C (dp_request r)) (cdr_put_array C (dp_data r))"

definition DATA_Payload_deserialize :: "('c, 'x) xrce_cdr_scheme \<Rightarrow> nat \<Rightarrow> ('c, DATA_Payload_Data) reader" where
  "DATA_Payload_deserialize C n =
     read_then (BaseObjectRequest_deserialize C) (\<lambda>r. read_then (read_option (cdr_get_array C n)) (\<lambda>bs.
       read_return \<lparr>dp_request = r, dp_data = bs\<rparr>))"

definition DATA_Payload_size :: "('c, 'x) fastcdr_scheme \<Rightarrow> DATA_Payload_Data \<Rightarrow> nat \<Rightarrow> nat" where
  "DATA_Payload_size C r p = sz C (length (dp_data r) * 1) 1 (BaseObjectRequest_size C p)"

definition DATA_Payload_wire :: "DATA_Payload_Data \<Rightarrow> wire" where
  "DATA_Payload_wire r = w_then (BaseObjectRequest_wire (dp_request r)) (w_bytes (dp_data r))"

text \<open>In both directions.\<close>

definition ACKNACK_Payload_serialize :: "('c, 'x) xrce_cdr_scheme \<Rightarrow> ACKNACK_Payload \<Rightarrow> 'c \<Rightarrow> bool \<times> 'c" where
  "ACKNACK_Payload_serialize C a =
     ser_then (cdr_put_u16_le C (ack_first_unacked_seq_num a))
    (ser_then (put_octet2 C (ack_nack_bitmap_0 a, ack_nack_bitmap_1 a)) (cdr_put_u8 C (ack_stream_id a)))"

definition ACKNACK_Payload_deserialize :: "('c, 'x) xrce_cdr_scheme \<Rightarrow> ('c, ACKNACK_Payload) reader" where
  "ACKNACK_Payload_deserialize C =
     read_then (read_option (cdr_get_u16_le C)) (\<lambda>f.
     read_then (get_octet2 C) (\<lambda>b.
     read_then (read_option (cdr_get_u8 C)) (\<lambda>s. read_return
       \<lparr>ack_first_unacked_seq_num = f, ack_nack_bitmap_0 = fst b, ack_nack_bitmap_1 = snd b, ack_stream_id = s\<rparr>)))"

definition ACKNACK_Payload_size :: "('c, 'x) fastcdr_scheme \<Rightarrow> nat \<Rightarrow> nat" where
  "ACKNACK_Payload_size C p = sz C 1 1 (sz C (2 * 1) 1 (sz C 2 2 p))"

definition ACKNACK_Payload_wire :: "ACKNACK_Payload \<Rightarrow> wire" where
  "ACKNACK_Payload_wire a = w_then (w_u16 (ack_first_unacked_seq_num a))
     (w_then (w_bytes [ack_nack_bitmap_0 a, ack_nack_bitmap_1 a]) (w_bytes [ack_stream_id a]))"

definition HEARTBEAT_Payload_serialize :: "('c, 'x) xrce_cdr_scheme \<Rightarrow> HEARTBEAT_Payload \<Rightarrow> 'c \<Rightarrow> bool \<times> 'c" where
  "HEARTBEAT_Payload_serialize C h =
     ser_then (cdr_put_u16_le C (hb_first_unacked_seq_nr h))
    (ser_then (cdr_put_u16_le C (hb_last_unacked_seq_nr h)) (cdr_put_u8 C (hb_stream_id h)))"

definition HEARTBEAT_Payload_deserialize :: "('c, 'x) xrce_cdr_scheme \<Rightarrow> ('c, HEARTBEAT_Payload) reader" where
  "HEARTBEAT_Payload_deserialize C =
     read_then (read_option (cdr_get_u16_le C)) (\<lambda>f.
     read_then (read_option (cdr_get_u16_le C)) (\<lambda>l.
     read_then (read_option (cdr_get_u8 C)) (\<lambda>s. read_return
       \<lparr>hb_first_unacked_seq_nr = f, hb_last_unacked_seq_nr = l, hb_stream_id = s\<rparr>)))"

definition HEARTBEAT_Payload_size :: "('c, 'x) fastcdr_scheme \<Rightarrow> nat \<Rightarrow> nat" where
  "HEARTBEAT_Payload_size C p = sz C 1 1 (sz C 2 2 (sz C 2 2 p))"

definition HEARTBEAT_Payload_wire :: "HEARTBEAT_Payload \<Rightarrow> wire" where
  "HEARTBEAT_Payload_wire h = w_then (w_u16 (hb_first_unacked_seq_nr h))
     (w_then (w_u16 (hb_last_unacked_seq_nr h)) (w_bytes [hb_stream_id h]))"

text \<open>From the agent.\<close>

record STATUS_AGENT_Payload =
  sa_result :: ResultStatus
  sa_agent_info :: AGENT_Representation

definition STATUS_AGENT_Payload_serialize :: "('c, 'x) xrce_cdr_scheme \<Rightarrow> STATUS_AGENT_Payload \<Rightarrow> 'c \<Rightarrow> bool \<times> 'c" where
  "STATUS_AGENT_Payload_serialize C s =
     ser_then (ResultStatus_serialize C (sa_result s)) (AGENT_Representation_serialize C (sa_agent_info s))"

definition STATUS_AGENT_Payload_size :: "('c, 'x) fastcdr_scheme \<Rightarrow> STATUS_AGENT_Payload \<Rightarrow> nat \<Rightarrow> nat" where
  "STATUS_AGENT_Payload_size C s p = AGENT_Representation_size C (sa_agent_info s) (ResultStatus_size C p)"

definition STATUS_AGENT_Payload_wire :: "STATUS_AGENT_Payload \<Rightarrow> wire" where
  "STATUS_AGENT_Payload_wire s = w_then (ResultStatus_wire (sa_result s)) (AGENT_Representation_wire (sa_agent_info s))"

record INFO_Payload =
  ip_reply :: BaseObjectReply
  ip_object_info :: ObjectInfo

definition INFO_Payload_serialize :: "('c, 'x) xrce_cdr_scheme \<Rightarrow> INFO_Payload \<Rightarrow> 'c \<Rightarrow> bool \<times> 'c" where
  "INFO_Payload_serialize C i = ser_then (BaseObjectReply_serialize C (ip_reply i)) (ObjectInfo_serialize C (ip_object_info i))"

definition INFO_Payload_size :: "('c, 'x) fastcdr_scheme \<Rightarrow> INFO_Payload \<Rightarrow> nat \<Rightarrow> nat" where
  "INFO_Payload_size C i p = ObjectInfo_size C (ip_object_info i) (BaseObjectReply_size C p)"

definition INFO_Payload_wire :: "INFO_Payload \<Rightarrow> wire" where
  "INFO_Payload_wire i = w_then (BaseObjectReply_wire (ip_reply i)) (ObjectInfo_wire (ip_object_info i))"

record TIMESTAMP_REPLY_Payload =
  tr_transmit_timestamp :: Time_t
  tr_receive_timestamp :: Time_t
  tr_originate_timestamp :: Time_t

definition TIMESTAMP_REPLY_Payload_serialize :: "('c, 'x) xrce_cdr_scheme \<Rightarrow> TIMESTAMP_REPLY_Payload \<Rightarrow> 'c \<Rightarrow> bool \<times> 'c" where
  "TIMESTAMP_REPLY_Payload_serialize C t =
     ser_then (Time_t_serialize C (tr_transmit_timestamp t))
    (ser_then (Time_t_serialize C (tr_receive_timestamp t)) (Time_t_serialize C (tr_originate_timestamp t)))"

definition TIMESTAMP_REPLY_Payload_size :: "('c, 'x) fastcdr_scheme \<Rightarrow> nat \<Rightarrow> nat" where
  "TIMESTAMP_REPLY_Payload_size C p = Time_t_size C (Time_t_size C (Time_t_size C p))"

definition TIMESTAMP_REPLY_Payload_wire :: "TIMESTAMP_REPLY_Payload \<Rightarrow> wire" where
  "TIMESTAMP_REPLY_Payload_wire t = w_then (Time_t_wire (tr_transmit_timestamp t))
     (w_then (Time_t_wire (tr_receive_timestamp t)) (Time_t_wire (tr_originate_timestamp t)))"

text \<open>What \<open>append_submessage\<close> is given.\<close>

definition payload_of :: "(nat \<Rightarrow> nat) \<Rightarrow> ('c \<Rightarrow> bool \<times> 'c) \<Rightarrow> 'c payload" where
  "payload_of end_of put = \<lparr>pl_size = end_of 0 - 0, pl_serialize = put\<rparr>"

definition STATUS_payload :: "('c, 'x) xrce_cdr_scheme \<Rightarrow> BaseObjectReply \<Rightarrow> 'c payload" where
  "STATUS_payload C r = payload_of (BaseObjectReply_size C) (BaseObjectReply_serialize C r)"

definition STATUS_AGENT_payload :: "('c, 'x) xrce_cdr_scheme \<Rightarrow> STATUS_AGENT_Payload \<Rightarrow> 'c payload" where
  "STATUS_AGENT_payload C s = payload_of (STATUS_AGENT_Payload_size C s) (STATUS_AGENT_Payload_serialize C s)"

definition INFO_payload :: "('c, 'x) xrce_cdr_scheme \<Rightarrow> INFO_Payload \<Rightarrow> 'c payload" where
  "INFO_payload C i = payload_of (INFO_Payload_size C i) (INFO_Payload_serialize C i)"

definition DATA_payload :: "('c, 'x) xrce_cdr_scheme \<Rightarrow> DATA_Payload_Data \<Rightarrow> 'c payload" where
  "DATA_payload C d = payload_of (DATA_Payload_size C d) (DATA_Payload_serialize C d)"

definition ACKNACK_payload :: "('c, 'x) xrce_cdr_scheme \<Rightarrow> ACKNACK_Payload \<Rightarrow> 'c payload" where
  "ACKNACK_payload C a = payload_of (ACKNACK_Payload_size C) (ACKNACK_Payload_serialize C a)"

definition HEARTBEAT_payload :: "('c, 'x) xrce_cdr_scheme \<Rightarrow> HEARTBEAT_Payload \<Rightarrow> 'c payload" where
  "HEARTBEAT_payload C h = payload_of (HEARTBEAT_Payload_size C) (HEARTBEAT_Payload_serialize C h)"

definition TIMESTAMP_REPLY_payload :: "('c, 'x) xrce_cdr_scheme \<Rightarrow> TIMESTAMP_REPLY_Payload \<Rightarrow> 'c payload" where
  "TIMESTAMP_REPLY_payload C t = payload_of (TIMESTAMP_REPLY_Payload_size C) (TIMESTAMP_REPLY_Payload_serialize C t)"

lemmas payload_defs = STATUS_payload_def STATUS_AGENT_payload_def INFO_payload_def DATA_payload_def ACKNACK_payload_def
  HEARTBEAT_payload_def TIMESTAMP_REPLY_payload_def payload_of_def

section \<open>The operations and their wire\<close>

lemma sized_thenI: "sized f e1 \<Longrightarrow> sized g e2 \<Longrightarrow> (\<And>p. h p = g (f p)) \<Longrightarrow> sized h (w_then e1 e2)"
  using sized_then [of f e1 g e2] by (simp add: sized_def)

text \<open>Writing.\<close>

lemma writes_Time_t [wire_intros]: "xrce_cdr_ok C \<Longrightarrow> writes C (Time_t_serialize C t) (Time_t_wire t)"
  unfolding Time_t_serialize_def Time_t_wire_def by (intro wire_intros)

lemma writes_octet2: "xrce_cdr_ok C \<Longrightarrow> writes C (put_octet2 C (a, b)) (w_bytes [a, b])"
  using writes_composite(2) [of C "(a, b)"] by simp

lemma writes_TransportAddress [wire_intros]: "xrce_cdr_ok C \<Longrightarrow> writes C (TransportAddress_serialize C a) (TransportAddress_wire a)"
  unfolding TransportAddress_serialize_def TransportAddress_wire_def
  by (cases a) (auto intro!: wire_intros writes_octet2)

lemma writes_Property [wire_intros]: "xrce_cdr_ok C \<Longrightarrow> writes C (Property_serialize C p) (Property_wire p)"
  unfolding Property_serialize_def Property_wire_def by (intro wire_intros)

lemma writes_Rep3 [wire_intros]: "xrce_cdr_ok C \<Longrightarrow> writes C (Rep3_serialize C r) (Rep3_wire r)"
  by (cases r) (simp_all, (intro wire_intros; assumption)+)

lemma writes_RepRef [wire_intros]: "xrce_cdr_ok C \<Longrightarrow> writes C (RepRef_serialize C r) (RepRef_wire r)"
  by (cases r) (simp_all, (intro wire_intros; assumption)+)

lemma writes_RepBin [wire_intros]: "xrce_cdr_ok C \<Longrightarrow> writes C (RepBin_serialize C r) (RepBin_wire r)"
  by (cases r) (simp_all, (intro wire_intros; assumption)+)

lemma writes_CLIENT_Representation [wire_intros]: "xrce_cdr_ok C \<Longrightarrow> writes C (CLIENT_Representation_serialize C r) (CLIENT_Representation_wire r)"
  unfolding CLIENT_Representation_serialize_def CLIENT_Representation_wire_def by (intro wire_intros)

lemma writes_AGENT_Representation [wire_intros]: "xrce_cdr_ok C \<Longrightarrow> writes C (AGENT_Representation_serialize C r) (AGENT_Representation_wire r)"
  unfolding AGENT_Representation_serialize_def AGENT_Representation_wire_def by (intro wire_intros)

lemma writes_Participant [wire_intros]: "xrce_cdr_ok C \<Longrightarrow> writes C (Participant_serialize C r) (Participant_wire r)"
  unfolding Participant_serialize_def Participant_wire_def by (intro wire_intros)

lemma writes_Child3 [wire_intros]: "xrce_cdr_ok C \<Longrightarrow> writes C (Child3_serialize C r) (Child3_wire r)"
  unfolding Child3_serialize_def Child3_wire_def by (intro wire_intros)

lemma writes_ChildBin [wire_intros]: "xrce_cdr_ok C \<Longrightarrow> writes C (ChildBin_serialize C r) (ChildBin_wire r)"
  unfolding ChildBin_serialize_def ChildBin_wire_def by (intro wire_intros)

lemma writes_ObjectVariant [wire_intros]: "xrce_cdr_ok C \<Longrightarrow> writes C (ObjectVariant_serialize C v) (ObjectVariant_wire v)"
  unfolding ObjectVariant_serialize_def ObjectVariant_wire_def
  by (cases v) (simp_all del: w_then_nil, (intro wire_intros; assumption)+)

lemma writes_ResultStatus [wire_intros]: "xrce_cdr_ok C \<Longrightarrow> writes C (ResultStatus_serialize C r) (ResultStatus_wire r)"
  unfolding ResultStatus_serialize_def ResultStatus_wire_def by (intro wire_intros)

lemma writes_BaseObjectRequest [wire_intros]: "xrce_cdr_ok C \<Longrightarrow> writes C (BaseObjectRequest_serialize C r) (BaseObjectRequest_wire r)"
  unfolding BaseObjectRequest_serialize_def BaseObjectRequest_wire_def by (intro wire_intros)

lemma writes_BaseObjectReply [wire_intros]: "xrce_cdr_ok C \<Longrightarrow> writes C (BaseObjectReply_serialize C r) (BaseObjectReply_wire r)"
  unfolding BaseObjectReply_serialize_def BaseObjectReply_wire_def by (intro wire_intros)

lemma writes_AGENT_ActivityInfo [wire_intros]: "xrce_cdr_ok C \<Longrightarrow> writes C (AGENT_ActivityInfo_serialize C r) (AGENT_ActivityInfo_wire r)"
  unfolding AGENT_ActivityInfo_serialize_def AGENT_ActivityInfo_wire_def by (intro wire_intros)

lemma writes_ActivityInfoVariant [wire_intros]: "xrce_cdr_ok C \<Longrightarrow> writes C (ActivityInfoVariant_serialize C v) (ActivityInfoVariant_wire v)"
  unfolding ActivityInfoVariant_serialize_def ActivityInfoVariant_wire_def by (cases v) (simp, intro wire_intros)

lemma writes_ObjectInfo [wire_intros]: "xrce_cdr_ok C \<Longrightarrow> writes C (ObjectInfo_serialize C r) (ObjectInfo_wire r)"
  unfolding ObjectInfo_serialize_def ObjectInfo_wire_def by (intro wire_intros)

lemma writes_DataDeliveryControl [wire_intros]: "xrce_cdr_ok C \<Longrightarrow> writes C (DataDeliveryControl_serialize C r) (DataDeliveryControl_wire r)"
  unfolding DataDeliveryControl_serialize_def DataDeliveryControl_wire_def by (intro wire_intros)

lemma writes_ReadSpecification [wire_intros]: "xrce_cdr_ok C \<Longrightarrow> writes C (ReadSpecification_serialize C r) (ReadSpecification_wire r)"
  unfolding ReadSpecification_serialize_def ReadSpecification_wire_def by (intro wire_intros)

lemma writes_CREATE_Payload [wire_intros]: "xrce_cdr_ok C \<Longrightarrow> writes C (CREATE_Payload_serialize C r) (CREATE_Payload_wire r)"
  unfolding CREATE_Payload_serialize_def CREATE_Payload_wire_def by (intro wire_intros)

lemma writes_READ_DATA_Payload [wire_intros]: "xrce_cdr_ok C \<Longrightarrow> writes C (READ_DATA_Payload_serialize C r) (READ_DATA_Payload_wire r)"
  unfolding READ_DATA_Payload_serialize_def READ_DATA_Payload_wire_def by (intro wire_intros)

lemma writes_DATA_Payload [wire_intros]: "xrce_cdr_ok C \<Longrightarrow> writes C (DATA_Payload_serialize C r) (DATA_Payload_wire r)"
  unfolding DATA_Payload_serialize_def DATA_Payload_wire_def by (intro wire_intros)

lemma writes_HEARTBEAT_Payload [wire_intros]: "xrce_cdr_ok C \<Longrightarrow> writes C (HEARTBEAT_Payload_serialize C r) (HEARTBEAT_Payload_wire r)"
  unfolding HEARTBEAT_Payload_serialize_def HEARTBEAT_Payload_wire_def by (intro wire_intros)

lemma writes_STATUS_AGENT_Payload [wire_intros]: "xrce_cdr_ok C \<Longrightarrow> writes C (STATUS_AGENT_Payload_serialize C r) (STATUS_AGENT_Payload_wire r)"
  unfolding STATUS_AGENT_Payload_serialize_def STATUS_AGENT_Payload_wire_def by (intro wire_intros)

lemma writes_INFO_Payload [wire_intros]: "xrce_cdr_ok C \<Longrightarrow> writes C (INFO_Payload_serialize C r) (INFO_Payload_wire r)"
  unfolding INFO_Payload_serialize_def INFO_Payload_wire_def by (intro wire_intros)

lemma writes_TIMESTAMP_REPLY_Payload [wire_intros]: "xrce_cdr_ok C \<Longrightarrow> writes C (TIMESTAMP_REPLY_Payload_serialize C r) (TIMESTAMP_REPLY_Payload_wire r)"
  unfolding TIMESTAMP_REPLY_Payload_serialize_def TIMESTAMP_REPLY_Payload_wire_def by (intro wire_intros)

lemma writes_ACKNACK_Payload [wire_intros]: "xrce_cdr_ok C \<Longrightarrow> writes C (ACKNACK_Payload_serialize C r) (ACKNACK_Payload_wire r)"
  unfolding ACKNACK_Payload_serialize_def ACKNACK_Payload_wire_def by (intro wire_intros writes_octet2)

text \<open>Reading.\<close>

lemma reads_last: "reads C f v e \<Longrightarrow> h v = u \<Longrightarrow> reads C (read_then f (\<lambda>x. read_return (h x))) u e"
  by (drule reads_map [of _ _ _ _ h]) simp

lemma reads_d:
  assumes "xrce_cdr_ok C"
  shows "reads C (g d) u e \<Longrightarrow> reads C (read_then (read_option (cdr_get_u8 C)) g) u (w_then (w_bytes [d]) e)"
    and "reads C (g d) u w_nil \<Longrightarrow> reads C (read_then (read_option (cdr_get_u8 C)) g) u (w_bytes [d])"
proof -
  show r: "reads C (g d) u e \<Longrightarrow> reads C (read_then (read_option (cdr_get_u8 C)) g) u (w_then (w_bytes [d]) e)" for e
    by (rule reads_then [OF reads_u8 [OF assms]])
  show "reads C (g d) u w_nil \<Longrightarrow> reads C (read_then (read_option (cdr_get_u8 C)) g) u (w_bytes [d])"
    using r [of w_nil] by simp
qed

lemma reads_Time_t [wire_intros]: "xrce_cdr_ok C \<Longrightarrow> reads C (Time_t_deserialize C) t (Time_t_wire t)"
  unfolding Time_t_deserialize_def Time_t_wire_def
  by (rule reads_then reads_last wire_intros | assumption | simp )+

lemma reads_Property [wire_intros]: "xrce_cdr_ok C \<Longrightarrow> property_ok p \<Longrightarrow> reads C (Property_deserialize C) p (Property_wire p)"
  unfolding Property_deserialize_def Property_wire_def
  by (rule reads_then reads_last wire_intros | assumption | simp add: property_ok_def)+

lemma reads_Rep3 [wire_intros]: "xrce_cdr_ok C \<Longrightarrow> rep3_ok r \<Longrightarrow> reads C (Rep3_deserialize C) r (Rep3_wire r)"
  by (cases r) (auto simp: Rep3_deserialize_def format_defs intro!: reads_d reads_last reads_string reads_composite(3) [simplified] reads_return)

lemma reads_RepRef [wire_intros]: "xrce_cdr_ok C \<Longrightarrow> rep_ref_ok r \<Longrightarrow> reads C (RepRef_deserialize C) r (RepRef_wire r)"
  by (cases r) (auto simp: RepRef_deserialize_def format_defs intro!: reads_d reads_last reads_string reads_composite(3) [simplified] reads_return)

lemma reads_RepBin [wire_intros]: "xrce_cdr_ok C \<Longrightarrow> rep_bin_ok r \<Longrightarrow> reads C (RepBin_deserialize C) r (RepBin_wire r)"
  by (cases r) (auto simp: RepBin_deserialize_def format_defs intro!: reads_d reads_last reads_string reads_composite(3) [simplified] reads_return)

lemma reads_CLIENT_Representation [wire_intros]: "xrce_cdr_ok C \<Longrightarrow> properties_ok (cr_properties r) \<Longrightarrow> reads C (CLIENT_Representation_deserialize C) r (CLIENT_Representation_wire r)"
  unfolding CLIENT_Representation_deserialize_def CLIENT_Representation_wire_def
  by (rule reads_then reads_last wire_intros | assumption | simp add: properties_ok_def)+

lemma reads_AGENT_Representation [wire_intros]: "xrce_cdr_ok C \<Longrightarrow> properties_ok (ar_properties r) \<Longrightarrow> reads C (AGENT_Representation_deserialize C) r (AGENT_Representation_wire r)"
  unfolding AGENT_Representation_deserialize_def AGENT_Representation_wire_def
  by (rule reads_then reads_last wire_intros | assumption | simp add: properties_ok_def)+

lemma reads_Participant [wire_intros]: "xrce_cdr_ok C \<Longrightarrow> rep3_ok (pr_representation r) \<Longrightarrow> reads C (Participant_deserialize C) r (Participant_wire r)"
  unfolding Participant_deserialize_def Participant_wire_def
  by (rule reads_then reads_last wire_intros | assumption | simp )+

lemma reads_Child3 [wire_intros]: "xrce_cdr_ok C \<Longrightarrow> rep3_ok (r3_representation r) \<Longrightarrow> reads C (Child3_deserialize C) r (Child3_wire r)"
  unfolding Child3_deserialize_def Child3_wire_def
  by (rule reads_then reads_last wire_intros | assumption | simp )+

lemma reads_ChildBin [wire_intros]: "xrce_cdr_ok C \<Longrightarrow> rep_bin_ok (rb_representation r) \<Longrightarrow> reads C (ChildBin_deserialize C) r (ChildBin_wire r)"
  unfolding ChildBin_deserialize_def ChildBin_wire_def
  by (rule reads_then reads_last wire_intros | assumption | simp )+

lemma reads_variant: "reads C g r e \<Longrightarrow> reads C (read_variant g f) (f r) e"
  unfolding read_variant_def by (rule reads_map)

lemma reads_ObjectVariant [wire_intros]: "xrce_cdr_ok C \<Longrightarrow> variant_ok v \<Longrightarrow> reads C (ObjectVariant_deserialize C) v (ObjectVariant_wire v)"
  unfolding ObjectVariant_deserialize_def ObjectVariant_wire_def
  by (rule reads_d, assumption, cases v)
    (simp_all add: objk_defs reads_return reads_variant reads_AGENT_Representation reads_CLIENT_Representation reads_RepRef
      reads_Participant reads_Child3 reads_ChildBin)

lemma reads_BaseObjectRequest [wire_intros]: "xrce_cdr_ok C \<Longrightarrow> reads C (BaseObjectRequest_deserialize C) r (BaseObjectRequest_wire r)"
  unfolding BaseObjectRequest_deserialize_def BaseObjectRequest_wire_def
  by (rule reads_then reads_last wire_intros | assumption | simp )+

lemma reads_DataDeliveryControl [wire_intros]: "xrce_cdr_ok C \<Longrightarrow> reads C (DataDeliveryControl_deserialize C) r (DataDeliveryControl_wire r)"
  unfolding DataDeliveryControl_deserialize_def DataDeliveryControl_wire_def
  by (rule reads_then reads_last wire_intros | assumption | simp )+

lemma reads_ReadSpecification [wire_intros]: "xrce_cdr_ok C \<Longrightarrow> (\<And>s. rs_content_filter_expression r = Some s \<Longrightarrow> string_ok s) \<Longrightarrow> reads C (ReadSpecification_deserialize C) r (ReadSpecification_wire r)"
  unfolding ReadSpecification_deserialize_def ReadSpecification_wire_def
  by (rule reads_then reads_last wire_intros | assumption | simp )+

lemma reads_CREATE_Payload [wire_intros]: "xrce_cdr_ok C \<Longrightarrow> variant_ok (cp_object_representation r) \<Longrightarrow> reads C (CREATE_Payload_deserialize C) r (CREATE_Payload_wire r)"
  unfolding CREATE_Payload_deserialize_def CREATE_Payload_wire_def
  by (rule reads_then reads_last wire_intros | assumption | simp )+

lemma reads_READ_DATA_Payload [wire_intros]: "xrce_cdr_ok C \<Longrightarrow> (\<And>s. rs_content_filter_expression (rd_read_specification r) = Some s \<Longrightarrow> string_ok s) \<Longrightarrow> reads C (READ_DATA_Payload_deserialize C) r (READ_DATA_Payload_wire r)"
  unfolding READ_DATA_Payload_deserialize_def READ_DATA_Payload_wire_def
  by (rule reads_then reads_last wire_intros | assumption | simp )+

lemma reads_DATA_Payload [wire_intros]: "xrce_cdr_ok C \<Longrightarrow> n = length (dp_data r) \<Longrightarrow> reads C (DATA_Payload_deserialize C n) r (DATA_Payload_wire r)"
  unfolding DATA_Payload_deserialize_def DATA_Payload_wire_def
  by (rule reads_then reads_last wire_intros | assumption | simp )+

lemma reads_HEARTBEAT_Payload [wire_intros]: "xrce_cdr_ok C \<Longrightarrow> reads C (HEARTBEAT_Payload_deserialize C) r (HEARTBEAT_Payload_wire r)"
  unfolding HEARTBEAT_Payload_deserialize_def HEARTBEAT_Payload_wire_def
  by (rule reads_then reads_last wire_intros | assumption | simp )+

lemma reads_ACKNACK_Payload [wire_intros]: "xrce_cdr_ok C \<Longrightarrow> reads C (ACKNACK_Payload_deserialize C) r (ACKNACK_Payload_wire r)"
proof -
  assume ok: "xrce_cdr_ok C"
  have "reads C (get_octet2 C) (ack_nack_bitmap_0 r, ack_nack_bitmap_1 r) (w_bytes [ack_nack_bitmap_0 r, ack_nack_bitmap_1 r])"
    using reads_composite(1) [OF ok, of "(ack_nack_bitmap_0 r, ack_nack_bitmap_1 r)"] by simp
  note b = this
  show ?thesis unfolding ACKNACK_Payload_deserialize_def ACKNACK_Payload_wire_def
    by (rule reads_then reads_last reads_u16 reads_u8 b ok | simp)+
qed

text \<open>Measuring.\<close>

lemma w_sizes [size_simps]:
  "length (w_then e1 e2 p) = length (e1 p) + length (e2 (p + length (e1 p)))"
  "length (w_nil p) = 0" "length (w_bytes bs p) = length bs"
  "length (w_u16 w p) = pad2 p + 2" "length (w_u32 v p) = pad4 p + 4" "length (w_string s p) = pad4 p + (length s + 5)"
  by (simp_all add: w_then_def w_nil_def w_bytes_def w_padded_def length_string_octets)

lemma sz_sizes [size_simps]:
  assumes "xrce_cdr_ok C"
  shows "sz C n 1 p = p + n" "sz C n (Suc 0) p = p + n" "sz C 2 2 p = p + (pad2 p + 2)" "sz C 4 4 p = p + (pad4 p + 4)"
    "sz_string C s p = p + (pad4 p + (length s + 5))"
  using fastcdr_alignment [OF xrce_cdr_okD(1) [OF assms]] xrce_cdr_okD(2) [OF assms]
  by (simp_all add: sz_def sz_string_def pad2_def)

lemmas fixed_size_defs = Time_t_size_def Time_t_wire_def ResultStatus_size_def ResultStatus_wire_def
  BaseObjectRequest_size_def BaseObjectRequest_wire_def BaseObjectReply_size_def BaseObjectReply_wire_def
  HEARTBEAT_Payload_size_def HEARTBEAT_Payload_wire_def ACKNACK_Payload_size_def ACKNACK_Payload_wire_def
  TIMESTAMP_REPLY_Payload_size_def TIMESTAMP_REPLY_Payload_wire_def DATA_Payload_size_def DATA_Payload_wire_def

lemma fixed_sizes:
  assumes "xrce_cdr_ok C"
  shows "BaseObjectReply_size C p = p + length (BaseObjectReply_wire r p)"
    and "HEARTBEAT_Payload_size C p = p + length (HEARTBEAT_Payload_wire h p)"
    and "ACKNACK_Payload_size C p = p + length (ACKNACK_Payload_wire a p)"
    and "TIMESTAMP_REPLY_Payload_size C p = p + length (TIMESTAMP_REPLY_Payload_wire t p)"
    and "DATA_Payload_size C d p = p + length (DATA_Payload_wire d p)"
  using assms by (simp_all add: fixed_size_defs size_simps algebra_simps)

lemma length_key [size_simps]: "length (key_bytes k) = 4"
  by simp

lemma size_AGENT_Representation:
  "xrce_cdr_ok C \<Longrightarrow> ar_properties r = None \<Longrightarrow> AGENT_Representation_size C r p = p + length (AGENT_Representation_wire r p)"
  by (simp add: AGENT_Representation_size_def AGENT_Representation_wire_def w_optional_def size_simps)

lemma size_STATUS_AGENT:
  "xrce_cdr_ok C \<Longrightarrow> ar_properties (sa_agent_info s) = None \<Longrightarrow> STATUS_AGENT_Payload_size C s p = p + length (STATUS_AGENT_Payload_wire s p)"
  by (simp add: STATUS_AGENT_Payload_size_def STATUS_AGENT_Payload_wire_def size_AGENT_Representation fixed_size_defs size_simps)

lemma size_TransportAddress:
  "xrce_cdr_ok C \<Longrightarrow> address_ok a \<Longrightarrow> TransportAddress_size C a p = p + length (TransportAddress_wire a p)"
  by (cases a) (simp_all add: TransportAddress_size_def TransportAddress_wire_def size_simps algebra_simps)

lemma size_addresses:
  "xrce_cdr_ok C \<Longrightarrow> (\<forall>a \<in> set as. address_ok a) \<Longrightarrow>
    fold (TransportAddress_size C) as p = p + length (w_elements TransportAddress_wire as p)"
  by (induction as arbitrary: p) (simp_all add: size_TransportAddress size_simps)

text \<open>The information the agent gives about itself.\<close>

definition agent_info_of :: "BaseObjectReply \<Rightarrow> AGENT_Representation \<Rightarrow> AGENT_ActivityInfo \<Rightarrow> INFO_Payload" where
  "agent_info_of reply rep activity =
     \<lparr>ip_reply = reply, ip_object_info = \<lparr>oi_config = Some (VariantAGENT rep), oi_activity = Some (ActivityAGENT activity)\<rparr>\<rparr>"

lemma size_INFO:
  assumes "xrce_cdr_ok C" and "ar_properties rep = None" and "\<forall>a \<in> set (ai_address_seq activity). address_ok a"
  shows "INFO_Payload_size C (agent_info_of reply rep activity) p = p + length (INFO_Payload_wire (agent_info_of reply rep activity) p)"
  using assms
  by (simp add: INFO_Payload_size_def INFO_Payload_wire_def agent_info_of_def ObjectInfo_size_def ObjectInfo_wire_def Let_def
      ObjectVariant_size_def ObjectVariant_wire_def ActivityInfoVariant_size_def ActivityInfoVariant_wire_def
      AGENT_ActivityInfo_size_def AGENT_ActivityInfo_wire_def w_optional_def w_sequence_def size_AGENT_Representation
      size_addresses fixed_size_defs size_simps algebra_simps)

text \<open>A payload that begins at a multiple of four looks the same at each.\<close>

definition wire4 :: "wire \<Rightarrow> bool" where
  "wire4 e \<longleftrightarrow> (\<forall>p. e (p + 4) = e p)"

lemma wire4_simps [simp]: "wire4 w_nil" "wire4 (w_bytes bs)" "wire4 (w_u16 w)" "wire4 (w_u32 v)" "wire4 (w_string s)"
  by (simp_all add: wire4_def w_nil_def w_bytes_def w_padded_def pad2_def pad4_def, presburger)

lemma wire4_then [simp]: "wire4 e1 \<Longrightarrow> wire4 e2 \<Longrightarrow> wire4 (w_then e1 e2)"
proof -
  assume e1: "wire4 e1" and e2: "wire4 e2"
  have "e2 (p + 4 + n) = e2 (p + n)" for p n
    using e2 [unfolded wire4_def, rule_format, of "p + n"] by (simp add: ac_simps)
  then show ?thesis using e1 by (simp add: wire4_def w_then_def)
qed

lemma wire4_multiple: "wire4 e \<Longrightarrow> 4 dvd p \<Longrightarrow> e p = e 0"
proof -
  assume e: "wire4 e" and "4 dvd p"
  then obtain k where "p = 4 * k" by (elim dvdE)
  moreover have "e (4 * k) = e 0"
  proof (induction k)
    case (Suc k)
    then show ?case using e [unfolded wire4_def, rule_format, of "4 * k"] by (simp add: add.commute)
  qed simp
  ultimately show ?thesis by simp
qed

lemma wire4_collections [simp]:
  "(\<And>v. x = Some v \<Longrightarrow> wire4 (e v)) \<Longrightarrow> wire4 (w_optional e x)"
  "(\<And>v. v \<in> set xs \<Longrightarrow> wire4 (e v)) \<Longrightarrow> wire4 (w_sequence e xs)"
  "wire4 (w_octets bs)"
proof -
  have els: "(\<And>v. v \<in> set xs \<Longrightarrow> wire4 (e v)) \<Longrightarrow> wire4 (w_elements e xs)" for xs
    by (induction xs) simp_all
  then show "(\<And>v. v \<in> set xs \<Longrightarrow> wire4 (e v)) \<Longrightarrow> wire4 (w_sequence e xs)" by (simp add: w_sequence_def)
  show "(\<And>v. x = Some v \<Longrightarrow> wire4 (e v)) \<Longrightarrow> wire4 (w_optional e x)" by (cases x) (simp_all add: w_optional_def)
  show "wire4 (w_octets bs)" by (simp add: w_octets_def)
qed

lemma wire4_parts [simp]: "wire4 (Time_t_wire t)" "wire4 (TransportAddress_wire a)" "wire4 (Property_wire p)"
  "wire4 (Rep3_wire r3)" "wire4 (RepRef_wire rr)" "wire4 (RepBin_wire rb)" "wire4 (ResultStatus_wire rs)"
  "wire4 (BaseObjectRequest_wire br)" "wire4 (DataDeliveryControl_wire dc)"
  by (simp_all add: Time_t_wire_def Property_wire_def ResultStatus_wire_def BaseObjectRequest_wire_def DataDeliveryControl_wire_def)
    ((cases a; simp add: TransportAddress_wire_def), (cases r3; simp), (cases rr; simp), (cases rb; simp))

lemma wire4_representations [simp]: "wire4 (CLIENT_Representation_wire c)" "wire4 (AGENT_Representation_wire ar)"
  "wire4 (Participant_wire pr)" "wire4 (Child3_wire ch)" "wire4 (ChildBin_wire cb)" "wire4 (BaseObjectReply_wire rp)"
  "wire4 (AGENT_ActivityInfo_wire ai)" "wire4 (ReadSpecification_wire sp)"
  by (simp_all add: CLIENT_Representation_wire_def AGENT_Representation_wire_def Participant_wire_def Child3_wire_def
      ChildBin_wire_def BaseObjectReply_wire_def AGENT_ActivityInfo_wire_def ReadSpecification_wire_def)

lemma wire4_ObjectVariant [simp]: "wire4 (ObjectVariant_wire v)"
  by (cases v) (simp_all add: ObjectVariant_wire_def)

lemma wire4_ActivityInfoVariant [simp]: "wire4 (ActivityInfoVariant_wire v)"
  by (cases v) (simp add: ActivityInfoVariant_wire_def)

lemma wire4_payloads [simp]: "wire4 (ObjectInfo_wire oi)" "wire4 (CREATE_Payload_wire cr)" "wire4 (READ_DATA_Payload_wire rd)"
  "wire4 (DATA_Payload_wire d)" "wire4 (ACKNACK_Payload_wire a)" "wire4 (HEARTBEAT_Payload_wire h)"
  "wire4 (STATUS_AGENT_Payload_wire sa)" "wire4 (INFO_Payload_wire ip)" "wire4 (TIMESTAMP_REPLY_Payload_wire tr)"
  by (simp_all add: ObjectInfo_wire_def CREATE_Payload_wire_def READ_DATA_Payload_wire_def DATA_Payload_wire_def
      ACKNACK_Payload_wire_def HEARTBEAT_Payload_wire_def STATUS_AGENT_Payload_wire_def INFO_Payload_wire_def TIMESTAMP_REPLY_Payload_wire_def)

section \<open>Messages with one payload\<close>

text \<open>A payload that writes \<open>e\<close> and announces its size fills the message that was made for it.\<close>

lemma append_submessage_writes:
  assumes C: "xrce_cdr_ok C" and p: "writes C (pl_serialize p) e" "wire4 e" "pl_size p = length (e 0)"
    and len: "len = mh_getCdrSerializedSize C h 0 + sh_getCdrSerializedSize C 0 + pl_size p"
    and sh: "sh = \<lparr>sh_submessage_id = sid, sh_flags = fl, sh_submessage_length = of_nat (pl_size p)\<rparr>"
  obtains m where "append_submessage C sid p fl (OutputMessage_new C h len) = (True, m)"
    and "om_bytes C m = header_bytes h @ subheader_bytes sh @ e 0"
proof -
  note C1 = xrce_cdr_okD(1) [OF C]
  let ?m = "OutputMessage_new C h len"
  have len': "len = length (header_bytes h) + (4 + length (e 0))" by (simp add: len p(3) mh_size [OF C1] sh_size [OF C1])
  from om_new_cursor [OF C1 len'] have "cdr_at C (om_serializer ?m) (header_bytes h) (replicate 4 0 @ replicate (length (e 0)) 0)"
    by (simp add: replicate_add)
  from om_align4_cursor [OF C1 this dvd_length_header_bytes]
  have "cdr_at C (om_serializer (om_align4 C ?m)) (header_bytes h) (replicate 4 0 @ replicate (length (e 0)) 0)" .
  from sh_serialize_cursor [OF C1 this dvd_length_header_bytes length_replicate, of sh] obtain c1
    where c1: "sh_serialize C sh (om_serializer (om_align4 C ?m)) = (True, c1)"
      "cdr_at C c1 (header_bytes h @ subheader_bytes sh) (replicate (length (e 0)) 0)" .
  have e: "e (length (header_bytes h @ subheader_bytes sh)) = e 0" by (rule wire4_multiple [OF p(2)]) simp
  from writesD [OF p(1) c1(2)] obtain c2 where c2: "pl_serialize p c1 = (True, c2)"
      "cdr_at C c2 ((header_bytes h @ subheader_bytes sh) @ e 0) (replicate (length (e 0) - length (e 0)) 0)"
    unfolding e by blast
  show thesis
  proof (rule that [of "(om_align4 C ?m)\<lparr>om_serializer := c2\<rparr>"])
    show "append_submessage C sid p fl ?m = (True, (om_align4 C ?m)\<lparr>om_serializer := c2\<rparr>)"
      using c1(1) c2(1) by (simp add: append_submessage_def append_subheader_def om_serialize_def sh)
    have "cdr_at C (om_serializer ((om_align4 C ?m)\<lparr>om_serializer := c2\<rparr>)) (header_bytes h @ subheader_bytes sh @ e 0) []"
      using c2(2) by simp
    then show "om_bytes C ((om_align4 C ?m)\<lparr>om_serializer := c2\<rparr>) = header_bytes h @ subheader_bytes sh @ e 0"
      by (rule om_bytes_cursor)
  qed
qed

text \<open>An input message over such bytes gives the subheader and then the payload.\<close>

lemma read_submessage:
  assumes C: "xrce_cdr_ok C" and g: "reads C g v e" "wire4 e"
    and i: "i = InputMessage_new C (header_bytes h @ subheader_bytes sh @ e 0)"
  obtains i' c' where "prepare_next_submessage C i = (True, i')" and "im_subheader i' = sh" and "im_header i' = wire_header h"
    and "g (im_deserializer i') = (Got v, c')"
proof -
  note C1 = xrce_cdr_okD(1) [OF C]
  obtain c where c: "i = \<lparr>im_buf = header_bytes h @ subheader_bytes sh @ e 0, im_header = wire_header h,
      im_subheader = SubmessageHeader_init, im_deserializer = c\<rparr>" "cdr_at C c (header_bytes h) (subheader_bytes sh @ e 0)"
    using im_new_cursor [OF C1, of h "subheader_bytes sh @ e 0"] i by metis
  then have "cdr_at C (im_deserializer i) (header_bytes h) (subheader_bytes sh @ e 0)" by simp
  from prepare_cursor [OF C1 this dvd_length_header_bytes] c(1) obtain c2
    where i': "prepare_next_submessage C i = (True, i\<lparr>im_subheader := sh, im_deserializer := c2\<rparr>)"
      and c2: "cdr_at C c2 (header_bytes h @ subheader_bytes sh) (e 0)" by auto
  have "e (length (header_bytes h @ subheader_bytes sh)) = e 0" by (rule wire4_multiple [OF g(2)]) simp
  then have "cdr_at C c2 (header_bytes h @ subheader_bytes sh) (e (length (header_bytes h @ subheader_bytes sh)) @ [])"
    using c2 by simp
  from readsD [OF g(1) this] obtain c' where "g c2 = (Got v, c')" by blast
  with i' that [of "i\<lparr>im_subheader := sh, im_deserializer := c2\<rparr>"] show thesis by (simp add: c(1))
qed

section \<open>Properties\<close>

text \<open>The payloads the agent sends, and their bytes.\<close>

inductive agent_sends :: "('c, 'x) xrce_cdr_scheme \<Rightarrow> 'c payload \<Rightarrow> wire \<Rightarrow> bool" for C where
  "agent_sends C (STATUS_payload C r) (BaseObjectReply_wire r)"
| "ar_properties (sa_agent_info s) = None \<Longrightarrow> agent_sends C (STATUS_AGENT_payload C s) (STATUS_AGENT_Payload_wire s)"
| "ar_properties rep = None \<Longrightarrow> \<forall>a \<in> set (ai_address_seq activity). address_ok a \<Longrightarrow>
     agent_sends C (INFO_payload C (agent_info_of reply rep activity)) (INFO_Payload_wire (agent_info_of reply rep activity))"
| "agent_sends C (DATA_payload C d) (DATA_Payload_wire d)"
| "agent_sends C (ACKNACK_payload C a) (ACKNACK_Payload_wire a)"
| "agent_sends C (HEARTBEAT_payload C h) (HEARTBEAT_Payload_wire h)"
| "agent_sends C (TIMESTAMP_REPLY_payload C t) (TIMESTAMP_REPLY_Payload_wire t)"

lemma agent_sends_ok:
  assumes C: "xrce_cdr_ok C" and "agent_sends C p e"
  shows "writes C (pl_serialize p) e" and "wire4 e" and "pl_size p = length (e 0)"
proof -
  show "writes C (pl_serialize p) e"
    using assms(2)
    by cases (simp_all add: payload_defs writes_BaseObjectReply [OF C] writes_STATUS_AGENT_Payload [OF C] writes_INFO_Payload [OF C]
        writes_DATA_Payload [OF C] writes_ACKNACK_Payload [OF C] writes_HEARTBEAT_Payload [OF C] writes_TIMESTAMP_REPLY_Payload [OF C])
  show "wire4 e" using assms(2) by cases simp_all
  note fixed = fixed_sizes [OF C, where p = 0]
  show "pl_size p = length (e 0)"
    using assms(2) by cases (simp_all add: payload_defs fixed [unfolded add_0, symmetric] size_STATUS_AGENT [OF C, where p = 0] size_INFO [OF C, where p = 0])
qed

text \<open>C25. Every payload the agent sends has exactly the size it announces: appended to a message made for
  its header, a subheader and that size, as the agent makes them, it is accepted, the message is full to
  the last byte, and the submessage length on the wire is the number of payload bytes that follow. This
  holds for the status of an operation and of a client's creation, the information of the agent with any
  addresses, data, acknowledgements, heartbeats and time stamps.\<close>

theorem agent_payload_fills_message:
  assumes "xrce_cdr_ok C" and "agent_sends C p e"
    and "append_submessage C sid p fl (OutputMessage_new C h
       (mh_getCdrSerializedSize C h 0 + sh_getCdrSerializedSize C 0 + pl_size p)) = (ok, m)"
  shows "ok \<and> om_bytes C m = header_bytes h
     @ subheader_bytes \<lparr>sh_submessage_id = sid, sh_flags = fl, sh_submessage_length = of_nat (length (e 0))\<rparr> @ e 0"
proof -
  note e = agent_sends_ok [OF assms(1,2)]
  obtain m' where "append_submessage C sid p fl (OutputMessage_new C h
       (mh_getCdrSerializedSize C h 0 + sh_getCdrSerializedSize C 0 + pl_size p)) = (True, m')"
    "om_bytes C m' = header_bytes h
     @ subheader_bytes \<lparr>sh_submessage_id = sid, sh_flags = fl, sh_submessage_length = of_nat (pl_size p)\<rparr> @ e 0"
    by (rule append_submessage_writes [OF assms(1) e refl refl])
  then show ?thesis using assms(3) by (simp add: e(3))
qed

text \<open>C24. A request to create an object survives the wire: whatever object and representation it names (by
  reference, in XML, in binary, of any kind, with any identifiers), the message it is put into is read back
  as the same request, with its header and flags. Strings are without zero characters, and strings and octet
  sequences shorter than their length fields allow.\<close>

theorem create_request_roundtrip:
  assumes "xrce_cdr_ok C" and "variant_ok (cp_object_representation r)"
    and "p = \<lparr>pl_size = length (CREATE_Payload_wire r 0), pl_serialize = CREATE_Payload_serialize C r\<rparr>"
    and "append_submessage C CREATE p fl (OutputMessage_new C h
       (mh_getCdrSerializedSize C h 0 + sh_getCdrSerializedSize C 0 + pl_size p)) = (ok, m)"
    and "prepare_next_submessage C (InputMessage_new C (om_bytes C m)) = (ok', i)"
  shows "ok \<and> ok' \<and> im_header i = wire_header h \<and> sh_submessage_id (im_subheader i) = CREATE \<and> sh_flags (im_subheader i) = fl \<and>
     fst (CREATE_Payload_deserialize C (im_deserializer i)) = Got r"
proof -
  have w: "writes C (pl_serialize p) (CREATE_Payload_wire r)" by (simp add: assms(3) writes_CREATE_Payload [OF assms(1)])
  have s: "pl_size p = length (CREATE_Payload_wire r 0)" by (simp add: assms(3))
  let ?sh = "\<lparr>sh_submessage_id = CREATE, sh_flags = fl, sh_submessage_length = of_nat (pl_size p)\<rparr>"
  obtain m' where "append_submessage C CREATE p fl (OutputMessage_new C h
       (mh_getCdrSerializedSize C h 0 + sh_getCdrSerializedSize C 0 + pl_size p)) = (True, m')"
    and m': "om_bytes C m' = header_bytes h @ subheader_bytes ?sh @ CREATE_Payload_wire r 0"
    by (rule append_submessage_writes [OF assms(1) w wire4_payloads(2) s refl refl])
  then have ok: "ok" "m = m'" using assms(4) by simp_all
  from read_submessage [OF assms(1) reads_CREATE_Payload [OF assms(1,2)] wire4_payloads(2), of _ h ?sh, OF refl]
  obtain i' c' where "prepare_next_submessage C (InputMessage_new C (om_bytes C m)) = (True, i')"
    and "im_subheader i' = ?sh" "im_header i' = wire_header h" "CREATE_Payload_deserialize C (im_deserializer i') = (Got r, c')"
    unfolding m' ok by blast
  then show ?thesis using assms(5) ok by simp
qed

text \<open>Examples: the answer to a creation, and the request for it.\<close>

definition demo_reply :: BaseObjectReply where
  "demo_reply = \<lparr>rep_related_request = \<lparr>bor_request_id = (0, 10), bor_object_id = (0, 0x11)\<rparr>,
     rep_result = \<lparr>res_status = STATUS_OK, res_implementation_status = 0\<rparr>\<rparr>"

theorem agent_payload_fills_message_witness:
  "let r = append_submessage byte_xcdr STATUS (STATUS_payload byte_xcdr demo_reply) 1 (OutputMessage_new byte_xcdr demo_header
       (mh_getCdrSerializedSize byte_xcdr demo_header 0 + sh_getCdrSerializedSize byte_xcdr 0 + pl_size (STATUS_payload byte_xcdr demo_reply)))
   in fst r \<and> om_bytes byte_xcdr (snd r) = header_bytes demo_header
     @ subheader_bytes \<lparr>sh_submessage_id = STATUS, sh_flags = 1, sh_submessage_length = of_nat (length (BaseObjectReply_wire demo_reply 0))\<rparr>
     @ BaseObjectReply_wire demo_reply 0"
  unfolding Let_def
  by (rule agent_payload_fills_message [OF byte_xcdr_ok agent_sends.intros(1) prod.collapse [symmetric]])

definition demo_create :: CREATE_Payload where
  "demo_create = \<lparr>cp_request = \<lparr>bor_request_id = (0, 10), bor_object_id = (0, 0x11)\<rparr>,
     cp_object_representation = VariantPARTICIPANT \<lparr>pr_representation = Rep3Xml ''<dds/>'', pr_domain_id = 7\<rparr>\<rparr>"

theorem create_request_roundtrip_witness:
  "let p = \<lparr>pl_size = length (CREATE_Payload_wire demo_create 0), pl_serialize = CREATE_Payload_serialize byte_xcdr demo_create\<rparr>;
       r = append_submessage byte_xcdr CREATE p 1 (OutputMessage_new byte_xcdr demo_header
         (mh_getCdrSerializedSize byte_xcdr demo_header 0 + sh_getCdrSerializedSize byte_xcdr 0 + pl_size p));
       i = snd (prepare_next_submessage byte_xcdr (InputMessage_new byte_xcdr (om_bytes byte_xcdr (snd r))))
   in im_header i = wire_header demo_header \<and> fst (CREATE_Payload_deserialize byte_xcdr (im_deserializer i)) = Got demo_create"
proof -
  have "variant_ok (cp_object_representation demo_create)"
    by (simp add: demo_create_def string_ok_def)
  from create_request_roundtrip [OF byte_xcdr_ok this refl prod.collapse [symmetric] prod.collapse [symmetric], of 1 demo_header]
  show ?thesis unfolding Let_def by blast
qed

end
