(* ===== verification/ProxyClient.thy ===== *)
theory ProxyClient
  imports Payloads CedMiddleware Session
begin

text \<open>
  \<open>ProxyClient\<close> (\<open>include/uxr/agent/client/ProxyClient.hpp\<close>, \<open>src/cpp/client/ProxyClient.cpp\<close>): the client
  as the agent keeps it, with the table of its objects, its session, its middleware and its liveness.
  An operation works on the client and on what the middleware objects of all clients share; the table
  is guarded by a mutex, so an operation is atomic. The middleware is any record of operations.

  The lemmas, in the context of the contract of the middleware, show that the table and the middleware
  always agree on which entities exist.
\<close>

section \<open>State\<close>

datatype ClientState = alive | dead

record ('m, 'c) ProxyClient =
  pc_representation :: CLIENT_Representation
  pc_middleware :: 'm
  pc_objects :: "ObjectId \<rightharpoonup> XRCEObject"
  pc_session :: "'c Session"
  pc_state :: ClientState
  pc_timestamp :: int
  pc_properties :: "string \<rightharpoonup> string"

type_synonym ('m, 'c, 'g) client_state = "('m, 'c) ProxyClient \<times> 'g"

text \<open>The world of the middleware, and its return into the state.\<close>

definition pc_world :: "('m, 'c, 'g) client_state \<Rightarrow> 'm \<times> 'g" where
  "pc_world s = (pc_middleware (fst s), snd s)"

definition pc_set_world :: "'m \<times> 'g \<Rightarrow> ('m, 'c, 'g) client_state \<Rightarrow> ('m, 'c, 'g) client_state" where
  "pc_set_world w s = ((fst s)\<lparr>pc_middleware := fst w\<rparr>, snd w)"

section \<open>Construction\<close>

datatype MiddlewareKind = KindNONE | KindFASTRTPS | KindFASTDDS | KindCED

text \<open>The constructors of the middlewares.\<close>

record 'm middleware_factory =
  new_FastMiddleware :: 'm
  new_FastDDSMiddleware :: "bool \<Rightarrow> 'm"
  new_CedMiddleware :: "u32 \<Rightarrow> 'm"

text \<open>The case of no middleware has no \<open>break\<close>: it goes on with the next one.\<close>

fun new_middleware :: "'m middleware_factory \<Rightarrow> MiddlewareKind \<Rightarrow> ClientKey \<Rightarrow> (string \<rightharpoonup> string) \<Rightarrow> 'm" where
  "new_middleware F KindNONE key properties = new_FastMiddleware F"
| "new_middleware F KindFASTRTPS key properties = new_FastMiddleware F"
| "new_middleware F KindFASTDDS key properties = new_FastDDSMiddleware F (properties ''uxr_sm'' = Some ''1'')"
| "new_middleware F KindCED key properties = new_CedMiddleware F (clientkey_to_raw key)"

definition ProxyClient_new :: "'m middleware_factory \<Rightarrow> int \<Rightarrow> CLIENT_Representation \<Rightarrow> MiddlewareKind \<Rightarrow> (string \<rightharpoonup> string) \<Rightarrow>
    ('m, 'c) ProxyClient" where
  "ProxyClient_new F now rep kind properties =
     \<lparr>pc_representation = rep, pc_middleware = new_middleware F kind (cr_client_key rep) properties,
      pc_objects = Map.empty,
      pc_session = Session_new \<lparr>si_client_key = cr_client_key rep, si_session_id = cr_session_id rep, si_mtu = unat (cr_mtu rep)\<rparr>,
      pc_state = alive, pc_timestamp = now, pc_properties = properties\<rparr>"

section \<open>Results\<close>

record CreationMode =
  cm_reuse :: bool
  cm_replace :: bool

section \<open>Creating objects\<close>

text \<open>
  What the \<open>create_\<close> functions have in common: an object the middleware made goes into the table; an
  identifier that is taken destroys it again.
\<close>

type_synonym ('m, 'c, 'g) create_result = "fault + bool \<times> ResultStatus \<times> ('m, 'c, 'g) client_state"

definition pc_emplace :: "('m \<times> 'g) Middleware \<Rightarrow> ObjectId \<Rightarrow> ResultStatus \<Rightarrow> ('m, 'c, 'g) client_state \<Rightarrow>
    fault + XRCEObject option \<times> ('m \<times> 'g) \<Rightarrow> ('m, 'c, 'g) create_result" where
  "pc_emplace M object_id result s created =
     (case created of
        Inl e \<Rightarrow> Inl e
      | Inr (None, w) \<Rightarrow> Inr (False, result\<lparr>res_status := STATUS_ERR_DDS_ERROR\<rparr>, pc_set_world w s)
      | Inr (Some ob, w) \<Rightarrow>
          (case emplace (pc_objects (fst s)) object_id ob of
             (objects, True) \<Rightarrow>
               Inr (True, result, ((fst (pc_set_world w s))\<lparr>pc_objects := objects\<rparr>, snd w))
           | (objects, False) \<Rightarrow>
               Inr (False, result\<lparr>res_status := STATUS_ERR_RESOURCES\<rparr>, pc_set_world (object_destroy M ob w) s)))"

definition pc_parent_id :: "ObjectKind \<Rightarrow> ObjectId \<Rightarrow> ObjectId" where
  "pc_parent_id kind object_id = (fst object_id, (snd object_id AND 0xF0) OR kind)"

definition pc_create_participant :: "('m \<times> 'g) Middleware \<Rightarrow> ObjectId \<Rightarrow> OBJK_PARTICIPANT_Representation \<Rightarrow>
    ResultStatus \<Rightarrow> ('m, 'c, 'g) client_state \<Rightarrow> ('m, 'c, 'g) create_result" where
  "pc_create_participant M object_id rep result s =
     pc_emplace M object_id result s (Participant_create M object_id rep (pc_world s))"

text \<open>The others look their parent up first.\<close>

definition pc_under_parent :: "ObjectId \<Rightarrow> ResultStatus \<Rightarrow> ('m, 'c, 'g) client_state \<Rightarrow> ('m, 'c, 'g) create_result \<Rightarrow>
    ('m, 'c, 'g) create_result" where
  "pc_under_parent parent_id result s r =
     (case pc_objects (fst s) parent_id of
        Some _ \<Rightarrow> r
      | None \<Rightarrow> Inr (False, result\<lparr>res_status := STATUS_ERR_UNKNOWN_REFERENCE\<rparr>, s))"

type_synonym ('m, 'c, 'g) pc_create_child = "('m \<times> 'g) Middleware \<Rightarrow> ObjectId \<Rightarrow> OBJK_Representation3_Child \<Rightarrow>
    ResultStatus \<Rightarrow> ('m, 'c, 'g) client_state \<Rightarrow> ('m, 'c, 'g) create_result"
type_synonym ('m, 'c, 'g) pc_create_group = "('m \<times> 'g) Middleware \<Rightarrow> ObjectId \<Rightarrow> OBJK_RepresentationBinAndXML_Child \<Rightarrow>
    ResultStatus \<Rightarrow> ('m, 'c, 'g) client_state \<Rightarrow> ('m, 'c, 'g) create_result"

definition pc_create_topic :: "('m, 'c, 'g) pc_create_child" where
  "pc_create_topic M object_id rep result s =
     (let participant_id = pc_parent_id OBJK_PARTICIPANT (r3_parent_id rep)
      in pc_under_parent participant_id result s
           (pc_emplace M object_id result s (Topic_create M object_id (objectid_to_raw participant_id) rep (pc_world s))))"

definition pc_create_publisher :: "('m, 'c, 'g) pc_create_group" where
  "pc_create_publisher M object_id rep result s =
     (let participant_id = pc_parent_id OBJK_PARTICIPANT (rb_participant_id rep)
      in pc_under_parent participant_id result s
           (pc_emplace M object_id result s (Publisher_create M object_id (objectid_to_raw participant_id) rep (pc_world s))))"

definition pc_create_subscriber :: "('m, 'c, 'g) pc_create_group" where
  "pc_create_subscriber M object_id rep result s =
     (let participant_id = pc_parent_id OBJK_PARTICIPANT (rb_participant_id rep)
      in pc_under_parent participant_id result s
           (pc_emplace M object_id result s (Subscriber_create M object_id (objectid_to_raw participant_id) rep (pc_world s))))"

definition pc_create_datawriter :: "('m, 'c, 'g) pc_create_child" where
  "pc_create_datawriter M object_id rep result s =
     (let publisher_id = pc_parent_id OBJK_PUBLISHER (r3_parent_id rep)
      in pc_under_parent publisher_id result s
           (pc_emplace M object_id result s (DataWriter_create M object_id (objectid_to_raw publisher_id) rep (pc_world s))))"

definition pc_create_datareader :: "('m, 'c, 'g) pc_create_child" where
  "pc_create_datareader M object_id rep result s =
     (let subscriber_id = pc_parent_id OBJK_SUBSCRIBER (r3_parent_id rep)
      in pc_under_parent subscriber_id result s
           (pc_emplace M object_id result s (DataReader_create M object_id (objectid_to_raw subscriber_id) rep (pc_world s))))"

definition pc_create_requester :: "('m, 'c, 'g) pc_create_child" where
  "pc_create_requester M object_id rep result s =
     (let participant_id = pc_parent_id OBJK_PARTICIPANT (r3_parent_id rep)
      in pc_under_parent participant_id result s
           (pc_emplace M object_id result s (Requester_create M object_id (objectid_to_raw participant_id) rep (pc_world s))))"

definition pc_create_replier :: "('m, 'c, 'g) pc_create_child" where
  "pc_create_replier M object_id rep result s =
     (let participant_id = pc_parent_id OBJK_PARTICIPANT (r3_parent_id rep)
      in pc_under_parent participant_id result s
           (pc_emplace M object_id result s (Replier_create M object_id (objectid_to_raw participant_id) rep (pc_world s))))"

text \<open>The private \<open>create_object\<close>: kinds it does not know leave everything, and the result, as they are.\<close>

fun pc_create_by_kind :: "('m \<times> 'g) Middleware \<Rightarrow> ObjectId \<Rightarrow> ObjectVariant \<Rightarrow> ResultStatus \<Rightarrow> ('m, 'c, 'g) client_state \<Rightarrow>
    ('m, 'c, 'g) create_result" where
  "pc_create_by_kind M object_id (VariantPARTICIPANT r) = pc_create_participant M object_id r"
| "pc_create_by_kind M object_id (VariantTOPIC r) = pc_create_topic M object_id r"
| "pc_create_by_kind M object_id (VariantPUBLISHER r) = pc_create_publisher M object_id r"
| "pc_create_by_kind M object_id (VariantSUBSCRIBER r) = pc_create_subscriber M object_id r"
| "pc_create_by_kind M object_id (VariantDATAWRITER r) = pc_create_datawriter M object_id r"
| "pc_create_by_kind M object_id (VariantDATAREADER r) = pc_create_datareader M object_id r"
| "pc_create_by_kind M object_id (VariantREQUESTER r) = pc_create_requester M object_id r"
| "pc_create_by_kind M object_id (VariantREPLIER r) = pc_create_replier M object_id r"
| "pc_create_by_kind M object_id _ = (\<lambda>result s. Inr (False, result, s))"

section \<open>The operations\<close>

text \<open>Erasing an object from the table destroys it.\<close>

definition pc_delete_object_unlock :: "('m \<times> 'g) Middleware \<Rightarrow> ObjectId \<Rightarrow> ('m, 'c, 'g) client_state \<Rightarrow> bool \<times> ('m, 'c, 'g) client_state" where
  "pc_delete_object_unlock M object_id s =
     (case pc_objects (fst s) object_id of
        Some ob \<Rightarrow>
          (True, pc_set_world (object_destroy M ob (pc_world s)) ((fst s)\<lparr>pc_objects := erase (pc_objects (fst s)) object_id\<rparr>, snd s))
      | None \<Rightarrow> (False, s))"

definition pc_object_id :: "ObjectPrefix \<Rightarrow> ObjectVariant \<Rightarrow> ObjectId" where
  "pc_object_id objectid_prefix rep = (fst objectid_prefix, (snd objectid_prefix AND 0xF0) OR ov_d rep)"

definition result_ok :: ResultStatus where
  "result_ok = \<lparr>res_status = STATUS_OK, res_implementation_status = 0x00\<rparr>"

lemma result_ok_status [simp]: "res_status result_ok = STATUS_OK"
  by (simp add: result_ok_def)

definition pc_create_object :: "('m \<times> 'g) Middleware \<Rightarrow> CreationMode \<Rightarrow> ObjectPrefix \<Rightarrow> ObjectVariant \<Rightarrow>
    ('m, 'c, 'g) client_state \<Rightarrow> fault + ResultStatus \<times> ('m, 'c, 'g) client_state" where
  "pc_create_object M creation_mode objectid_prefix rep s =
     (let result = result_ok; object_id = pc_object_id objectid_prefix rep;
          recreate = (\<lambda>s. map_sum id snd (pc_create_by_kind M object_id rep result s))
      in case pc_objects (fst s) object_id of
           None \<Rightarrow> recreate s
         | Some ob \<Rightarrow>
             if \<not> cm_reuse creation_mode
             then if \<not> cm_replace creation_mode
                  then Inr (result\<lparr>res_status := STATUS_ERR_ALREADY_EXISTS\<rparr>, s)
                  else recreate (snd (pc_delete_object_unlock M object_id s))
             else if \<not> cm_replace creation_mode
                  then (case object_matched M ob rep (pc_world s) of
                          Inl e \<Rightarrow> Inl e
                        | Inr True \<Rightarrow> Inr (result\<lparr>res_status := STATUS_OK_MATCHED\<rparr>, s)
                        | Inr False \<Rightarrow> Inr (result\<lparr>res_status := STATUS_ERR_MISMATCH\<rparr>, s))
                  else (case object_matched M ob rep (pc_world s) of
                          Inl e \<Rightarrow> Inl e
                        | Inr True \<Rightarrow> Inr (result\<lparr>res_status := STATUS_OK_MATCHED\<rparr>, s)
                        | Inr False \<Rightarrow> recreate (snd (pc_delete_object_unlock M object_id s))))"

definition pc_delete_object :: "('m \<times> 'g) Middleware \<Rightarrow> ObjectId \<Rightarrow> ('m, 'c, 'g) client_state \<Rightarrow> ResultStatus \<times> ('m, 'c, 'g) client_state" where
  "pc_delete_object M object_id s =
     (case pc_delete_object_unlock M object_id s of
        (True, s) \<Rightarrow> (result_ok, s)
      | (False, s) \<Rightarrow> (result_ok\<lparr>res_status := STATUS_ERR_UNKNOWN_REFERENCE\<rparr>, s))"

definition pc_get_object :: "ObjectId \<Rightarrow> ('m, 'c) ProxyClient \<Rightarrow> XRCEObject option" where
  "pc_get_object object_id c = pc_objects c object_id"

text \<open>\<open>release\<close> clears the table, which destroys the objects in some order.\<close>

definition pc_release :: "('m \<times> 'g) Middleware \<Rightarrow> ObjectId list \<Rightarrow> ('m, 'c, 'g) client_state \<Rightarrow> ('m, 'c, 'g) client_state" where
  "pc_release M order s =
     pc_set_world
       (fold (\<lambda>object_id w. case pc_objects (fst s) object_id of Some ob \<Rightarrow> object_destroy M ob w | None \<Rightarrow> w) order (pc_world s))
       ((fst s)\<lparr>pc_objects := Map.empty\<rparr>, snd s)"

text \<open>Liveness; \<open>now\<close> is the steady clock in nanoseconds.\<close>

definition CLIENT_DEAD_TIME :: int where "CLIENT_DEAD_TIME = 30000"

definition pc_get_state :: "int \<Rightarrow> ('m, 'c) ProxyClient \<Rightarrow> ClientState \<times> ('m, 'c) ProxyClient" where
  "pc_get_state now c =
     (let c = (if pc_state c = alive
               then c\<lparr>pc_state := if (now - pc_timestamp c) div 1000000 < CLIENT_DEAD_TIME then alive else dead\<rparr>
               else c)
      in (pc_state c, c))"

definition pc_update_state :: "int \<Rightarrow> ('m, 'c) ProxyClient \<Rightarrow> ('m, 'c) ProxyClient" where
  "pc_update_state now c = c\<lparr>pc_state := alive, pc_timestamp := now\<rparr>"

section \<open>The table and the middleware\<close>

text \<open>Every object is under its identifier, of the class its kind says, and the middleware has the same entities.\<close>

definition client_ok :: "('m \<times> 'g \<Rightarrow> ObjectKind \<Rightarrow> u16 set) \<Rightarrow> ('m, 'c, 'g) client_state \<Rightarrow> bool" where
  "client_ok ents s \<longleftrightarrow>
     (\<forall>oid ob. pc_objects (fst s) oid = Some ob \<longrightarrow>
        xo_id ob = oid \<and> class_kind (xo_class ob) = objectid_kind oid \<and> reader_ok (xo_reader ob)) \<and>
     (\<forall>k i. i \<in> ents (pc_world s) k \<longleftrightarrow> (\<exists>oid \<in> dom (pc_objects (fst s)). objectid_kind oid = k \<and> objectid_to_raw oid = i))"

lemma objectid_eqI: "objectid_kind a = objectid_kind b \<Longrightarrow> objectid_to_raw a = objectid_to_raw b \<Longrightarrow> a = b"
  by (metis objectid_roundtrip)

text \<open>The creation of one object, seen through the contract.\<close>

definition object_creates :: "('w \<Rightarrow> ObjectKind \<Rightarrow> u16 set) \<Rightarrow> ObjectKind \<Rightarrow> ObjectId \<Rightarrow> ('w \<Rightarrow> fault + XRCEObject option \<times> 'w) \<Rightarrow> bool" where
  "object_creates ents k oid f \<longleftrightarrow> (\<forall>w r w'. f w = Inr (r, w') \<longrightarrow>
     (case r of
        None \<Rightarrow> ents w' = ents w
      | Some ob \<Rightarrow> xo_id ob = oid \<and> class_kind (xo_class ob) = k \<and> xo_reader ob = Reader_new \<and>
          objectid_to_raw oid \<notin> ents w k \<and> ents w' = (ents w)(k := insert (objectid_to_raw oid) (ents w k))))"

lemma new_object_creates:
  assumes "creates ents (class_kind cl) (objectid_to_raw oid) f"
  shows "object_creates ents (class_kind cl) oid (\<lambda>w. new_object cl oid (f w))"
  using assms by (auto simp: object_creates_def creates_def new_object_def XRCEObject_new_def split: sum.splits)

lemma creates_nothing: "creates ents k i (\<lambda>w. Inr (False, w))"
  by (simp add: creates_def)

lemma rep3_creates:
  assumes "\<And>s. creates ents (class_kind cl) (objectid_to_raw oid) (f s)" "\<And>s. creates ents (class_kind cl) (objectid_to_raw oid) (g s)"
  shows "object_creates ents (class_kind cl) oid (\<lambda>w. new_object cl oid
     (case rep of Rep3Reference s \<Rightarrow> f s w | Rep3Xml s \<Rightarrow> g s w | _ \<Rightarrow> Inr (False, w)))"
  by (rule new_object_creates) (cases rep; simp add: assms creates_nothing)

lemma rep_bin_creates:
  assumes "\<And>s. creates ents (class_kind cl) (objectid_to_raw oid) (f s)"
  shows "object_creates ents (class_kind cl) oid (\<lambda>w. new_object cl oid
     (case rep of RepXml s \<Rightarrow> f s w | _ \<Rightarrow> Inr (False, w)))"
  by (rule new_object_creates) (cases rep; simp add: assms creates_nothing)

lemma object_createsD:
  assumes "object_creates ents k oid f" and "f w = Inr (r, w')"
  shows "r = None \<Longrightarrow> ents w' = ents w"
    and "r = Some ob \<Longrightarrow> xo_id ob = oid \<and> class_kind (xo_class ob) = k \<and> xo_reader ob = Reader_new \<and>
          objectid_to_raw oid \<notin> ents w k \<and> ents w' = (ents w)(k := insert (objectid_to_raw oid) (ents w k))"
  using assms(1) [unfolded object_creates_def, rule_format, OF assms(2)] by simp_all

lemma pc_world_set [simp]: "pc_world (pc_set_world w s) = w" "pc_objects (fst (pc_set_world w s)) = pc_objects (fst s)"
  by (simp_all add: pc_world_def pc_set_world_def)

lemma client_ok_same:
  "client_ok ents s \<Longrightarrow> ents w = ents (pc_world s) \<Longrightarrow> client_ok ents (pc_set_world w s)"
  by (simp add: client_ok_def)

lemma client_ok_liveness:
  assumes "client_ok ents s"
  shows "client_ok ents (snd (pc_get_state now (fst s)), snd s)" "client_ok ents (pc_update_state now (fst s), snd s)"
  using assms by (simp_all add: client_ok_def pc_world_def pc_get_state_def pc_update_state_def Let_def)

lemma client_okD:
  assumes "client_ok ents s"
  shows "pc_objects (fst s) oid = Some ob \<Longrightarrow> xo_id ob = oid \<and> class_kind (xo_class ob) = objectid_kind oid \<and> reader_ok (xo_reader ob)"
    and "objectid_to_raw oid \<in> ents (pc_world s) (objectid_kind oid) \<longleftrightarrow> oid \<in> dom (pc_objects (fst s))"
  using assms unfolding client_ok_def by (blast, metis objectid_eqI)

text \<open>Putting an object the middleware has just made into the table.\<close>

lemma pc_emplace_ok:
  assumes ok: "client_ok ents s" and "object_creates ents (objectid_kind oid) oid f"
    and r: "pc_emplace M oid result s (f (pc_world s)) = Inr (rv, result', s')"
  shows "client_ok ents s'" and "rv \<longleftrightarrow> pc_objects (fst s') \<noteq> pc_objects (fst s)"
    and "res_status result' = (if rv then res_status result else STATUS_ERR_DDS_ERROR)"
    and "rv \<Longrightarrow> \<exists>ob. pc_objects (fst s') = (pc_objects (fst s))(oid \<mapsto> ob) \<and> class_kind (xo_class ob) = objectid_kind oid"
proof -
  obtain c w where c: "f (pc_world s) = Inr (c, w)" using r by (auto simp: pc_emplace_def split: sum.splits)
  note c' = object_createsD [OF assms(2) c]
  have "client_ok ents s' \<and> (rv \<longleftrightarrow> pc_objects (fst s') \<noteq> pc_objects (fst s)) \<and>
      res_status result' = (if rv then res_status result else STATUS_ERR_DDS_ERROR) \<and>
      (rv \<longrightarrow> (\<exists>ob. pc_objects (fst s') = (pc_objects (fst s))(oid \<mapsto> ob) \<and> class_kind (xo_class ob) = objectid_kind oid))"
  proof (cases c)
    case None
    then have "s' = pc_set_world w s" "\<not> rv" "res_status result' = STATUS_ERR_DDS_ERROR" using r c by (auto simp: pc_emplace_def)
    then show ?thesis using client_ok_same [OF ok] c'(1) None by simp
  next
    case (Some ob)
    note ob = c'(2) [OF Some]
    have free: "pc_objects (fst s) oid = None" using client_okD(2) [OF ok, of oid] ob by auto
    then have s': "s' = ((fst (pc_set_world w s))\<lparr>pc_objects := (pc_objects (fst s))(oid \<mapsto> ob)\<rparr>, snd w)" "rv" "result' = result"
      using r c Some by (auto simp: pc_emplace_def)
    have world: "pc_world s' = w" by (simp add: s' pc_world_def pc_set_world_def)
    have "client_ok ents s'"
      unfolding client_ok_def world
    proof (intro conjI allI impI)
      fix oid' ob'
      assume "pc_objects (fst s') oid' = Some ob'"
      then show "xo_id ob' = oid'" "class_kind (xo_class ob') = objectid_kind oid'" "reader_ok (xo_reader ob')"
        using client_okD(1) [OF ok, of oid' ob'] ob by (auto simp: s' reader_ok_new split: if_splits)
    next
      fix k i
      show "i \<in> ents w k \<longleftrightarrow> (\<exists>oid' \<in> dom (pc_objects (fst s')). objectid_kind oid' = k \<and> objectid_to_raw oid' = i)"
        using ok ob by (auto simp: client_ok_def s')
    qed
    moreover have eq: "pc_objects (fst s') = (pc_objects (fst s))(oid \<mapsto> ob)" by (simp add: s'(1))
    moreover have "pc_objects (fst s') \<noteq> pc_objects (fst s)"
    proof
      assume "pc_objects (fst s') = pc_objects (fst s)"
      from fun_cong [OF this, of oid] show False using free by (simp add: eq)
    qed
    moreover have "rv \<longleftrightarrow> True" "res_status result' = res_status result" using s'(2,3) by simp_all
    ultimately show ?thesis using ob by auto
  qed
  then show "client_ok ents s'" "rv \<longleftrightarrow> pc_objects (fst s') \<noteq> pc_objects (fst s)"
    "res_status result' = (if rv then res_status result else STATUS_ERR_DDS_ERROR)"
    "rv \<Longrightarrow> \<exists>ob. pc_objects (fst s') = (pc_objects (fst s))(oid \<mapsto> ob) \<and> class_kind (xo_class ob) = objectid_kind oid"
    by blast+
qed

text \<open>What a creation does to the table and to the result, whatever its kind.\<close>

fun ov_parent :: "ObjectVariant \<Rightarrow> ObjectId option" where
  "ov_parent (VariantTOPIC r) = Some (pc_parent_id OBJK_PARTICIPANT (r3_parent_id r))"
| "ov_parent (VariantPUBLISHER r) = Some (pc_parent_id OBJK_PARTICIPANT (rb_participant_id r))"
| "ov_parent (VariantSUBSCRIBER r) = Some (pc_parent_id OBJK_PARTICIPANT (rb_participant_id r))"
| "ov_parent (VariantDATAWRITER r) = Some (pc_parent_id OBJK_PUBLISHER (r3_parent_id r))"
| "ov_parent (VariantDATAREADER r) = Some (pc_parent_id OBJK_SUBSCRIBER (r3_parent_id r))"
| "ov_parent (VariantREQUESTER r) = Some (pc_parent_id OBJK_PARTICIPANT (r3_parent_id r))"
| "ov_parent (VariantREPLIER r) = Some (pc_parent_id OBJK_PARTICIPANT (r3_parent_id r))"
| "ov_parent _ = None"

fun ov_supported :: "ObjectVariant \<Rightarrow> bool" where
  "ov_supported (VariantAGENT _) = False"
| "ov_supported (VariantCLIENT _) = False"
| "ov_supported (VariantAPPLICATION _) = False"
| "ov_supported (VariantQOSPROFILE _) = False"
| "ov_supported (VariantTYPE _) = False"
| "ov_supported (VariantOther _) = False"
| "ov_supported _ = True"

definition parent_known :: "ObjectVariant \<Rightarrow> (ObjectId \<rightharpoonup> XRCEObject) \<Rightarrow> bool" where
  "parent_known rep objs \<longleftrightarrow> (case ov_parent rep of None \<Rightarrow> True | Some p \<Rightarrow> objs p \<noteq> None)"

definition creation_effect :: "ObjectId \<Rightarrow> ObjectVariant \<Rightarrow> StatusValue \<Rightarrow> (ObjectId \<rightharpoonup> XRCEObject) \<Rightarrow>
    bool \<Rightarrow> StatusValue \<Rightarrow> (ObjectId \<rightharpoonup> XRCEObject) \<Rightarrow> bool" where
  "creation_effect oid rep status objs rv status' objs' \<longleftrightarrow>
     (if rv then ov_supported rep \<and> parent_known rep objs \<and> status' = status \<and>
                 (\<exists>ob. objs' = objs(oid \<mapsto> ob) \<and> class_kind (xo_class ob) = ov_d rep)
      else objs' = objs \<and>
           status' = (if \<not> ov_supported rep then status
                      else if parent_known rep objs then STATUS_ERR_DDS_ERROR else STATUS_ERR_UNKNOWN_REFERENCE))"

lemma under_parent_effect:
  assumes "ov_parent rep = Some p" and "ov_supported rep" and "client_ok ents s"
    and "pc_under_parent p result s (pc_emplace M oid result s (f (pc_world s))) = Inr (rv, result', s')"
    and "object_creates ents (ov_d rep) oid f" and "objectid_kind oid = ov_d rep"
  shows "client_ok ents s' \<and> creation_effect oid rep (res_status result) (pc_objects (fst s)) rv (res_status result') (pc_objects (fst s'))"
proof (cases "pc_objects (fst s) p")
  case None
  then show ?thesis using assms(1-4) by (auto simp: pc_under_parent_def creation_effect_def parent_known_def)
next
  case (Some ob)
  then have "pc_emplace M oid result s (f (pc_world s)) = Inr (rv, result', s')"
    using assms(4) by (simp add: pc_under_parent_def)
  from pc_emplace_ok [where f = f, OF assms(3) _ this] show ?thesis
    using assms(1,2,5,6) Some by (auto simp: creation_effect_def parent_known_def)
qed

text \<open>Table 7 of the XRCE specification, which \<open>create_object\<close> cites.\<close>

datatype table7_entry = Make | Answer StatusValue

definition table7 :: "CreationMode \<Rightarrow> bool \<Rightarrow> bool \<Rightarrow> table7_entry" where
  "table7 mode exists matches =
     (if \<not> exists then Make
      else if cm_reuse mode \<and> matches then Answer STATUS_OK_MATCHED
      else if cm_replace mode then Make
      else Answer (if cm_reuse mode then STATUS_ERR_MISMATCH else STATUS_ERR_ALREADY_EXISTS))"

definition pc_matches :: "('m \<times> 'g) Middleware \<Rightarrow> ObjectId \<Rightarrow> ObjectVariant \<Rightarrow> ('m, 'c, 'g) client_state \<Rightarrow> bool" where
  "pc_matches M oid rep s \<longleftrightarrow>
     (case pc_objects (fst s) oid of Some ob \<Rightarrow> object_matched M ob rep (pc_world s) = Inr True | None \<Rightarrow> False)"

lemma table7_simps [simp]:
  "table7 mode False m = Make"
  "\<not> cm_reuse mode \<Longrightarrow> \<not> cm_replace mode \<Longrightarrow> table7 mode True m = Answer STATUS_ERR_ALREADY_EXISTS"
  "\<not> cm_reuse mode \<Longrightarrow> cm_replace mode \<Longrightarrow> table7 mode True m = Make"
  "cm_reuse mode \<Longrightarrow> table7 mode True True = Answer STATUS_OK_MATCHED"
  "cm_reuse mode \<Longrightarrow> \<not> cm_replace mode \<Longrightarrow> table7 mode True False = Answer STATUS_ERR_MISMATCH"
  "cm_reuse mode \<Longrightarrow> cm_replace mode \<Longrightarrow> table7 mode True False = Make"
  by (simp_all add: table7_def)

lemma pc_object_id_kind: "ov_supported rep \<Longrightarrow> objectid_kind (pc_object_id pre rep) = ov_d rep"
  by (cases rep) (simp_all add: pc_object_id_def objectid_kind_def objk_defs bit.conj_disj_distrib2 and.assoc)

text \<open>The operations of a client one after another.\<close>

datatype pc_op = PcCreate CreationMode ObjectPrefix ObjectVariant | PcDelete ObjectId | PcGetState int | PcUpdateState int

fun pc_step :: "('m \<times> 'g) Middleware \<Rightarrow> pc_op \<Rightarrow> ('m, 'c, 'g) client_state \<Rightarrow> fault + ('m, 'c, 'g) client_state" where
  "pc_step M (PcCreate mode pre rep) s = map_sum id snd (pc_create_object M mode pre rep s)"
| "pc_step M (PcDelete oid) s = Inr (snd (pc_delete_object M oid s))"
| "pc_step M (PcGetState now) s = Inr (snd (pc_get_state now (fst s)), snd s)"
| "pc_step M (PcUpdateState now) s = Inr (pc_update_state now (fst s), snd s)"

fun pc_run :: "('m \<times> 'g) Middleware \<Rightarrow> pc_op list \<Rightarrow> ('m, 'c, 'g) client_state \<Rightarrow> fault + ('m, 'c, 'g) client_state" where
  "pc_run M [] s = Inr s"
| "pc_run M (op # ops) s = (case pc_step M op s of Inl e \<Rightarrow> Inl e | Inr s \<Rightarrow> pc_run M ops s)"

text \<open>No operation on objects changes who the client is, nor its session.\<close>

definition pc_identity :: "('m, 'c) ProxyClient \<Rightarrow> CLIENT_Representation \<times> 'c Session" where
  "pc_identity c = (pc_representation c, pc_session c)"

lemma pc_set_world_identity [simp]: "pc_identity (fst (pc_set_world w s)) = pc_identity (fst s)"
  by (simp add: pc_set_world_def pc_identity_def)

lemma pc_set_world_frame [simp]:
  "pc_representation (fst (pc_set_world w s)) = pc_representation (fst s)" "pc_session (fst (pc_set_world w s)) = pc_session (fst s)"
  by (simp_all add: pc_set_world_def)

lemma pc_objects_identity [simp]: "pc_identity (c\<lparr>pc_objects := objs\<rparr>) = pc_identity c"
  by (simp add: pc_identity_def)

lemma pc_emplace_identity:
  "pc_emplace M oid result s r = Inr (rv, result', s') \<Longrightarrow> pc_identity (fst s') = pc_identity (fst s)"
  by (auto simp: pc_emplace_def split: sum.splits option.splits prod.splits bool.splits)

lemma pc_under_parent_identity:
  assumes "pc_under_parent p result s (pc_emplace M oid result s r) = Inr (rv, result', s')"
  shows "pc_identity (fst s') = pc_identity (fst s)"
  using assms by (auto simp: pc_under_parent_def split: option.splits dest: pc_emplace_identity)

lemma pc_create_by_kind_identity:
  "pc_create_by_kind M oid rep result s = Inr (rv, result', s') \<Longrightarrow> pc_identity (fst s') = pc_identity (fst s)"
  by (cases rep)
    (simp_all add: pc_create_participant_def pc_create_topic_def pc_create_publisher_def pc_create_subscriber_def
      pc_create_datawriter_def pc_create_datareader_def pc_create_requester_def pc_create_replier_def Let_def
      pc_emplace_identity pc_under_parent_identity)

lemma pc_delete_unlock_identity: "pc_identity (fst (snd (pc_delete_object_unlock M oid s))) = pc_identity (fst s)"
  by (auto simp: pc_delete_object_unlock_def split: option.splits)

lemma map_sum_snd_Inr: "map_sum id snd x = Inr y \<Longrightarrow> \<exists>a. x = Inr (a, y)"
  by (cases x) auto

lemma pc_create_object_identity:
  assumes "pc_create_object M mode pre rep s = Inr (result, s')"
  shows "pc_identity (fst s') = pc_identity (fst s)"
proof -
  have again: "map_sum id snd (pc_create_by_kind M oid rep result_ok t) = Inr (result, s') \<Longrightarrow>
      pc_identity (fst s') = pc_identity (fst t)" for oid t
    using map_sum_snd_Inr [of "pc_create_by_kind M oid rep result_ok t" "(result, s')"] pc_create_by_kind_identity by blast
  show ?thesis
    using assms again [of "pc_object_id pre rep" s] pc_delete_unlock_identity [of M "pc_object_id pre rep" s]
      again [of "pc_object_id pre rep" "snd (pc_delete_object_unlock M (pc_object_id pre rep) s)"]
    by (auto simp: pc_create_object_def Let_def split: option.splits sum.splits bool.splits if_splits)
qed

lemma pc_step_representation: "pc_step M op s = Inr s' \<Longrightarrow> pc_representation (fst s') = pc_representation (fst s)"
proof (cases op)
  case (PcCreate mode pre rep)
  assume "pc_step M op s = Inr s'"
  then obtain result where "pc_create_object M mode pre rep s = Inr (result, s')"
    using PcCreate map_sum_snd_Inr [of "pc_create_object M mode pre rep s" s'] by auto
  then show ?thesis using pc_create_object_identity by (fastforce simp: pc_identity_def)
next
  case (PcDelete oid)
  assume "pc_step M op s = Inr s'"
  then show ?thesis using PcDelete pc_delete_unlock_identity [of M oid s]
    by (auto simp: pc_delete_object_def pc_identity_def split: prod.splits bool.splits)
qed (auto simp: pc_get_state_def pc_update_state_def Let_def)

text \<open>The contract, over the world of a client.\<close>

locale client_middleware = middleware_contract M ents
  for M :: "('m \<times> 'g) Middleware" and ents :: "'m \<times> 'g \<Rightarrow> ObjectKind \<Rightarrow> u16 set"
begin

lemma object_creations:
  "object_creates ents OBJK_PARTICIPANT oid (Participant_create M oid prep)"
  "object_creates ents OBJK_TOPIC oid (Topic_create M oid p rep)"
  "object_creates ents OBJK_DATAWRITER oid (DataWriter_create M oid p rep)"
  "object_creates ents OBJK_DATAREADER oid (DataReader_create M oid p rep)"
  "object_creates ents OBJK_REQUESTER oid (Requester_create M oid p rep)"
  "object_creates ents OBJK_REPLIER oid (Replier_create M oid p rep)"
  "object_creates ents OBJK_PUBLISHER oid (Publisher_create M oid p brep)"
  "object_creates ents OBJK_SUBSCRIBER oid (Subscriber_create M oid p brep)"
  unfolding Participant_create_def [abs_def] Topic_create_def [abs_def] DataWriter_create_def [abs_def] DataReader_create_def [abs_def] Requester_create_def [abs_def] Replier_create_def [abs_def] Publisher_create_def [abs_def] Subscriber_create_def [abs_def]
  by (rule rep3_creates [where cl = Participant, unfolded class_kind.simps] create_participant | rule rep3_creates [where cl = Topic, unfolded class_kind.simps] create_topic | rule rep3_creates [where cl = DataWriter, unfolded class_kind.simps] create_datawriter | rule rep3_creates [where cl = DataReader, unfolded class_kind.simps] create_datareader | rule rep3_creates [where cl = Requester, unfolded class_kind.simps] create_requester | rule rep3_creates [where cl = Replier, unfolded class_kind.simps] create_replier | rule rep_bin_creates [where cl = Publisher, unfolded class_kind.simps] create_publisher | rule rep_bin_creates [where cl = Subscriber, unfolded class_kind.simps] create_subscriber)+

lemma create_by_kind_effect:
  assumes ok: "client_ok ents s" and kind: "ov_supported rep \<Longrightarrow> objectid_kind oid = ov_d rep"
    and r: "pc_create_by_kind M oid rep result s = Inr (rv, result', s')"
  shows "client_ok ents s' \<and> creation_effect oid rep (res_status result) (pc_objects (fst s)) rv (res_status result') (pc_objects (fst s'))"
proof (cases rep)
  case (VariantPARTICIPANT p)
  then have "objectid_kind oid = OBJK_PARTICIPANT"
    and e: "pc_emplace M oid result s (Participant_create M oid p (pc_world s)) = Inr (rv, result', s')"
    using kind r by (simp_all add: pc_create_participant_def)
  then show ?thesis
    using pc_emplace_ok [where f = "Participant_create M oid p", OF ok _ e] object_creations(1) [of oid p]
    by (auto simp: creation_effect_def parent_known_def VariantPARTICIPANT)
next
  case (VariantTOPIC c)
  with kind r show ?thesis
    by (intro under_parent_effect [where f = "Topic_create M oid (objectid_to_raw (pc_parent_id OBJK_PARTICIPANT (r3_parent_id c))) c"
          and result = result, OF _ _ ok])
       (simp_all add: pc_create_topic_def Let_def object_creations)
next
  case (VariantPUBLISHER c)
  with kind r show ?thesis
    by (intro under_parent_effect [where f = "Publisher_create M oid (objectid_to_raw (pc_parent_id OBJK_PARTICIPANT (rb_participant_id c))) c"
          and result = result, OF _ _ ok])
       (simp_all add: pc_create_publisher_def Let_def object_creations)
next
  case (VariantSUBSCRIBER c)
  with kind r show ?thesis
    by (intro under_parent_effect [where f = "Subscriber_create M oid (objectid_to_raw (pc_parent_id OBJK_PARTICIPANT (rb_participant_id c))) c"
          and result = result, OF _ _ ok])
       (simp_all add: pc_create_subscriber_def Let_def object_creations)
next
  case (VariantDATAWRITER c)
  with kind r show ?thesis
    by (intro under_parent_effect [where f = "DataWriter_create M oid (objectid_to_raw (pc_parent_id OBJK_PUBLISHER (r3_parent_id c))) c"
          and result = result, OF _ _ ok])
       (simp_all add: pc_create_datawriter_def Let_def object_creations)
next
  case (VariantDATAREADER c)
  with kind r show ?thesis
    by (intro under_parent_effect [where f = "DataReader_create M oid (objectid_to_raw (pc_parent_id OBJK_SUBSCRIBER (r3_parent_id c))) c"
          and result = result, OF _ _ ok])
       (simp_all add: pc_create_datareader_def Let_def object_creations)
next
  case (VariantREQUESTER c)
  with kind r show ?thesis
    by (intro under_parent_effect [where f = "Requester_create M oid (objectid_to_raw (pc_parent_id OBJK_PARTICIPANT (r3_parent_id c))) c"
          and result = result, OF _ _ ok])
       (simp_all add: pc_create_requester_def Let_def object_creations)
next
  case (VariantREPLIER c)
  with kind r show ?thesis
    by (intro under_parent_effect [where f = "Replier_create M oid (objectid_to_raw (pc_parent_id OBJK_PARTICIPANT (r3_parent_id c))) c"
          and result = result, OF _ _ ok])
       (simp_all add: pc_create_replier_def Let_def object_creations)
qed (use r ok in \<open>simp_all add: creation_effect_def\<close>)

lemma object_destroy_ents:
  "ents (object_destroy M ob w) = (ents w)(class_kind (xo_class ob) := ents w (class_kind (xo_class ob)) - {get_raw_id ob})"
  by (cases "xo_class ob")
    (simp_all add: destroy_defs deletesD [OF delete_participant] deletesD [OF delete_topic] deletesD [OF delete_publisher]
      deletesD [OF delete_subscriber] deletesD [OF delete_datawriter] deletesD [OF delete_datareader]
      deletesD [OF delete_requester] deletesD [OF delete_replier])

lemma delete_unlock_effect:
  assumes ok: "client_ok ents s"
  shows "client_ok ents (snd (pc_delete_object_unlock M oid s))"
    and "pc_objects (fst (snd (pc_delete_object_unlock M oid s))) = (pc_objects (fst s))(oid := None)"
    and "fst (pc_delete_object_unlock M oid s) \<longleftrightarrow> pc_objects (fst s) oid \<noteq> None"
proof -
  let ?s' = "snd (pc_delete_object_unlock M oid s)"
  have all: "client_ok ents ?s' \<and> pc_objects (fst ?s') = (pc_objects (fst s))(oid := None)
      \<and> (fst (pc_delete_object_unlock M oid s) \<longleftrightarrow> pc_objects (fst s) oid \<noteq> None)"
  proof (cases "pc_objects (fst s) oid")
    case None
    then show ?thesis using ok by (auto simp: pc_delete_object_unlock_def)
  next
    case (Some ob)
    note ob = client_okD(1) [OF ok Some]
    define w where "w = object_destroy M ob (pc_world s)"
    have s': "?s' = pc_set_world w ((fst s)\<lparr>pc_objects := (pc_objects (fst s))(oid := None)\<rparr>, snd s)"
      by (simp add: pc_delete_object_unlock_def Some w_def erase_def)
    have world: "pc_world ?s' = w" by (simp add: s')
    have objs: "pc_objects (fst ?s') = (pc_objects (fst s))(oid := None)" by (simp add: s')
    have ents: "ents w = (ents (pc_world s))(objectid_kind oid := ents (pc_world s) (objectid_kind oid) - {objectid_to_raw oid})"
      using ob by (simp add: w_def object_destroy_ents get_raw_id_def)
    have "client_ok ents ?s'"
      unfolding client_ok_def world objs ents
    proof (intro conjI allI impI)
      fix oid' ob'
      assume "((pc_objects (fst s))(oid := None)) oid' = Some ob'"
      then show "xo_id ob' = oid'" "class_kind (xo_class ob') = objectid_kind oid'" "reader_ok (xo_reader ob')"
        using client_okD(1) [OF ok, of oid' ob'] by (auto split: if_splits)
    next
      fix k i
      have "i \<in> ents (pc_world s) k \<longleftrightarrow> (\<exists>oid' \<in> dom (pc_objects (fst s)). objectid_kind oid' = k \<and> objectid_to_raw oid' = i)"
        using ok by (simp add: client_ok_def)
      then show "i \<in> ((ents (pc_world s))(objectid_kind oid := ents (pc_world s) (objectid_kind oid) - {objectid_to_raw oid})) k
          \<longleftrightarrow> (\<exists>oid' \<in> dom ((pc_objects (fst s))(oid := None)). objectid_kind oid' = k \<and> objectid_to_raw oid' = i)"
        using objectid_eqI [of _ oid] by (cases "k = objectid_kind oid"; cases "i = objectid_to_raw oid") (simp_all, blast+)
    qed
    then show ?thesis using objs Some by (simp add: pc_delete_object_unlock_def)
  qed
  then show "client_ok ents ?s'" "pc_objects (fst ?s') = (pc_objects (fst s))(oid := None)"
    "fst (pc_delete_object_unlock M oid s) \<longleftrightarrow> pc_objects (fst s) oid \<noteq> None" by blast+
qed

lemma recreate_effect:
  assumes ok: "client_ok ents s" and r: "map_sum id snd (pc_create_by_kind M (pc_object_id pre rep) rep result_ok s) = Inr (result, s')"
  shows "client_ok ents s' \<and> (\<exists>rv. creation_effect (pc_object_id pre rep) rep STATUS_OK (pc_objects (fst s)) rv
     (res_status result) (pc_objects (fst s')))"
proof -
  obtain rv where "pc_create_by_kind M (pc_object_id pre rep) rep result_ok s = Inr (rv, result, s')"
    using map_sum_snd_Inr [OF r] by blast
  note e = create_by_kind_effect [OF ok pc_object_id_kind this]
  then show ?thesis unfolding result_ok_status by (intro conjI exI [of _ rv]) (rule conjunct1 conjunct2, assumption)+
qed

lemma create_object_effect:
  assumes ok: "client_ok ents s" and r: "pc_create_object M mode pre rep s = Inr (result, s')"
  shows "client_ok ents s' \<and>
     (case table7 mode (pc_objects (fst s) (pc_object_id pre rep) \<noteq> None) (pc_matches M (pc_object_id pre rep) rep s) of
        Answer status \<Rightarrow> s' = s \<and> res_status result = status
      | Make \<Rightarrow> (\<exists>rv. creation_effect (pc_object_id pre rep) rep STATUS_OK ((pc_objects (fst s))(pc_object_id pre rep := None)) rv
                   (res_status result) (pc_objects (fst s'))))"
proof (cases "pc_objects (fst s) (pc_object_id pre rep)")
  case None
  then have "(pc_objects (fst s))(pc_object_id pre rep := None) = pc_objects (fst s)" by (simp add: fun_upd_idem)
  then show ?thesis using recreate_effect [OF ok] r None by (simp add: pc_create_object_def)
next
  case (Some ob)
  note del = delete_unlock_effect [OF ok, of "pc_object_id pre rep"]
  note again = recreate_effect [OF del(1), unfolded del(2), of pre rep result s']
  have make: "map_sum id snd (pc_create_by_kind M (pc_object_id pre rep) rep result_ok
      (snd (pc_delete_object_unlock M (pc_object_id pre rep) s))) = Inr (result, s')
      \<Longrightarrow> table7 mode (pc_objects (fst s) (pc_object_id pre rep) \<noteq> None) (pc_matches M (pc_object_id pre rep) rep s) = Make \<Longrightarrow> ?thesis"
    using again by (simp only: table7_entry.case)
  have answer: ?thesis if "Inr (result_ok\<lparr>res_status := status\<rparr>, s) = Inr (result, s')"
      and t: "table7 mode (pc_objects (fst s) (pc_object_id pre rep) \<noteq> None) (pc_matches M (pc_object_id pre rep) rep s) = Answer status" for status
  proof -
    have "s' = s" "res_status result = status" using that(1) by auto
    then show ?thesis using ok unfolding t by (simp only: table7_entry.case)
  qed
  show ?thesis
  proof (cases "cm_reuse mode")
    case False
    show ?thesis
    proof (cases "cm_replace mode")
      case True
      then show ?thesis using make r Some \<open>\<not> cm_reuse mode\<close> by (simp add: pc_create_object_def Let_def)
    next
      case no: False
      show ?thesis by (rule answer [of STATUS_ERR_ALREADY_EXISTS]) (use r Some no \<open>\<not> cm_reuse mode\<close> in \<open>simp_all add: pc_create_object_def Let_def\<close>)
    qed
  next
    case reuse: True
    then obtain m where m: "object_matched M ob rep (pc_world s) = Inr m"
      using Some r by (auto simp: pc_create_object_def Let_def split: sum.splits if_splits)
    show ?thesis
    proof (cases m)
      case True
      show ?thesis
        by (rule answer [of STATUS_OK_MATCHED])
          (use r Some reuse m True in \<open>simp_all add: pc_create_object_def Let_def pc_matches_def split: if_splits\<close>)
    next
      case no: False
      then have nm: "\<not> pc_matches M (pc_object_id pre rep) rep s" using Some m by (simp add: pc_matches_def)
      show ?thesis
      proof (cases "cm_replace mode")
        case True
        then show ?thesis using make r Some reuse m no nm by (simp add: pc_create_object_def Let_def)
      next
        case False
        show ?thesis
          by (rule answer [of STATUS_ERR_MISMATCH]) (use r Some reuse m no nm False in \<open>simp_all add: pc_create_object_def Let_def\<close>)
      qed
    qed
  qed
qed

lemma delete_object_keeps: "client_ok ents s \<Longrightarrow> client_ok ents (snd (pc_delete_object M oid s))"
  using delete_unlock_effect(1) [of s oid] by (auto simp: pc_delete_object_def split: prod.splits bool.splits)

lemma pc_step_keeps: "client_ok ents s \<Longrightarrow> pc_step M op s = Inr s' \<Longrightarrow> client_ok ents s'"
proof (cases op)
  case (PcCreate mode pre rep)
  assume ok: "client_ok ents s" and "pc_step M op s = Inr s'"
  then obtain result where "pc_create_object M mode pre rep s = Inr (result, s')"
    using PcCreate by (cases "pc_create_object M mode pre rep s") auto
  from create_object_effect [OF ok this] show ?thesis by simp
next
  case (PcDelete oid)
  assume "client_ok ents s" and "pc_step M op s = Inr s'"
  then show ?thesis using delete_object_keeps [of s oid] PcDelete by auto
qed (auto intro: client_ok_liveness)

lemma pc_run_keeps: "client_ok ents s \<Longrightarrow> pc_run M ops s = Inr s' \<Longrightarrow> client_ok ents s'"
  by (induction ops arbitrary: s) (auto split: sum.splits dest: pc_step_keeps)

text \<open>Destroying every object of the table empties the middleware.\<close>

lemma destroy_all:
  assumes "client_ok ents s"
  shows "ents (fold (\<lambda>object_id w. case pc_objects (fst s) object_id of Some ob \<Rightarrow> object_destroy M ob w | None \<Rightarrow> w) order w) k
     = ents w k - objectid_to_raw ` {oid \<in> set order \<inter> dom (pc_objects (fst s)). objectid_kind oid = k}"
proof (induction order arbitrary: w)
  case (Cons a order)
  have "ents (case pc_objects (fst s) a of Some ob \<Rightarrow> object_destroy M ob w | None \<Rightarrow> w) k
      = ents w k - objectid_to_raw ` {oid \<in> {a} \<inter> dom (pc_objects (fst s)). objectid_kind oid = k}"
  proof (cases "pc_objects (fst s) a")
    case (Some ob)
    then have "{oid \<in> {a} \<inter> dom (pc_objects (fst s)). objectid_kind oid = k} = (if objectid_kind a = k then {a} else {})"
      by auto
    then show ?thesis using client_okD(1) [OF assms Some] Some by (simp add: object_destroy_ents get_raw_id_def)
  next
    case None
    then have "{oid \<in> {a} \<inter> dom (pc_objects (fst s)). objectid_kind oid = k} = {}" by auto
    then show ?thesis by (simp only: None option.case image_empty Diff_empty)
  qed
  moreover have "{oid \<in> set (a # order) \<inter> dom (pc_objects (fst s)). objectid_kind oid = k}
      = {oid \<in> {a} \<inter> dom (pc_objects (fst s)). objectid_kind oid = k} \<union> {oid \<in> set order \<inter> dom (pc_objects (fst s)). objectid_kind oid = k}"
    by auto
  ultimately show ?case by (simp add: Cons.IH image_Un Diff_Un set_diff_eq Int_def del: set_simps)
qed simp

lemma release_empties:
  assumes ok: "client_ok ents s" and order: "set order = dom (pc_objects (fst s))"
  shows "ents (pc_world (pc_release M order s)) k = {}"
proof -
  have "ents (pc_world s) k = objectid_to_raw ` {oid \<in> dom (pc_objects (fst s)). objectid_kind oid = k}"
  proof (rule set_eqI)
    fix i
    have "i \<in> ents (pc_world s) k \<longleftrightarrow> (\<exists>oid \<in> dom (pc_objects (fst s)). objectid_kind oid = k \<and> objectid_to_raw oid = i)"
      using ok unfolding client_ok_def by blast
    then show "i \<in> ents (pc_world s) k \<longleftrightarrow> i \<in> objectid_to_raw ` {oid \<in> dom (pc_objects (fst s)). objectid_kind oid = k}"
      by blast
  qed
  then show ?thesis using destroy_all [OF ok, of order "pc_world s" k] by (simp add: pc_release_def order)
qed

end

interpretation ced_client: client_middleware ced_middleware ced_ents
  by unfold_locales

section \<open>Properties\<close>

text \<open>A client of the \<open>Ced\<close> middleware that has just been made.\<close>

definition demo_representation :: CLIENT_Representation where
  "demo_representation = \<lparr>cr_xrce_cookie = (0x58, 0x52, 0x43, 0x45), cr_xrce_version = (1, 0), cr_xrce_vendor_id = (1, 15),
     cr_client_key = (0xAA, 0xBB, 0xCC, 0xDD), cr_session_id = 0x81, cr_properties = None, cr_mtu = 512\<rparr>"

definition ced_factory :: "CedMiddleware middleware_factory" where
  "ced_factory = \<lparr>new_FastMiddleware = CedMiddleware_new 0, new_FastDDSMiddleware = (\<lambda>_. CedMiddleware_new 0),
     new_CedMiddleware = CedMiddleware_new\<rparr>"

definition demo_client :: "(CedMiddleware, unit, CedTopicManager) client_state" where
  "demo_client = (ProxyClient_new ced_factory 0 demo_representation KindCED Map.empty, CedTopicManager_init)"

definition demo_participant :: ObjectVariant where
  "demo_participant = VariantPARTICIPANT \<lparr>pr_representation = Rep3Reference ''p'', pr_domain_id = 0\<rparr>"

definition demo_mode :: CreationMode where
  "demo_mode = \<lparr>cm_reuse = False, cm_replace = True\<rparr>"

lemma demo_client_empty: "pc_objects (fst demo_client) = Map.empty" "ced_ents (pc_world demo_client) k = {}"
  by (simp_all add: demo_client_def ProxyClient_new_def ced_factory_def pc_world_def ced_ents_def CedMiddleware_new_empty)

lemma demo_created:
  "\<exists>s'. pc_create_object ced_middleware demo_mode (0x00, 0x10) demo_participant demo_client = Inr (result_ok, s')
     \<and> pc_objects (fst s') = [(0x00, 0x11) \<mapsto> XRCEObject_new Participant (0x00, 0x11)]"
  by (simp add: pc_create_object_def demo_client_def ProxyClient_new_def ced_factory_def demo_participant_def
      pc_object_id_def objk_defs pc_create_participant_def Participant_create_def pc_world_def ced_middleware_def new_object_def
      pc_emplace_def ced_create_participant_def CedMiddleware_new_empty pc_set_world_def emplace_def Let_def)

text \<open>C22. Creating an object follows Table 7 of the specification. Whatever middleware keeps the contract:
  an identifier in use is answered as the creation mode and the comparison with the existing object
  say, with nothing changed; otherwise what was under the identifier goes and the object is made, and
  then either the table has it and the answer is OK, or the table lacks it and the answer is an error,
  of an unknown parent or of the middleware; only for kinds the agent does not support is the answer
  OK without an object. The table and the middleware go on agreeing.\<close>

theorem create_object_follows_table7:
  assumes "client_middleware M ents" and "client_ok ents s" and "pc_create_object M mode pre rep s = Inr (result, s')"
  shows "client_ok ents s' \<and>
     (case table7 mode (pc_objects (fst s) (pc_object_id pre rep) \<noteq> None) (pc_matches M (pc_object_id pre rep) rep s) of
        Answer status \<Rightarrow> s' = s \<and> res_status result = status
      | Make \<Rightarrow> (\<exists>rv. creation_effect (pc_object_id pre rep) rep STATUS_OK ((pc_objects (fst s))(pc_object_id pre rep := None)) rv
                   (res_status result) (pc_objects (fst s'))))"
  by (rule client_middleware.create_object_effect [OF assms])

theorem create_object_follows_table7_witness:
  "\<exists>s'. pc_create_object ced_middleware demo_mode (0x00, 0x10) demo_participant demo_client = Inr (result_ok, s')
     \<and> client_ok ced_ents s'"
proof -
  obtain s' where s': "pc_create_object ced_middleware demo_mode (0x00, 0x10) demo_participant demo_client = Inr (result_ok, s')"
    using demo_created by blast
  have "client_ok ced_ents demo_client" by (simp add: client_ok_def demo_client_empty)
  from create_object_follows_table7 [OF ced_client.client_middleware_axioms this s'] s' show ?thesis by blast
qed

text \<open>C23. Over any operations of a client, in any order, with any creation mode and whatever fails, the table
  of the client and the middleware agree: the middleware has an entity exactly for each object of the
  table, and each object is under its own identifier, of the class the identifier says. Releasing the
  client then leaves nothing in the middleware, in whatever order the objects go.\<close>

theorem client_table_matches_middleware:
  assumes "client_middleware M ents" and "pc_objects (fst s) = Map.empty" and "\<forall>k. ents (pc_world s) k = {}"
    and "pc_run M ops s = Inr s'"
  shows "client_ok ents s' \<and>
     (\<forall>order k. set order = dom (pc_objects (fst s')) \<longrightarrow> ents (pc_world (pc_release M order s')) k = {})"
proof -
  have "client_ok ents s" using assms(2,3) by (simp add: client_ok_def)
  from client_middleware.pc_run_keeps [OF assms(1) this assms(4)] show ?thesis
    using client_middleware.release_empties [OF assms(1)] by blast
qed


theorem client_table_matches_middleware_witness:
  "\<exists>s'. pc_run ced_middleware [PcCreate demo_mode (0x00, 0x10) demo_participant] demo_client = Inr s' \<and>
     pc_objects (fst s') = [(0x00, 0x11) \<mapsto> XRCEObject_new Participant (0x00, 0x11)] \<and> client_ok ced_ents s'"
proof -
  obtain s' where s': "pc_create_object ced_middleware demo_mode (0x00, 0x10) demo_participant demo_client = Inr (result_ok, s')"
      "pc_objects (fst s') = [(0x00, 0x11) \<mapsto> XRCEObject_new Participant (0x00, 0x11)]"
    using demo_created by blast
  then have r: "pc_run ced_middleware [PcCreate demo_mode (0x00, 0x10) demo_participant] demo_client = Inr s'"
    by (simp del: fun_upd_apply)
  have "\<forall>k. ced_ents (pc_world demo_client) k = {}" by (simp add: demo_client_empty)
  from client_table_matches_middleware [OF ced_client.client_middleware_axioms demo_client_empty(1) this r] r s'(2)
  show ?thesis by blast
qed

text \<open>C33. Asking to reuse a requester or a replier always throws: \<open>matched\<close> asks the representation for its data
  writer, which the representation of a requester or replier does not have; nothing on the way to the
  agent's loop catches the exception.\<close>

theorem requester_reuse_throws:
  assumes "cm_reuse mode" and "pc_objects (fst s) (pc_object_id pre rep) = Some ob"
    and "xo_id ob = pc_object_id pre rep"
    and "(\<exists>r. rep = VariantREQUESTER r) \<and> xo_class ob = Requester \<or> (\<exists>r. rep = VariantREPLIER r) \<and> xo_class ob = Replier"
  shows "pc_create_object M mode pre rep s = Inl BadParamException"
proof -
  have "objectid_kind (xo_id ob) = ov_d rep" using assms(3,4) pc_object_id_kind [of rep pre] by auto
  then have "object_matched M ob rep (pc_world s) = Inl BadParamException"
    using assms(4) by (auto simp: object_matched_def Requester_matched_def Replier_matched_def)
  then show ?thesis using assms(1,2) by (simp add: pc_create_object_def Let_def)
qed

theorem requester_reuse_throws_witness:
  "pc_create_object ced_middleware \<lparr>cm_reuse = True, cm_replace = False\<rparr> (0x00, 0x10)
     (VariantREQUESTER \<lparr>r3_representation = Rep3Reference ''r'', r3_parent_id = (0x00, 0x11)\<rparr>)
     ((fst demo_client)\<lparr>pc_objects := [(0x00, 0x17) \<mapsto> XRCEObject_new Requester (0x00, 0x17)]\<rparr>, snd demo_client)
   = Inl BadParamException"
  by (rule requester_reuse_throws [where ob = "XRCEObject_new Requester (0x00, 0x17)"])
    (simp_all add: pc_object_id_def objk_defs XRCEObject_new_def)

end
