(* ===== verification/Root.thy ===== *)
theory Root
  imports ProxyClient "HOL-Library.Product_Lexorder"
begin

text \<open>
  \<open>Root\<close> (\<open>include/uxr/agent/Root.hpp\<close>, \<open>src/cpp/Root.cpp\<close>): the clients of the agent. The clients are
  shared, so the map holds addresses of a store; a client that leaves the map stays in the store, where
  whoever still points to it finds it. The \<open>std::map\<close> is the list of its entries in the order of their
  keys, and an iterator is a key, or nothing at the end. Each operation runs under the mutex of the
  root.

  \<open>M\<close> is the middleware, \<open>F\<close> makes one for a client, \<open>ord\<close> is the order in which the unordered map of
  objects is cleared, which the standard leaves open.
\<close>

section \<open>The ordered map\<close>

definition omap_emplace :: "'k :: linorder \<Rightarrow> 'v \<Rightarrow> ('k \<times> 'v) list \<Rightarrow> ('k \<times> 'v) list \<times> bool" where
  "omap_emplace k v xs = (case map_of xs k of None \<Rightarrow> (insort_key fst (k, v) xs, True) | Some _ \<Rightarrow> (xs, False))"

definition omap_assign :: "'k \<Rightarrow> 'v \<Rightarrow> ('k \<times> 'v) list \<Rightarrow> ('k \<times> 'v) list" where
  "omap_assign k v xs = map (\<lambda>(k', v'). (k', if k' = k then v else v')) xs"

definition omap_erase :: "'k \<Rightarrow> ('k \<times> 'v) list \<Rightarrow> ('k \<times> 'v) list" where
  "omap_erase k xs = filter (\<lambda>p. fst p \<noteq> k) xs"

definition omap_begin :: "('k \<times> 'v) list \<Rightarrow> 'k option" where
  "omap_begin xs = (case xs of [] \<Rightarrow> None | p # _ \<Rightarrow> Some (fst p))"

definition omap_next :: "'k :: linorder \<Rightarrow> ('k \<times> 'v) list \<Rightarrow> 'k option" where
  "omap_next k xs = omap_begin (filter (\<lambda>p. k < fst p) xs)"

definition omap_ok :: "('k :: linorder \<times> 'v) list \<Rightarrow> bool" where
  "omap_ok xs \<longleftrightarrow> sorted (map fst xs) \<and> distinct (map fst xs)"

lemma map_of_insort: "map_of xs k = None \<Longrightarrow> map_of (insort_key fst (k, v) xs) = (map_of xs)(k \<mapsto> v)"
  by (induction xs) (auto simp: fun_eq_iff)

lemma map_of_omap_assign: "map_of (omap_assign k v xs) k' = (if k' = k then map_option (\<lambda>_. v) (map_of xs k) else map_of xs k')"
  by (induction xs) (auto simp: omap_assign_def)

lemma map_of_omap_erase: "map_of (omap_erase k xs) = (map_of xs)(k := None)"
  by (induction xs) (auto simp: omap_erase_def fun_eq_iff)

lemma omap_assign_keys [simp]: "map fst (omap_assign k v xs) = map fst xs"
  by (induction xs) (auto simp: omap_assign_def)

lemma omap_erase_keys: "map fst (omap_erase k xs) = filter (\<lambda>k'. k' \<noteq> k) (map fst xs)"
  by (induction xs) (auto simp: omap_erase_def)

lemma insort_key_fst: "map fst (insort_key fst p xs) = insort (fst p) (map fst xs)"
  by (induction xs) auto

lemma omap_ok_emplace: "omap_ok xs \<Longrightarrow> omap_ok (fst (omap_emplace k v xs))"
  by (auto simp: omap_ok_def omap_emplace_def insort_key_fst sorted_insort distinct_insort map_of_eq_None_iff split: option.splits)

lemma omap_ok_assign: "omap_ok xs \<Longrightarrow> omap_ok (omap_assign k v xs)"
  by (simp add: omap_ok_def)

lemma distinct_map_insort_snd:
  "distinct (map snd xs) \<Longrightarrow> a \<notin> set (map snd xs) \<Longrightarrow> distinct (map snd (insort_key fst (k, a) xs))"
proof (induction xs)
  case (Cons p xs)
  then show ?case by (cases p) (auto simp: set_insort_key image_iff)
qed simp

lemma distinct_snd_assign:
  assumes "distinct (map fst xs)" and "distinct (map snd xs)" and "a \<notin> set (map snd xs)"
  shows "distinct (map snd (omap_assign k a xs))"
  using assms by (induction xs) (force simp: omap_assign_def)+

lemma omap_ok_erase: "omap_ok xs \<Longrightarrow> omap_ok (omap_erase k xs)"
  by (simp add: omap_ok_def omap_erase_keys sorted_filter [where f = id, simplified])

lemma omap_next_split:
  assumes "omap_ok (xs @ (k, v) # ys)"
  shows "omap_next k (xs @ (k, v) # ys) = omap_begin ys"
proof -
  have "\<not> k < fst p" if "p \<in> set xs" for p
    using assms that by (auto simp: omap_ok_def sorted_append)
  moreover have "k < fst p" if "p \<in> set ys" for p
    using assms that by (auto simp: omap_ok_def sorted_append order.strict_iff_order image_iff)
  ultimately have "filter (\<lambda>p. k < fst p) (xs @ (k, v) # ys) = ys" by (simp add: filter_id_conv)
  then show ?thesis by (simp add: omap_next_def)
qed

section \<open>State\<close>

record ('m, 'c) Root =
  root_clients :: "(ClientKey \<times> nat) list"
  root_current_client :: "ClientKey option"
  root_store :: "nat \<rightharpoonup> ('m, 'c) ProxyClient"
  root_fresh :: nat

definition Root_new :: "('m, 'c) Root" where
  "Root_new = \<lparr>root_clients = [], root_current_client = None, root_store = Map.empty, root_fresh = 0\<rparr>"

type_synonym ('m, 'c, 'g) root_state = "('m, 'c) Root \<times> 'g"

definition EPROSIMA_VENDOR_ID :: XrceVendorId where "EPROSIMA_VENDOR_ID = (0x01, 0x0F)"

definition agent_representation :: AGENT_Representation where
  "agent_representation = \<lparr>ar_xrce_cookie = XRCE_COOKIE, ar_xrce_version = XRCE_VERSION, ar_xrce_vendor_id = EPROSIMA_VENDOR_ID,
     ar_properties = None\<rparr>"

section \<open>Operations\<close>

definition client_properties :: "(string \<times> string) list option \<Rightarrow> (string \<rightharpoonup> string)" where
  "client_properties properties =
     fold (\<lambda>p m. fst (emplace m (fst p) (snd p))) (case properties of Some v \<Rightarrow> v | None \<Rightarrow> []) Map.empty"

text \<open>A client in the store, under a new address.\<close>

definition root_alloc :: "('m, 'c) ProxyClient \<Rightarrow> ('m, 'c) Root \<Rightarrow> nat \<times> ('m, 'c) Root" where
  "root_alloc c r = (root_fresh r, r\<lparr>root_store := (root_store r)(root_fresh r \<mapsto> c), root_fresh := Suc (root_fresh r)\<rparr>)"

definition root_on_client :: "nat \<Rightarrow> (('m, 'c) ProxyClient \<Rightarrow> ('m, 'c) ProxyClient) \<Rightarrow> ('m, 'c) Root \<Rightarrow> ('m, 'c) Root" where
  "root_on_client a f r = r\<lparr>root_store := (root_store r)(a := map_option f (root_store r a))\<rparr>"

definition root_create_client :: "'m middleware_factory \<Rightarrow> int \<Rightarrow> CLIENT_Representation \<Rightarrow> MiddlewareKind \<Rightarrow>
    ('m, 'c) Root \<Rightarrow> ResultStatus \<times> AGENT_Representation option \<times> ('m, 'c) Root" where
  "root_create_client F now rep kind r =
     (if cr_client_key rep = CLIENTKEY_INVALID
      then (result_ok\<lparr>res_status := STATUS_ERR_INVALID_DATA\<rparr>, None, r)
      else
        let (result, r) =
          (if cr_xrce_cookie rep = XRCE_COOKIE
           then if fst (cr_xrce_version rep) = XRCE_VERSION_MAJOR
                then (case map_of (root_clients r) (cr_client_key rep) of
                        None \<Rightarrow>
                          (let (a, r) = root_alloc (ProxyClient_new F now rep kind (client_properties (cr_properties rep))) r;
                               (clients, inserted) = omap_emplace (cr_client_key rep) a (root_clients r)
                           in (if inserted then result_ok else result_ok\<lparr>res_status := STATUS_ERR_RESOURCES\<rparr>, r\<lparr>root_clients := clients\<rparr>))
                      | Some a \<Rightarrow>
                          if Some (cr_session_id rep) \<noteq> map_option (cr_session_id \<circ> pc_representation) (root_store r a)
                          then (let (a, r) = root_alloc (ProxyClient_new F now rep kind Map.empty) r
                                in (result_ok, r\<lparr>root_clients := omap_assign (cr_client_key rep) a (root_clients r)\<rparr>))
                          else (result_ok, root_on_client a (\<lambda>c. c\<lparr>pc_session := ses_reset (pc_session c)\<rparr>) r))
                else (result_ok\<lparr>res_status := STATUS_ERR_INCOMPATIBLE\<rparr>, r)
           else (result_ok\<lparr>res_status := STATUS_ERR_INVALID_DATA\<rparr>, r))
        in (result, Some agent_representation, r))"

definition root_get_info :: "ResultStatus \<times> AGENT_Representation" where
  "root_get_info = (result_ok, agent_representation)"

definition root_get_client :: "ClientKey \<Rightarrow> ('m, 'c) Root \<Rightarrow> nat option" where
  "root_get_client client_key r = map_of (root_clients r) client_key"

text \<open>Releasing the client at an address.\<close>

definition root_release :: "('m \<times> 'g) Middleware \<Rightarrow> ((ObjectId \<rightharpoonup> XRCEObject) \<Rightarrow> ObjectId list) \<Rightarrow> nat \<Rightarrow>
    ('m, 'c, 'g) root_state \<Rightarrow> ('m, 'c, 'g) root_state" where
  "root_release M ord a s =
     (case root_store (fst s) a of
        None \<Rightarrow> s
      | Some c \<Rightarrow>
          (let (c, g) = pc_release M (ord (pc_objects c)) (c, snd s)
           in ((fst s)\<lparr>root_store := (root_store (fst s))(a \<mapsto> c)\<rparr>, g)))"

definition root_delete_client :: "('m \<times> 'g) Middleware \<Rightarrow> ((ObjectId \<rightharpoonup> XRCEObject) \<Rightarrow> ObjectId list) \<Rightarrow> ClientKey \<Rightarrow>
    ('m, 'c, 'g) root_state \<Rightarrow> ResultStatus \<times> ('m, 'c, 'g) root_state" where
  "root_delete_client M ord client_key s =
     (case root_get_client client_key (fst s) of
        Some a \<Rightarrow>
          (let r = fst s;
               r = (if root_current_client r = Some client_key
                    then r\<lparr>root_current_client := omap_next client_key (root_clients r)\<rparr> else r);
               (r, g) = root_release M ord a (r, snd s)
           in (result_ok, r\<lparr>root_clients := omap_erase client_key (root_clients r)\<rparr>, g))
      | None \<Rightarrow> (result_ok\<lparr>res_status := STATUS_ERR_UNKNOWN_REFERENCE\<rparr>, s))"

definition root_get_next_client :: "('m, 'c) Root \<Rightarrow> nat option \<times> ('m, 'c) Root" where
  "root_get_next_client r =
     (case root_current_client r of
        Some k \<Rightarrow> (map_of (root_clients r) k, r\<lparr>root_current_client := omap_next k (root_clients r)\<rparr>)
      | None \<Rightarrow> (None, r\<lparr>root_current_client := omap_begin (root_clients r)\<rparr>))"

text \<open>\<open>reset\<close>, which the destructor repeats.\<close>

definition root_reset :: "('m \<times> 'g) Middleware \<Rightarrow> ((ObjectId \<rightharpoonup> XRCEObject) \<Rightarrow> ObjectId list) \<Rightarrow>
    ('m, 'c, 'g) root_state \<Rightarrow> ('m, 'c, 'g) root_state" where
  "root_reset M ord s =
     (let (r, g) = fold (root_release M ord) (map snd (root_clients (fst s))) s
      in (r\<lparr>root_clients := [], root_current_client := None\<rparr>, g))"

section \<open>The clients of the map\<close>

text \<open>
  The map is ordered, its clients are in the store, each under its own key and at its own address, and
  the iterator is at an entry or at the end.
\<close>

definition root_ok :: "('m, 'c) Root \<Rightarrow> bool" where
  "root_ok r \<longleftrightarrow> omap_ok (root_clients r) \<and> distinct (map snd (root_clients r)) \<and>
     (\<forall>k a. map_of (root_clients r) k = Some a \<longrightarrow>
        (\<exists>c. root_store r a = Some c \<and> cr_client_key (pc_representation c) = k \<and> k \<noteq> CLIENTKEY_INVALID)) \<and>
     (\<forall>a. root_store r a \<noteq> None \<longrightarrow> a < root_fresh r) \<and>
     (\<forall>k. root_current_client r = Some k \<longrightarrow> map_of (root_clients r) k \<noteq> None)"

lemma root_okD:
  assumes "root_ok r"
  shows "omap_ok (root_clients r)" and "distinct (map snd (root_clients r))"
    and "map_of (root_clients r) k = Some a \<Longrightarrow>
      \<exists>c. root_store r a = Some c \<and> cr_client_key (pc_representation c) = k \<and> k \<noteq> CLIENTKEY_INVALID"
    and "root_store r a = Some c \<Longrightarrow> a < root_fresh r"
    and "root_current_client r = Some k \<Longrightarrow> map_of (root_clients r) k \<noteq> None"
  using assms unfolding root_ok_def by blast+

lemma root_ok_new: "root_ok Root_new"
  by (simp add: root_ok_def Root_new_def omap_ok_def)

lemma map_of_SomeI: "distinct (map fst xs) \<Longrightarrow> (k, v) \<in> set xs \<Longrightarrow> map_of xs k = Some v"
  by simp

lemma root_addresses:
  assumes "root_ok r" and "a \<in> set (map snd (root_clients r))"
  shows "a < root_fresh r"
proof -
  obtain k where "(k, a) \<in> set (root_clients r)" using assms(2) by auto
  then have "map_of (root_clients r) k = Some a"
    using root_okD(1) [OF assms(1)] by (intro map_of_SomeI) (simp_all add: omap_ok_def)
  then obtain c where "root_store r a = Some c" using root_okD(3) [OF assms(1)] by blast
  then show ?thesis by (rule root_okD(4) [OF assms(1)])
qed

lemma root_fresh_store: "root_ok r \<Longrightarrow> root_store r (root_fresh r) = None"
  using root_okD(4) [of r "root_fresh r"] by (cases "root_store r (root_fresh r)") auto

lemma root_ok_on_client:
  assumes "root_ok r" and "\<And>c. pc_representation (f c) = pc_representation c"
  shows "root_ok (root_on_client a f r)"
proof -
  have "\<exists>c. root_store (root_on_client a f r) a' = Some c \<and> cr_client_key (pc_representation c) = k \<and> k \<noteq> CLIENTKEY_INVALID"
    if "map_of (root_clients r) k = Some a'" for k a'
  proof -
    from root_okD(3) [OF assms(1) that]
    obtain c where "root_store r a' = Some c" "cr_client_key (pc_representation c) = k" "k \<noteq> CLIENTKEY_INVALID" by blast
    then show ?thesis by (cases "a' = a") (auto simp: root_on_client_def assms(2))
  qed
  moreover have "root_store (root_on_client a f r) a' \<noteq> None \<Longrightarrow> a' < root_fresh r" for a'
    using root_okD(4) [OF assms(1), of a'] by (cases "a' = a") (auto simp: root_on_client_def)
  ultimately show ?thesis
    using root_okD(1,2,5) [OF assms(1)] by (simp add: root_ok_def root_on_client_def)
qed

lemma omap_begin_in: "omap_begin xs = Some k \<Longrightarrow> map_of xs k \<noteq> None"
  by (auto simp: omap_begin_def map_of_eq_None_iff split: list.splits)

lemma omap_next_in: "omap_next k xs = Some k' \<Longrightarrow> map_of xs k' \<noteq> None \<and> k < k'"
proof -
  assume "omap_next k xs = Some k'"
  then obtain p ps where f: "filter (\<lambda>p. k < fst p) xs = p # ps" and k': "fst p = k'"
    by (auto simp: omap_next_def omap_begin_def split: list.splits)
  from f have "p \<in> {p \<in> set xs. k < fst p}" by (metis list.set_intros(1) set_filter)
  then show ?thesis using k' by (auto simp: map_of_eq_None_iff)
qed

text \<open>Adding a client under a key that is free, or in the place of the one that has it.\<close>

lemma root_ok_add:
  assumes ok: "root_ok r" and key: "cr_client_key (pc_representation c) = k" "k \<noteq> CLIENTKEY_INVALID"
    and r': "(a, r') = root_alloc c r"
  shows "map_of (root_clients r) k = None \<Longrightarrow> root_ok (r'\<lparr>root_clients := fst (omap_emplace k a (root_clients r'))\<rparr>)"
    and "map_of (root_clients r) k \<noteq> None \<Longrightarrow> root_ok (r'\<lparr>root_clients := omap_assign k a (root_clients r')\<rparr>)"
proof -
  have a: "a = root_fresh r" and r'_eq: "r' = r\<lparr>root_store := (root_store r)(a \<mapsto> c), root_fresh := Suc a\<rparr>"
    using r' by (simp_all add: root_alloc_def)
  have new: "a \<notin> set (map snd (root_clients r))" using root_addresses [OF ok] by (auto simp: a)
  have old: "map_of (root_clients r) k' = Some a' \<Longrightarrow>
      \<exists>c'. ((root_store r)(a \<mapsto> c)) a' = Some c' \<and> cr_client_key (pc_representation c') = k' \<and> k' \<noteq> CLIENTKEY_INVALID" for k' a'
    using root_okD(3) [OF ok, of k' a'] root_fresh_store [OF ok] by (auto simp: a)
  have le: "((root_store r)(a \<mapsto> c)) a' \<noteq> None \<Longrightarrow> a' < Suc a" for a'
    using root_okD(4) [OF ok, of a'] by (auto simp: a less_Suc_eq split: if_splits)
  show "root_ok (r'\<lparr>root_clients := fst (omap_emplace k a (root_clients r'))\<rparr>)" if free: "map_of (root_clients r) k = None"
  proof -
    have "omap_ok (fst (omap_emplace k a (root_clients r)))" by (rule omap_ok_emplace [OF root_okD(1) [OF ok]])
    moreover have "distinct (map snd (insort_key fst (k, a) (root_clients r)))"
      using root_okD(2) [OF ok] new
      by (metis distinct_map_insort_snd)
    ultimately show ?thesis
      using root_okD(5) [OF ok] old le key free
      by (auto simp: root_ok_def r'_eq omap_emplace_def map_of_insort)
  qed
  show "root_ok (r'\<lparr>root_clients := omap_assign k a (root_clients r')\<rparr>)" if "map_of (root_clients r) k \<noteq> None"
  proof -
    have "distinct (map snd (omap_assign k a (root_clients r)))"
      using root_okD(1,2) [OF ok] new by (intro distinct_snd_assign) (simp_all add: omap_ok_def)
    then show ?thesis
      using root_okD(5) [OF ok] old le key omap_ok_assign [OF root_okD(1) [OF ok], of k a]
      by (auto simp: root_ok_def r'_eq map_of_omap_assign)
  qed
qed

lemma root_get_client_ok:
  "root_ok r \<Longrightarrow> root_get_client k r = Some a \<Longrightarrow>
    \<exists>c. root_store r a = Some c \<and> cr_client_key (pc_representation c) = k \<and> k \<noteq> CLIENTKEY_INVALID"
  unfolding root_get_client_def by (rule root_okD(3))

text \<open>What \<open>create_client\<close> does, case by case.\<close>

lemma ProxyClient_new_representation [simp]: "pc_representation (ProxyClient_new F now rep kind ps) = rep"
  by (simp add: ProxyClient_new_def)

definition client_accepted :: "CLIENT_Representation \<Rightarrow> bool" where
  "client_accepted rep \<longleftrightarrow> cr_client_key rep \<noteq> CLIENTKEY_INVALID \<and> cr_xrce_cookie rep = XRCE_COOKIE \<and>
     fst (cr_xrce_version rep) = XRCE_VERSION_MAJOR"

lemma create_client_cases:
  shows "\<not> client_accepted rep \<Longrightarrow> snd (snd (root_create_client F now rep kind r)) = r \<and>
      res_status (fst (root_create_client F now rep kind r)) =
        (if cr_client_key rep \<noteq> CLIENTKEY_INVALID \<and> cr_xrce_cookie rep = XRCE_COOKIE then STATUS_ERR_INCOMPATIBLE else STATUS_ERR_INVALID_DATA)"
    and "client_accepted rep \<Longrightarrow> root_get_client (cr_client_key rep) r = None \<Longrightarrow>
      root_create_client F now rep kind r =
        (result_ok, Some agent_representation,
         (let (a, r') = root_alloc (ProxyClient_new F now rep kind (client_properties (cr_properties rep))) r
          in r'\<lparr>root_clients := fst (omap_emplace (cr_client_key rep) a (root_clients r'))\<rparr>))"
    and "client_accepted rep \<Longrightarrow> root_get_client (cr_client_key rep) r = Some a \<Longrightarrow> root_store r a = Some c \<Longrightarrow>
      cr_session_id (pc_representation c) \<noteq> cr_session_id rep \<Longrightarrow>
      root_create_client F now rep kind r =
        (result_ok, Some agent_representation,
         (let (a, r') = root_alloc (ProxyClient_new F now rep kind Map.empty) r
          in r'\<lparr>root_clients := omap_assign (cr_client_key rep) a (root_clients r')\<rparr>))"
    and "client_accepted rep \<Longrightarrow> root_get_client (cr_client_key rep) r = Some a \<Longrightarrow> root_store r a = Some c \<Longrightarrow>
      cr_session_id (pc_representation c) = cr_session_id rep \<Longrightarrow>
      root_create_client F now rep kind r =
        (result_ok, Some agent_representation, root_on_client a (\<lambda>c. c\<lparr>pc_session := ses_reset (pc_session c)\<rparr>) r)"
  by (auto simp: client_accepted_def root_get_client_def root_create_client_def root_alloc_def omap_emplace_def Let_def result_ok_def)

lemma root_ok_create:
  assumes "root_ok r"
  shows "root_ok (snd (snd (root_create_client F now rep kind r)))"
proof (cases "client_accepted rep")
  case False
  then show ?thesis using create_client_cases(1) [of rep F now kind r] assms by simp
next
  case True
  then have key: "cr_client_key rep \<noteq> CLIENTKEY_INVALID" by (simp add: client_accepted_def)
  show ?thesis
  proof (cases "root_get_client (cr_client_key rep) r")
    case None
    then show ?thesis
      using root_ok_add(1) [OF assms _ key, of "ProxyClient_new F now rep kind (client_properties (cr_properties rep))"]
      by (auto simp: create_client_cases(2) [OF True None] root_get_client_def split: prod.split)
  next
    case (Some a)
    from root_get_client_ok [OF assms Some] obtain c where c: "root_store r a = Some c" by blast
    show ?thesis
    proof (cases "cr_session_id (pc_representation c) = cr_session_id rep")
      case same: True
      show ?thesis by (simp add: create_client_cases(4) [OF True Some c same] root_ok_on_client [OF assms])
    next
      case False
      show ?thesis
        using root_ok_add(2) [OF assms _ key, of "ProxyClient_new F now rep kind Map.empty"] Some
        by (auto simp: create_client_cases(3) [OF True Some c False] root_get_client_def split: prod.split)
    qed
  qed
qed

lemma pc_release_representation: "pc_representation (fst (pc_release M order s)) = pc_representation (fst s)"
  by (simp add: pc_release_def pc_set_world_def)

lemma root_release_frame:
  "root_clients (fst (root_release M ord a s)) = root_clients (fst s)"
  "root_current_client (fst (root_release M ord a s)) = root_current_client (fst s)"
  "root_fresh (fst (root_release M ord a s)) = root_fresh (fst s)"
  by (auto simp: root_release_def split: option.splits prod.splits)

lemma root_ok_release: "root_ok (fst s) \<Longrightarrow> root_ok (fst (root_release M ord a s))"
proof -
  assume ok: "root_ok (fst s)"
  show ?thesis
  proof (cases "root_store (fst s) a")
    case None
    then show ?thesis using ok by (simp add: root_release_def)
  next
    case (Some c)
    define c' where "c' = fst (pc_release M (ord (pc_objects c)) (c, snd s))"
    have "pc_representation c' = pc_representation c" by (simp add: c'_def pc_release_representation)
    then have "root_ok (root_on_client a (\<lambda>d. if d = c then c' else d) (fst s))"
      by (intro root_ok_on_client [OF ok]) simp
    also have "root_on_client a (\<lambda>d. if d = c then c' else d) (fst s) = fst (root_release M ord a s)"
      by (simp add: root_on_client_def root_release_def Some c'_def split: prod.split)
    finally show ?thesis .
  qed
qed

lemma root_ok_erase:
  assumes "root_ok r" and "root_current_client r \<noteq> Some k"
  shows "root_ok (r\<lparr>root_clients := omap_erase k (root_clients r)\<rparr>)"
proof -
  have "distinct (map snd (omap_erase k (root_clients r)))"
    using root_okD(2) [OF assms(1)] by (simp add: omap_erase_def distinct_map_filter)
  then show ?thesis
    using root_okD [OF assms(1)] assms(2) omap_ok_erase [OF root_okD(1) [OF assms(1)], of k]
    by (auto simp: root_ok_def map_of_omap_erase)
qed

lemma root_delete_client_Some:
  assumes "root_get_client k (fst s) = Some a"
    and "r = (if root_current_client (fst s) = Some k
      then (fst s)\<lparr>root_current_client := omap_next k (root_clients (fst s))\<rparr> else fst s)"
  shows "root_delete_client M ord k s =
    (result_ok, (fst (root_release M ord a (r, snd s)))\<lparr>root_clients := omap_erase k (root_clients r)\<rparr>,
     snd (root_release M ord a (r, snd s)))"
  unfolding root_delete_client_def assms(1) Let_def option.case assms(2) [symmetric] case_prod_beta root_release_frame fst_conv
  by (rule refl)

lemma root_ok_delete:
  assumes "root_ok (fst s)"
  shows "root_ok (fst (snd (root_delete_client M ord k s)))"
proof (cases "root_get_client k (fst s)")
  case None
  then show ?thesis using assms by (simp add: root_delete_client_def)
next
  case (Some a)
  define r where "r = (if root_current_client (fst s) = Some k
      then (fst s)\<lparr>root_current_client := omap_next k (root_clients (fst s))\<rparr> else fst s)"
  have "root_ok r"
    using assms omap_next_in [of k "root_clients (fst s)"] unfolding r_def root_ok_def by auto
  then have "root_ok (fst (root_release M ord a (r, snd s)))" by (intro root_ok_release) simp
  moreover have "root_current_client r \<noteq> Some k"
    using omap_next_in [of k "root_clients (fst s)" k] by (auto simp: r_def)
  ultimately have "root_ok ((fst (root_release M ord a (r, snd s)))\<lparr>root_clients := omap_erase k (root_clients (fst (root_release M ord a (r, snd s))))\<rparr>)"
    by (intro root_ok_erase) (simp_all add: root_release_frame)
  then show ?thesis by (simp add: root_delete_client_Some [OF Some r_def] root_release_frame)
qed

lemma root_ok_get_next:
  assumes "root_ok r"
  shows "root_ok (snd (root_get_next_client r))"
proof (cases "root_current_client r")
  case None
  then show ?thesis using assms omap_begin_in [of "root_clients r"] by (auto simp: root_get_next_client_def root_ok_def)
next
  case (Some k)
  then show ?thesis using assms omap_next_in [of k "root_clients r"] by (auto simp: root_get_next_client_def root_ok_def)
qed

lemma root_ok_reset: "root_ok (fst s) \<Longrightarrow> root_ok (fst (root_reset M ord s))"
proof -
  assume "root_ok (fst s)"
  then have "root_ok (fst (fold (root_release M ord) as s))" for as
    by (induction as arbitrary: s) (simp_all add: root_ok_release)
  then have "root_store (fst (fold (root_release M ord) as s)) a \<noteq> None \<Longrightarrow> a < root_fresh (fst (fold (root_release M ord) as s))" for as a
    using root_okD(4) by blast
  then show ?thesis by (simp add: root_reset_def root_ok_def omap_ok_def Let_def case_prod_beta)
qed

section \<open>The clients and the middleware\<close>

text \<open>
  The contract of the middleware as the agent relies on it: what a client has in it is its own, a new one is
  empty, and the order of the unordered map lists all of it.
\<close>

locale agent_middleware = client_middleware M ents
  for M :: "('m \<times> 'g) Middleware" and ents :: "'m \<times> 'g \<Rightarrow> ObjectKind \<Rightarrow> u16 set" +
  fixes F :: "'m middleware_factory" and ord :: "(ObjectId \<rightharpoonup> XRCEObject) \<Rightarrow> ObjectId list"
  assumes ents_private: "ents (m, g) = ents (m, g')"
    and new_middleware_empty: "ents (new_middleware F kind key ps, g) k = {}"
    and ord_all: "set (ord objs) = dom objs"

definition store_ok :: "('m \<times> 'g \<Rightarrow> ObjectKind \<Rightarrow> u16 set) \<Rightarrow> ('m, 'c, 'g) root_state \<Rightarrow> bool" where
  "store_ok ents s \<longleftrightarrow> (\<forall>a c. root_store (fst s) a = Some c \<longrightarrow> client_ok ents (c, snd s))"

text \<open>What the agent does with its clients; an operation of a client is by its address.\<close>

datatype root_op = RootCreate int CLIENT_Representation MiddlewareKind | RootDelete ClientKey | RootNext | RootReset
  | RootClient nat pc_op

fun root_step :: "('m \<times> 'g) Middleware \<Rightarrow> 'm middleware_factory \<Rightarrow> ((ObjectId \<rightharpoonup> XRCEObject) \<Rightarrow> ObjectId list) \<Rightarrow> root_op \<Rightarrow>
    ('m, 'c, 'g) root_state \<Rightarrow> fault + ('m, 'c, 'g) root_state" where
  "root_step M F ord (RootCreate now rep kind) s = Inr (snd (snd (root_create_client F now rep kind (fst s))), snd s)"
| "root_step M F ord (RootDelete k) s = Inr (snd (root_delete_client M ord k s))"
| "root_step M F ord RootNext s = Inr (snd (root_get_next_client (fst s)), snd s)"
| "root_step M F ord RootReset s = Inr (root_reset M ord s)"
| "root_step M F ord (RootClient a op) s =
     (case root_store (fst s) a of
        None \<Rightarrow> Inr s
      | Some c \<Rightarrow>
          (case pc_step M op (c, snd s) of
             Inl e \<Rightarrow> Inl e
           | Inr (c, g) \<Rightarrow> Inr ((fst s)\<lparr>root_store := (root_store (fst s))(a \<mapsto> c)\<rparr>, g)))"

fun root_run :: "('m \<times> 'g) Middleware \<Rightarrow> 'm middleware_factory \<Rightarrow> ((ObjectId \<rightharpoonup> XRCEObject) \<Rightarrow> ObjectId list) \<Rightarrow> root_op list \<Rightarrow>
    ('m, 'c, 'g) root_state \<Rightarrow> fault + ('m, 'c, 'g) root_state" where
  "root_run M F ord [] s = Inr s"
| "root_run M F ord (op # ops) s = (case root_step M F ord op s of Inl e \<Rightarrow> Inl e | Inr s \<Rightarrow> root_run M F ord ops s)"

context agent_middleware
begin

lemma client_ok_world: "client_ok ents (c, g) \<Longrightarrow> client_ok ents (c, g')"
  using ents_private [of "pc_middleware c" g g'] by (simp add: client_ok_def pc_world_def)

lemma client_ok_new: "client_ok ents (ProxyClient_new F now rep kind ps, g)"
  by (simp add: client_ok_def pc_world_def ProxyClient_new_def new_middleware_empty)

lemma store_ok_upd:
  assumes "store_ok ents s" and "client_ok ents (c, g)" and "root_store r = (root_store (fst s))(a \<mapsto> c)"
  shows "store_ok ents (r, g)"
  unfolding store_ok_def
proof (intro allI impI)
  fix a' c'
  assume "root_store (fst (r, g)) a' = Some c'"
  then show "client_ok ents (c', snd (r, g))"
    using assms client_ok_world [of c' "snd s" g] by (cases "a' = a") (auto simp: store_ok_def)
qed

lemma store_ok_frame: "store_ok ents s \<Longrightarrow> root_store r = root_store (fst s) \<Longrightarrow> store_ok ents (r, snd s)"
  by (simp add: store_ok_def)

lemma store_ok_create:
  assumes "store_ok ents s" and "root_ok (fst s)"
  shows "store_ok ents (snd (snd (root_create_client F now rep kind (fst s))), snd s)"
proof (cases "client_accepted rep")
  case False
  then show ?thesis using create_client_cases(1) [of rep F now kind "fst s"] assms(1) by simp
next
  case True
  show ?thesis
  proof (cases "root_get_client (cr_client_key rep) (fst s)")
    case None
    show ?thesis unfolding create_client_cases(2) [OF True None] snd_conv root_alloc_def Let_def prod.case
      by (rule store_ok_upd [OF assms(1) client_ok_new]) simp
  next
    case (Some a)
    from root_get_client_ok [OF assms(2) Some] obtain c where c: "root_store (fst s) a = Some c" by blast
    show ?thesis
    proof (cases "cr_session_id (pc_representation c) = cr_session_id rep")
      case same: True
      have "client_ok ents (c\<lparr>pc_session := ses_reset (pc_session c)\<rparr>, snd s)"
        using assms(1) c by (auto simp: store_ok_def client_ok_def pc_world_def)
      then show ?thesis unfolding create_client_cases(4) [OF True Some c same] snd_conv
        by (rule store_ok_upd [OF assms(1)]) (simp add: root_on_client_def c)
    next
      case False
      show ?thesis unfolding create_client_cases(3) [OF True Some c False] snd_conv root_alloc_def Let_def prod.case
        by (rule store_ok_upd [OF assms(1) client_ok_new]) simp
    qed
  qed
qed

lemma released:
  assumes "client_ok ents (c, g)"
  shows "client_ok ents (pc_release M (ord (pc_objects c)) (c, g))"
    and "pc_objects (fst (pc_release M (ord (pc_objects c)) (c, g))) = Map.empty"
  using release_empties [OF assms, of "ord (pc_objects c)"] by (simp_all add: client_ok_def ord_all pc_release_def)

lemma store_ok_release:
  assumes "store_ok ents s"
  shows "store_ok ents (root_release M ord a s)"
proof (cases "root_store (fst s) a")
  case None
  then show ?thesis using assms by (simp add: root_release_def)
next
  case (Some c)
  then have "client_ok ents (c, snd s)" using assms by (simp add: store_ok_def)
  from released(1) [OF this] show ?thesis
    by (cases "pc_release M (ord (pc_objects c)) (c, snd s)")
      (auto simp: root_release_def Some intro!: store_ok_upd [OF assms])
qed

lemma store_ok_delete: "store_ok ents s \<Longrightarrow> store_ok ents (snd (root_delete_client M ord k s))"
proof (cases "root_get_client k (fst s)")
  case (Some a)
  assume ok: "store_ok ents s"
  define r where "r = (if root_current_client (fst s) = Some k
      then (fst s)\<lparr>root_current_client := omap_next k (root_clients (fst s))\<rparr> else fst s)"
  have "store_ok ents (r, snd s)" by (rule store_ok_frame [OF ok]) (simp add: r_def)
  from store_ok_release [OF this, of a] show ?thesis
    unfolding root_delete_client_Some [OF Some r_def] snd_conv by (rule store_ok_frame) simp
qed (simp add: root_delete_client_def)

lemma store_ok_reset: "store_ok ents s \<Longrightarrow> store_ok ents (root_reset M ord s)"
proof -
  assume "store_ok ents s"
  then have "store_ok ents (fold (root_release M ord) as s)" for as
    by (induction as arbitrary: s) (simp_all add: store_ok_release)
  from this [of "map snd (root_clients (fst s))"] show ?thesis
    by (simp add: root_reset_def Let_def case_prod_beta store_ok_def)
qed

lemma root_step_keeps:
  assumes "store_ok ents s" and "root_ok (fst s)" and "root_step M F ord op s = Inr s'"
  shows "store_ok ents s' \<and> root_ok (fst s')"
proof (cases op)
  case (RootClient a pop)
  show ?thesis
  proof (cases "root_store (fst s) a")
    case None
    then show ?thesis using assms RootClient by simp
  next
    case (Some c)
    then obtain c' g' where step: "pc_step M pop (c, snd s) = Inr (c', g')"
      and s': "s' = ((fst s)\<lparr>root_store := (root_store (fst s))(a \<mapsto> c')\<rparr>, g')"
      using assms(3) RootClient by (auto split: sum.splits prod.splits)
    have "client_ok ents (c, snd s)" using assms(1) Some by (simp add: store_ok_def)
    from pc_step_keeps [OF this step] have "store_ok ents s'"
      unfolding s' by (rule store_ok_upd [OF assms(1)]) simp
    moreover have "pc_representation c' = pc_representation c"
      using pc_step_representation [OF step] by simp
    then have "root_ok (root_on_client a (\<lambda>d. if d = c then c' else d) (fst s))"
      by (intro root_ok_on_client [OF assms(2)]) simp
    then have "root_ok (fst s')" by (simp add: root_on_client_def Some s')
    ultimately show ?thesis by blast
  qed
next
  case RootNext
  have "store_ok ents (snd (root_get_next_client (fst s)), snd s)"
    by (rule store_ok_frame [OF assms(1)]) (simp add: root_get_next_client_def split: option.split)
  then show ?thesis using assms RootNext root_ok_get_next by auto
qed (use assms in \<open>auto intro: store_ok_create store_ok_delete store_ok_reset root_ok_create root_ok_delete root_ok_reset\<close>)

lemma root_run_keeps:
  "store_ok ents s \<Longrightarrow> root_ok (fst s) \<Longrightarrow> root_run M F ord ops s = Inr s' \<Longrightarrow> store_ok ents s' \<and> root_ok (fst s')"
proof (induction ops arbitrary: s)
  case (Cons op ops)
  then obtain s1 where "root_step M F ord op s = Inr s1" "root_run M F ord ops s1 = Inr s'" by (auto split: sum.splits)
  then show ?case using root_step_keeps [OF Cons.prems(1,2)] Cons.IH by blast
qed simp

end

text \<open>The ascending order is one the unordered map may have.\<close>

definition ascending :: "(ObjectId \<rightharpoonup> 'a) \<Rightarrow> ObjectId list" where
  "ascending m = filter (\<lambda>oid. m oid \<noteq> None) (List.product (map of_nat [0..<256]) (map of_nat [0..<256]))"

lemma all_octets: "(x :: u8) \<in> of_nat ` {0..<256}"
  using unat_u8_less [of x] by (intro image_eqI [of _ _ "unat x"]) simp_all

lemma set_ascending: "set (ascending m) = dom m"
  using all_octets by (auto simp: ascending_def)

lemma ced_new_empty: "ced_ents (new_middleware ced_factory kind key ps, g) k = {}"
  by (cases kind) (simp_all add: ced_factory_def ced_ents_def CedMiddleware_new_empty)

interpretation ced_agent: agent_middleware ced_middleware ced_ents ced_factory ascending
  by unfold_locales (simp_all add: fun_eq_iff ced_ents_def ced_new_empty [unfolded ced_ents_def] set_ascending)

section \<open>Going through the clients\<close>

text \<open>The loop of \<open>Processor::check_heartbeats\<close> without its body: the clients it is given.\<close>

definition root_ahead :: "('m, 'c) Root \<Rightarrow> nat" where
  "root_ahead r = (case root_current_client r of None \<Rightarrow> 0 | Some k \<Rightarrow> Suc (length (filter (\<lambda>p. k < fst p) (root_clients r))))"

lemma root_get_next_less:
  assumes "root_get_next_client r = (Some a, r')"
  shows "root_clients r' = root_clients r" and "root_store r' = root_store r"
    and "root_ahead r' < root_ahead r"
proof -
  obtain k where k: "root_current_client r = Some k" and r': "r' = r\<lparr>root_current_client := omap_next k (root_clients r)\<rparr>"
    using assms by (auto simp: root_get_next_client_def split: option.splits)
  show "root_clients r' = root_clients r" "root_store r' = root_store r" by (simp_all add: r')
  have "length (filter (\<lambda>p. k' < fst p) (root_clients r)) < length (filter (\<lambda>p. k < fst p) (root_clients r))"
    if k': "omap_next k (root_clients r) = Some k'" for k'
  proof -
    have less: "k < k'" and "map_of (root_clients r) k' \<noteq> None" using omap_next_in [OF k'] by auto
    then obtain v where v: "(k', v) \<in> set (root_clients r)" by (auto dest: map_of_SomeD)
    have "filter (\<lambda>p. k' < fst p) (root_clients r) = filter (\<lambda>p. k' < fst p) (filter (\<lambda>p. k < fst p) (root_clients r))"
      using less by (auto intro!: filter_cong)
    also have "length \<dots> < length (filter (\<lambda>p. k < fst p) (root_clients r))"
      using v less by (intro length_filter_less [of "(k', v)"]) auto
    finally show ?thesis .
  qed
  then show "root_ahead r' < root_ahead r"
    by (cases "omap_next k (root_clients r)") (simp_all add: root_ahead_def k r')
qed

function root_scan :: "('m, 'c) Root \<Rightarrow> nat list \<times> ('m, 'c) Root" where
  "root_scan r =
     (case root_get_next_client r of
        (Some a, r') \<Rightarrow> (let (as, r'') = root_scan r' in (a # as, r''))
      | (None, r') \<Rightarrow> ([], r'))"
  by auto
termination
  by (relation "measure root_ahead") (simp_all, metis root_get_next_less(3))

declare root_scan.simps [simp del]

lemma root_scan_from:
  assumes "omap_ok (root_clients r)" and "root_clients r = xs @ ys" and "root_current_client r = omap_begin ys"
  shows "root_scan r = (map snd ys, r\<lparr>root_current_client := omap_begin (root_clients r)\<rparr>)"
  using assms
proof (induction ys arbitrary: r xs)
  case Nil
  then show ?case by (simp add: root_scan.simps [of r] root_get_next_client_def omap_begin_def)
next
  case (Cons p ys)
  obtain k a where p: "p = (k, a)" by (cases p)
  have k: "root_current_client r = Some k" using Cons.prems(3) by (simp add: omap_begin_def p)
  have nxt: "omap_next k (root_clients r) = omap_begin ys"
    using Cons.prems(1,2) by (simp add: p omap_next_split)
  have "map_of (root_clients r) k = Some a"
    using Cons.prems(1,2) by (intro map_of_SomeI) (simp_all add: omap_ok_def p)
  then have "root_get_next_client r = (Some a, r\<lparr>root_current_client := omap_begin ys\<rparr>)"
    by (simp add: root_get_next_client_def k nxt)
  then show ?case
    using Cons.IH [of "r\<lparr>root_current_client := omap_begin ys\<rparr>" "xs @ [p]"] Cons.prems(1,2)
    by (simp add: root_scan.simps [of r] p)
qed

section \<open>Properties\<close>

text \<open>C21. The clients of the agent over any run: from an empty agent, through any creations and deletions of
  clients, resets, heartbeat rounds and operations of any client, including one that is no longer in the map,
  whoever asks for a key is given a client with that key; every client ever made, in the map or not, agrees
  with the middleware on its entities; and the iterator of the heartbeat rounds is valid.\<close>

theorem agent_clients_consistent:
  assumes "agent_middleware M ents F ord" and "root_run M F ord ops (Root_new, g) = Inr s"
  shows "(\<forall>k a. root_get_client k (fst s) = Some a \<longrightarrow>
        (\<exists>c. root_store (fst s) a = Some c \<and> cr_client_key (pc_representation c) = k)) \<and>
     (\<forall>a c. root_store (fst s) a = Some c \<longrightarrow> client_ok ents (c, snd s)) \<and>
     (\<forall>k. root_current_client (fst s) = Some k \<longrightarrow> root_get_client k (fst s) \<noteq> None)"
proof -
  have "store_ok ents s \<and> root_ok (fst s)"
    by (rule agent_middleware.root_run_keeps [OF assms(1) _ _ assms(2)]) (simp_all add: store_ok_def Root_new_def root_ok_new [unfolded Root_new_def])
  then show ?thesis
    using root_get_client_ok [of "fst s"] root_okD(5) [of "fst s"] unfolding store_ok_def root_get_client_def by blast
qed

lemma demo_representation_accepted: "client_accepted demo_representation"
  by (simp add: client_accepted_def demo_representation_def CLIENTKEY_INVALID_def XRCE_COOKIE_def XRCE_VERSION_MAJOR_def)

lemma demo_root_create:
  "root_create_client ced_factory 0 demo_representation KindCED Root_new =
     (result_ok, Some agent_representation,
      \<lparr>root_clients = [((0xAA, 0xBB, 0xCC, 0xDD), 0)], root_current_client = None,
       root_store = [0 \<mapsto> ProxyClient_new ced_factory 0 demo_representation KindCED Map.empty], root_fresh = 1\<rparr>)"
  using create_client_cases(2) [OF demo_representation_accepted, of "Root_new :: (CedMiddleware, 'a) Root" ced_factory 0 KindCED]
  by (simp add: root_get_client_def Root_new_def root_alloc_def omap_emplace_def client_properties_def)
    (simp add: demo_representation_def client_properties_def)

theorem agent_clients_consistent_witness:
  "\<exists>s :: (CedMiddleware, unit, CedTopicManager) root_state.
     root_run ced_middleware ced_factory ascending [RootCreate 0 demo_representation KindCED, RootNext] (Root_new, CedTopicManager_init) = Inr s \<and>
     (\<exists>c. root_store (fst s) 0 = Some c \<and> cr_client_key (pc_representation c) = (0xAA, 0xBB, 0xCC, 0xDD) \<and> client_ok ced_ents (c, snd s))"
proof -
  define s :: "(CedMiddleware, unit, CedTopicManager) root_state" where
    "s = (\<lparr>root_clients = [((0xAA, 0xBB, 0xCC, 0xDD), 0)], root_current_client = Some (0xAA, 0xBB, 0xCC, 0xDD),
       root_store = [0 \<mapsto> ProxyClient_new ced_factory 0 demo_representation KindCED Map.empty], root_fresh = 1\<rparr>, CedTopicManager_init)"
  have r: "root_run ced_middleware ced_factory ascending [RootCreate 0 demo_representation KindCED, RootNext] (Root_new, CedTopicManager_init) = Inr s"
    by (simp add: demo_root_create root_get_next_client_def omap_begin_def s_def)
  from agent_clients_consistent [OF ced_agent.agent_middleware_axioms r]
  have "root_get_client (0xAA, 0xBB, 0xCC, 0xDD) (fst s) = Some 0 \<longrightarrow> (\<exists>c. root_store (fst s) 0 = Some c \<and>
      cr_client_key (pc_representation c) = (0xAA, 0xBB, 0xCC, 0xDD) \<and> client_ok ced_ents (c, snd s))" by blast
  then show ?thesis using r by (auto simp: root_get_client_def s_def)
qed

text \<open>C26. Creating a client: a wrong key or cookie is answered as invalid data and a wrong major version as
  incompatible, with nothing changed. Otherwise the answer is OK and the key has a client with the session
  asked for: the one it had, with its objects and its streams reset, when that was its session; a new one
  without objects when not. Every other key keeps its client, untouched.\<close>

theorem create_client_outcome:
  assumes "root_ok r" and "root_create_client F now rep kind r = (result, info, r')"
  shows "if \<not> client_accepted rep
     then r' = r \<and> res_status result =
        (if cr_client_key rep \<noteq> CLIENTKEY_INVALID \<and> cr_xrce_cookie rep = XRCE_COOKIE then STATUS_ERR_INCOMPATIBLE else STATUS_ERR_INVALID_DATA)
     else res_status result = STATUS_OK \<and>
       (\<exists>a c. root_get_client (cr_client_key rep) r' = Some a \<and> root_store r' a = Some c \<and>
          cr_session_id (pc_representation c) = cr_session_id rep \<and>
          (case root_get_client (cr_client_key rep) r of
             None \<Rightarrow> pc_objects c = Map.empty
           | Some a0 \<Rightarrow>
               (\<exists>c0. root_store r a0 = Some c0 \<and>
                  (if cr_session_id (pc_representation c0) = cr_session_id rep
                   then a = a0 \<and> c = c0\<lparr>pc_session := ses_reset (pc_session c0)\<rparr>
                   else a \<noteq> a0 \<and> pc_objects c = Map.empty)))) \<and>
       (\<forall>k a. k \<noteq> cr_client_key rep \<longrightarrow> root_get_client k r = Some a \<longrightarrow>
          root_get_client k r' = Some a \<and> root_store r' a = root_store r a)"
proof (cases "client_accepted rep")
  case False
  then show ?thesis using create_client_cases(1) [of rep F now kind r] assms(2) by simp
next
  case True
  note r' = assms(2)
  have others: "map_of (root_clients r) k \<noteq> Some (root_fresh r)" for k
    using root_okD(3) [OF assms(1)] root_fresh_store [OF assms(1)] by fastforce
  show ?thesis
  proof (cases "root_get_client (cr_client_key rep) r")
    case None
    then show ?thesis
      using r' True others unfolding create_client_cases(2) [OF True None]
      by (auto simp: root_alloc_def Let_def root_get_client_def omap_emplace_def map_of_insort ProxyClient_new_def)
  next
    case (Some a0)
    from root_get_client_ok [OF assms(1) Some] obtain c0 where c0: "root_store r a0 = Some c0" by blast
    show ?thesis
    proof (cases "cr_session_id (pc_representation c0) = cr_session_id rep")
      case same: True
      have "k \<noteq> cr_client_key rep \<Longrightarrow> map_of (root_clients r) k = Some a \<Longrightarrow> a \<noteq> a0" for k a
        using root_okD(3) [OF assms(1), of k a] root_get_client_ok [OF assms(1) Some] by auto
      then show ?thesis
        using r' True Some c0 same unfolding create_client_cases(4) [OF True Some c0 same]
        by (auto simp: root_on_client_def root_get_client_def)
    next
      case False
      have "a0 \<noteq> root_fresh r" using c0 root_fresh_store [OF assms(1)] by auto
      then show ?thesis
        using r' True Some c0 False others unfolding create_client_cases(3) [OF True Some c0 False]
        by (auto simp: root_alloc_def Let_def root_get_client_def map_of_omap_assign ProxyClient_new_def)
    qed
  qed
qed

theorem create_client_outcome_witness:
  "\<exists>a c. root_get_client (cr_client_key demo_representation)
       (snd (snd (root_create_client ced_factory 0 demo_representation KindCED (Root_new :: (CedMiddleware, unit) Root)))) = Some a \<and>
     root_store (snd (snd (root_create_client ced_factory 0 demo_representation KindCED (Root_new :: (CedMiddleware, unit) Root)))) a = Some c \<and>
     pc_objects c = Map.empty"
proof -
  obtain result info r' where r': "root_create_client ced_factory 0 demo_representation KindCED (Root_new :: (CedMiddleware, unit) Root) = (result, info, r')"
    by (metis prod_cases3)
  have "root_get_client (cr_client_key demo_representation) (Root_new :: (CedMiddleware, unit) Root) = None"
    by (simp add: root_get_client_def Root_new_def)
  then show ?thesis
    using create_client_outcome [OF root_ok_new r'] by (simp add: demo_representation_accepted r') blast
qed

text \<open>A client that comes back with another session leaves its entities behind: the new client takes the
  key, and the old one, which no key leads to any more, keeps all its objects, and the middleware their
  entities. Nothing releases it; its objects hold it and it holds them.\<close>

theorem replaced_client_leaks:
  assumes "agent_middleware M ents F ord" and "root_ok (fst s)" and "store_ok ents s"
    and "client_accepted rep" and "root_get_client (cr_client_key rep) (fst s) = Some a"
    and "root_store (fst s) a = Some c" and "cr_session_id (pc_representation c) \<noteq> cr_session_id rep"
    and "root_create_client F now rep kind (fst s) = (result, info, r')"
  shows "(\<forall>k. root_get_client k r' \<noteq> Some a) \<and> root_store r' a = Some c \<and>
     (\<forall>oid. pc_objects c oid \<noteq> None \<longrightarrow> objectid_to_raw oid \<in> ents (pc_world (c, snd s)) (objectid_kind oid))"
proof -
  have "a < root_fresh (fst s)" by (rule root_okD(4) [OF assms(2,6)])
  moreover have key: "k = cr_client_key rep" if "map_of (root_clients (fst s)) k = Some a" for k
    using root_okD(3) [OF assms(2) that] root_get_client_ok [OF assms(2,5)] by auto
  moreover have "r' = (let (a, r') = root_alloc (ProxyClient_new F now rep kind Map.empty) (fst s)
          in r'\<lparr>root_clients := omap_assign (cr_client_key rep) a (root_clients r')\<rparr>)"
    using assms(8) unfolding create_client_cases(3) [OF assms(4,5,6,7)] by simp
  ultimately have "\<forall>k. root_get_client k r' \<noteq> Some a" "root_store r' a = Some c"
    using assms(6) by (auto simp: root_alloc_def root_get_client_def map_of_omap_assign)
  moreover have "client_ok ents (c, snd s)" using assms(3,6) by (simp add: store_ok_def)
  ultimately show ?thesis using client_okD(2) [of ents "(c, snd s)"] by auto
qed

theorem replaced_client_leaks_witness:
  "\<exists>r' :: (CedMiddleware, unit) Root. (\<forall>k. root_get_client k r' \<noteq> Some 0) \<and> root_store r' 0 \<noteq> None"
proof -
  let ?s = "(snd (snd (root_create_client ced_factory 0 demo_representation KindCED Root_new)), CedTopicManager_init)
    :: (CedMiddleware, unit, CedTopicManager) root_state"
  let ?rep = "demo_representation\<lparr>cr_session_id := 0x82\<rparr>"
  obtain result info r' where r': "root_create_client ced_factory 1 ?rep KindCED (fst ?s) = (result, info, r')" by (metis prod_cases3)
  have "store_ok ced_ents ?s"
    by (simp add: demo_root_create store_ok_def ced_agent.client_ok_new)
  moreover have "root_ok (fst ?s)" using root_ok_create [OF root_ok_new] by simp
  moreover have "client_accepted ?rep" using demo_representation_accepted by (simp add: client_accepted_def)
  ultimately have "(\<forall>k. root_get_client k r' \<noteq> Some 0) \<and> root_store r' 0 = Some (ProxyClient_new ced_factory 0 demo_representation KindCED Map.empty)"
    using replaced_client_leaks [OF ced_agent.agent_middleware_axioms, of ?s ?rep 0
        "ProxyClient_new ced_factory 0 demo_representation KindCED Map.empty" 1 KindCED result info r', OF _ _ _ _ _ _ r']
    by (simp add: demo_root_create) (simp add: root_get_client_def demo_representation_def)
  then show ?thesis by (intro exI [of _ r']) simp
qed

text \<open>C30. A heartbeat round that begins at the first client is given every client exactly once, in the order of
  the keys, and leaves the iterator at the first client for the next round. The first round of an agent,
  and the one after a round that found no clients, begins at the end: it is given none.\<close>

theorem client_scan_visits_all:
  assumes "root_ok r"
  shows "(root_current_client r = omap_begin (root_clients r) \<longrightarrow>
       root_scan r = (map snd (root_clients r), r) \<and> distinct (fst (root_scan r)) \<and>
       set (fst (root_scan r)) = {a. \<exists>k. root_get_client k r = Some a}) \<and>
     (root_current_client r = None \<longrightarrow> fst (root_scan r) = [] \<and>
       root_current_client (snd (root_scan r)) = omap_begin (root_clients (snd (root_scan r))))"
proof (intro conjI impI)
  assume b: "root_current_client r = omap_begin (root_clients r)"
  show scan: "root_scan r = (map snd (root_clients r), r)"
    using root_scan_from [OF root_okD(1) [OF assms], of "[]"] b by simp
  show "distinct (fst (root_scan r))" using root_okD(2) [OF assms] by (simp add: scan)
  have "map_of (root_clients r) k = Some a \<longleftrightarrow> (k, a) \<in> set (root_clients r)" for k a
    using root_okD(1) [OF assms] by (auto simp: omap_ok_def dest: map_of_SomeD)
  then show "set (fst (root_scan r)) = {a. \<exists>k. root_get_client k r = Some a}"
    by (force simp: scan root_get_client_def)
next
  assume "root_current_client r = None"
  then show "fst (root_scan r) = []" "root_current_client (snd (root_scan r)) = omap_begin (root_clients (snd (root_scan r)))"
    by (simp_all add: root_scan.simps [of r] root_get_next_client_def)
qed

theorem client_scan_visits_all_witness:
  "fst (root_scan ((snd (snd (root_create_client ced_factory 0 demo_representation KindCED (Root_new :: (CedMiddleware, unit) Root))))
     \<lparr>root_current_client := Some (0xAA, 0xBB, 0xCC, 0xDD)\<rparr>)) = [0]"
proof -
  let ?r = "(snd (snd (root_create_client ced_factory 0 demo_representation KindCED (Root_new :: (CedMiddleware, unit) Root))))
     \<lparr>root_current_client := Some (0xAA, 0xBB, 0xCC, 0xDD)\<rparr>"
  have "root_ok (snd (root_get_next_client (snd (snd (root_create_client ced_factory 0 demo_representation KindCED (Root_new :: (CedMiddleware, unit) Root))))))"
    by (rule root_ok_get_next [OF root_ok_create [OF root_ok_new]])
  then have "root_ok ?r" by (simp add: demo_root_create root_get_next_client_def omap_begin_def)
  from client_scan_visits_all [OF this] show ?thesis by (simp add: demo_root_create omap_begin_def)
qed

end
