(* ===== verification/Processor.thy ===== *)
theory Processor
  imports Root Transport
begin

text \<open>
  \<open>Processor\<close> (\<open>include/uxr/agent/processor/Processor.hpp\<close>, \<open>src/cpp/processor/Processor.cpp\<close>): what the
  agent does with an input packet, with the data a reader found, and in a round of heartbeats. The state
  is the agent as a processor sees it: the clients, what their middlewares share, the sessions of the
  transport and its two queues. Each handler is a function of that state; an exception no handler of
  the agent catches, and undefined behaviour, is a fault in a sum type. The end point is a type
  parameter, as in the code.
\<close>

section \<open>Faults\<close>

text \<open>
  An exception of the middleware or of a variant (\<open>Uncaught\<close>), a write that runs out of memory outside any
  \<open>try\<close>, \<open>std::out_of_range\<close> from the messages of an output stream, \<open>std::length_error\<close> from a vector, a
  call that does not return; and the end of the fuel, which is no behaviour of the code.
\<close>

datatype processor_fault = Uncaught fault | UncaughtNotEnoughMemory | OutOfRange | LengthError | NoReturn | OutOfFuel

definition and_then :: "'e + 'a \<Rightarrow> ('a \<Rightarrow> 'e + 'b) \<Rightarrow> 'e + 'b" where
  "and_then r f = (case r of Inl e \<Rightarrow> Inl e | Inr x \<Rightarrow> f x)"

lemma and_then_simps [simp]: "and_then (Inl e) f = Inl e" "and_then (Inr x) f = f x"
  by (simp_all add: and_then_def)

lemma and_then_Inr: "and_then r f = Inr y \<longleftrightarrow> (\<exists>x. r = Inr x \<and> f x = Inr y)"
  by (cases r) simp_all

lemma and_then_Inl: "and_then r f = Inl e \<longleftrightarrow> r = Inl e \<or> (\<exists>x. r = Inr x \<and> f x = Inl e)"
  by (cases r) simp_all

lemma and_then_cong [fundef_cong]:
  "r = r' \<Longrightarrow> (\<And>x. r' = Inr x \<Longrightarrow> f x = f' x) \<Longrightarrow> and_then r f = and_then r' f'"
  by (cases r') simp_all

section \<open>State and environment\<close>

type_synonym ('c, 'e) server = "('e \<times> 'c InputMessage, 'e \<times> 'c OutputMessage) Server"

record ('m, 'c, 'g, 'e) Agent =
  ag_root :: "('m, 'c) Root"
  ag_shared :: 'g
  ag_sessions :: "'e SessionManager"
  ag_server :: "('c, 'e) server"
  ag_ticks :: nat

text \<open>
  What does not change: Fast CDR, the operations and constructors of the middleware, the order of the
  unordered maps, the kind of middleware, the readings of the steady clock and of the epoch clock (both in
  nanoseconds; \<open>ag_ticks\<close> counts the readings), and the indeterminate values of members no constructor
  sets.
\<close>

record ('m, 'c, 'g) processor_env =
  pe_cdr :: "'c xrce_cdr"
  pe_middleware :: "('m \<times> 'g) Middleware"
  pe_factory :: "'m middleware_factory"
  pe_order :: "(ObjectId \<rightharpoonup> XRCEObject) \<Rightarrow> ObjectId list"
  pe_kind :: MiddlewareKind
  pe_steady_clock :: "nat \<Rightarrow> int"
  pe_epoch_clock :: "nat \<Rightarrow> nat"
  pe_raw_cookie :: XrceCookie
  pe_raw_version :: XrceVersion
  pe_raw_vendor :: XrceVendorId
  pe_raw_bitmap :: "u8 \<times> u8"

type_synonym ('m, 'c, 'g, 'e, 'a) agent_action =
  "('m, 'c, 'g, 'e) Agent \<Rightarrow> processor_fault + 'a \<times> ('m, 'c, 'g, 'e) Agent"

definition read_steady_clock :: "('m, 'c, 'g) processor_env \<Rightarrow> ('m, 'c, 'g, 'e) Agent \<Rightarrow> int \<times> ('m, 'c, 'g, 'e) Agent" where
  "read_steady_clock E ag = (pe_steady_clock E (ag_ticks ag), ag\<lparr>ag_ticks := Suc (ag_ticks ag)\<rparr>)"

definition get_epoch_time :: "('m, 'c, 'g) processor_env \<Rightarrow> ('m, 'c, 'g, 'e) Agent \<Rightarrow> Time_t \<times> ('m, 'c, 'g, 'e) Agent" where
  "get_epoch_time E ag =
     (let epoch_time = pe_epoch_clock E (ag_ticks ag)
      in (\<lparr>tm_seconds = of_nat (epoch_time div 1000000000), tm_nanoseconds = of_nat (epoch_time mod 1000000000)\<rparr>,
          ag\<lparr>ag_ticks := Suc (ag_ticks ag)\<rparr>))"

definition push_packet :: "'e \<Rightarrow> 'c OutputMessage \<Rightarrow> ('c, 'e) server \<Rightarrow> ('c, 'e) server" where
  "push_packet destination message = push_output_packet (\<lambda>_. True) (destination, message)"

definition ag_push :: "'e \<Rightarrow> 'c OutputMessage \<Rightarrow> ('m, 'c, 'g, 'e) Agent \<Rightarrow> ('m, 'c, 'g, 'e) Agent" where
  "ag_push destination message ag = ag\<lparr>ag_server := push_packet destination message (ag_server ag)\<rparr>"

text \<open>
  A handler holds its client by a shared pointer, here the address in the store. An address without a
  client would be a dangling pointer.
\<close>

definition ag_set_client :: "nat \<Rightarrow> ('m, 'c, 'g) client_state \<Rightarrow> ('m, 'c, 'g, 'e) Agent \<Rightarrow> ('m, 'c, 'g, 'e) Agent" where
  "ag_set_client a s ag =
     ag\<lparr>ag_root := (ag_root ag)\<lparr>root_store := (root_store (ag_root ag))(a \<mapsto> fst s)\<rparr>, ag_shared := snd s\<rparr>"

definition on_client :: "nat \<Rightarrow> (('m, 'c, 'g) client_state \<Rightarrow> processor_fault + 'a \<times> ('m, 'c, 'g) client_state) \<Rightarrow>
    ('m, 'c, 'g, 'e, 'a) agent_action" where
  "on_client a f ag =
     (case root_store (ag_root ag) a of
        None \<Rightarrow> Inl (Uncaught DanglingReference)
      | Some c \<Rightarrow> and_then (f (c, ag_shared ag)) (\<lambda>(x, s). Inr (x, ag_set_client a s ag)))"

definition on_session :: "nat \<Rightarrow> ('c Session \<Rightarrow> processor_fault + 'a \<times> 'c Session) \<Rightarrow> ('m, 'c, 'g, 'e, 'a) agent_action" where
  "on_session a f = on_client a (\<lambda>(c, g). and_then (f (pc_session c)) (\<lambda>(x, s). Inr (x, c\<lparr>pc_session := s\<rparr>, g)))"

lemma on_client_Inr:
  "on_client a f ag = Inr (x, ag') \<longleftrightarrow>
     (\<exists>c s. root_store (ag_root ag) a = Some c \<and> f (c, ag_shared ag) = Inr (x, s) \<and> ag' = ag_set_client a s ag)"
  by (auto simp: on_client_def and_then_Inr split: option.splits)

lemma on_session_Inr:
  "on_session a f ag = Inr (x, ag') \<longleftrightarrow>
     (\<exists>c s. root_store (ag_root ag) a = Some c \<and> f (pc_session c) = Inr (x, s) \<and>
        ag' = ag_set_client a (c\<lparr>pc_session := s\<rparr>, ag_shared ag) ag)"
  by (auto simp: on_session_def on_client_Inr and_then_Inr)

section \<open>Sending\<close>

text \<open>\<open>push_output_submessage\<close> of the session of a client.\<close>

definition send_submessage :: "('c, 'x) fastcdr_scheme \<Rightarrow> nat \<Rightarrow> StreamId \<Rightarrow> SubmessageId \<Rightarrow> 'c payload \<Rightarrow>
    ('m, 'c, 'g, 'e, bool) agent_action" where
  "send_submessage C a stream_id submessage_id submessage =
     on_session a (\<lambda>s. case ses_push_output_submessage C stream_id submessage_id submessage s of
        None \<Rightarrow> Inl NoReturn
      | Some (PushThrew, _) \<Rightarrow> Inl UncaughtNotEnoughMemory
      | Some (Pushed rv, s) \<Rightarrow> Inr (rv, s))"

text \<open>The messages of a stream that wait to be sent for the first time.\<close>

definition ses_unsent :: "StreamId \<Rightarrow> 'c Session \<Rightarrow> nat" where
  "ses_unsent stream_id s =
     (if is_none_stream stream_id then length (nos_messages (ses_none_ostream s))
      else if is_besteffort_stream stream_id then length (bos_messages (ses_be_out s stream_id))
      else (let x = ses_get_reliable_output_stream s stream_id in seq_dist (ros_last_sent x) (ros_last_unacked x)))"

lemma seq_dist_next: "a \<noteq> b \<Longrightarrow> seq_dist (seq_add_int a 1) b < seq_dist a b"
  using seq_dist_step [of a b] seq_add_int_word [of 1 a] by simp

lemma ses_unsent_less:
  assumes "ses_get_next_output_message k s = (NextMessage m, s')"
  shows "ses_unsent k s' < ses_unsent k s"
proof -
  have "seq_dist (ros_last_sent x') (ros_last_unacked x') < seq_dist (ros_last_sent x) (ros_last_unacked x)"
    if "ros_get_next_message x = (NextMessage m, x')" for x x'
    using that seq_dist_next [of "ros_last_sent x" "ros_last_unacked x"]
    by (auto simp: ros_get_next_message_def Let_def seq_lt_dist split: if_splits option.splits)
  with assms show ?thesis
    by (auto simp: ses_get_next_output_message_def ses_unsent_def nos_pop_message_def bos_pop_message_def Let_def
        ses_access_defs stream_classes split: if_splits list.splits option.splits prod.splits)
qed

text \<open>The loop that hands what waits in a stream to the output queue.\<close>

function drain :: "'e \<Rightarrow> StreamId \<Rightarrow> 'c Session \<Rightarrow> ('c, 'e) server \<Rightarrow> processor_fault + 'c Session \<times> ('c, 'e) server" where
  "drain destination k s sv =
     (case ses_get_next_output_message k s of
        (NoMessage, s') \<Rightarrow> Inr (s', sv)
      | (NextThrew, s') \<Rightarrow> Inl OutOfRange
      | (NextMessage m, s') \<Rightarrow> drain destination k s' (push_packet destination m sv))"
  by auto
termination
  by (relation "measure (\<lambda>(destination, k, s, sv). ses_unsent k s)") (simp_all, metis ses_unsent_less)

declare drain.simps [simp del]

definition send_pending :: "nat \<Rightarrow> 'e \<Rightarrow> StreamId \<Rightarrow> ('m, 'c, 'g, 'e) Agent \<Rightarrow> processor_fault + ('m, 'c, 'g, 'e) Agent" where
  "send_pending a destination k ag =
     and_then (on_session a (\<lambda>s. map_sum id (\<lambda>(s, sv). (sv, s)) (drain destination k s (ag_server ag))) ag)
       (\<lambda>(sv, ag). Inr (ag\<lparr>ag_server := sv\<rparr>))"

text \<open>The same with \<open>if\<close> for \<open>while\<close>.\<close>

definition send_next :: "nat \<Rightarrow> 'e \<Rightarrow> StreamId \<Rightarrow> ('m, 'c, 'g, 'e) Agent \<Rightarrow> processor_fault + ('m, 'c, 'g, 'e) Agent" where
  "send_next a destination k ag =
     and_then (on_session a (\<lambda>s. Inr (ses_get_next_output_message k s)) ag) (\<lambda>(r, ag).
       case r of NoMessage \<Rightarrow> Inr ag | NextMessage m \<Rightarrow> Inr (ag_push destination m ag) | NextThrew \<Rightarrow> Inl OutOfRange)"

text \<open>A message of its own, outside any stream: header, subheader and payload, and room for just these.\<close>

definition lone_message :: "('c, 'x) fastcdr_scheme \<Rightarrow> MessageHeader \<Rightarrow> SubmessageId \<Rightarrow> 'c payload \<Rightarrow> 'c OutputMessage" where
  "lone_message C header submessage_id payload =
     snd (append_submessage C submessage_id payload 0x01
       (OutputMessage_new C header (mh_getCdrSerializedSize C header 0 + sh_getCdrSerializedSize C 0 + pl_size payload)))"

section \<open>Reading a payload\<close>

text \<open>\<open>get_payload\<close> catches only the exception for too few bytes.\<close>

definition get_payload :: "('c, 'a) reader \<Rightarrow> 'c InputMessage \<Rightarrow> processor_fault + 'a option \<times> 'c InputMessage" where
  "get_payload g m =
     (case g (im_deserializer m) of
        (Got data, c) \<Rightarrow> Inr (Some data, m\<lparr>im_deserializer := c\<rparr>)
      | (NotEnoughMemory, c) \<Rightarrow> Inr (None, m\<lparr>im_deserializer := c\<rparr>)
      | (BadParam, c) \<Rightarrow> Inl (Uncaught BadParamException))"

text \<open>A handler of a submessage: its result, and the message, whose reading position has moved.\<close>

type_synonym ('m, 'c, 'g, 'e) handler = "'c InputMessage \<Rightarrow> ('m, 'c, 'g, 'e, bool \<times> 'c InputMessage) agent_action"

text \<open>Read the payload, go on with it, or answer \<open>failed\<close> when it cannot be read.\<close>

definition with_payload :: "('c, 'a) reader \<Rightarrow> bool \<Rightarrow> ('a \<Rightarrow> ('m, 'c, 'g, 'e, bool) agent_action) \<Rightarrow> ('m, 'c, 'g, 'e) handler" where
  "with_payload g failed f m ag =
     and_then (get_payload g m) (\<lambda>(p, m).
       case p of
         None \<Rightarrow> Inr ((failed, m), ag)
       | Some data \<Rightarrow> and_then (f data ag) (\<lambda>(rv, ag). Inr ((rv, m), ag)))"

section \<open>Clients\<close>

definition is_none_session :: "SessionId \<Rightarrow> bool" where
  "is_none_session session_id \<longleftrightarrow>
     session_id = SESSIONID_NONE_WITH_CLIENT_KEY \<or> session_id = SESSIONID_NONE_WITHOUT_CLIENT_KEY"

definition ag_delete_client :: "('m, 'c, 'g) processor_env \<Rightarrow> ClientKey \<Rightarrow> ('m, 'c, 'g, 'e) Agent \<Rightarrow> ResultStatus \<times> ('m, 'c, 'g, 'e) Agent" where
  "ag_delete_client E client_key ag =
     (let (result, r, g) = root_delete_client (pe_middleware E) (pe_order E) client_key (ag_root ag, ag_shared ag)
      in (result, ag\<lparr>ag_root := r, ag_shared := g\<rparr>))"

text \<open>The end point belonged to another client so far.\<close>

definition forget_previous_client :: "('m, 'c, 'g) processor_env \<Rightarrow> 'e \<Rightarrow> ClientKey \<Rightarrow> ('m, 'c, 'g, 'e) Agent \<Rightarrow> bool \<times> ('m, 'c, 'g, 'e) Agent" where
  "forget_previous_client E source client_key ag =
     (case get_client_key source (ag_sessions ag) of
        Some raw_client_key \<Rightarrow>
          if client_key \<noteq> raw_to_clientkey raw_client_key
          then (let (result, ag) = ag_delete_client E (raw_to_clientkey raw_client_key) ag
                in if STATUS_OK = res_status result \<or> STATUS_ERR_UNKNOWN_REFERENCE = res_status result
                   then (True, ag\<lparr>ag_sessions := destroy_session source (ag_sessions ag)\<rparr>)
                   else (False, ag))
          else (True, ag)
      | None \<Rightarrow> (True, ag))"

text \<open>What \<open>create_client\<close> leaves as it is keeps its indeterminate value.\<close>

definition raw_agent_representation :: "('m, 'c, 'g) processor_env \<Rightarrow> AGENT_Representation" where
  "raw_agent_representation E =
     \<lparr>ar_xrce_cookie = pe_raw_cookie E, ar_xrce_version = pe_raw_version E, ar_xrce_vendor_id = pe_raw_vendor E, ar_properties = None\<rparr>"

definition ag_create_client :: "('m, 'c, 'g) processor_env \<Rightarrow> CLIENT_Representation \<Rightarrow> ('m, 'c, 'g, 'e) Agent \<Rightarrow>
    ResultStatus \<times> AGENT_Representation \<times> ('m, 'c, 'g, 'e) Agent" where
  "ag_create_client E rep ag =
     (let (now, ag) = read_steady_clock E ag;
          (result, agent_rep, r) = root_create_client (pe_factory E) now rep (pe_kind E) (ag_root ag)
      in (result, case agent_rep of Some x \<Rightarrow> x | None \<Rightarrow> raw_agent_representation E, ag\<lparr>ag_root := r\<rparr>))"

definition process_create_client_submessage :: "('m, 'c, 'g) processor_env \<Rightarrow> 'e \<Rightarrow> ('m, 'c, 'g, 'e) handler" where
  "process_create_client_submessage E source m =
     (if is_none_session (mh_session_id (im_header m))
      then with_payload (CLIENT_Representation_deserialize (pe_cdr E)) False (\<lambda>rep ag.
        (let (rv, ag) = forget_previous_client E source (cr_client_key rep) ag
         in if rv
            then (let status_header = (im_header m)\<lparr>mh_session_id := cr_session_id rep\<rparr>;
                      (result, agent_rep, ag) = ag_create_client E rep ag;
                      ag = (if STATUS_OK = res_status result
                            then ag\<lparr>ag_sessions := establish_session source (clientkey_to_raw (cr_client_key rep))
                                     (cr_session_id rep) (ag_sessions ag)\<rparr>
                            else ag);
                      status_agent = STATUS_AGENT_payload (pe_cdr E) \<lparr>sa_result = result, sa_agent_info = agent_rep\<rparr>
                  in Inr (True, ag_push source (lone_message (pe_cdr E) status_header STATUS_AGENT status_agent) ag))
            else Inr (False, ag))) m
      else (\<lambda>ag. Inr ((False, m), ag)))"

section \<open>Objects\<close>

text \<open>A status for a request, on a stream of the client, and the loop that sends it.\<close>

definition answer_status :: "('m, 'c, 'g) processor_env \<Rightarrow> nat \<Rightarrow> 'e \<Rightarrow> StreamId \<Rightarrow> BaseObjectRequest \<Rightarrow> ResultStatus \<Rightarrow>
    ('m, 'c, 'g, 'e) Agent \<Rightarrow> processor_fault + ('m, 'c, 'g, 'e) Agent" where
  "answer_status E a source stream_id request result ag =
     and_then (send_submessage (pe_cdr E) a stream_id STATUS
         (STATUS_payload (pe_cdr E) \<lparr>rep_related_request = request, rep_result = result\<rparr>) ag)
       (\<lambda>(rv, ag). send_pending a source stream_id ag)"

definition creation_mode_of :: "u8 \<Rightarrow> CreationMode" where
  "creation_mode_of flags = \<lparr>cm_reuse = (0 < flags AND FLAG_REUSE), cm_replace = (0 < flags AND FLAG_REPLACE)\<rparr>"

definition process_create_submessage :: "('m, 'c, 'g) processor_env \<Rightarrow> nat \<Rightarrow> 'e \<Rightarrow> ('m, 'c, 'g, 'e) handler" where
  "process_create_submessage E a source m =
     with_payload (CREATE_Payload_deserialize (pe_cdr E)) True (\<lambda>p ag.
       and_then (on_client a (\<lambda>s. map_sum Uncaught id (pc_create_object (pe_middleware E)
            (creation_mode_of (sh_flags (im_subheader m))) (bor_object_id (cp_request p)) (cp_object_representation p) s)) ag)
         (\<lambda>(result, ag). and_then (answer_status E a source STREAMID_BUILTIN_RELIABLE (cp_request p) result ag)
           (\<lambda>ag. Inr (True, ag)))) m"

definition process_delete_submessage :: "('m, 'c, 'g) processor_env \<Rightarrow> nat \<Rightarrow> 'e \<Rightarrow> ('m, 'c, 'g, 'e) handler" where
  "process_delete_submessage E a source m =
     with_payload (BaseObjectRequest_deserialize (pe_cdr E)) False (\<lambda>request ag.
       if snd (bor_object_id request) AND 0x0F = OBJK_CLIENT
       then and_then (on_client a (\<lambda>(c, g). Inr (cr_client_key (pc_representation c), c, g)) ag) (\<lambda>(client_key, ag).
              let (result, ag) = ag_delete_client E client_key ag;
                  ag = (if STATUS_OK = res_status result
                        then ag\<lparr>ag_sessions := destroy_session source (ag_sessions ag)\<rparr> else ag)
              in and_then (answer_status E a source STREAMID_NONE request result ag) (\<lambda>ag. Inr (True, ag)))
       else and_then (on_client a (\<lambda>s. Inr (pc_delete_object (pe_middleware E) (bor_object_id request) s)) ag)
              (\<lambda>(result, ag). and_then (answer_status E a source STREAMID_BUILTIN_RELIABLE request result ag)
                (\<lambda>ag. Inr (True, ag)))) m"

text \<open>\<open>dynamic_pointer_cast\<close>: the null pointer when the object is of another class.\<close>

definition object_cast :: "ObjectClass \<Rightarrow> XRCEObject option \<Rightarrow> XRCEObject option" where
  "object_cast cl ob = (case ob of Some x \<Rightarrow> if xo_class x = cl then Some x else None | None \<Rightarrow> None)"

definition write_object :: "('m \<times> 'g) Middleware \<Rightarrow> DATA_Payload_Data \<Rightarrow> ('m, 'c, 'g) client_state \<Rightarrow> bool \<times> ('m, 'c, 'g) client_state" where
  "write_object M data_payload s =
     (let object_id = bor_object_id (dp_request data_payload);
          kind = snd object_id AND 0x0F;
          object = pc_get_object object_id (fst s);
          written = (\<lambda>(rv, w). (rv, pc_set_world w s))
      in if kind = OBJK_DATAWRITER
         then (case object_cast DataWriter object of
                 Some ob \<Rightarrow> written (DataWriter_write M ob (dp_data data_payload) (pc_world s)) | None \<Rightarrow> (False, s))
         else if kind = OBJK_REQUESTER
         then (case object_cast Requester object of
                 Some ob \<Rightarrow> written (Requester_write M ob (dp_data data_payload) (bor_request_id (dp_request data_payload)) (pc_world s))
               | None \<Rightarrow> (False, s))
         else if kind = OBJK_REPLIER
         then (case object_cast Replier object of
                 Some ob \<Rightarrow> written (Replier_write M ob (dp_data data_payload) (pc_world s)) | None \<Rightarrow> (False, s))
         else (False, s))"

text \<open>
  The size of the data is the length of the submessage less that of the request, in \<open>size_t\<close>: below zero
  it is more than a vector can have, and \<open>resize\<close> throws.
\<close>

definition process_write_data_submessage :: "('m, 'c, 'g) processor_env \<Rightarrow> nat \<Rightarrow> ('m, 'c, 'g, 'e) handler" where
  "process_write_data_submessage E a m =
     (let flags = sh_flags (im_subheader m) AND 0x0E;
          submessage_length = unat (sh_submessage_length (im_subheader m));
          request_size = BaseObjectRequest_size (pe_cdr E) 0
      in if flags = FORMAT_DATA_FLAG
         then if submessage_length < request_size then (\<lambda>ag. Inl LengthError)
              else with_payload (DATA_Payload_deserialize (pe_cdr E) (submessage_length - request_size)) False
                     (\<lambda>p. on_client a (\<lambda>s. Inr (write_object (pe_middleware E) p s))) m
         else (\<lambda>ag. Inr ((False, m), ag)))"

definition reader_class :: "ObjectId \<Rightarrow> ObjectClass option" where
  "reader_class object_id =
     (let kind = snd object_id AND 0x0F
      in if kind = OBJK_DATAREADER then Some DataReader else if kind = OBJK_REQUESTER then Some Requester
         else if kind = OBJK_REPLIER then Some Replier else None)"

definition read_object :: "READ_DATA_Payload \<Rightarrow> ('m, 'c, 'g) client_state \<Rightarrow> StatusValue \<times> ('m, 'c, 'g) client_state" where
  "read_object p s =
     (let object_id = bor_object_id (rd_request p)
      in case Option.bind (reader_class object_id) (\<lambda>cl. object_cast cl (pc_get_object object_id (fst s))) of
           None \<Rightarrow> (STATUS_ERR_UNKNOWN_REFERENCE, s)
         | Some ob \<Rightarrow>
             (let write_args = \<lparr>wa_client_key = cr_client_key (pc_representation (fst s)),
                    wa_stream_id = rs_preferred_stream_id (rd_read_specification p), wa_object_id = object_id,
                    wa_request_id = bor_request_id (rd_request p)\<rparr>;
                  (reading, reader) = reader_read (rd_read_specification p) write_args (xo_reader ob)
              in (if reading then STATUS_OK else STATUS_ERR_RESOURCES,
                  (fst s)\<lparr>pc_objects := (pc_objects (fst s))(object_id \<mapsto> ob\<lparr>xo_reader := reader\<rparr>)\<rparr>, snd s)))"

definition process_read_data_submessage :: "('m, 'c, 'g) processor_env \<Rightarrow> nat \<Rightarrow> 'e \<Rightarrow> ('m, 'c, 'g, 'e) handler" where
  "process_read_data_submessage E a source =
     with_payload (READ_DATA_Payload_deserialize (pe_cdr E)) False (\<lambda>p ag.
       and_then (on_client a (\<lambda>s. Inr (read_object p s)) ag) (\<lambda>(status, ag).
         if STATUS_OK \<noteq> status
         then and_then (answer_status E a source STREAMID_BUILTIN_RELIABLE (rd_request p)
                \<lparr>res_status = status, res_implementation_status = 0x00\<rparr> ag) (\<lambda>ag. Inr (True, ag))
         else Inr (True, ag)))"

section \<open>Acknowledgements, heartbeats, time\<close>

text \<open>One message of an output stream again, when it is still there.\<close>

definition send_again :: "nat \<Rightarrow> 'e \<Rightarrow> StreamId \<Rightarrow> SeqNum \<Rightarrow> ('m, 'c, 'g, 'e) Agent \<Rightarrow> processor_fault + ('m, 'c, 'g, 'e) Agent" where
  "send_again a destination stream_id seq_num ag =
     and_then (on_session a (\<lambda>s. Inr (ses_get_output_message stream_id seq_num s)) ag) (\<lambda>(r, ag).
       Inr (case r of Some m \<Rightarrow> ag_push destination m ag | None \<Rightarrow> ag))"

text \<open>The numbers the bitmap asks for, in the order of the loop.\<close>

definition nacked :: "ACKNACK_Payload \<Rightarrow> SeqNum list" where
  "nacked p =
     (let first_message = int (unat (ack_first_unacked_seq_num p)) in
      concat (map (\<lambda>i. let mask = push_bit i 0x01 in
          (if ack_nack_bitmap_1 p AND mask = mask then [seq_of_int (first_message + int i)] else []) @
          (if ack_nack_bitmap_0 p AND mask = mask then [seq_of_int (first_message + int i + 8)] else [])) [0..<8]))"

fun for_each :: "('a \<Rightarrow> 's \<Rightarrow> 'f + 's) \<Rightarrow> 'a list \<Rightarrow> 's \<Rightarrow> 'f + 's" where
  "for_each f [] s = Inr s"
| "for_each f (x # xs) s = and_then (f x s) (for_each f xs)"

definition process_acknack_submessage :: "('m, 'c, 'g) processor_env \<Rightarrow> nat \<Rightarrow> 'e \<Rightarrow> ('m, 'c, 'g, 'e) handler" where
  "process_acknack_submessage E a source =
     with_payload (ACKNACK_Payload_deserialize (pe_cdr E)) False (\<lambda>p ag.
       and_then (for_each (send_again a source (ack_stream_id p)) (nacked p) ag) (\<lambda>ag.
         and_then (on_session a (\<lambda>s. Inr ((), ses_update_from_acknack (ack_stream_id p) (ack_first_unacked_seq_num p) s)) ag)
           (\<lambda>(_, ag). Inr (True, ag))))"

text \<open>An acknowledgement before it is filled; the bitmap has no constructor.\<close>

definition raw_acknack :: "('m, 'c, 'g) processor_env \<Rightarrow> ACKNACK_Payload" where
  "raw_acknack E = \<lparr>ack_first_unacked_seq_num = 0, ack_nack_bitmap_0 = fst (pe_raw_bitmap E),
     ack_nack_bitmap_1 = snd (pe_raw_bitmap E), ack_stream_id = 0\<rparr>"

definition process_heartbeat_submessage :: "('m, 'c, 'g) processor_env \<Rightarrow> nat \<Rightarrow> 'e \<Rightarrow> ('m, 'c, 'g, 'e) handler" where
  "process_heartbeat_submessage E a source =
     with_payload (HEARTBEAT_Payload_deserialize (pe_cdr E)) False (\<lambda>p ag.
       and_then (on_session a (\<lambda>s. Inr (ses_fill_acknack (hb_stream_id p) (raw_acknack E)
           (ses_update_from_heartbeat (hb_stream_id p) (hb_first_unacked_seq_nr p) (hb_last_unacked_seq_nr p) s))) ag)
         (\<lambda>(acknack, ag). and_then (send_submessage (pe_cdr E) a STREAMID_NONE ACKNACK
             (ACKNACK_payload (pe_cdr E) (acknack\<lparr>ack_stream_id := hb_stream_id p\<rparr>)) ag)
           (\<lambda>(_, ag). and_then (send_next a source STREAMID_NONE ag) (\<lambda>ag. Inr (True, ag)))))"

definition process_reset_submessage :: "nat \<Rightarrow> ('m, 'c, 'g, 'e) handler" where
  "process_reset_submessage a m ag =
     and_then (on_session a (\<lambda>s. Inr ((), ses_reset s)) ag) (\<lambda>(_, ag). Inr ((True, m), ag))"

definition process_timestamp_submessage :: "('m, 'c, 'g) processor_env \<Rightarrow> nat \<Rightarrow> 'e \<Rightarrow> ('m, 'c, 'g, 'e) handler" where
  "process_timestamp_submessage E a source =
     with_payload (Time_t_deserialize (pe_cdr E)) False (\<lambda>timestamp ag.
       let (receive, ag) = get_epoch_time E ag; (transmit, ag) = get_epoch_time E ag
       in and_then (send_submessage (pe_cdr E) a STREAMID_NONE TIMESTAMP_REPLY (TIMESTAMP_REPLY_payload (pe_cdr E)
             \<lparr>tr_transmit_timestamp = transmit, tr_receive_timestamp = receive, tr_originate_timestamp = timestamp\<rparr>) ag)
           (\<lambda>(_, ag). and_then (send_next a source STREAMID_NONE ag) (\<lambda>ag. Inr (True, ag))))"

section \<open>Dispatch\<close>

text \<open>
  A complete fragmented message is processed in the place of its last fragment: \<open>again\<close> is
  \<open>process_input_message\<close>.
\<close>

definition process_fragment_submessage :: "('c InputMessage \<Rightarrow> ('m, 'c, 'g, 'e) Agent \<Rightarrow> processor_fault + ('m, 'c, 'g, 'e) Agent) \<Rightarrow>
    ('m, 'c, 'g) processor_env \<Rightarrow> nat \<Rightarrow> ('m, 'c, 'g, 'e) handler" where
  "process_fragment_submessage again E a m ag =
     (let stream_id = mh_stream_id (im_header m) in
      and_then (on_session a (\<lambda>s. case ses_push_input_fragment (pe_cdr E) stream_id m s of
          None \<Rightarrow> Inl NoReturn | Some r \<Rightarrow> Inr r) ag) (\<lambda>(m, ag).
        and_then (on_session a (\<lambda>s. Inr (ses_pop_input_fragment_message (pe_cdr E) stream_id s)) ag) (\<lambda>(fragment, ag).
          case fragment of
            None \<Rightarrow> Inr ((True, m), ag)
          | Some fragment_message \<Rightarrow> and_then (again fragment_message ag) (\<lambda>ag. Inr ((True, m), ag)))))"

definition process_submessage :: "('c InputMessage \<Rightarrow> ('m, 'c, 'g, 'e) Agent \<Rightarrow> processor_fault + ('m, 'c, 'g, 'e) Agent) \<Rightarrow>
    ('m, 'c, 'g) processor_env \<Rightarrow> nat \<Rightarrow> 'e \<Rightarrow> ('m, 'c, 'g, 'e) handler" where
  "process_submessage again E a source m =
     (let submessage_id = sh_submessage_id (im_subheader m) in
      if submessage_id = CREATE_CLIENT then process_create_client_submessage E source m
      else if submessage_id = CREATE then process_create_submessage E a source m
      else if submessage_id = GET_INFO then (\<lambda>ag. Inr ((False, m), ag))
      else if submessage_id = DELETE_ID then process_delete_submessage E a source m
      else if submessage_id = WRITE_DATA then process_write_data_submessage E a m
      else if submessage_id = READ_DATA then process_read_data_submessage E a source m
      else if submessage_id = ACKNACK then process_acknack_submessage E a source m
      else if submessage_id = HEARTBEAT then process_heartbeat_submessage E a source m
      else if submessage_id = RESET then process_reset_submessage a m
      else if submessage_id = FRAGMENT then process_fragment_submessage again E a m
      else if submessage_id = TIMESTAMP then process_timestamp_submessage E a source m
      else (\<lambda>ag. Inr ((False, m), ag)))"

text \<open>The loop over the submessages; every round of it, and every message inside, takes one of the fuel.\<close>

fun process_input_message :: "nat \<Rightarrow> ('m, 'c, 'g) processor_env \<Rightarrow> nat \<Rightarrow> 'e \<Rightarrow> 'c InputMessage \<Rightarrow>
    ('m, 'c, 'g, 'e) Agent \<Rightarrow> processor_fault + ('m, 'c, 'g, 'e) Agent" where
  "process_input_message 0 E a source m ag = Inl OutOfFuel"
| "process_input_message (Suc n) E a source m ag =
     (case prepare_next_submessage (pe_cdr E) m of
        (False, m) \<Rightarrow> Inr ag
      | (True, m) \<Rightarrow>
          and_then (process_submessage (process_input_message n E a source) E a source m ag)
            (\<lambda>((rv, m), ag). if rv then process_input_message n E a source m ag else Inr ag))"

text \<open>The loop over the messages that are next in the stream.\<close>

fun process_messages :: "nat \<Rightarrow> nat \<Rightarrow> ('m, 'c, 'g) processor_env \<Rightarrow> nat \<Rightarrow> 'e \<Rightarrow> StreamId \<Rightarrow>
    ('m, 'c, 'g, 'e) Agent \<Rightarrow> processor_fault + ('m, 'c, 'g, 'e) Agent" where
  "process_messages n 0 E a source stream_id ag = Inl OutOfFuel"
| "process_messages n (Suc j) E a source stream_id ag =
     and_then (on_session a (\<lambda>s. Inr (ses_pop_input_message stream_id s)) ag) (\<lambda>(r, ag).
       case r of
         None \<Rightarrow> Inr ag
       | Some m \<Rightarrow> and_then (process_input_message n E a source m ag) (process_messages n j E a source stream_id))"

text \<open>A message of a client the agent knows.\<close>

definition acknowledge :: "('m, 'c, 'g) processor_env \<Rightarrow> nat \<Rightarrow> 'e \<Rightarrow> MessageHeader \<Rightarrow> ('m, 'c, 'g, 'e) Agent \<Rightarrow>
    processor_fault + ('m, 'c, 'g, 'e) Agent" where
  "acknowledge E a source header ag =
     and_then (on_session a (\<lambda>s. Inr (ses_fill_acknack (mh_stream_id header) (raw_acknack E) s)) ag) (\<lambda>(acknack, ag).
       Inr (ag_push source (lone_message (pe_cdr E)
           \<lparr>mh_session_id = mh_session_id header, mh_stream_id = STREAMID_NONE, mh_sequence_nr = 0x00, mh_client_key = mh_client_key header\<rparr>
           ACKNACK (ACKNACK_payload (pe_cdr E) (acknack\<lparr>ack_stream_id := mh_stream_id header\<rparr>))) ag))"

definition process_client_message :: "nat \<Rightarrow> nat \<Rightarrow> ('m, 'c, 'g) processor_env \<Rightarrow> nat \<Rightarrow> 'e \<Rightarrow> 'c InputMessage \<Rightarrow>
    ('m, 'c, 'g, 'e) Agent \<Rightarrow> processor_fault + ('m, 'c, 'g, 'e) Agent" where
  "process_client_message n j E a source m ag =
     (let header = im_header m; stream_id = mh_stream_id header; (now, ag) = read_steady_clock E ag in
      and_then (on_client a (\<lambda>(c, g). Inr ((), pc_update_state now c, g)) ag) (\<lambda>(_, ag).
      and_then (on_session a (\<lambda>s. Inr (ses_push_input_message m stream_id (mh_sequence_nr header) s)) ag) (\<lambda>(_, ag).
      and_then (process_messages n j E a source stream_id ag) (\<lambda>ag.
      if is_reliable_stream stream_id then acknowledge E a source header ag else Inr ag))))"

text \<open>A message of a client the agent does not know: only the deletion of a client is answered.\<close>

definition process_stranger_message :: "('m, 'c, 'g) processor_env \<Rightarrow> 'e \<Rightarrow> 'c InputMessage \<Rightarrow> ('m, 'c, 'g, 'e) Agent \<Rightarrow>
    processor_fault + ('m, 'c, 'g, 'e) Agent" where
  "process_stranger_message E source m ag =
     (case prepare_next_submessage (pe_cdr E) m of
        (True, m) \<Rightarrow>
          if sh_submessage_id (im_subheader m) = DELETE_ID
          then and_then (with_payload (BaseObjectRequest_deserialize (pe_cdr E)) False (\<lambda>request ag.
                 if snd (bor_object_id request) AND 0x0F = OBJK_CLIENT
                 then Inr (True, ag_push source (lone_message (pe_cdr E) (im_header m) STATUS
                        (STATUS_payload (pe_cdr E) \<lparr>rep_related_request = request, rep_result = result_ok\<rparr>)) ag)
                 else Inr (False, ag)) m ag) (\<lambda>(_, ag). Inr ag)
          else Inr ag
      | (False, _) \<Rightarrow> Inr ag)"

text \<open>The answer to a request for information, with the addresses of the agent that are given.\<close>

definition info_message :: "('m, 'c, 'g) processor_env \<Rightarrow> TransportAddress list \<Rightarrow> 'c InputMessage \<Rightarrow> 'c OutputMessage" where
  "info_message E address m =
     (let (get_info_payload, c) = GET_INFO_Payload_read (pe_cdr E) (im_deserializer m);
          (result, agent_rep) = root_get_info;
          info = agent_info_of \<lparr>rep_related_request = gi_request get_info_payload, rep_result = result\<rparr> agent_rep
                   \<lparr>ai_availability = 1, ai_address_seq = address\<rparr>
      in lone_message (pe_cdr E) (im_header m) INFO (INFO_payload (pe_cdr E) info))"

text \<open>The overload for the discovery server.\<close>

definition process_get_info_packet :: "('m, 'c, 'g) processor_env \<Rightarrow> TransportAddress list \<Rightarrow> 'e \<Rightarrow> 'c InputMessage \<Rightarrow>
    ('e \<times> 'c OutputMessage) option" where
  "process_get_info_packet E address source m =
     (case prepare_next_submessage (pe_cdr E) m of
        (True, m) \<Rightarrow> if sh_submessage_id (im_subheader m) = GET_INFO then Some (source, info_message E address m) else None
      | (False, _) \<Rightarrow> None)"

definition process_input_packet :: "nat \<Rightarrow> nat \<Rightarrow> ('m, 'c, 'g) processor_env \<Rightarrow> 'e \<times> 'c InputMessage \<Rightarrow>
    ('m, 'c, 'g, 'e) Agent \<Rightarrow> processor_fault + ('m, 'c, 'g, 'e) Agent" where
  "process_input_packet n j E input_packet ag =
     (let (source, m) = input_packet; header = im_header m in
      if is_none_session (mh_session_id header)
      then (case prepare_next_submessage (pe_cdr E) m of
              (True, m) \<Rightarrow>
                if sh_submessage_id (im_subheader m) = CREATE_CLIENT
                then and_then (process_create_client_submessage E source m ag) (\<lambda>(_, ag). Inr ag)
                else if sh_submessage_id (im_subheader m) = GET_INFO
                then Inr (ag_push source (info_message E [] m) ag)
                else Inr ag
            | (False, _) \<Rightarrow> Inr ag)
      else (let client_key = (if 128 > mh_session_id header then mh_client_key header
                              else case get_client_key source (ag_sessions ag) of
                                     Some raw_client_key \<Rightarrow> raw_to_clientkey raw_client_key
                                   | None \<Rightarrow> CLIENTKEY_INVALID)
            in case root_get_client client_key (ag_root ag) of
                 Some a \<Rightarrow> process_client_message n j E a source m ag
               | None \<Rightarrow> process_stranger_message E source m ag))"

section \<open>Data for the client\<close>

text \<open>Called by the thread of a reader; the client is the one that started it.\<close>

definition read_data_callback :: "('m, 'c, 'g) processor_env \<Rightarrow> nat \<Rightarrow> WriteFnArgs \<Rightarrow> u8 list \<Rightarrow> ('m, 'c, 'g, 'e, bool) agent_action" where
  "read_data_callback E a cb_args buffer ag =
     (case get_endpoint (clientkey_to_raw (wa_client_key cb_args)) (ag_sessions ag) of
        Some destination \<Rightarrow>
          and_then (send_submessage (pe_cdr E) a (wa_stream_id cb_args) DATA (DATA_payload (pe_cdr E)
              \<lparr>dp_request = \<lparr>bor_request_id = wa_request_id cb_args, bor_object_id = wa_object_id cb_args\<rparr>, dp_data = buffer\<rparr>) ag)
            (\<lambda>(rv, ag). and_then (send_pending a destination (wa_stream_id cb_args) ag) (\<lambda>ag. Inr (rv, ag)))
      | None \<Rightarrow> Inr (False, ag))"

section \<open>Heartbeats\<close>

text \<open>The size of the message is computed once, for a header with a client key.\<close>

definition heartbeat_message :: "('c, 'x) fastcdr_scheme \<Rightarrow> ('c payload) \<Rightarrow> SessionId \<Rightarrow> ClientKey \<Rightarrow> 'c OutputMessage" where
  "heartbeat_message C heartbeat session_id client_key =
     (let header = \<lparr>mh_session_id = 0, mh_stream_id = STREAMID_NONE, mh_sequence_nr = 0x00, mh_client_key = (0, 0, 0, 0)\<rparr>;
          message_size = mh_getCdrSerializedSize C header 0 + sh_getCdrSerializedSize C 0 + pl_size heartbeat
      in snd (append_submessage C HEARTBEAT heartbeat 0x01
           (OutputMessage_new C (header\<lparr>mh_session_id := session_id, mh_client_key := client_key\<rparr>) message_size)))"

definition heartbeat_stream :: "('m, 'c, 'g) processor_env \<Rightarrow> nat \<Rightarrow> 'e \<Rightarrow> CLIENT_Representation \<Rightarrow> StreamId \<Rightarrow>
    ('m, 'c, 'g, 'e) Agent \<Rightarrow> processor_fault + ('m, 'c, 'g, 'e) Agent" where
  "heartbeat_stream E a destination rep stream ag =
     and_then (on_session a (\<lambda>s. let (rv, heartbeat, s) = ses_fill_heartbeat stream HEARTBEAT_init s in Inr ((rv, heartbeat), s)) ag)
       (\<lambda>((rv, heartbeat), ag). Inr
         (if rv then ag_push destination (heartbeat_message (pe_cdr E) (HEARTBEAT_payload (pe_cdr E) heartbeat)
                       (cr_session_id rep) (cr_client_key rep)) ag
          else ag))"

definition heartbeat_client :: "('m, 'c, 'g) processor_env \<Rightarrow> nat \<Rightarrow> ('m, 'c, 'g, 'e) Agent \<Rightarrow> processor_fault + ('m, 'c, 'g, 'e) Agent" where
  "heartbeat_client E a ag =
     and_then (on_client a (\<lambda>(c, g). Inr (pc_representation c, c, g)) ag) (\<lambda>(rep, ag).
       case get_endpoint (clientkey_to_raw (cr_client_key rep)) (ag_sessions ag) of
         None \<Rightarrow> Inr ag
       | Some destination \<Rightarrow>
           (let (now, ag) = read_steady_clock E ag in
            and_then (on_client a (\<lambda>(c, g). let (st, c) = pc_get_state now c in Inr (st, c, g)) ag) (\<lambda>(st, ag).
              if alive = st
              then and_then (on_session a (\<lambda>s. Inr (ses_get_output_streams s, s)) ag) (\<lambda>(streams, ag).
                     for_each (heartbeat_stream E a destination rep) streams ag)
              else Inr ag)))"

section \<open>Frames\<close>

text \<open>
  What the handlers have in common is stated once: \<open>R\<close> relates the agent before and after, \<open>Q\<close> a session
  before and after. Any preorder that holds of the elementary steps holds of the handlers. The first contract
  is for steps that touch at most the session and the liveness of a client, and the queues.
\<close>

definition quiet :: "('c Session \<Rightarrow> 'c Session \<Rightarrow> bool) \<Rightarrow> ('m, 'c, 'g) client_state \<Rightarrow> ('m, 'c, 'g) client_state \<Rightarrow> bool" where
  "quiet Q s s' \<longleftrightarrow> snd s' = snd s \<and> pc_objects (fst s') = pc_objects (fst s) \<and> pc_middleware (fst s') = pc_middleware (fst s) \<and>
     pc_representation (fst s') = pc_representation (fst s) \<and> Q (pc_session (fst s)) (pc_session (fst s'))"

locale session_frame =
  fixes E :: "('m, 'c, 'g) processor_env"
    and R :: "('m, 'c, 'g, 'e) Agent \<Rightarrow> ('m, 'c, 'g, 'e) Agent \<Rightarrow> bool" and Q :: "'c Session \<Rightarrow> 'c Session \<Rightarrow> bool"
  assumes R_refl: "R ag ag" and R_trans: "R ag ag' \<Longrightarrow> R ag' ag'' \<Longrightarrow> R ag ag''"
    and R_server: "R ag (ag\<lparr>ag_server := sv\<rparr>)" and R_ticks: "R ag (ag\<lparr>ag_ticks := t\<rparr>)"
    and R_client: "root_store (ag_root ag) a = Some c \<Longrightarrow> quiet Q (c, ag_shared ag) cs \<Longrightarrow> R ag (ag_set_client a cs ag)"
    and Q_refl: "Q s s" and Q_trans: "Q s s' \<Longrightarrow> Q s' s'' \<Longrightarrow> Q s s''"
    and Q_reset: "Q s (ses_reset s)"
    and Q_push_output: "ses_push_output_submessage (pe_cdr E) k i p s = Some (r, s') \<Longrightarrow> Q s s'"
    and Q_next_output: "ses_get_next_output_message k s = (n, s') \<Longrightarrow> Q s s'"
    and Q_get_output: "ses_get_output_message k q s = (o1, s') \<Longrightarrow> Q s s'"
    and Q_acknack: "Q s (ses_update_from_acknack k q s)"
    and Q_heartbeat: "Q s (ses_update_from_heartbeat k q q' s)"
    and Q_fill_acknack: "ses_fill_acknack k ack s = (ack', s') \<Longrightarrow> Q s s'"
    and Q_fill_heartbeat: "ses_fill_heartbeat k hb s = (rv, hb', s') \<Longrightarrow> Q s s'"
begin

lemma R_quiet: "on_client a f ag = Inr (x, ag') \<Longrightarrow> (\<And>s y s'. f s = Inr (y, s') \<Longrightarrow> quiet Q s s') \<Longrightarrow> R ag ag'"
  by (auto simp: on_client_def and_then_Inr intro: R_client split: option.splits)

lemma on_session_R:
  assumes "on_session a f ag = Inr (x, ag')" and "\<And>s y s'. f s = Inr (y, s') \<Longrightarrow> Q s s'"
  shows "R ag ag'"
proof -
  from assms(1) obtain c s' where c: "root_store (ag_root ag) a = Some c" and s': "f (pc_session c) = Inr (x, s')"
    and ag': "ag' = ag_set_client a (c\<lparr>pc_session := s'\<rparr>, ag_shared ag) ag"
    unfolding on_session_Inr by blast
  have "quiet Q (c, ag_shared ag) (c\<lparr>pc_session := s'\<rparr>, ag_shared ag)"
    using assms(2) [OF s'] by (simp add: quiet_def)
  with c show ?thesis unfolding ag' by (rule R_client)
qed

lemma push_R: "R ag (ag_push d m ag)"
  by (simp add: ag_push_def R_server)

lemma on_client_look_R: "on_client a (\<lambda>(c, g). Inr (f c, c, g)) ag = Inr (x, ag') \<Longrightarrow> R ag ag'"
  by (erule R_quiet) (auto simp: quiet_def Q_refl)

lemma drain_Q: "drain d k s sv = Inr (s', sv') \<Longrightarrow> Q s s'"
proof (induction d k s sv rule: drain.induct)
  case (1 d k s sv)
  obtain r s1 where r: "ses_get_next_output_message k s = (r, s1)" by fastforce
  from Q_next_output [OF r] have "Q s s1" .
  with 1 show ?case
    by (cases r) (auto simp: drain.simps [of d k s] r intro: Q_trans)
qed

lemma send_submessage_R: "send_submessage (pe_cdr E) a k i p ag = Inr (x, ag') \<Longrightarrow> R ag ag'"
  unfolding send_submessage_def
  by (erule on_session_R) (auto intro: Q_push_output split: option.splits push_result.splits)

lemma send_pending_R:
  assumes "send_pending a d k ag = Inr ag'"
  shows "R ag ag'"
proof -
  obtain sv ag1 where "on_session a (\<lambda>s. map_sum id (\<lambda>(s, sv). (sv, s)) (drain d k s (ag_server ag))) ag = Inr (sv, ag1)"
    and ag': "ag' = ag1\<lparr>ag_server := sv\<rparr>"
    using assms by (auto simp: send_pending_def and_then_Inr)
  then have "R ag ag1"
    by (elim on_session_R) (auto simp: map_sum_def split: sum.splits dest: drain_Q)
  then show ?thesis unfolding ag' by (rule R_trans [OF _ R_server])
qed

lemma send_next_R:
  assumes "send_next a d k ag = Inr ag'"
  shows "R ag ag'"
proof -
  obtain r ag1 where 1: "on_session a (\<lambda>s. Inr (ses_get_next_output_message k s)) ag = Inr (r, ag1)"
    and 2: "(case r of NoMessage \<Rightarrow> Inr ag1 | NextMessage m \<Rightarrow> Inr (ag_push d m ag1) | NextThrew \<Rightarrow> Inl OutOfRange) = Inr ag'"
    using assms unfolding send_next_def and_then_Inr by auto
  have "R ag ag1" by (rule on_session_R [OF 1]) (auto intro: Q_next_output)
  with 2 show ?thesis by (cases r) (auto intro: R_trans push_R)
qed

lemma for_each_R:
  assumes "\<And>x ag ag'. f x ag = Inr ag' \<Longrightarrow> R ag ag'"
  shows "for_each f xs ag = Inr ag' \<Longrightarrow> R ag ag'"
proof (induction xs arbitrary: ag)
  case (Cons x xs)
  then obtain ag1 where "f x ag = Inr ag1" "for_each f xs ag1 = Inr ag'" by (auto simp: and_then_Inr)
  then show ?case using assms Cons.IH R_trans by blast
qed (simp add: R_refl)

lemma send_again_R: "send_again a d k q ag = Inr ag' \<Longrightarrow> R ag ag'"
  unfolding send_again_def and_then_Inr
  by (auto split: option.splits elim!: on_session_R [THEN R_trans] simp: push_R R_refl Q_get_output)

lemma with_payload_R:
  assumes "with_payload g b f m ag = Inr (x, ag')" and "\<And>p y ag1. f p ag = Inr (y, ag1) \<Longrightarrow> R ag ag1"
  shows "R ag ag'"
  using assms(1) by (auto simp: with_payload_def and_then_Inr R_refl split: option.splits dest: assms(2))

lemmas steps_R = send_submessage_R [THEN R_trans] send_pending_R [THEN R_trans] send_next_R [THEN R_trans]
  on_client_look_R [THEN R_trans]

lemma answer_status_R: "answer_status E a d k request result ag = Inr ag' \<Longrightarrow> R ag ag'"
  by (auto simp: answer_status_def and_then_Inr R_refl elim!: steps_R)

lemma process_acknack_R:
  assumes "process_acknack_submessage E a d m ag = Inr (x, ag')"
  shows "R ag ag'"
  using assms unfolding process_acknack_submessage_def
proof (rule with_payload_R)
  fix p y ag1
  assume "and_then (for_each (send_again a d (ack_stream_id p)) (nacked p) ag) (\<lambda>ag.
      and_then (on_session a (\<lambda>s. Inr ((), ses_update_from_acknack (ack_stream_id p) (ack_first_unacked_seq_num p) s)) ag)
        (\<lambda>(_, ag). Inr (True, ag))) = Inr (y, ag1)"
  then obtain ag2 where 1: "for_each (send_again a d (ack_stream_id p)) (nacked p) ag = Inr ag2"
    and 2: "on_session a (\<lambda>s. Inr ((), ses_update_from_acknack (ack_stream_id p) (ack_first_unacked_seq_num p) s)) ag2 = Inr ((), ag1)"
    by (auto simp: and_then_Inr)
  from 1 have "R ag ag2" by (rule for_each_R [rotated]) (rule send_again_R)
  moreover from 2 have "R ag2 ag1" by (rule on_session_R) (auto simp: Q_acknack)
  ultimately show "R ag ag1" by (rule R_trans)
qed

lemma process_heartbeat_R:
  assumes "process_heartbeat_submessage E a d m ag = Inr (x, ag')"
  shows "R ag ag'"
  using assms unfolding process_heartbeat_submessage_def
  by (rule with_payload_R)
    (auto simp: and_then_Inr R_refl elim!: steps_R on_session_R [THEN R_trans] intro: Q_trans [OF Q_heartbeat Q_fill_acknack])

lemma process_reset_R: "process_reset_submessage a m ag = Inr (x, ag') \<Longrightarrow> R ag ag'"
  by (auto simp: process_reset_submessage_def and_then_Inr R_refl elim!: on_session_R [THEN R_trans] intro: Q_reset)

lemma ticks_R: "R (ag\<lparr>ag_ticks := t\<rparr>) ag' \<Longrightarrow> R ag ag'"
  by (rule R_trans [OF R_ticks])

lemma process_timestamp_R:
  assumes "process_timestamp_submessage E a d m ag = Inr (x, ag')"
  shows "R ag ag'"
  using assms unfolding process_timestamp_submessage_def
proof (rule with_payload_R)
  fix p y ag1
  assume r: "(let (receive, ag) = get_epoch_time E ag; (transmit, ag) = get_epoch_time E ag
     in and_then (send_submessage (pe_cdr E) a STREAMID_NONE TIMESTAMP_REPLY (TIMESTAMP_REPLY_payload (pe_cdr E)
             \<lparr>tr_transmit_timestamp = transmit, tr_receive_timestamp = receive, tr_originate_timestamp = p\<rparr>) ag)
           (\<lambda>(_, ag). and_then (send_next a d STREAMID_NONE ag) (\<lambda>ag. Inr (True, ag)))) = Inr (y, ag1)"
  show "R ag ag1"
    by (rule ticks_R) (use r in \<open>auto simp: get_epoch_time_def Let_def and_then_Inr R_refl elim!: steps_R\<close>)
qed

lemma acknowledge_R: "acknowledge E a d h ag = Inr ag' \<Longrightarrow> R ag ag'"
  by (auto simp: acknowledge_def and_then_Inr push_R elim!: on_session_R [THEN R_trans] intro: Q_fill_acknack)

lemma heartbeat_stream_R: "heartbeat_stream E a d rep k ag = Inr ag' \<Longrightarrow> R ag ag'"
  by (auto simp: heartbeat_stream_def and_then_Inr push_R R_refl Let_def elim!: on_session_R [THEN R_trans]
      intro: Q_fill_heartbeat split: prod.splits)

lemma heartbeat_client_R:
  assumes "heartbeat_client E a ag = Inr ag'"
  shows "R ag ag'"
proof -
  obtain rep ag1 where 1: "on_client a (\<lambda>(c, g). Inr (pc_representation c, c, g)) ag = Inr (rep, ag1)"
    and r: "(case get_endpoint (clientkey_to_raw (cr_client_key rep)) (ag_sessions ag1) of
         None \<Rightarrow> Inr ag1
       | Some destination \<Rightarrow>
           (let (now, ag) = read_steady_clock E ag1 in
            and_then (on_client a (\<lambda>(c, g). let (st, c) = pc_get_state now c in Inr (st, c, g)) ag) (\<lambda>(st, ag).
              if alive = st
              then and_then (on_session a (\<lambda>s. Inr (ses_get_output_streams s, s)) ag) (\<lambda>(streams, ag).
                     for_each (heartbeat_stream E a destination rep) streams ag)
              else Inr ag))) = Inr ag'"
    using assms unfolding heartbeat_client_def and_then_Inr by (auto simp only: prod.case split_paired_all)
  have "R ag1 ag'"
  proof (cases "get_endpoint (clientkey_to_raw (cr_client_key rep)) (ag_sessions ag1)")
    case None
    with r show ?thesis by (simp add: R_refl)
  next
    case (Some d)
    obtain st ag2 where 2: "on_client a (\<lambda>(c, g). let (st, c) = pc_get_state (fst (read_steady_clock E ag1)) c in Inr (st, c, g))
          (snd (read_steady_clock E ag1)) = Inr (st, ag2)"
      and r2: "(if alive = st
              then and_then (on_session a (\<lambda>s. Inr (ses_get_output_streams s, s)) ag2) (\<lambda>(streams, ag).
                     for_each (heartbeat_stream E a d rep) streams ag)
              else Inr ag2) = Inr ag'"
      using r unfolding Some option.case Let_def case_prod_beta and_then_Inr by (auto simp only: split_paired_all fst_conv snd_conv)
    from 2 have "R (snd (read_steady_clock E ag1)) ag2"
      by (rule R_quiet) (auto simp: quiet_def pc_get_state_def Let_def Q_refl split: if_splits)
    then have "R ag1 ag2" by (auto simp: read_steady_clock_def intro: ticks_R)
    moreover have "R ag2 ag'"
    proof (cases "alive = st")
      case True
      with r2 obtain streams ag3 where 3: "on_session a (\<lambda>s. Inr (ses_get_output_streams s, s)) ag2 = Inr (streams, ag3)"
        and "for_each (heartbeat_stream E a d rep) streams ag3 = Inr ag'" by (auto simp: and_then_Inr)
      from this(2) have "R ag3 ag'" by (rule for_each_R [rotated]) (rule heartbeat_stream_R)
      moreover from 3 have "R ag2 ag3" by (rule on_session_R) (auto simp: Q_refl)
      ultimately show ?thesis using R_trans by blast
    qed (use r2 in \<open>simp add: R_refl\<close>)
    ultimately show ?thesis by (rule R_trans)
  qed
  with on_client_look_R [OF 1] show ?thesis by (rule R_trans)
qed

end

text \<open>These steps leave the table of the clients alone, and the iterator over it.\<close>

definition same_clients :: "('m, 'c, 'g, 'e) Agent \<Rightarrow> ('m, 'c, 'g, 'e) Agent \<Rightarrow> bool" where
  "same_clients ag ag' \<longleftrightarrow> root_clients (ag_root ag') = root_clients (ag_root ag) \<and>
     root_current_client (ag_root ag') = root_current_client (ag_root ag)"

interpretation clients: session_frame E same_clients "\<lambda>_ _. True" for E :: "('m, 'c, 'g) processor_env"
  by unfold_locales (simp_all add: same_clients_def ag_set_client_def)

lemma root_ahead_same: "same_clients ag ag' \<Longrightarrow> root_ahead (ag_root ag') = root_ahead (ag_root ag)"
  by (cases "root_current_client (ag_root ag)") (simp_all add: same_clients_def root_ahead_def)

lemma heartbeat_client_less:
  assumes "(Some a, r) = root_get_next_client (ag_root ag)" and "heartbeat_client E a (ag\<lparr>ag_root := r\<rparr>) = Inr ag'"
  shows "root_ahead (ag_root ag') < root_ahead (ag_root ag)"
  using root_get_next_less(3) [OF assms(1) [symmetric]] root_ahead_same [OF clients.heartbeat_client_R [OF assms(2)]] by simp

text \<open>A round of heartbeats, and its end: no client is visited twice.\<close>

function check_heartbeats :: "('m, 'c, 'g) processor_env \<Rightarrow> ('m, 'c, 'g, 'e) Agent \<Rightarrow> processor_fault + ('m, 'c, 'g, 'e) Agent" where
  "check_heartbeats E ag =
     (case root_get_next_client (ag_root ag) of
        (None, r) \<Rightarrow> Inr (ag\<lparr>ag_root := r\<rparr>)
      | (Some a, r) \<Rightarrow> and_then (heartbeat_client E a (ag\<lparr>ag_root := r\<rparr>)) (check_heartbeats E))"
  by auto
termination
  by (relation "measure (\<lambda>(E, ag). root_ahead (ag_root ag))") (auto simp: heartbeat_client_less)

declare check_heartbeats.simps [simp del]

context session_frame
begin

lemma check_heartbeats_R:
  assumes "\<And>ag x r. root_get_next_client (ag_root ag) = (x, r) \<Longrightarrow> R ag (ag\<lparr>ag_root := r\<rparr>)"
  shows "check_heartbeats E ag = Inr ag' \<Longrightarrow> R ag ag'"
proof (induction "root_ahead (ag_root ag)" arbitrary: ag rule: less_induct)
  case less
  obtain x r where g: "root_get_next_client (ag_root ag) = (x, r)" by fastforce
  show ?case
  proof (cases x)
    case None
    with less.prems g assms [OF g] show ?thesis by (simp add: check_heartbeats.simps [of E ag])
  next
    case (Some a)
    with less.prems g obtain ag1 where 1: "heartbeat_client E a (ag\<lparr>ag_root := r\<rparr>) = Inr ag1" and 2: "check_heartbeats E ag1 = Inr ag'"
      by (auto simp: check_heartbeats.simps [of E ag] and_then_Inr)
    have "R ag1 ag'" using less.hyps [OF _ 2] heartbeat_client_less [OF _ 1] g Some by simp
    with assms [OF g] heartbeat_client_R [OF 1] show ?thesis by (blast intro: R_trans)
  qed
qed

lemma process_stranger_message_R: "process_stranger_message E d m ag = Inr ag' \<Longrightarrow> R ag ag'"
  by (auto simp: process_stranger_message_def and_then_Inr R_refl push_R
      split: prod.splits bool.splits if_splits elim!: with_payload_R)

lemma read_data_callback_R: "read_data_callback E a args buffer ag = Inr (x, ag') \<Longrightarrow> R ag ag'"
  by (auto simp: read_data_callback_def and_then_Inr R_refl split: option.splits
      intro: R_trans [OF send_submessage_R send_pending_R])

end

end
