(* ===== verification/AgentSteps.thy ===== *)
theory AgentSteps
  imports Processor
begin

text \<open>
  What an input packet, the data of a reader and a round of heartbeats keep true of the whole agent, over any
  middleware that fulfils its contract: the clients are in order, each agrees with its middleware, and the two
  maps of the sessions are inverse. The frames of \<open>Processor\<close> carry the elementary steps through the handlers.
\<close>

lemma and_thenE: "and_then r f = Inr y \<Longrightarrow> (\<And>x. r = Inr x \<Longrightarrow> f x = Inr y \<Longrightarrow> P) \<Longrightarrow> P"
  by (auto simp: and_then_Inr)

lemma and_then_pairE: "and_then r (\<lambda>(x, s). f x s) = Inr y \<Longrightarrow> (\<And>x s. r = Inr (x, s) \<Longrightarrow> f x s = Inr y \<Longrightarrow> P) \<Longrightarrow> P"
  by (auto simp: and_then_Inr)

lemmas submessage_ids = CREATE_CLIENT_def CREATE_def GET_INFO_def DELETE_ID_def STATUS_AGENT_def STATUS_def INFO_def
  WRITE_DATA_def READ_DATA_def DATA_def ACKNACK_def HEARTBEAT_def RESET_def FRAGMENT_def TIMESTAMP_def TIMESTAMP_REPLY_def

section \<open>Handlers\<close>

text \<open>The second contract adds what the handlers of objects and of deletions do.\<close>

locale handler_frame = session_frame +
  assumes on_create_R: "on_client a (\<lambda>s. map_sum Uncaught id (pc_create_object (pe_middleware E) mode oid rep s)) ag = Inr (r, ag') \<Longrightarrow> R ag ag'"
    and on_delete_R: "on_client a (\<lambda>s. Inr (pc_delete_object (pe_middleware E) oid s)) ag = Inr (r, ag') \<Longrightarrow> R ag ag'"
    and on_write_R: "on_client a (\<lambda>s. Inr (write_object (pe_middleware E) dp s)) ag = Inr (rv, ag') \<Longrightarrow> R ag ag'"
    and on_read_R: "on_client a (\<lambda>s. Inr (read_object rp s)) ag = Inr (st, ag') \<Longrightarrow> R ag ag'"
    and delete_client_R: "ag_delete_client E k ag = (r, ag') \<Longrightarrow> R ag ag'"
    and create_client_R: "ag_create_client E cl ag = (r, info, ag') \<Longrightarrow> R ag ag'"
    and destroy_session_R: "R ag (ag\<lparr>ag_sessions := destroy_session d (ag_sessions ag)\<rparr>)"
    and establish_session_R: "R ag (ag\<lparr>ag_sessions := establish_session d key sid (ag_sessions ag)\<rparr>)"
begin

lemma process_create_R:
  assumes "process_create_submessage E a d m ag = Inr (x, ag')"
  shows "R ag ag'"
  using assms unfolding process_create_submessage_def
  by (rule with_payload_R)
    (auto simp: and_then_Inr intro: R_trans [OF on_create_R answer_status_R])

lemma process_delete_R:
  assumes "process_delete_submessage E a d m ag = Inr (x, ag')"
  shows "R ag ag'"
  using assms unfolding process_delete_submessage_def
proof (rule with_payload_R)
  fix request y ag1
  assume r: "(if snd (bor_object_id request) AND 0x0F = OBJK_CLIENT
       then and_then (on_client a (\<lambda>(c, g). Inr (cr_client_key (pc_representation c), c, g)) ag) (\<lambda>(client_key, ag).
              let (result, ag) = ag_delete_client E client_key ag;
                  ag = (if STATUS_OK = res_status result
                        then ag\<lparr>ag_sessions := destroy_session d (ag_sessions ag)\<rparr> else ag)
              in and_then (answer_status E a d STREAMID_NONE request result ag) (\<lambda>ag. Inr (True, ag)))
       else and_then (on_client a (\<lambda>s. Inr (pc_delete_object (pe_middleware E) (bor_object_id request) s)) ag)
              (\<lambda>(result, ag). and_then (answer_status E a d STREAMID_BUILTIN_RELIABLE request result ag)
                (\<lambda>ag. Inr (True, ag)))) = Inr (y, ag1)"
  show "R ag ag1"
  proof (cases "snd (bor_object_id request) AND 0x0F = OBJK_CLIENT")
    case False
    with r show ?thesis by (auto simp: and_then_Inr intro: R_trans [OF on_delete_R answer_status_R])
  next
    case True
    with r obtain k ag2 where k: "on_client a (\<lambda>(c, g). Inr (cr_client_key (pc_representation c), c, g)) ag = Inr (k, ag2)"
      and r2: "(let (result, ag) = ag_delete_client E k ag2;
                  ag = (if STATUS_OK = res_status result
                        then ag\<lparr>ag_sessions := destroy_session d (ag_sessions ag)\<rparr> else ag)
              in and_then (answer_status E a d STREAMID_NONE request result ag) (\<lambda>ag. Inr (True, ag))) = Inr (y, ag1)"
      by (auto simp: and_then_Inr)
    obtain result ag3 where del: "ag_delete_client E k ag2 = (result, ag3)" by fastforce
    from r2 have "R ag3 ag1"
      by (auto simp: del Let_def and_then_Inr split: if_splits
          intro: answer_status_R R_trans [OF destroy_session_R answer_status_R])
    with on_client_look_R [OF k] delete_client_R [OF del] show ?thesis by (blast intro: R_trans)
  qed
qed

lemma process_write_R:
  assumes "process_write_data_submessage E a m ag = Inr (x, ag')"
  shows "R ag ag'"
  using assms unfolding process_write_data_submessage_def Let_def
  by (auto split: if_splits simp: R_refl elim: with_payload_R dest: on_write_R)

lemma process_read_R:
  assumes "process_read_data_submessage E a d m ag = Inr (x, ag')"
  shows "R ag ag'"
  using assms unfolding process_read_data_submessage_def
  by (rule with_payload_R)
    (auto simp: and_then_Inr split: if_splits intro: on_read_R R_trans [OF on_read_R answer_status_R])

lemma forget_R: "forget_previous_client E d k ag = (rv, ag') \<Longrightarrow> R ag ag'"
  by (auto simp: forget_previous_client_def Let_def R_refl split: option.splits if_splits prod.splits
      intro: delete_client_R R_trans [OF delete_client_R destroy_session_R])

lemma process_create_client_R:
  assumes "process_create_client_submessage E d m ag = Inr (x, ag')"
  shows "R ag ag'"
proof (cases "is_none_session (mh_session_id (im_header m))")
  case False
  with assms show ?thesis by (simp add: process_create_client_submessage_def R_refl)
next
  case True
  show ?thesis
    using assms unfolding process_create_client_submessage_def if_P [OF True]
  proof (rule with_payload_R)
    fix rep y ag1
    assume r: "(let (rv, ag) = forget_previous_client E d (cr_client_key rep) ag
         in if rv
            then (let status_header = (im_header m)\<lparr>mh_session_id := cr_session_id rep\<rparr>;
                      (result, agent_rep, ag) = ag_create_client E rep ag;
                      ag = (if STATUS_OK = res_status result
                            then ag\<lparr>ag_sessions := establish_session d (clientkey_to_raw (cr_client_key rep))
                                     (cr_session_id rep) (ag_sessions ag)\<rparr>
                            else ag);
                      status_agent = STATUS_AGENT_payload (pe_cdr E) \<lparr>sa_result = result, sa_agent_info = agent_rep\<rparr>
                  in Inr (True, ag_push d (lone_message (pe_cdr E) status_header STATUS_AGENT status_agent) ag))
            else Inr (False, ag)) = Inr (y, ag1)"
    obtain rv ag2 where f: "forget_previous_client E d (cr_client_key rep) ag = (rv, ag2)" by fastforce
    obtain result agent_rep ag3 where c: "ag_create_client E rep ag2 = (result, agent_rep, ag3)" by (metis prod_cases3)
    from r show "R ag ag1" unfolding f
      by (auto simp: Let_def c split: if_splits
          intro: R_trans [OF forget_R [OF f]] R_trans [OF create_client_R [OF c]]
            R_trans [OF establish_session_R] push_R R_refl)
  qed
qed

lemmas handlers_R = process_create_client_R process_create_R process_delete_R process_write_R process_read_R
  process_acknack_R process_heartbeat_R process_reset_R process_timestamp_R

lemma other_submessage_R:
  assumes "process_submessage again E a d m ag = Inr (x, ag')" and "sh_submessage_id (im_subheader m) \<noteq> FRAGMENT"
  shows "R ag ag'"
  using assms(1,2) by (auto simp: process_submessage_def Let_def R_refl dest: handlers_R split: if_split_asm)

end

section \<open>The invariant\<close>

definition agent_ok :: "('m \<times> 'g \<Rightarrow> ObjectKind \<Rightarrow> u16 set) \<Rightarrow> ('m, 'c, 'g, 'e) Agent \<Rightarrow> bool" where
  "agent_ok ents ag \<longleftrightarrow> store_ok ents (ag_root ag, ag_shared ag) \<and> root_ok (ag_root ag) \<and> sm_ok (ag_sessions ag)"

definition keeps :: "('m \<times> 'g \<Rightarrow> ObjectKind \<Rightarrow> u16 set) \<Rightarrow> ('m, 'c, 'g, 'e) Agent \<Rightarrow> ('m, 'c, 'g, 'e) Agent \<Rightarrow> bool" where
  "keeps ents ag ag' \<longleftrightarrow> (agent_ok ents ag \<longrightarrow> agent_ok ents ag')"

locale processor_agent = agent_middleware "pe_middleware E" ents "pe_factory E" "pe_order E"
  for E :: "('m, 'c, 'g) processor_env" and ents :: "'m \<times> 'g \<Rightarrow> ObjectKind \<Rightarrow> u16 set"
begin

lemma set_client_keeps:
  assumes "root_store (ag_root ag) a = Some c" and "client_ok ents (c, ag_shared ag) \<Longrightarrow> client_ok ents s"
    and "pc_representation (fst s) = pc_representation c"
  shows "keeps ents ag (ag_set_client a s ag)"
proof -
  have "agent_ok ents (ag_set_client a s ag)" if ok: "agent_ok ents ag"
  proof -
    from ok assms(1) have "client_ok ents (c, ag_shared ag)" by (simp add: agent_ok_def store_ok_def)
    then have c: "client_ok ents (fst s, snd s)" using assms(2) by simp
    have "store_ok ents ((ag_root ag)\<lparr>root_store := (root_store (ag_root ag))(a \<mapsto> fst s)\<rparr>, snd s)"
      using ok by (intro store_ok_upd [where s = "(ag_root ag, ag_shared ag)", OF _ c]) (simp_all add: agent_ok_def)
    moreover have "root_ok (root_on_client a (\<lambda>d. if d = c then fst s else d) (ag_root ag))"
      using ok assms(3) by (intro root_ok_on_client) (simp_all add: agent_ok_def)
    ultimately show ?thesis
      using ok by (simp add: agent_ok_def ag_set_client_def root_on_client_def assms(1))
  qed
  then show ?thesis by (simp add: keeps_def)
qed

lemma quiet_client_ok: "quiet Q s s' \<Longrightarrow> client_ok ents s \<Longrightarrow> client_ok ents s'"
  by (auto simp: quiet_def client_ok_def pc_world_def)

lemma on_client_keeps:
  assumes "on_client a f ag = Inr (x, ag')"
    and "\<And>s y s'. f s = Inr (y, s') \<Longrightarrow> (client_ok ents s \<longrightarrow> client_ok ents s') \<and> pc_representation (fst s') = pc_representation (fst s)"
  shows "keeps ents ag ag'"
proof -
  from assms(1) obtain c s where c: "root_store (ag_root ag) a = Some c" and s: "f (c, ag_shared ag) = Inr (x, s)"
    and ag': "ag' = ag_set_client a s ag" unfolding on_client_Inr by blast
  from assms(2) [OF s] c show ?thesis unfolding ag' by (intro set_client_keeps) simp_all
qed

lemma quiet_keeps:
  assumes "root_store (ag_root ag) a = Some c" and "quiet Q (c, ag_shared ag) s"
  shows "keeps ents ag (ag_set_client a s ag)"
  using assms quiet_client_ok [OF assms(2)] by (intro set_client_keeps) (simp_all add: quiet_def)

end

sublocale processor_agent \<subseteq> steps: session_frame E "keeps ents" "\<lambda>_ _. True"
proof unfold_locales
  fix ag :: "('m, 'c, 'g, 'e) Agent" and a c cs
  assume "root_store (ag_root ag) a = Some c" "quiet (\<lambda>_ _. True) (c, ag_shared ag) cs"
  then show "keeps ents ag (ag_set_client a cs ag)" by (rule quiet_keeps)
qed (auto simp: keeps_def agent_ok_def)


section \<open>The steps that change objects, clients and sessions\<close>

lemma reader_read_keeps:
  assumes "client_ok ents s" and "pc_objects (fst s) oid = Some ob" and "reader_ok rd"
  shows "client_ok ents ((fst s)\<lparr>pc_objects := (pc_objects (fst s))(oid \<mapsto> ob\<lparr>xo_reader := rd\<rparr>)\<rparr>, snd s)"
  using assms by (auto simp: client_ok_def pc_world_def insert_absorb domI)

lemma read_object_keeps:
  assumes "read_object p s = (r, s')"
  shows "(client_ok ents s \<longrightarrow> client_ok ents s') \<and> pc_representation (fst s') = pc_representation (fst s)"
proof (cases "Option.bind (reader_class (bor_object_id (rd_request p))) (\<lambda>cl. object_cast cl (pc_get_object (bor_object_id (rd_request p)) (fst s)))")
  case None
  with assms show ?thesis by (simp add: read_object_def)
next
  case (Some ob)
  then have ob: "pc_objects (fst s) (bor_object_id (rd_request p)) = Some ob"
    by (auto simp: bind_eq_Some_conv object_cast_def pc_get_object_def split: option.splits if_splits)
  obtain b rd where rd: "reader_read (rd_read_specification p) \<lparr>wa_client_key = cr_client_key (pc_representation (fst s)),
      wa_stream_id = rs_preferred_stream_id (rd_read_specification p), wa_object_id = bor_object_id (rd_request p),
      wa_request_id = bor_request_id (rd_request p)\<rparr> (xo_reader ob) = (b, rd)" by fastforce
  have "client_ok ents s \<Longrightarrow> reader_ok rd"
    using client_okD(1) [OF _ ob] rd by (auto simp: reader_read_ok reader_ok_def)
  with assms Some rd show ?thesis
    by (auto simp: read_object_def intro!: reader_read_keeps [OF _ ob])
qed

context processor_agent
begin

lemma on_create_keeps:
  assumes "on_client a (\<lambda>s. map_sum Uncaught id (pc_create_object (pe_middleware E) mode oid rep s)) ag = Inr (x, ag')"
  shows "keeps ents ag ag'"
  using assms
proof (rule on_client_keeps)
  fix s y s'
  assume "map_sum Uncaught id (pc_create_object (pe_middleware E) mode oid rep s) = Inr (y, s')"
  then have "pc_step (pe_middleware E) (PcCreate mode oid rep) s = Inr s'"
    by (cases "pc_create_object (pe_middleware E) mode oid rep s") simp_all
  then show "(client_ok ents s \<longrightarrow> client_ok ents s') \<and> pc_representation (fst s') = pc_representation (fst s)"
    using pc_step_keeps pc_step_representation by blast
qed

lemma on_delete_keeps:
  assumes "on_client a (\<lambda>s. Inr (pc_delete_object (pe_middleware E) oid s)) ag = Inr (x, ag')"
  shows "keeps ents ag ag'"
  using assms
proof (rule on_client_keeps)
  fix s y s'
  assume "Inr (pc_delete_object (pe_middleware E) oid s) = Inr (y, s')"
  then have "pc_step (pe_middleware E) (PcDelete oid) s = Inr s'" by simp
  then show "(client_ok ents s \<longrightarrow> client_ok ents s') \<and> pc_representation (fst s') = pc_representation (fst s)"
    using pc_step_keeps pc_step_representation by blast
qed

lemma written_keeps: "ents w = ents (pc_world s) \<Longrightarrow> client_ok ents s \<longrightarrow> client_ok ents (pc_set_world w s)"
  by (blast intro: client_ok_same)

lemma on_write_keeps:
  assumes "on_client a (\<lambda>s. Inr (write_object (pe_middleware E) p s)) ag = Inr (x, ag')"
  shows "keeps ents ag ag'"
  using assms
  by (rule on_client_keeps)
    (auto simp: write_object_def Let_def DataWriter_write_def Requester_write_def Replier_write_def
      case_prod_beta writes_keep client_ok_same split: if_splits option.splits)

lemma on_read_keeps: "on_client a (\<lambda>s. Inr (read_object p s)) ag = Inr (x, ag') \<Longrightarrow> keeps ents ag ag'"
  by (erule on_client_keeps) (auto dest: read_object_keeps [where ents = ents])

lemma on_update_state_keeps:
  "on_client a (\<lambda>(c, g). Inr ((), pc_update_state now c, g)) ag = Inr (x, ag') \<Longrightarrow> keeps ents ag ag'"
  by (erule on_client_keeps) (use client_ok_liveness(2) in \<open>force simp: pc_update_state_def\<close>)

lemma sessions_keep:
  "keeps ents ag (ag\<lparr>ag_sessions := destroy_session d (ag_sessions ag)\<rparr>)"
  "keeps ents ag (ag\<lparr>ag_sessions := establish_session d k sid (ag_sessions ag)\<rparr>)"
  by (simp_all add: keeps_def agent_ok_def sm_ok_establish sm_ok_destroy)

lemma delete_client_keeps: "ag_delete_client E k ag = (result, ag') \<Longrightarrow> keeps ents ag ag'"
  using store_ok_delete [of "(ag_root ag, ag_shared ag)" k] root_ok_delete [of "(ag_root ag, ag_shared ag)" "pe_middleware E" "pe_order E" k]
  by (auto simp: ag_delete_client_def keeps_def agent_ok_def Let_def split: prod.splits)

lemma create_client_keeps: "ag_create_client E rep ag = (result, rep', ag') \<Longrightarrow> keeps ents ag ag'"
  using store_ok_create [of "(ag_root ag, ag_shared ag)" "pe_steady_clock E (ag_ticks ag)" rep "pe_kind E"]
    root_ok_create [of "ag_root ag" "pe_factory E" "pe_steady_clock E (ag_ticks ag)" rep "pe_kind E"]
  by (auto simp: ag_create_client_def read_steady_clock_def keeps_def agent_ok_def Let_def split: prod.splits)

end

sublocale processor_agent \<subseteq> steps: handler_frame E "keeps ents" "\<lambda>_ _. True"
  by unfold_locales
    (fact on_create_keeps on_delete_keeps on_write_keeps on_read_keeps delete_client_keeps create_client_keeps sessions_keep)+

section \<open>Packets\<close>

context processor_agent
begin

lemma process_fragment_keeps:
  assumes "process_fragment_submessage again E a m ag = Inr (x, ag')" and again: "\<And>m ag ag'. again m ag = Inr ag' \<Longrightarrow> keeps ents ag ag'"
  shows "keeps ents ag ag'"
  using assms(1)
  by (auto simp: process_fragment_submessage_def Let_def and_then_Inr split: option.splits
      intro: steps.R_trans [OF steps.on_session_R steps.on_session_R]
        steps.R_trans [OF steps.on_session_R steps.R_trans [OF steps.on_session_R again]])

lemma process_submessage_keeps:
  assumes "process_submessage again E a d m ag = Inr (x, ag')" and again: "\<And>m ag ag'. again m ag = Inr ag' \<Longrightarrow> keeps ents ag ag'"
  shows "keeps ents ag ag'"
proof (cases "sh_submessage_id (im_subheader m) = FRAGMENT")
  case True
  with assms(1) have "process_fragment_submessage again E a m ag = Inr (x, ag')"
    by (simp add: process_submessage_def submessage_ids)
  then show ?thesis using again by (rule process_fragment_keeps)
next
  case False
  with assms(1) show ?thesis by (rule steps.other_submessage_R)
qed

lemma process_input_message_keeps: "process_input_message n E a d m ag = Inr ag' \<Longrightarrow> keeps ents ag ag'"
proof (induction n arbitrary: m ag ag')
  case (Suc n)
  obtain b m1 where p: "prepare_next_submessage (pe_cdr E) m = (b, m1)" by fastforce
  show ?case
  proof (cases b)
    case False
    with Suc.prems p show ?thesis by (simp add: steps.R_refl)
  next
    case True
    with Suc.prems p obtain rv m2 ag1
      where 1: "process_submessage (process_input_message n E a d) E a d m1 ag = Inr ((rv, m2), ag1)"
        and 2: "(if rv then process_input_message n E a d m2 ag1 else Inr ag1) = Inr ag'"
      by (auto simp: and_then_Inr)
    from process_submessage_keeps [OF 1 Suc.IH] have "keeps ents ag ag1" .
    moreover from 2 have "keeps ents ag1 ag'" by (auto simp: steps.R_refl dest: Suc.IH split: if_splits)
    ultimately show ?thesis by (rule steps.R_trans)
  qed
qed simp

lemma process_messages_keeps: "process_messages n j E a d k ag = Inr ag' \<Longrightarrow> keeps ents ag ag'"
proof (induction j arbitrary: ag)
  case (Suc j)
  then obtain r ag1 where 1: "on_session a (\<lambda>s. Inr (ses_pop_input_message k s)) ag = Inr (r, ag1)"
    and 2: "(case r of None \<Rightarrow> Inr ag1
       | Some m \<Rightarrow> and_then (process_input_message n E a d m ag1) (process_messages n j E a d k)) = Inr ag'"
    by (auto simp: and_then_Inr)
  have "keeps ents ag1 ag'"
    using 2 by (auto simp: and_then_Inr steps.R_refl split: option.splits
        intro: steps.R_trans [OF process_input_message_keeps Suc.IH])
  with steps.on_session_R [OF 1] show ?case by (blast intro: steps.R_trans)
qed simp

lemma process_client_message_keeps:
  assumes "process_client_message n j E a d m ag = Inr ag'"
  shows "keeps ents ag ag'"
  using assms unfolding process_client_message_def Let_def read_steady_clock_def prod.case
proof (elim and_then_pairE and_thenE)
  fix ag1 ag2 ag3 u v
  assume 1: "on_client a (\<lambda>(c, g). Inr ((), pc_update_state (pe_steady_clock E (ag_ticks ag)) c, g)) (ag\<lparr>ag_ticks := Suc (ag_ticks ag)\<rparr>) = Inr (u, ag1)"
    and 2: "on_session a (\<lambda>s. Inr (ses_push_input_message m (mh_stream_id (im_header m)) (mh_sequence_nr (im_header m)) s)) ag1 = Inr (v, ag2)"
    and 3: "process_messages n j E a d (mh_stream_id (im_header m)) ag2 = Inr ag3"
    and 4: "(if is_reliable_stream (mh_stream_id (im_header m)) then acknowledge E a d (im_header m) ag3 else Inr ag3) = Inr ag'"
  have "keeps ents ag3 ag'" using 4 by (auto simp: steps.R_refl dest: steps.acknowledge_R split: if_splits)
  note steps.R_trans [OF process_messages_keeps [OF 3] this]
  from steps.R_trans [OF steps.on_session_R [OF 2 TrueI] this] have "keeps ents ag1 ag'" .
  from steps.R_trans [OF on_update_state_keeps [OF 1] this] show "keeps ents ag ag'" by (rule steps.ticks_R)
qed

lemma process_input_packet_keeps:
  assumes "process_input_packet n j E (d, m) ag = Inr ag'"
  shows "keeps ents ag ag'"
  using assms unfolding process_input_packet_def Let_def
  by (auto simp: and_then_Inr steps.R_refl steps.push_R split: prod.splits bool.splits if_splits option.splits
      dest: steps.process_create_client_R process_client_message_keeps steps.process_stranger_message_R)

lemma get_next_keeps: "root_get_next_client (ag_root ag) = (x, r) \<Longrightarrow> keeps ents ag (ag\<lparr>ag_root := r\<rparr>)"
  using root_ok_get_next [of "ag_root ag"]
  by (auto simp: keeps_def agent_ok_def root_get_next_client_def split: option.splits elim!: store_ok_frame [of "(ag_root ag, ag_shared ag)", simplified])

lemma check_heartbeats_keeps: "check_heartbeats E ag = Inr ag' \<Longrightarrow> keeps ents ag ag'"
  by (rule steps.check_heartbeats_R [OF get_next_keeps])

end

end
