(* ===== verification/AgentRun.thy ===== *)
theory AgentRun
  imports AgentSteps
begin

text \<open>
  Runs of the agent: packets, data from readers and rounds of heartbeats in any order, and what the properties
  of the processor are. An agent over the \<open>Ced\<close> middleware is the instance of the contract.
\<close>

section \<open>Runs\<close>

datatype ('c, 'e) agent_event = InputPacket 'e "'c InputMessage" | ReaderData nat WriteFnArgs "u8 list" | HeartbeatRound

text \<open>The fuel of the two loops over a message is \<open>n\<close> and \<open>j\<close> for every packet.\<close>

fun agent_step :: "nat \<Rightarrow> nat \<Rightarrow> ('m, 'c, 'g) processor_env \<Rightarrow> ('c, 'e) agent_event \<Rightarrow> ('m, 'c, 'g, 'e) Agent \<Rightarrow>
    processor_fault + ('m, 'c, 'g, 'e) Agent" where
  "agent_step n j E (InputPacket d m) ag = process_input_packet n j E (d, m) ag"
| "agent_step n j E (ReaderData a args buffer) ag = and_then (read_data_callback E a args buffer ag) (\<lambda>(_, ag). Inr ag)"
| "agent_step n j E HeartbeatRound ag = check_heartbeats E ag"

definition agent_run :: "nat \<Rightarrow> nat \<Rightarrow> ('m, 'c, 'g) processor_env \<Rightarrow> ('c, 'e) agent_event list \<Rightarrow> ('m, 'c, 'g, 'e) Agent \<Rightarrow>
    processor_fault + ('m, 'c, 'g, 'e) Agent" where
  "agent_run n j E = for_each (agent_step n j E)"

text \<open>An agent that has just been started.\<close>

definition Agent_new :: "'g \<Rightarrow> ('c, 'e) server \<Rightarrow> ('m, 'c, 'g, 'e) Agent" where
  "Agent_new g sv = \<lparr>ag_root = Root_new, ag_shared = g, ag_sessions = SessionManager_init, ag_server = sv, ag_ticks = 0\<rparr>"

lemma agent_ok_new: "agent_ok ents (Agent_new g sv)"
  by (simp add: agent_ok_def Agent_new_def store_ok_def Root_new_def root_ok_new [unfolded Root_new_def] sm_ok_init)

context processor_agent
begin

lemma agent_step_keeps: "agent_step n j E ev ag = Inr ag' \<Longrightarrow> keeps ents ag ag'"
  by (cases ev) (auto simp: and_then_Inr dest: process_input_packet_keeps steps.read_data_callback_R check_heartbeats_keeps)

lemma agent_run_keeps: "agent_run n j E evs ag = Inr ag' \<Longrightarrow> keeps ents ag ag'"
  unfolding agent_run_def by (rule steps.for_each_R [OF agent_step_keeps])

end

section \<open>An agent over the centralized middleware\<close>

definition ced_env :: "'c xrce_cdr \<Rightarrow> (nat \<Rightarrow> int) \<Rightarrow> (nat \<Rightarrow> nat) \<Rightarrow> AGENT_Representation \<Rightarrow> u8 \<times> u8 \<Rightarrow>
    (CedMiddleware, 'c, CedTopicManager) processor_env" where
  "ced_env C steady_clock epoch_clock raw bitmap =
     \<lparr>pe_cdr = C, pe_middleware = ced_middleware, pe_factory = ced_factory, pe_order = ascending, pe_kind = KindCED,
      pe_steady_clock = steady_clock, pe_epoch_clock = epoch_clock, pe_raw_cookie = ar_xrce_cookie raw,
      pe_raw_version = ar_xrce_version raw, pe_raw_vendor = ar_xrce_vendor_id raw, pe_raw_bitmap = bitmap\<rparr>"

interpretation ced_processor: processor_agent "ced_env C steady_clock epoch_clock raw bitmap" ced_ents
  for C :: "'c xrce_cdr" and steady_clock epoch_clock raw bitmap
  unfolding processor_agent_def ced_env_def processor_env.select_convs by (rule ced_agent.agent_middleware_axioms)

definition demo_env :: "(CedMiddleware, u8 list \<times> nat, CedTopicManager) processor_env" where
  "demo_env = ced_env byte_xcdr (\<lambda>n. int n) (\<lambda>n. n) agent_representation (0xDE, 0xAD)"

definition demo_server :: "(u8 list \<times> nat, string) server" where
  "demo_server = \<lparr>sv_running_cond = True, sv_input_scheduler = fs_init (FCFSScheduler_new 8),
     sv_output_scheduler = fs_init (FCFSScheduler_new 8), sv_transport_rc = rc_ok\<rparr>"

text \<open>A message with \<open>CREATE_CLIENT\<close>, for the key \<open>AA BB CC DD\<close> and the session \<open>0x81\<close>, and the agent after it.\<close>

definition demo_create_message :: "(u8 list \<times> nat) InputMessage" where
  "demo_create_message = InputMessage_new byte_xcdr
     [0x80, 0, 0, 0, 0, 1, 16, 0, 0x58, 0x52, 0x43, 0x45, 1, 0, 1, 15, 0xAA, 0xBB, 0xCC, 0xDD, 0x81, 0, 0, 2]"

lemma demo_create_parts:
  "im_header demo_create_message = \<lparr>mh_session_id = 0x80, mh_stream_id = 0, mh_sequence_nr = 0, mh_client_key = (0, 0, 0, 0)\<rparr>"
  "prepare_next_submessage byte_xcdr demo_create_message = (True, demo_create_message\<lparr>
     im_subheader := \<lparr>sh_submessage_id = CREATE_CLIENT, sh_flags = 1, sh_submessage_length = 16\<rparr>,
     im_deserializer := (im_buf demo_create_message, 8)\<rparr>)"
  "fst (CLIENT_Representation_deserialize byte_xcdr (im_buf demo_create_message, 8)) = Got demo_representation"
  unfolding demo_create_message_def by code_simp+

definition demo_root :: "(CedMiddleware, u8 list \<times> nat) Root" where
  "demo_root = \<lparr>root_clients = [((0xAA, 0xBB, 0xCC, 0xDD), 0)], root_current_client = None,
     root_store = [0 \<mapsto> ProxyClient_new ced_factory 0 demo_representation KindCED Map.empty], root_fresh = 1\<rparr>"

definition demo_sessions :: "string SessionManager" where
  "demo_sessions = establish_session ''c'' (clientkey_to_raw (0xAA, 0xBB, 0xCC, 0xDD)) 0x81 SessionManager_init"

definition demo_agent :: "(CedMiddleware, u8 list \<times> nat, CedTopicManager, string) Agent" where
  "demo_agent = \<lparr>ag_root = demo_root, ag_shared = CedTopicManager_init, ag_sessions = demo_sessions,
     ag_server = push_packet ''c'' (lone_message byte_xcdr \<lparr>mh_session_id = 0x81, mh_stream_id = 0, mh_sequence_nr = 0, mh_client_key = (0, 0, 0, 0)\<rparr>
       STATUS_AGENT (STATUS_AGENT_payload byte_xcdr \<lparr>sa_result = result_ok, sa_agent_info = agent_representation\<rparr>)) demo_server,
     ag_ticks = 1\<rparr>"

lemma demo_env_select [simp]:
  "pe_cdr demo_env = byte_xcdr" "pe_middleware demo_env = ced_middleware" "pe_factory demo_env = ced_factory"
  "pe_order demo_env = ascending" "pe_kind demo_env = KindCED" "pe_steady_clock demo_env = int"
  by (simp_all add: demo_env_def ced_env_def)

lemma demo_created_agent:
  "agent_step n j demo_env (InputPacket ''c'' demo_create_message) (Agent_new CedTopicManager_init demo_server) = Inr demo_agent"
proof -
  obtain c where rd: "CLIENT_Representation_deserialize byte_xcdr (im_buf demo_create_message, 8) = (Got demo_representation, c)"
    using demo_create_parts(3) by (metis prod.collapse)
  have rep: "cr_client_key demo_representation = (0xAA, 0xBB, 0xCC, 0xDD)" "cr_session_id demo_representation = 0x81"
    by (simp_all add: demo_representation_def)
  show ?thesis
    by (simp add: process_input_packet_def demo_create_parts is_none_session_def SESSIONID_NONE_WITHOUT_CLIENT_KEY_def
        SESSIONID_NONE_WITH_CLIENT_KEY_def process_create_client_submessage_def with_payload_def get_payload_def rd
        forget_previous_client_def Agent_new_def get_client_key_def SessionManager_init_def ag_create_client_def
        read_steady_clock_def Let_def ag_push_def demo_root_create rep demo_agent_def demo_root_def demo_sessions_def)
qed

end
