(* ===== verification/AgentTermination.thy ===== *)
theory AgentTermination
  imports AgentRun
begin

text \<open>
  Processing a packet ends, whatever its octets, unless it pushes into a reliable stream whose messages have no room for
  a fragment. A message may hold fragments, the message they make up may hold
  fragments again, and a fragment may claim more octets than are there, which then are zeros: the measure
  weighs an octet that is not zero more than all the zeros a fragment can add. What is counted is what is left
  to read, in the message, in the messages that wait in the input streams, and in the fragments collected.
\<close>

section \<open>Reading moves forward\<close>

definition moves :: "('c, 'x) fastcdr_scheme \<Rightarrow> ('c \<Rightarrow> 'a \<times> 'c) \<Rightarrow> bool" where
  "moves C f \<longleftrightarrow> (\<forall>c. cdr_buffer C (snd (f c)) = cdr_buffer C c \<and> cdr_offset C c \<le> cdr_offset C (snd (f c)))"

text \<open>Of a string or a Boolean \<open>xrce_cdr_ok\<close> says only what happens to a well-formed one.\<close>

definition cdr_forward :: "('c, 'x) xrce_cdr_scheme \<Rightarrow> bool" where
  "cdr_forward C \<longleftrightarrow> xrce_cdr_ok C \<and> moves C (cdr_get_bool C) \<and> moves C (cdr_get_string C)"

named_theorems moving \<open>readers that move forward\<close>

lemma movesD: "moves C f \<Longrightarrow> cdr_buffer C (snd (f c)) = cdr_buffer C c" "moves C f \<Longrightarrow> cdr_offset C c \<le> cdr_offset C (snd (f c))"
  by (simp_all add: moves_def)

lemma get_ok_moves: "(\<And>c. get_ok C (f c) c (pad c) n dec) \<Longrightarrow> moves C f"
  unfolding moves_def
proof
  fix c
  assume "\<And>c. get_ok C (f c) c (pad c) n dec"
  from this [of c] show "cdr_buffer C (snd (f c)) = cdr_buffer C c \<and> cdr_offset C c \<le> cdr_offset C (snd (f c))"
    by (auto simp: get_ok_def cdr_is_def Let_def split: if_splits)
qed

lemma moves_return [moving]: "moves C (read_return a)"
  by (simp add: moves_def read_return_def)

lemma moves_then [moving]:
  assumes "moves C f" and "\<And>a. moves C (g a)"
  shows "moves C (read_then f g)"
  unfolding moves_def
proof
  fix c
  obtain r c1 where f: "f c = (r, c1)" by fastforce
  have "cdr_buffer C c1 = cdr_buffer C c" "cdr_offset C c \<le> cdr_offset C c1"
    using movesD [OF assms(1), of c] by (simp_all add: f)
  then show "cdr_buffer C (snd (read_then f g c)) = cdr_buffer C c \<and> cdr_offset C c \<le> cdr_offset C (snd (read_then f g c))"
    using movesD [OF assms(2), where c = c1] by (cases r) (auto simp: read_then_def f intro: order_trans)
qed

lemma moves_option [moving]: "moves C f \<Longrightarrow> moves C (read_option f)"
  by (auto simp: moves_def read_option_def split: prod.splits option.splits) (metis snd_conv)+

lemma moves_primitive [moving]:
  assumes "cdr_forward C"
  shows "moves C (cdr_get_u8 C)" "moves C (cdr_get_u16_le C)" "moves C (cdr_get_array C n)" "moves C (cdr_get_u32_le C)"
    and "moves C (cdr_get_bool C)" "moves C (cdr_get_string C)"
proof -
  have C: "xrce_cdr_ok C" "fastcdr_ok C" using assms xrce_cdr_okD(1) by (auto simp: cdr_forward_def)
  note get = C(2) [unfolded fastcdr_ok_def]
  show "moves C (cdr_get_u8 C)" by (rule get_ok_moves) (use get in blast)
  show "moves C (cdr_get_u16_le C)" by (rule get_ok_moves) (use get in blast)
  show "moves C (cdr_get_array C n)" by (rule get_ok_moves) (use get in blast)
  show "moves C (cdr_get_u32_le C)" by (rule get_ok_moves) (rule xrce_cdr_okD(5) [OF C(1)])
  show "moves C (cdr_get_bool C)" "moves C (cdr_get_string C)" using assms by (simp_all add: cdr_forward_def)
qed

lemma moves_elements [moving]: "moves C g \<Longrightarrow> moves C (get_elements g n)"
  by (induction n) (simp_all add: moving)

lemma moves_composite [moving]:
  assumes "cdr_forward C"
  shows "moves C (get_octet2 C)" "moves C (get_octet4 C)" "moves C (get_octets C)"
    and "moves C g \<Longrightarrow> moves C (get_optional C g)" "moves C g \<Longrightarrow> moves C (get_sequence C g)"
  by (auto simp: get_octet2_def get_octet4_def get_octets_def get_optional_def get_sequence_def intro!: moving assms)

lemma moves_if [moving]: "moves C f \<Longrightarrow> moves C g \<Longrightarrow> moves C (if b then f else g)"
  by simp

lemma moves_representation [moving]:
  assumes "cdr_forward C"
  shows "moves C (Property_deserialize C)" "moves C (Rep3_deserialize C)" "moves C (RepRef_deserialize C)" "moves C (RepBin_deserialize C)"
  by (simp_all only: Property_deserialize_def Rep3_deserialize_def RepRef_deserialize_def RepBin_deserialize_def) (intro moving assms)+

lemma moves_object [moving]:
  assumes "cdr_forward C"
  shows "moves C (CLIENT_Representation_deserialize C)" "moves C (AGENT_Representation_deserialize C)"
    and "moves C (Participant_deserialize C)" "moves C (Child3_deserialize C)" "moves C (ChildBin_deserialize C)"
    and "moves C (BaseObjectRequest_deserialize C)" "moves C (DataDeliveryControl_deserialize C)"
  by (simp_all only: CLIENT_Representation_deserialize_def AGENT_Representation_deserialize_def Participant_deserialize_def
      Child3_deserialize_def ChildBin_deserialize_def BaseObjectRequest_deserialize_def DataDeliveryControl_deserialize_def) (intro moving assms)+

lemma moves_variant [moving]: "cdr_forward C \<Longrightarrow> moves C (ObjectVariant_deserialize C)"
  unfolding ObjectVariant_deserialize_def read_variant_def by (intro moving)

lemma moves_payload [moving]:
  assumes "cdr_forward C"
  shows "moves C (CREATE_Payload_deserialize C)" "moves C (READ_DATA_Payload_deserialize C)" "moves C (DATA_Payload_deserialize C n)"
    and "moves C (ACKNACK_Payload_deserialize C)" "moves C (HEARTBEAT_Payload_deserialize C)" "moves C (Time_t_deserialize C)"
  by (simp_all only: CREATE_Payload_deserialize_def READ_DATA_Payload_deserialize_def ReadSpecification_deserialize_def DATA_Payload_deserialize_def
      ACKNACK_Payload_deserialize_def HEARTBEAT_Payload_deserialize_def Time_t_deserialize_def) (intro moving assms)+

lemma byte_forward: "cdr_forward byte_xcdr"
proof -
  have "moves byte_xcdr byte_get_bool"
    by (auto simp: moves_def byte_get_bool_def byte_get_def byte_xcdr_pos byte_pos_def Let_def)
  moreover have "moves byte_xcdr byte_get_string"
    by (auto simp: moves_def byte_get_string_def byte_get_def byte_xcdr_pos byte_pos_def Let_def split: if_splits)
  ultimately show ?thesis by (simp add: cdr_forward_def byte_xcdr_ok byte_xcdr_sel_more)
qed

section \<open>What is left to read\<close>

definition octet_weight :: "u8 \<Rightarrow> nat" where
  "octet_weight b = (if b = 0 then 1 else 65536)"

definition weight :: "u8 list \<Rightarrow> nat" where
  "weight bs = sum_list (map octet_weight bs)"

definition unread :: "('c, 'x) fastcdr_scheme \<Rightarrow> 'c InputMessage \<Rightarrow> nat" where
  "unread C m = weight (drop (cdr_offset C (im_deserializer m)) (cdr_buffer C (im_deserializer m)))"

lemma weight_simps [simp]: "weight [] = 0" "weight (b # bs) = octet_weight b + weight bs" "weight (bs @ cs) = weight bs + weight cs"
  "weight (replicate n 0) = n"
  by (simp_all add: weight_def octet_weight_def sum_list_replicate)

lemma weight_drop_mono: "p \<le> q \<Longrightarrow> weight (drop q bs) \<le> weight (drop p bs)"
proof -
  assume "p \<le> q"
  then have "drop p bs = take (q - p) (drop p bs) @ drop q bs"
    by (metis append_take_drop_id drop_drop le_add_diff_inverse2)
  then show ?thesis by (metis le_add2 weight_simps(3))
qed

lemma weight_drop_step: "p < length bs \<Longrightarrow> weight (drop p bs) = octet_weight (bs ! p) + weight (drop (Suc p) bs)"
  by (simp add: Cons_nth_drop_Suc [symmetric])

text \<open>One message is a later state of the other: the same octets, and no less read.\<close>

definition later :: "('c, 'x) fastcdr_scheme \<Rightarrow> 'c InputMessage \<Rightarrow> 'c InputMessage \<Rightarrow> bool" where
  "later C m m' \<longleftrightarrow> im_buf m' = im_buf m \<and> im_header m' = im_header m \<and>
     cdr_buffer C (im_deserializer m') = cdr_buffer C (im_deserializer m) \<and>
     cdr_offset C (im_deserializer m) \<le> cdr_offset C (im_deserializer m')"

text \<open>How far the header is read from a buffer that may be too short for it.\<close>

definition header_read :: "u8 list \<Rightarrow> nat" where
  "header_read buf =
     (if length buf < 1 then 0 else if length buf < 2 then 1 else if length buf < 4 then 2
      else if 128 > buf ! 0 \<and> 8 \<le> length buf then 8 else 4)"

text \<open>A message as its constructor makes it and reading leaves it.\<close>

definition received :: "('c, 'x) fastcdr_scheme \<Rightarrow> 'c InputMessage \<Rightarrow> bool" where
  "received C m \<longleftrightarrow> cdr_buffer C (im_deserializer m) = im_buf m \<and> header_read (im_buf m) \<le> cdr_offset C (im_deserializer m) \<and>
     (im_buf m \<noteq> [] \<longrightarrow> mh_session_id (im_header m) = im_buf m ! 0)"

lemma later_refl [simp]: "later C m m"
  by (simp add: later_def)

lemma later_trans: "later C m m' \<Longrightarrow> later C m' m'' \<Longrightarrow> later C m m''"
  by (auto simp: later_def)

lemma later_unread: "later C m m' \<Longrightarrow> unread C m' \<le> unread C m"
  by (simp add: later_def unread_def weight_drop_mono)

lemma later_received: "later C m m' \<Longrightarrow> received C m \<Longrightarrow> received C m'"
  by (auto simp: later_def received_def)

lemma get_payload_later: "moves (C :: ('c, 'x) fastcdr_scheme) g \<Longrightarrow> get_payload g m = Inr (x, m') \<Longrightarrow> later C m m'"
  using movesD [of C g "im_deserializer m"]
  by (auto simp: get_payload_def later_def split: prod.splits got.splits)

section \<open>The header\<close>

lemma jump_at:
  assumes "fastcdr_ok C" and "cdr_is C c buf p"
  obtains q where "cdr_is C (cdr_jump C n c) buf q" and "p \<le> q"
proof -
  have "\<forall>n c. if cdr_offset C c + n \<le> length (cdr_buffer C c)
        then cdr_is C (cdr_jump C n c) (cdr_buffer C c) (cdr_offset C c + n) else cdr_jump C n c = c"
    using assms(1) unfolding fastcdr_ok_def by (elim conjE)
  from this [rule_format, of c n] show thesis
    using assms(2) that [of p] that [of "p + n"] by (auto simp: cdr_is_def split: if_splits)
qed

lemma get_u8_at:
  assumes "fastcdr_ok C" and "cdr_is C c buf p"
  shows "if p < length buf then \<exists>c'. cdr_get_u8 C c = (Some (buf ! p), c') \<and> cdr_is C c' buf (Suc p) else cdr_get_u8 C c = (None, c)"
proof -
  have "get_ok C (cdr_get_u8 C c) c 0 1 hd" using assms(1) by (simp add: fastcdr_ok_def)
  then show ?thesis
    using assms(2) by (cases "cdr_get_u8 C c") (auto simp: get_ok_def cdr_is_def read_at_def Let_def hd_drop_conv_nth split: if_splits)
qed

lemma get_u16_at:
  assumes "fastcdr_ok C" and "cdr_is C c buf p"
  shows "cdr_get_u16_le C c = (None, c) \<or> (\<exists>v c'. cdr_get_u16_le C c = (Some v, c') \<and> cdr_is C c' buf (p + p mod 2 + 2) \<and> p + p mod 2 + 2 \<le> length buf)"
    and "even p \<Longrightarrow> (cdr_get_u16_le C c = (None, c)) = (length buf < p + 2)"
proof -
  have "\<forall>c. get_ok C (cdr_get_u16_le C c) c (cdr_offset C c mod 2) 2 (\<lambda>bs. u16_of_bytes_le (bs ! 0) (bs ! 1))"
    using assms(1) unfolding fastcdr_ok_def by (elim conjE)
  note g = this [rule_format, of c]
  show "cdr_get_u16_le C c = (None, c) \<or> (\<exists>v c'. cdr_get_u16_le C c = (Some v, c') \<and> cdr_is C c' buf (p + p mod 2 + 2) \<and> p + p mod 2 + 2 \<le> length buf)"
    using g assms(2) by (cases "cdr_get_u16_le C c") (auto simp: get_ok_def cdr_is_def Let_def split: if_splits)
  show "(cdr_get_u16_le C c = (None, c)) = (length buf < p + 2)" if "even p"
    using g assms(2) that by (cases "cdr_get_u16_le C c") (auto simp: get_ok_def cdr_is_def Let_def split: if_splits)
qed

lemma get_array_at:
  assumes "fastcdr_ok C" and "cdr_is C c buf p"
  shows "if p + n \<le> length buf then \<exists>c'. cdr_get_array C n c = (Some (take n (drop p buf)), c') \<and> cdr_is C c' buf (p + n)
    else cdr_get_array C n c = (None, c)"
proof -
  have "get_ok C (cdr_get_array C n c) c 0 n id" using assms(1) by (simp add: fastcdr_ok_def)
  then show ?thesis
    using assms(2) by (cases "cdr_get_array C n c") (auto simp: get_ok_def cdr_is_def read_at_def Let_def split: if_splits)
qed

lemma mh_deserialize_at:
  assumes C: "fastcdr_ok C" and "cdr_is C c buf 0" and r: "mh_deserialize C h c = (h', ok, c')"
  shows "cdr_is C c' buf (header_read buf)" and "buf \<noteq> [] \<Longrightarrow> mh_session_id h' = buf ! 0"
proof -
  have "cdr_is C c' buf (header_read buf) \<and> (buf \<noteq> [] \<longrightarrow> mh_session_id h' = buf ! 0)"
  proof (cases "length buf < 1")
    case True
    then show ?thesis using get_u8_at [OF C assms(2)] r assms(2) by (auto simp: mh_deserialize_def header_read_def)
  next
    case 1: False
    with get_u8_at [OF C assms(2)] obtain c1 where c1: "cdr_get_u8 C c = (Some (buf ! 0), c1)" "cdr_is C c1 buf 1" by auto
    show ?thesis
    proof (cases "length buf < 2")
      case True
      then show ?thesis using 1 get_u8_at [OF C c1(2)] r c1 by (auto simp: mh_deserialize_def header_read_def)
    next
      case 2: False
      with get_u8_at [OF C c1(2)] obtain c2 where c2: "cdr_get_u8 C c1 = (Some (buf ! 1), c2)" "cdr_is C c2 buf 2"
        by (auto simp: numeral_2_eq_2)
      show ?thesis
      proof (cases "length buf < 4")
        case True
        then have "cdr_get_u16_le C c2 = (None, c2)" using get_u16_at(2) [OF C c2(2)] by simp
        then show ?thesis using True 2 r c1 c2 by (auto simp: mh_deserialize_def header_read_def)
      next
        case 4: False
        with get_u16_at [OF C c2(2)] obtain v c3 where c3: "cdr_get_u16_le C c2 = (Some v, c3)" "cdr_is C c3 buf 4" by auto
        with get_array_at [OF C c3(2), of 4] 4 r c1 c2 show ?thesis
          by (auto simp: mh_deserialize_def header_read_def Let_def split: if_splits)
      qed
    qed
  qed
  then show "cdr_is C c' buf (header_read buf)" and "buf \<noteq> [] \<Longrightarrow> mh_session_id h' = buf ! 0" by simp_all
qed

lemma InputMessage_new_received:
  assumes "fastcdr_ok C"
  shows "received C (InputMessage_new C buf)" and "unread C (InputMessage_new C buf) = weight (drop (header_read buf) buf)"
proof -
  obtain h ok c where r: "mh_deserialize C MessageHeader_init (cdr_open C buf) = (h, ok, c)" by (metis prod_cases3)
  have "cdr_is C (cdr_open C buf) buf 0" using assms by (simp add: fastcdr_ok_def)
  note at = mh_deserialize_at [OF assms this r]
  then show "received C (InputMessage_new C buf)" "unread C (InputMessage_new C buf) = weight (drop (header_read buf) buf)"
    by (simp_all add: InputMessage_new_def r received_def unread_def cdr_is_def)
qed

lemma header_read_append: "weight (drop (header_read (bs @ cs)) (bs @ cs)) \<le> weight (drop (header_read bs) bs) + weight cs"
proof -
  have "header_read bs \<le> header_read (bs @ cs)" by (auto simp: header_read_def nth_append)
  then have "weight (drop (header_read (bs @ cs)) (bs @ cs)) \<le> weight (drop (header_read bs) (bs @ cs))"
    by (rule weight_drop_mono)
  also have "\<dots> \<le> weight (drop (header_read bs) bs) + weight cs"
    using weight_drop_mono [of 0 "header_read bs - length bs" cs] by simp
  finally show ?thesis .
qed

section \<open>Submessages and fragments\<close>

lemma prepare_later:
  assumes C: "fastcdr_ok C" and m: "received C m" and p: "prepare_next_submessage C m = (b, m1)"
  shows "later C m m1" and "b \<Longrightarrow> octet_weight (sh_submessage_id (im_subheader m1)) + unread C m1 \<le> unread C m"
proof -
  let ?buf = "im_buf m" and ?o = "cdr_offset C (im_deserializer m)"
  define c where "c = cdr_jump C (pad4 ?o) (im_deserializer m)"
  have "cdr_is C (im_deserializer m) ?buf ?o" using m by (simp add: received_def cdr_is_def)
  from jump_at [OF C this, of "pad4 ?o"] obtain q where c: "cdr_is C c ?buf q" and q: "?o \<le> q"
    unfolding c_def by blast
  from c have q_def: "cdr_offset C c = q" by (simp add: cdr_is_def)
  have "later C m m1 \<and> (b \<longrightarrow> octet_weight (sh_submessage_id (im_subheader m1)) + unread C m1 \<le> unread C m)"
  proof (cases "q < length ?buf")
    case False
    with p c q m show ?thesis
      by (auto simp: prepare_next_submessage_def c_def [symmetric] q_def Let_def later_def received_def cdr_is_def)
  next
    case True
    obtain sh ok c' where r: "sh_deserialize C (im_subheader m) c = (sh, ok, c')" by (metis prod_cases3)
    with p True have m1: "b = ok" "m1 = m\<lparr>im_subheader := sh, im_deserializer := c'\<rparr>"
      by (simp_all add: prepare_next_submessage_def c_def [symmetric] q_def)
    from get_u8_at [OF C c] True obtain c1 where c1: "cdr_get_u8 C c = (Some (?buf ! q), c1)" "cdr_is C c1 ?buf (Suc q)" by auto
    have "cdr_buffer C c' = ?buf \<and> Suc q \<le> cdr_offset C c' \<and> sh_submessage_id sh = ?buf ! q"
    proof (cases "Suc q < length ?buf")
      case False
      with get_u8_at [OF C c1(2)] r c1 show ?thesis by (auto simp: sh_deserialize_def cdr_is_def)
    next
      case True
      with get_u8_at [OF C c1(2)] obtain c2 where c2: "cdr_get_u8 C c1 = (Some (?buf ! Suc q), c2)" "cdr_is C c2 ?buf (Suc (Suc q))" by auto
      from get_u16_at(1) [OF C c2(2)] r c1(1) c2 show ?thesis by (auto simp: sh_deserialize_def cdr_is_def)
    qed
    moreover have "octet_weight (?buf ! q) + weight (drop (cdr_offset C c') ?buf) \<le> weight (drop ?o ?buf)" if "Suc q \<le> cdr_offset C c'"
      using weight_drop_mono [OF q, of ?buf] weight_drop_mono [OF that, of ?buf] weight_drop_step [OF True] by simp
    ultimately show ?thesis using m q by (auto simp: m1 later_def received_def unread_def)
  qed
  then show "later C m m1" and "b \<Longrightarrow> octet_weight (sh_submessage_id (im_subheader m1)) + unread C m1 \<le> unread C m" by simp_all
qed

text \<open>A submessage comes after a whole header.\<close>

lemma prepare_header:
  assumes C: "fastcdr_ok C" and m: "received C m" and p: "prepare_next_submessage C m = (True, m1)"
  shows "get_raw_header m1 \<noteq> None"
proof -
  let ?buf = "im_buf m" and ?o = "cdr_offset C (im_deserializer m)"
  define c where "c = cdr_jump C (pad4 ?o) (im_deserializer m)"
  have "cdr_is C (im_deserializer m) ?buf ?o" using m by (simp add: received_def cdr_is_def)
  from jump_at [OF C this, of "pad4 ?o"] obtain q where c: "cdr_is C c ?buf q" and q: "?o \<le> q"
    unfolding c_def by blast
  from c have q_def: "cdr_offset C c = q" by (simp add: cdr_is_def)
  obtain sh ok c' where r: "sh_deserialize C (im_subheader m) c = (sh, ok, c')" by (metis prod_cases3)
  with p have lt: "q < length ?buf" and ok: "ok" and m1: "m1 = m\<lparr>im_subheader := sh, im_deserializer := c'\<rparr>"
    by (auto simp: prepare_next_submessage_def c_def [symmetric] q_def split: if_splits)
  from get_u8_at [OF C c] lt obtain c1 where c1: "cdr_get_u8 C c = (Some (?buf ! q), c1)" "cdr_is C c1 ?buf (Suc q)" by auto
  have lt1: "Suc q < length ?buf" using get_u8_at [OF C c1(2)] r c1(1) ok by (auto simp: sh_deserialize_def split: if_splits)
  with get_u8_at [OF C c1(2)] obtain c2 where c2: "cdr_get_u8 C c1 = (Some (?buf ! Suc q), c2)" "cdr_is C c2 ?buf (Suc (Suc q))" by auto
  from get_u16_at(1) [OF C c2(2)] r c1(1) c2(1) ok have "Suc (Suc q) + Suc (Suc q) mod 2 + 2 \<le> length ?buf"
    by (auto simp: sh_deserialize_def)
  then have "q + 4 \<le> length ?buf" by simp
  moreover have "header_read ?buf \<le> q" using m q by (simp add: received_def)
  ultimately have "header_read ?buf + 4 \<le> length ?buf" by simp
  then have "4 \<le> length ?buf" "128 > ?buf ! 0 \<longrightarrow> 8 \<le> length ?buf" by (auto simp: header_read_def split: if_splits)
  moreover have "mh_session_id (im_header m) = ?buf ! 0" using m lt by (auto simp: received_def)
  ultimately show ?thesis by (auto simp: m1 get_raw_header_def Let_def)
qed

lemma raw_payload_weight:
  assumes C: "fastcdr_ok C" and m: "received C m" and p: "get_raw_payload C n m = (data, ok, m')" and n: "n < 65536"
  shows "later C m m'" and "weight data + unread C m' \<le> unread C m + 65535"
proof -
  let ?k = "unat (sh_submessage_length (im_subheader m))" and ?o = "cdr_offset C (im_deserializer m)"
  have c: "cdr_is C (im_deserializer m) (im_buf m) ?o" using m by (simp add: received_def cdr_is_def)
  have split: "weight (drop ?o (im_buf m)) = weight (take ?k (drop ?o (im_buf m))) + weight (drop (?o + ?k) (im_buf m))"
    by (metis append_take_drop_id drop_drop add.commute weight_simps(3))
  have "later C m m' \<and> weight data + unread C m' \<le> unread C m + 65535"
  proof (cases "?k \<le> n \<and> ?o + ?k \<le> length (im_buf m)")
    case True
    with get_array_at [OF C c, of ?k] obtain c' where "cdr_get_array C ?k (im_deserializer m) = (Some (take ?k (drop ?o (im_buf m))), c')"
      and "cdr_is C c' (im_buf m) (?o + ?k)" by auto
    with p True n m split show ?thesis
      by (auto simp: get_raw_payload_def later_def unread_def received_def cdr_is_def Let_def)
  next
    case False
    with get_array_at [OF C c, of ?k] have "?k \<le> n \<Longrightarrow> cdr_get_array C ?k (im_deserializer m) = (None, im_deserializer m)" by auto
    with p False have "data = replicate n 0" "m' = m"
      by (auto simp: get_raw_payload_def Let_def split: if_splits)
    with n show ?thesis by simp
  qed
  then show "later C m m'" "weight data + unread C m' \<le> unread C m + 65535" by simp_all
qed

definition fragments_weight :: "'m ReliableInputStream \<Rightarrow> nat" where
  "fragments_weight x = weight (drop (header_read (ris_fragment_msg x)) (ris_fragment_msg x))"

lemma raw_header_weight:
  assumes "received C m" and "get_raw_header m = Some h"
  shows "weight (drop (header_read h) h) = 0"
proof -
  have "im_buf m \<noteq> []" using assms(2) by (auto simp: get_raw_header_def Let_def split: if_splits)
  with assms show ?thesis by (auto simp: get_raw_header_def received_def header_read_def Let_def split: if_splits)
qed

lemma push_fragment_weight:
  assumes C: "fastcdr_ok C" and m: "received C m" and p: "ris_push_fragment C m x = Some (m', x')"
  shows "later C m m'" and "fragments_weight x' + unread C m' \<le> fragments_weight x + unread C m + 65535"
    and "ris_messages x' = ris_messages x"
proof -
  let ?n = "unat (sh_submessage_length (im_subheader m))"
  obtain base where b: "(if ris_fragment_msg x = [] then get_raw_header m else Some (ris_fragment_msg x)) = Some base"
    using p by (auto simp: ris_push_fragment_def split: option.splits)
  obtain data ok m1 where r: "get_raw_payload C ?n m = (data, ok, m1)" by (metis prod_cases3)
  have x': "m' = m1" "ris_fragment_msg x' = base @ data" "ris_messages x' = ris_messages x"
    using p b r by (auto simp: ris_push_fragment_def Let_def split: option.splits)
  have "?n < 65536" using unsigned_less [of "sh_submessage_length (im_subheader m)"] by simp
  note w = raw_payload_weight [OF C m r this]
  have "weight (drop (header_read base) base) = fragments_weight x"
    using b raw_header_weight [OF m, of base] by (auto simp: fragments_weight_def split: if_splits)
  then have "fragments_weight x' \<le> fragments_weight x + weight data"
    using header_read_append [of base data] by (simp add: fragments_weight_def x')
  with w(2) show "fragments_weight x' + unread C m' \<le> fragments_weight x + unread C m + 65535" by (simp add: x')
  from w(1) show "later C m m'" by (simp add: x')
  show "ris_messages x' = ris_messages x" by (rule x')
qed

lemma pop_fragment_weight:
  assumes C: "fastcdr_ok C" and p: "ris_pop_fragment_message C x = (Some m, x')"
  shows "received C m" and "fragments_weight x' + unread C m = fragments_weight x" and "ris_messages x' = ris_messages x"
  using p InputMessage_new_received [OF C, of "ris_fragment_msg x"]
  by (auto simp: ris_pop_fragment_message_def fragments_weight_def split: if_splits)

section \<open>What waits in a session\<close>

definition waiting :: "('c, 'x) fastcdr_scheme \<Rightarrow> 'c InputMessage list \<Rightarrow> nat" where
  "waiting C ms = sum_list (map (\<lambda>m. Suc (unread C m)) ms)"

definition reliable_weight :: "('c, 'x) fastcdr_scheme \<Rightarrow> 'c InputMessage ReliableInputStream \<Rightarrow> nat" where
  "reliable_weight C x = fragments_weight x + (\<Sum>q \<in> UNIV. case ris_messages x q of None \<Rightarrow> 0 | Some m \<Rightarrow> Suc (unread C m))"

definition session_weight :: "('c, 'x) fastcdr_scheme \<Rightarrow> 'c Session \<Rightarrow> nat" where
  "session_weight C s = (\<Sum>k \<in> UNIV. reliable_weight C (ses_rel_in s k)) + (\<Sum>k \<in> UNIV. waiting C (bis_messages (ses_be_in s k))) +
     waiting C (nis_messages (ses_none_istream s))"

definition session_received :: "('c, 'x) fastcdr_scheme \<Rightarrow> 'c Session \<Rightarrow> bool" where
  "session_received C s \<longleftrightarrow> (\<forall>k q m. ris_messages (ses_rel_in s k) q = Some m \<longrightarrow> received C m) \<and>
     (\<forall>k. \<forall>m \<in> set (bis_messages (ses_be_in s k)). received C m) \<and> (\<forall>m \<in> set (nis_messages (ses_none_istream s)). received C m)"

lemma sum_upd: "(\<Sum>k \<in> UNIV. f ((g(k0 := x)) k)) + f (g k0) = (\<Sum>k \<in> UNIV. f (g k)) + (f x :: nat)" for g :: "'k :: finite \<Rightarrow> 'a"
proof -
  have "(\<Sum>k \<in> UNIV. f ((g(k0 := x)) k)) = f x + (\<Sum>k \<in> UNIV - {k0}. f (g k))"
    by (subst sum.remove [of UNIV k0]) simp_all
  moreover have "(\<Sum>k \<in> UNIV. f (g k)) = f (g k0) + (\<Sum>k \<in> UNIV - {k0}. f (g k))"
    by (rule sum.remove) simp_all
  ultimately show ?thesis by simp
qed

lemma ses_streams_upd [simp]:
  "ses_rel_in (ses_set_rel_in k x s) = (ses_rel_in s)(k := x)" "ses_be_in (ses_set_rel_in k x s) = ses_be_in s"
  "ses_rel_in (ses_set_be_in k y s) = ses_rel_in s" "ses_be_in (ses_set_be_in k y s) = (ses_be_in s)(k := y)"
  "ses_rel_in (s\<lparr>ses_none_istream := z\<rparr>) = ses_rel_in s" "ses_be_in (s\<lparr>ses_none_istream := z\<rparr>) = ses_be_in s"
  "ses_none_istream (ses_set_rel_in k x s) = ses_none_istream s" "ses_none_istream (ses_set_be_in k y s) = ses_none_istream s"
  "ses_info (ses_set_rel_in k x s) = ses_info s" "ses_info (ses_set_be_in k y s) = ses_info s"
  by (auto simp: ses_access_defs fun_eq_iff)

lemma session_weight_set:
  "session_weight C (ses_set_rel_in k x s) + reliable_weight C (ses_rel_in s k) = session_weight C s + reliable_weight C x"
  "session_weight C (ses_set_be_in k y s) + waiting C (bis_messages (ses_be_in s k)) = session_weight C s + waiting C (bis_messages y)"
  "session_weight C (s\<lparr>ses_none_istream := z\<rparr>) + waiting C (nis_messages (ses_none_istream s)) = session_weight C s + waiting C (nis_messages z)"
  using sum_upd [of "reliable_weight C" "ses_rel_in s" k x] sum_upd [of "\<lambda>y. waiting C (bis_messages y)" "ses_be_in s" k y]
  by (simp_all add: session_weight_def)

lemma session_received_set:
  assumes "session_received C s"
  shows "(\<And>q m. ris_messages x q = Some m \<Longrightarrow> received C m) \<Longrightarrow> session_received C (ses_set_rel_in k x s)"
    and "(\<And>m. m \<in> set (bis_messages y) \<Longrightarrow> received C m) \<Longrightarrow> session_received C (ses_set_be_in k y s)"
    and "(\<And>m. m \<in> set (nis_messages z) \<Longrightarrow> received C m) \<Longrightarrow> session_received C (s\<lparr>ses_none_istream := z\<rparr>)"
  using assms by (auto simp: session_received_def)

lemma reliable_weight_upd:
  "(\<Sum>q \<in> UNIV. case (f(q0 := x)) q of None \<Rightarrow> 0 | Some m \<Rightarrow> Suc (unread C m)) + (case f q0 of None \<Rightarrow> 0 | Some m \<Rightarrow> Suc (unread C m))
    = (\<Sum>q \<in> UNIV. case f q of None \<Rightarrow> 0 | Some m \<Rightarrow> Suc (unread C m)) + (case x of None \<Rightarrow> 0 | Some m \<Rightarrow> Suc (unread C m))"
  for f :: "SeqNum \<Rightarrow> 'c InputMessage option"
  by (rule sum_upd)

definition lighter :: "('c, 'x) fastcdr_scheme \<Rightarrow> 'c Session \<Rightarrow> 'c Session \<Rightarrow> bool" where
  "lighter C s s' \<longleftrightarrow> ses_info s' = ses_info s \<and> (session_received C s \<longrightarrow> session_received C s' \<and> session_weight C s' \<le> session_weight C s)"

lemma lighter_trans: "lighter C s s' \<Longrightarrow> lighter C s' s'' \<Longrightarrow> lighter C s s''"
  using le_trans by (auto simp: lighter_def)

text \<open>What leaves the input streams as they are, or takes messages from them.\<close>

lemma lighter_same:
  "ses_rel_in s' = ses_rel_in s \<Longrightarrow> ses_be_in s' = ses_be_in s \<Longrightarrow> ses_none_istream s' = ses_none_istream s \<Longrightarrow> ses_info s' = ses_info s \<Longrightarrow> lighter C s s'"
  by (simp add: lighter_def session_received_def session_weight_def)

lemma lighter_refl: "lighter C s s"
  by (rule lighter_same) simp_all

lemma lighter_outputs:
  "ses_push_output_submessage C k i p s = Some (r, s') \<Longrightarrow> lighter D s s'"
  "ses_get_next_output_message k s = (n, s') \<Longrightarrow> lighter D s s'"
  "ses_get_output_message k q s = (o1, s') \<Longrightarrow> lighter D s s'"
  "lighter D s (ses_update_from_acknack k q s)"
  "ses_fill_heartbeat k hb s = (rv, hb', s') \<Longrightarrow> lighter D s s'"
  by (auto intro!: lighter_same simp: ses_op_defs ses_access_defs Let_def split: if_splits prod.splits option.splits)

lemma lighter_set_rel_in:
  assumes "ris_messages x = ris_messages (ses_rel_in s k)" and "ris_fragment_msg x = ris_fragment_msg (ses_rel_in s k)"
  shows "lighter C s (ses_set_rel_in k x s)"
  using assms session_weight_set(1) [of C k x s] session_received_set(1) [of C s x k]
  by (auto simp: lighter_def reliable_weight_def fragments_weight_def session_received_def [of C s])

lemma lighter_inputs:
  "lighter C s (ses_update_from_heartbeat k f l s)"
  "ses_fill_acknack k ack s = (ack', s') \<Longrightarrow> lighter C s s'"
  by (auto simp: ses_update_from_heartbeat_def ses_fill_acknack_def ris_update_from_heartbeat_def lighter_refl Let_def
      intro!: lighter_set_rel_in split: if_splits)

lemma lighter_reset: "lighter C s (ses_reset s)"
proof -
  have rel: "ris_messages (ses_rel_in (ses_reset s) k) = Map.empty \<or> ses_rel_in (ses_reset s) k = ses_rel_in s k"
    "ris_fragment_msg (ses_rel_in (ses_reset s) k) = ris_fragment_msg (ses_rel_in s k)"
    and be: "bis_messages (ses_be_in (ses_reset s) k) = [] \<or> ses_be_in (ses_reset s) k = ses_be_in s k" for k
    by (auto simp: ses_reset_def ses_access_defs stream_at_def ris_reset_def bis_reset_def split: option.splits)
  have "ses_none_istream (ses_reset s) = ses_none_istream s" "ses_info (ses_reset s) = ses_info s" by (simp_all add: ses_reset_def)
  moreover have "reliable_weight C (ses_rel_in (ses_reset s) k) \<le> reliable_weight C (ses_rel_in s k)" for k
    using rel [of k] by (auto simp: reliable_weight_def fragments_weight_def)
  moreover have "waiting C (bis_messages (ses_be_in (ses_reset s) k)) \<le> waiting C (bis_messages (ses_be_in s k))" for k
    using be [of k] by (auto simp: waiting_def)
  ultimately have "session_weight C (ses_reset s) \<le> session_weight C s"
    unfolding session_weight_def by (intro add_mono sum_mono) simp_all
  moreover have "session_received C s \<Longrightarrow> session_received C (ses_reset s)"
    using rel(1) be \<open>ses_none_istream (ses_reset s) = ses_none_istream s\<close> unfolding session_received_def
    by (metis empty_iff list.set(1) option.distinct(1))
  ultimately show ?thesis using \<open>ses_info (ses_reset s) = ses_info s\<close> by (simp add: lighter_def)
qed

text \<open>The unit of the transport stays what it is.\<close>

lemma input_info:
  "ses_push_input_message m k q s = (rv, s') \<Longrightarrow> ses_info s' = ses_info s"
  "ses_pop_input_message k s = (r, s') \<Longrightarrow> ses_info s' = ses_info s"
  "ses_push_input_fragment C k m s = Some (m', s') \<Longrightarrow> ses_info s' = ses_info s"
  "ses_pop_input_fragment_message C k s = (r, s') \<Longrightarrow> ses_info s' = ses_info s"
  by (auto simp: ses_push_input_message_def ses_pop_input_message_def ses_push_input_fragment_def ses_pop_input_fragment_message_def
      split: if_splits prod.splits)

lemma waiting_simps [simp]: "waiting C [] = 0" "waiting C (m # ms) = Suc (unread C m) + waiting C ms" "waiting C (ms @ ms') = waiting C ms + waiting C ms'"
  by (simp_all add: waiting_def)

lemma reliable_push_weight:
  assumes "ris_push_message q m x = (rv, x')"
  shows "reliable_weight C x' \<le> reliable_weight C x + Suc (unread C m)"
    and "ris_messages x' q' = Some m' \<Longrightarrow> m' = m \<or> ris_messages x q' = Some m'"
proof -
  have "ris_fragment_msg x' = ris_fragment_msg x \<and>
      (ris_messages x' = ris_messages x \<or> ris_messages x q = None \<and> ris_messages x' = (ris_messages x)(q \<mapsto> m))"
    using assms by (auto simp: ris_push_message_def emplace_def split: if_splits option.splits)
  then show "reliable_weight C x' \<le> reliable_weight C x + Suc (unread C m)"
    and "ris_messages x' q' = Some m' \<Longrightarrow> m' = m \<or> ris_messages x q' = Some m'"
    using reliable_weight_upd [of C "ris_messages x" q "Some m"]
    by (auto simp: reliable_weight_def fragments_weight_def split: if_splits)
qed

lemma reliable_pop_weight:
  assumes "ris_pop_message x = (Some m, x')"
  shows "reliable_weight C x' + Suc (unread C m) = reliable_weight C x"
    and "\<exists>q. ris_messages x q = Some m" and "ris_messages x' q' = Some m' \<Longrightarrow> ris_messages x q' = Some m'"
proof -
  obtain q where q: "ris_messages x q = Some m" and x': "ris_fragment_msg x' = ris_fragment_msg x" "ris_messages x' = (ris_messages x)(q := None)"
    using assms by (auto simp: ris_pop_message_def erase_def Let_def split: option.splits)
  from x' q show "reliable_weight C x' + Suc (unread C m) = reliable_weight C x"
    using reliable_weight_upd [of C "ris_messages x" q None] by (simp add: reliable_weight_def fragments_weight_def)
  show "\<exists>q. ris_messages x q = Some m" using q ..
  show "ris_messages x' q' = Some m' \<Longrightarrow> ris_messages x q' = Some m'" using x' by (auto split: if_splits)
qed

lemma push_input_weight:
  assumes s: "session_received C s" and m: "received C m" and p: "ses_push_input_message m k q s = (rv, s')"
  shows "session_received C s' \<and> session_weight C s' \<le> session_weight C s + Suc (unread C m)"
proof -
  have none: "m' \<in> set (nis_messages (ses_none_istream s)) \<Longrightarrow> received C m'"
    and be: "m' \<in> set (bis_messages (ses_be_in s k)) \<Longrightarrow> received C m'"
    and rel: "ris_messages (ses_rel_in s k) q' = Some m' \<Longrightarrow> received C m'" for m' q'
    using s by (auto simp: session_received_def)
  consider z where "is_none_stream k" "nis_push_message m (ses_none_istream s) = (rv, z)" "s' = s\<lparr>ses_none_istream := z\<rparr>"
    | y where "bis_push_message q m (ses_be_in s k) = (rv, y)" "s' = ses_set_be_in k y s"
    | x where "ris_push_message q m (ses_rel_in s k) = (rv, x)" "s' = ses_set_rel_in k x s"
    using p by (auto simp: ses_push_input_message_def split: if_splits prod.splits)
  then show ?thesis
  proof cases
    case (1 z)
    with m none session_weight_set(3) [of C z s] show ?thesis
      by (auto simp: nis_push_message_def intro!: session_received_set(3) [OF s] split: if_splits)
  next
    case (2 y)
    with m be session_weight_set(2) [of C k y s] show ?thesis
      by (auto simp: bis_push_message_def intro!: session_received_set(2) [OF s] split: if_splits)
  next
    case (3 x)
    note w = reliable_push_weight [OF 3(1)]
    from w(2) m rel have "session_received C s'" unfolding 3(2) by (intro session_received_set(1) [OF s]) blast
    with w(1) [of C] session_weight_set(1) [of C k x s] show ?thesis by (simp add: 3(2))
  qed
qed

lemma pop_input_weight:
  assumes s: "session_received C s" and p: "ses_pop_input_message k s = (Some m, s')"
  shows "received C m" and "session_received C s'" and "session_weight C s' + Suc (unread C m) = session_weight C s"
proof -
  have none: "m' \<in> set (nis_messages (ses_none_istream s)) \<Longrightarrow> received C m'"
    and be: "m' \<in> set (bis_messages (ses_be_in s k)) \<Longrightarrow> received C m'"
    and rel: "ris_messages (ses_rel_in s k) q' = Some m' \<Longrightarrow> received C m'" for m' q'
    using s by (auto simp: session_received_def)
  consider z where "nis_pop_message (ses_none_istream s) = (Some m, z)" "s' = s\<lparr>ses_none_istream := z\<rparr>"
    | y where "bis_pop_message (ses_be_in s k) = (Some m, y)" "s' = ses_set_be_in k y s"
    | x where "ris_pop_message (ses_rel_in s k) = (Some m, x)" "s' = ses_set_rel_in k x s"
    using p by (auto simp: ses_pop_input_message_def split: if_splits prod.splits)
  then have "received C m \<and> session_received C s' \<and> session_weight C s' + Suc (unread C m) = session_weight C s"
  proof cases
    case (1 z)
    with none session_weight_set(3) [of C z s] show ?thesis
      by (auto simp: nis_pop_message_def intro!: session_received_set(3) [OF s] split: list.splits)
  next
    case (2 y)
    with be session_weight_set(2) [of C k y s] show ?thesis
      by (auto simp: bis_pop_message_def intro!: session_received_set(2) [OF s] split: list.splits)
  next
    case (3 x)
    note w = reliable_pop_weight [OF 3(1)]
    have "session_received C s'" unfolding 3(2) by (rule session_received_set(1) [OF s]) (use w(3) rel in blast)
    moreover have "received C m" using w(2) rel by blast
    ultimately show ?thesis using w(1) [of C] session_weight_set(1) [of C k x s] by (simp add: 3(2))
  qed
  then show "received C m" "session_received C s'" "session_weight C s' + Suc (unread C m) = session_weight C s" by simp_all
qed

lemma pop_input_none: "ses_pop_input_message k s = (None, s') \<Longrightarrow> lighter C s s'"
  by (rule lighter_same)
    (auto simp: ses_pop_input_message_def nis_pop_message_def bis_pop_message_def ris_pop_message_def Let_def fun_eq_iff
      split: if_splits list.splits option.splits prod.splits)

lemma push_input_fragment_weight:
  assumes C: "fastcdr_ok C" and s: "session_received C s" and m: "received C m" and p: "ses_push_input_fragment C k m s = Some (m', s')"
  shows "session_received C s' \<and> later C m m' \<and> session_weight C s' + unread C m' \<le> session_weight C s + unread C m + 65535"
proof (cases "is_reliable_stream k")
  case False
  with p s show ?thesis by (simp add: ses_push_input_fragment_def)
next
  case True
  with p obtain x where x: "ris_push_fragment C m (ses_rel_in s k) = Some (m', x)" and s': "s' = ses_set_rel_in k x s"
    by (auto simp: ses_push_input_fragment_def)
  note w = push_fragment_weight [OF C m x]
  have "session_received C s'" unfolding s'
    by (rule session_received_set(1) [OF s]) (use w(3) s in \<open>auto simp: session_received_def\<close>)
  with w session_weight_set(1) [of C k x s] show ?thesis by (simp add: s' reliable_weight_def)
qed

lemma pop_input_fragment_weight:
  assumes C: "fastcdr_ok C" and s: "session_received C s" and p: "ses_pop_input_fragment_message C k s = (r, s')"
  shows "session_received C s' \<and> (case r of None \<Rightarrow> session_weight C s' \<le> session_weight C s
     | Some m \<Rightarrow> received C m \<and> session_weight C s' + unread C m = session_weight C s)"
proof -
  obtain x where x: "ris_pop_fragment_message C (ses_rel_in s k) = (r, x)" and s': "s' = ses_set_rel_in k x s"
    using p by (auto simp: ses_pop_input_fragment_message_def split: prod.splits)
  show ?thesis
  proof (cases r)
    case None
    with x have "x = ses_rel_in s k" by (simp add: ris_pop_fragment_message_def split: if_splits)
    with lighter_set_rel_in [of x s k C] s None show ?thesis by (simp add: s' lighter_def)
  next
    case (Some m)
    note w = pop_fragment_weight [OF C x [unfolded Some]]
    have "session_received C s'" unfolding s'
      by (rule session_received_set(1) [OF s]) (use w(3) s in \<open>auto simp: session_received_def\<close>)
    with w session_weight_set(1) [of C k x s] Some show ?thesis by (simp add: s' reliable_weight_def)
  qed
qed

section \<open>What waits for a client\<close>

text \<open>
  A message for the client has room for an octet beside its header and a subheader: the client chose the size when it was
  created. With the flag, \<open>ready\<close> asks for it too.
\<close>

definition session_room :: "'c Session \<Rightarrow> bool" where
  "session_room s \<longleftrightarrow> header_len (ses_info s) + 4 < si_mtu (ses_info s)"

definition ready :: "('c, 'x) fastcdr_scheme \<Rightarrow> bool \<Rightarrow> nat \<Rightarrow> ('m, 'c, 'g, 'e) Agent \<Rightarrow> bool" where
  "ready C wide a ag \<longleftrightarrow> a < root_fresh (ag_root ag) \<and>
     (\<forall>c. root_store (ag_root ag) a = Some c \<longrightarrow> session_received C (pc_session c) \<and> (wide \<longrightarrow> session_room (pc_session c)))"

definition client_weight :: "('c, 'x) fastcdr_scheme \<Rightarrow> nat \<Rightarrow> ('m, 'c, 'g, 'e) Agent \<Rightarrow> nat" where
  "client_weight C a ag = (case root_store (ag_root ag) a of None \<Rightarrow> 0 | Some c \<Rightarrow> session_weight C (pc_session c))"

definition settles :: "('c, 'x) fastcdr_scheme \<Rightarrow> bool \<Rightarrow> nat \<Rightarrow> ('m, 'c, 'g, 'e) Agent \<Rightarrow> ('m, 'c, 'g, 'e) Agent \<Rightarrow> bool" where
  "settles C wide a ag ag' \<longleftrightarrow> (ready C wide a ag \<longrightarrow> ready C wide a ag' \<and> client_weight C a ag' \<le> client_weight C a ag)"

lemma settles_refl: "settles C wide a ag ag"
  by (simp add: settles_def)

lemma settles_trans: "settles C wide a ag ag' \<Longrightarrow> settles C wide a ag' ag'' \<Longrightarrow> settles C wide a ag ag''"
  using le_trans by (auto simp: settles_def)

lemma settles_client:
  assumes "root_store (ag_root ag) b = Some c" and "lighter C (pc_session c) (pc_session (fst s))"
  shows "settles C wide a ag (ag_set_client b s ag)"
  using assms by (auto simp: settles_def ready_def client_weight_def lighter_def ag_set_client_def session_room_def)

lemma settles_on_client:
  assumes "on_client b f ag = Inr (x, ag')" and "\<And>s y s'. f s = Inr (y, s') \<Longrightarrow> pc_session (fst s') = pc_session (fst s)"
  shows "settles C wide a ag ag'"
proof -
  from assms(1) obtain c s where c: "root_store (ag_root ag) b = Some c" and s: "f (c, ag_shared ag) = Inr (x, s)"
    and ag': "ag' = ag_set_client b s ag" unfolding on_client_Inr by blast
  from assms(2) [OF s] show ?thesis unfolding ag' by (intro settles_client [OF c]) (simp add: lighter_refl)
qed

lemma settles_frame:
  "root_store (ag_root ag') a = root_store (ag_root ag) a \<Longrightarrow> root_fresh (ag_root ag) \<le> root_fresh (ag_root ag') \<Longrightarrow> settles C wide a ag ag'"
  by (simp add: settles_def ready_def client_weight_def)

lemma settles_store:
  assumes "root_store (ag_root ag') a = map_option f (root_store (ag_root ag) a)" and "\<And>c. lighter C (pc_session c) (pc_session (f c))"
    and "root_fresh (ag_root ag) \<le> root_fresh (ag_root ag')"
  shows "settles C wide a ag ag'"
  using assms by (cases "root_store (ag_root ag) a") (auto simp: settles_def ready_def client_weight_def lighter_def session_room_def)

lemma root_create_store:
  assumes "root_create_client F now rep kind r = (result, info, r')" and "a < root_fresh r"
  shows "root_fresh r \<le> root_fresh r'" and "\<exists>f. (\<forall>c. f c = c \<or> f c = c\<lparr>pc_session := ses_reset (pc_session c)\<rparr>) \<and> root_store r' a = map_option f (root_store r a)"
proof -
  have "root_fresh r \<le> root_fresh r' \<and> (root_store r' a = map_option id (root_store r a) \<or>
      root_store r' a = map_option (\<lambda>c. c\<lparr>pc_session := ses_reset (pc_session c)\<rparr>) (root_store r a))"
    using assms by (auto simp: root_create_client_def root_alloc_def root_on_client_def Let_def option.map_id
        split: if_splits option.splits prod.splits)
  then show "root_fresh r \<le> root_fresh r'" and "\<exists>f. (\<forall>c. f c = c \<or> f c = c\<lparr>pc_session := ses_reset (pc_session c)\<rparr>) \<and> root_store r' a = map_option f (root_store r a)"
    by (auto simp: id_def)
qed

lemma settles_create_client:
  assumes "ag_create_client E rep ag = (result, info, ag')"
  shows "settles C wide a ag ag'"
proof (cases "a < root_fresh (ag_root ag)")
  case False
  then show ?thesis by (simp add: settles_def ready_def)
next
  case True
  obtain i r where r: "root_create_client (pe_factory E) (pe_steady_clock E (ag_ticks ag)) rep (pe_kind E) (ag_root ag) = (result, i, r)"
    and ag': "ag_root ag' = r"
    using assms by (auto simp: ag_create_client_def read_steady_clock_def Let_def split: prod.splits)
  from root_create_store [OF r True] obtain f where f: "\<forall>c. f c = c \<or> f c = c\<lparr>pc_session := ses_reset (pc_session c)\<rparr>"
    "root_store r a = map_option f (root_store (ag_root ag) a)" "root_fresh (ag_root ag) \<le> root_fresh r" by blast
  show ?thesis
  proof (rule settles_store)
    show "root_store (ag_root ag') a = map_option f (root_store (ag_root ag) a)" using f by (simp add: ag')
    show "lighter C (pc_session c) (pc_session (f c))" for c
    proof -
      have "f c = c \<or> f c = c\<lparr>pc_session := ses_reset (pc_session c)\<rparr>" using f(1) by blast
      then show ?thesis by (auto simp: lighter_refl lighter_reset)
    qed
    show "root_fresh (ag_root ag) \<le> root_fresh (ag_root ag')" using f by (simp add: ag')
  qed
qed

lemma settles_delete_client:
  assumes "ag_delete_client E k ag = (result, ag')"
  shows "settles C wide a ag ag'"
proof -
  have rel: "\<exists>f. (\<forall>c. pc_session (f c) = pc_session c) \<and> root_store (fst (root_release M ord b s)) a = map_option f (root_store (fst s) a)" for M ord b s
  proof (cases "b = a \<and> root_store (fst s) a \<noteq> None")
    case True
    then obtain c where c: "root_store (fst s) b = Some c" "b = a" by auto
    have "pc_session (fst (pc_release M (ord (pc_objects c)) (c, snd s))) = pc_session c" by (simp add: pc_release_def)
    with c show ?thesis
      by (intro exI [of _ "\<lambda>d. if d = c then fst (pc_release M (ord (pc_objects c)) (c, snd s)) else d"])
        (auto simp: root_release_def split: prod.splits)
  next
    case False
    then show ?thesis
      by (intro exI [of _ id]) (auto simp: root_release_def option.map_id split: option.splits prod.splits)
  qed
  have ag': "ag_root ag' = fst (snd (root_delete_client (pe_middleware E) (pe_order E) k (ag_root ag, ag_shared ag)))"
    using assms by (auto simp: ag_delete_client_def split: prod.splits)
  have "root_fresh (ag_root ag') = root_fresh (ag_root ag) \<and>
      (\<exists>f. (\<forall>c. pc_session (f c) = pc_session c) \<and> root_store (ag_root ag') a = map_option f (root_store (ag_root ag) a))"
  proof (cases "root_get_client k (ag_root ag)")
    case None
    then have "ag_root ag' = ag_root ag" by (simp add: ag' root_delete_client_def)
    then show ?thesis by (auto intro!: exI [of _ id] simp: option.map_id)
  next
    case (Some b)
    define r where "r = (if root_current_client (ag_root ag) = Some k
        then (ag_root ag)\<lparr>root_current_client := omap_next k (root_clients (ag_root ag))\<rparr> else ag_root ag)"
    have "root_store r = root_store (ag_root ag)" "root_fresh r = root_fresh (ag_root ag)" by (simp_all add: r_def)
    moreover have "root_store (ag_root ag') = root_store (fst (root_release (pe_middleware E) (pe_order E) b (r, ag_shared ag)))"
      and "root_fresh (ag_root ag') = root_fresh (fst (root_release (pe_middleware E) (pe_order E) b (r, ag_shared ag)))"
      by (simp_all add: ag' root_delete_client_def Some r_def Let_def case_prod_beta)
    ultimately show ?thesis using rel [of "pe_middleware E" "pe_order E" b "(r, ag_shared ag)"] by (simp add: root_release_frame)
  qed
  then obtain f where "\<And>c. pc_session (f c) = pc_session c" "root_store (ag_root ag') a = map_option f (root_store (ag_root ag) a)"
    and "root_fresh (ag_root ag) \<le> root_fresh (ag_root ag')" by auto
  then show ?thesis by (intro settles_store [of ag' a f ag C]) (simp_all add: lighter_refl)
qed

lemma pc_delete_object_session: "pc_delete_object M oid s = (y, s') \<Longrightarrow> pc_session (fst s') = pc_session (fst s)"
  using pc_delete_unlock_identity [of M oid s]
  by (cases "pc_delete_object_unlock M oid s") (auto simp: pc_delete_object_def pc_identity_def split: bool.splits)

lemma create_object_session:
  assumes "map_sum Uncaught id (pc_create_object M mode oid rep s) = Inr (y, s')"
  shows "pc_session (fst s') = pc_session (fst s)"
proof -
  have "pc_create_object M mode oid rep s = Inr (y, s')" using assms by (cases "pc_create_object M mode oid rep s") simp_all
  from pc_create_object_identity [OF this] show ?thesis by (simp add: pc_identity_def)
qed

lemma write_object_session: "write_object M dp s = (y, s') \<Longrightarrow> pc_session (fst s') = pc_session (fst s)"
  by (auto simp: write_object_def Let_def case_prod_beta split: if_splits option.splits)

lemma read_object_session: "read_object rp s = (y, s') \<Longrightarrow> pc_session (fst s') = pc_session (fst s)"
  by (auto simp: read_object_def Let_def split: option.splits prod.splits)

interpretation settling: handler_frame E "settles (pe_cdr E) wide a0" "lighter (pe_cdr E)"
  for E :: "('m, 'c, 'g) processor_env" and wide :: bool and a0 :: nat
proof unfold_locales
  fix ag :: "('m, 'c, 'g, 'e) Agent" and a c s and cs :: "('m, 'c, 'g) client_state"
  assume "root_store (ag_root ag) a = Some c" "quiet (lighter (pe_cdr E)) (c, ag_shared ag) cs"
  then show "settles (pe_cdr E) wide a0 ag (ag_set_client a cs ag)" unfolding quiet_def fst_conv snd_conv by (blast intro: settles_client)
next
  fix ag ag' :: "('m, 'c, 'g, 'e) Agent" and a mode oid rep r
  assume "on_client a (\<lambda>s. map_sum Uncaught id (pc_create_object (pe_middleware E) mode oid rep s)) ag = Inr (r, ag')"
  then show "settles (pe_cdr E) wide a0 ag ag'"
    by (rule settles_on_client) (rule create_object_session)
next
  fix ag ag' :: "('m, 'c, 'g, 'e) Agent" and a oid r
  assume "on_client a (\<lambda>s. Inr (pc_delete_object (pe_middleware E) oid s)) ag = Inr (r, ag')"
  then show "settles (pe_cdr E) wide a0 ag ag'"
    by (rule settles_on_client) (simp add: pc_delete_object_session)
next
  fix ag ag' :: "('m, 'c, 'g, 'e) Agent" and a dp rv
  assume "on_client a (\<lambda>s. Inr (write_object (pe_middleware E) dp s)) ag = Inr (rv, ag')"
  then show "settles (pe_cdr E) wide a0 ag ag'"
    by (rule settles_on_client) (simp add: write_object_session)
next
  fix ag ag' :: "('m, 'c, 'g, 'e) Agent" and a rp st
  assume "on_client a (\<lambda>s. Inr (read_object rp s)) ag = Inr (st, ag')"
  then show "settles (pe_cdr E) wide a0 ag ag'"
    by (rule settles_on_client) (simp add: read_object_session)
qed (fact settles_refl settles_trans settles_create_client settles_delete_client lighter_refl lighter_trans lighter_reset
    lighter_outputs lighter_inputs | rule settles_frame, simp_all)+

section \<open>The end of the loops\<close>

text \<open>
  Only the loops run out of fuel, and only a push on a reliable stream, of all calls, does not return; the flag asks for
  both.
\<close>

definition answers :: "bool \<Rightarrow> processor_fault + 'a \<Rightarrow> bool" where
  "answers wide r \<longleftrightarrow> r \<noteq> Inl OutOfFuel \<and> (wide \<longrightarrow> r \<noteq> Inl NoReturn)"

named_theorems answering \<open>steps that do not run out of fuel\<close>

lemma answers_and_then [answering]: "answers w r \<Longrightarrow> (\<And>x. r = Inr x \<Longrightarrow> answers w (f x)) \<Longrightarrow> answers w (and_then r f)"
  by (cases r) (auto simp: answers_def)

lemma answers_simps [simp]: "answers w (Inr x)" "answers w (Inl e) \<longleftrightarrow> e \<noteq> OutOfFuel \<and> (w \<longrightarrow> e \<noteq> NoReturn)"
  by (auto simp: answers_def)

lemma answers_weaken: "answers w r \<Longrightarrow> answers False r"
  by (simp add: answers_def)

lemma answers_on_client [answering]: "(\<And>s. answers w (f s)) \<Longrightarrow> answers w (on_client a f ag)"
  by (auto simp: on_client_def intro: answering split: option.split)

lemma answers_on_session [answering]: "(\<And>s. answers w (f s)) \<Longrightarrow> answers w (on_session a f ag)"
  by (auto simp: on_session_def intro!: answering split: prod.split)

lemma answers_payload [answering]: "(\<And>p. answers w (f p ag)) \<Longrightarrow> answers w (with_payload g b f m ag)"
  by (auto simp: with_payload_def get_payload_def intro!: answering split: prod.split option.split got.split)

lemma answers_for_each [answering]: "(\<And>x ag. answers w (f x ag)) \<Longrightarrow> answers w (for_each f xs ag)"
  by (induction xs arbitrary: ag) (auto intro: answering)

lemma answers_drain: "answers w (drain d k s sv)"
proof (induction d k s sv rule: drain.induct)
  case (1 d k s sv)
  then show ?case
    by (cases "ses_get_next_output_message k s" rule: prod.exhaust) (auto simp: drain.simps [of d k s] split: next_message.split)
qed

lemma answers_pending [answering]: "answers w (send_pending a d k ag)"
  using answers_drain [of w d k _ "ag_server ag"]
  by (auto simp: send_pending_def answers_def map_sum_def and_then_Inl on_session_def on_client_def split: sum.splits option.splits)

lemma answers_next [answering]: "answers w (send_next a d k ag)"
  by (auto simp: send_next_def intro!: answering split: next_message.split)

lemma answers_map_sum [answering]: "answers w (map_sum Uncaught f r)"
  by (cases r) simp_all

lemma answers_case_prod [answering]: "(\<And>x y. p = (x, y) \<Longrightarrow> answers w (f x y)) \<Longrightarrow> answers w (case p of (x, y) \<Rightarrow> f x y)"
  by (cases p) simp

lemma answers_if [answering]: "(b \<Longrightarrow> answers w r) \<Longrightarrow> (\<not> b \<Longrightarrow> answers w r') \<Longrightarrow> answers w (if b then r else r')"
  by simp

text \<open>A push outside the reliable streams returns; so does one of a short submessage on any stream of a client with room.\<close>

lemma answers_send_none [answering]: "answers w (send_submessage C a STREAMID_NONE i p ag)"
proof -
  have "is_none_stream STREAMID_NONE" by (simp add: is_none_stream_def STREAMID_NONE_def)
  then show ?thesis
    by (auto simp: send_submessage_def ses_push_output_submessage_def Let_def intro!: answers_on_session split: prod.split)
qed

lemma ses_push_returns:
  assumes "fastcdr_ok C" and "session_room s" and "pl_size p \<le> 65531"
  shows "ses_push_output_submessage C k i p s \<noteq> None"
  using push_returns [OF assms(1) _ assms(3)] assms(2)
  by (auto simp: ses_push_output_submessage_def session_room_def Let_def split: prod.split simp del: not_None_eq)

lemma answers_send:
  assumes C: "fastcdr_ok C" and p: "pl_size p \<le> 65531" and ag: "ready D w a ag"
  shows "answers w (send_submessage C a k i p ag)"
proof (cases "root_store (ag_root ag) a")
  case None
  then show ?thesis by (simp add: send_submessage_def on_session_def on_client_def)
next
  case (Some c)
  have "w \<Longrightarrow> ses_push_output_submessage C k i p (pc_session c) \<noteq> None"
    using ag Some by (intro ses_push_returns [OF C _ p]) (simp add: ready_def)
  with Some show ?thesis
    by (auto simp: send_submessage_def on_session_def on_client_def answers_def and_then_Inl split: option.splits push_result.splits)
qed

lemma STATUS_size: "xrce_cdr_ok C \<Longrightarrow> pl_size (STATUS_payload C r) \<le> 65531"
  by (simp add: agent_sends_ok(3) [OF _ agent_sends.intros(1)] BaseObjectReply_wire_def BaseObjectRequest_wire_def ResultStatus_wire_def
      w_then_def w_bytes_def)

lemma DATA_size: "xrce_cdr_ok C \<Longrightarrow> pl_size (DATA_payload C d) = 4 + length (dp_data d)"
  by (simp add: agent_sends_ok(3) [OF _ agent_sends.intros(4)] DATA_Payload_wire_def BaseObjectRequest_wire_def w_then_def w_bytes_def)

lemma answers_status:
  assumes "xrce_cdr_ok (pe_cdr E)" and "ready (pe_cdr E) w a ag"
  shows "answers w (answer_status E a d k request result ag)"
  unfolding answer_status_def
  by (intro answering answers_send [OF xrce_cdr_okD(1) [OF assms(1)] STATUS_size [OF assms(1)] assms(2)])

lemma answers_create_client: "answers w (process_create_client_submessage E d m ag)"
  by (cases "is_none_session (mh_session_id (im_header m))")
    (auto simp: process_create_client_submessage_def Let_def intro!: answering)

lemma settled: "settles C w a ag ag' \<Longrightarrow> ready C w a ag \<Longrightarrow> ready C w a ag'"
  by (simp add: settles_def)

lemma answers_status_none [answering]: "answers w (answer_status E a d STREAMID_NONE request result ag)"
  unfolding answer_status_def by (intro answering)

lemma answers_create:
  assumes C: "xrce_cdr_ok (pe_cdr E)" and ag: "ready (pe_cdr E) w a ag"
  shows "answers w (process_create_submessage E a d m ag)"
  unfolding process_create_submessage_def
  by (auto intro!: answering answers_status [OF C] intro: settled [OF settling.on_create_R ag])

lemma answers_delete:
  assumes C: "xrce_cdr_ok (pe_cdr E)" and ag: "ready (pe_cdr E) w a ag"
  shows "answers w (process_delete_submessage E a d m ag)"
  unfolding process_delete_submessage_def Let_def
  by (auto intro!: answering answers_status [OF C] intro: settled [OF settling.on_delete_R ag])

lemma answers_write: "answers w (process_write_data_submessage E a m ag)"
  by (auto simp: process_write_data_submessage_def Let_def intro!: answering)

lemma answers_read:
  assumes C: "xrce_cdr_ok (pe_cdr E)" and ag: "ready (pe_cdr E) w a ag"
  shows "answers w (process_read_data_submessage E a d m ag)"
  unfolding process_read_data_submessage_def
  by (auto intro!: answering answers_status [OF C] intro: settled [OF settling.on_read_R ag])

lemma answers_acknack: "answers w (process_acknack_submessage E a d m ag)"
  unfolding process_acknack_submessage_def send_again_def by (intro answering) simp_all

lemma answers_heartbeat: "answers w (process_heartbeat_submessage E a d m ag)"
  unfolding process_heartbeat_submessage_def by (intro answering) simp_all

lemma answers_reset: "answers w (process_reset_submessage a m ag)"
  unfolding process_reset_submessage_def by (intro answering) simp_all

lemma answers_timestamp: "answers w (process_timestamp_submessage E a d m ag)"
  unfolding process_timestamp_submessage_def Let_def by (intro answering) simp_all

lemma answers_other:
  assumes "sh_submessage_id (im_subheader m) \<noteq> FRAGMENT" and "xrce_cdr_ok (pe_cdr E)" and "ready (pe_cdr E) w a ag"
  shows "answers w (process_submessage again E a d m ag)"
  using assms
  by (simp add: process_submessage_def Let_def answers_create_client answers_create answers_delete answers_write answers_read
      answers_acknack answers_heartbeat answers_reset answers_timestamp)

lemma answers_heartbeats: "answers w (check_heartbeats E ag)"
proof (induction "root_ahead (ag_root ag)" arbitrary: ag rule: less_induct)
  case less
  obtain x r where g: "root_get_next_client (ag_root ag) = (x, r)" by fastforce
  have "answers w (heartbeat_client E a ag)" for a and ag :: "('a, 'b, 'c, 'd) Agent"
    by (auto simp: heartbeat_client_def heartbeat_stream_def read_steady_clock_def Let_def intro!: answering split: option.split)
  with less g show ?case
    by (auto simp: check_heartbeats.simps [of E ag] heartbeat_client_less intro!: answering split: option.split)
qed

text \<open>What the handlers leave of the message.\<close>

lemma payload_later:
  assumes "moves C g" and "with_payload g b f m ag = Inr ((rv, m'), ag')"
  shows "later C m m'"
  using assms(2) get_payload_later [OF assms(1)] by (auto simp: with_payload_def and_then_Inr split: option.splits)

lemma other_later:
  assumes C: "cdr_forward (pe_cdr E)" and id: "sh_submessage_id (im_subheader m) \<noteq> FRAGMENT"
    and r: "process_submessage again E a d m ag = Inr ((rv, m'), ag')"
  shows "later (pe_cdr E) m m'"
proof -
  note moves = moves_object [OF C] moves_payload [OF C]
  have "process_create_client_submessage E d m ag = Inr ((rv, m'), ag') \<Longrightarrow> later (pe_cdr E) m m'"
    unfolding process_create_client_submessage_def by (cases "is_none_session (mh_session_id (im_header m))") (auto intro: payload_later moves)
  moreover have "process_write_data_submessage E a m ag = Inr ((rv, m'), ag') \<Longrightarrow> later (pe_cdr E) m m'"
    by (auto simp: process_write_data_submessage_def Let_def intro: payload_later moves split: if_splits)
  moreover have "process_reset_submessage a m ag = Inr ((rv, m'), ag') \<Longrightarrow> later (pe_cdr E) m m'"
    by (auto simp: process_reset_submessage_def and_then_Inr)
  ultimately show ?thesis
    using r id unfolding process_submessage_def Let_def process_create_submessage_def process_delete_submessage_def
      process_read_data_submessage_def process_acknack_submessage_def process_heartbeat_submessage_def process_timestamp_submessage_def
    by (auto intro: payload_later moves split: if_split_asm)
qed

lemma ready_client:
  assumes "ready C wide a ag" and "root_store (ag_root ag) a = Some c"
  shows "session_received C (pc_session c)" and "client_weight C a ag = session_weight C (pc_session c)"
    and "client_weight C a (ag_set_client a (c\<lparr>pc_session := s\<rparr>, g) ag) = session_weight C s"
    and "session_received C s \<Longrightarrow> ses_info s = ses_info (pc_session c) \<Longrightarrow> ready C wide a (ag_set_client a (c\<lparr>pc_session := s\<rparr>, g) ag)"
    and "wide \<Longrightarrow> session_room (pc_session c)"
  using assms by (simp_all add: ready_def client_weight_def ag_set_client_def session_room_def)

lemma fragment_ends:
  assumes C: "cdr_forward (pe_cdr E)" and m: "received (pe_cdr E) m" "get_raw_header m \<noteq> None" and ag: "ready (pe_cdr E) wide a ag"
    and n: "client_weight (pe_cdr E) a ag + unread (pe_cdr E) m + 65535 < n"
    and again: "\<And>m ag. received (pe_cdr E) m \<Longrightarrow> ready (pe_cdr E) wide a ag \<Longrightarrow> client_weight (pe_cdr E) a ag + unread (pe_cdr E) m < n \<Longrightarrow>
      answers wide (again m ag) \<and> (\<forall>ag'. again m ag = Inr ag' \<longrightarrow> ready (pe_cdr E) wide a ag' \<and>
        client_weight (pe_cdr E) a ag' \<le> client_weight (pe_cdr E) a ag + unread (pe_cdr E) m)"
  shows "answers wide (process_fragment_submessage again E a m ag) \<and>
    (\<forall>rv m' ag'. process_fragment_submessage again E a m ag = Inr ((rv, m'), ag') \<longrightarrow> later (pe_cdr E) m m' \<and> ready (pe_cdr E) wide a ag' \<and>
      client_weight (pe_cdr E) a ag' + unread (pe_cdr E) m' \<le> client_weight (pe_cdr E) a ag + unread (pe_cdr E) m + 65535)"
proof -
  let ?C = "pe_cdr E" and ?k = "mh_stream_id (im_header m)"
  let ?W = "client_weight (pe_cdr E) a" and ?U = "unread (pe_cdr E)"
  have C1: "fastcdr_ok ?C" using C xrce_cdr_okD(1) by (auto simp: cdr_forward_def)
  show ?thesis
  proof (cases "root_store (ag_root ag) a")
    case None
    then show ?thesis by (simp add: process_fragment_submessage_def on_session_def on_client_def Let_def)
  next
    case (Some c)
    note c = ready_client [OF ag Some]
    show ?thesis
    proof (cases "ses_push_input_fragment ?C ?k m (pc_session c)")
      case None
      then show ?thesis using m(2) by (auto simp: ses_push_input_fragment_def ris_push_fragment_def Let_def split: if_splits option.splits prod.splits)
    next
      case push: (Some r)
      obtain m1 s1 where r: "r = (m1, s1)" by fastforce
      note w1 = push_input_fragment_weight [OF C1 c(1) m(1) push [unfolded r]] and i1 = input_info(3) [OF push [unfolded r]]
      define ag1 where "ag1 = ag_set_client a (c\<lparr>pc_session := s1\<rparr>, ag_shared ag) ag"
      have ag1: "root_store (ag_root ag1) a = Some (c\<lparr>pc_session := s1\<rparr>)" "ready ?C wide a ag1" "?W ag1 = session_weight ?C s1"
        using w1 i1 c by (simp_all add: ag1_def ag_set_client_def ready_client(4) [OF ag Some, unfolded ag_set_client_def] client_weight_def ready_def session_room_def)
      obtain f s2 where pop: "ses_pop_input_fragment_message ?C ?k s1 = (f, s2)" by fastforce
      note w2 = pop_input_fragment_weight [OF C1 _ pop] and i2 = input_info(4) [OF pop]
      define ag2 where "ag2 = ag_set_client a (c\<lparr>pc_session := s2\<rparr>, ag_shared ag1) ag1"
      have ag2: "ready ?C wide a ag2" "?W ag2 = session_weight ?C s2"
        using w1 w2 i2 ag1 by (auto simp: ag2_def ag_set_client_def ready_def client_weight_def session_room_def)
      have step: "process_fragment_submessage again E a m ag =
          (case f of None \<Rightarrow> Inr ((True, m1), ag2) | Some fm \<Rightarrow> and_then (again fm ag2) (\<lambda>ag. Inr ((True, m1), ag)))"
        unfolding ag2_def ag1_def
        using push pop by (simp add: process_fragment_submessage_def on_session_def on_client_def Let_def Some r ag1(1) [unfolded ag1_def])
      show ?thesis
      proof (cases f)
        case None
        with step w1 w2 ag2 c show ?thesis by auto
      next
        case (Some fm)
        with w1 w2 have fm: "received ?C fm" "session_weight ?C s2 + ?U fm = session_weight ?C s1" by auto
        have "?W ag2 + ?U fm < n" using fm(2) ag2(2) w1 c(2) n by linarith
        from again [OF fm(1) ag2(1) this] step Some w1 fm(2) ag2(2) c(2) show ?thesis
          by (auto simp: and_then_Inr intro!: answering)
      qed
    qed
  qed
qed

lemma input_message_ends:
  assumes C: "cdr_forward (pe_cdr E)"
  shows "received (pe_cdr E) m \<Longrightarrow> ready (pe_cdr E) wide a ag \<Longrightarrow> client_weight (pe_cdr E) a ag + unread (pe_cdr E) m < n \<Longrightarrow>
    answers wide (process_input_message n E a d m ag) \<and> (\<forall>ag'. process_input_message n E a d m ag = Inr ag' \<longrightarrow> ready (pe_cdr E) wide a ag' \<and>
      client_weight (pe_cdr E) a ag' \<le> client_weight (pe_cdr E) a ag + unread (pe_cdr E) m)"
proof (induction n arbitrary: m ag)
  case (Suc n)
  let ?C = "pe_cdr E" and ?W = "client_weight (pe_cdr E) a" and ?U = "unread (pe_cdr E)"
  have C1: "fastcdr_ok ?C" and C2: "xrce_cdr_ok ?C" using C xrce_cdr_okD(1) by (auto simp: cdr_forward_def)
  obtain b m1 where p: "prepare_next_submessage ?C m = (b, m1)" by fastforce
  note m1 = prepare_later [OF C1 Suc.prems(1) p]
  have m1r: "received ?C m1" by (rule later_received [OF m1(1) Suc.prems(1)])
  show ?case
  proof (cases b)
    case False
    with p Suc.prems show ?thesis by simp
  next
    case True
    have hdr: "get_raw_header m1 \<noteq> None" using prepare_header [OF C1 Suc.prems(1)] p True by simp
    define sub where "sub = process_submessage (process_input_message n E a d) E a d m1 ag"
    have sub: "answers wide sub \<and> (\<forall>rv m2 ag1. sub = Inr ((rv, m2), ag1) \<longrightarrow> later ?C m1 m2 \<and> ready ?C wide a ag1 \<and> ?W ag1 + ?U m2 < ?W ag + ?U m)"
    proof (cases "sh_submessage_id (im_subheader m1) = FRAGMENT")
      case frag: True
      have "sub = process_fragment_submessage (process_input_message n E a d) E a m1 ag"
        using frag by (simp add: sub_def process_submessage_def submessage_ids)
      moreover have U: "?U m1 + 65536 \<le> ?U m" using m1(2) True frag by (simp add: octet_weight_def FRAGMENT_def)
      moreover have "?W ag + ?U m1 + 65535 < n" using U Suc.prems(3) by linarith
      ultimately show ?thesis using fragment_ends [OF C m1r hdr Suc.prems(2) _ Suc.IH] by fastforce
    next
      case other: False
      have "?U m1 < ?U m" using m1(2) True by (simp add: octet_weight_def split: if_splits)
      moreover have "settles ?C wide a ag ag1" if "sub = Inr ((rv, m2), ag1)" for rv m2 ag1
        using settling.other_submessage_R [OF that [unfolded sub_def] other] .
      ultimately show ?thesis
        using answers_other [OF other, of E wide a ag "process_input_message n E a d" d] Suc.prems(2) C2
          other_later [OF C other, of "process_input_message n E a d" a d ag] later_unread
        by (fastforce simp: sub_def [symmetric] settles_def)
    qed
    show ?thesis
    proof (cases sub)
      case (Inl e)
      with sub p True show ?thesis by (simp add: sub_def)
    next
      case (Inr r)
      obtain rv m2 ag1 where r: "r = ((rv, m2), ag1)" by (metis prod.collapse)
      with sub Inr have s: "later ?C m1 m2" "ready ?C wide a ag1" "?W ag1 + ?U m2 < ?W ag + ?U m" by auto
      have step: "process_input_message (Suc n) E a d m ag = (if rv then process_input_message n E a d m2 ag1 else Inr ag1)"
        using p True Inr by (simp add: sub_def [symmetric] r)
      have "?W ag1 + ?U m2 < n" using s(3) Suc.prems(3) by linarith
      from Suc.IH [OF later_received [OF s(1) m1r] s(2) this] s step show ?thesis by auto
    qed
  qed
qed simp

lemma messages_end:
  assumes C: "cdr_forward (pe_cdr E)"
  shows "ready (pe_cdr E) wide a ag \<Longrightarrow> client_weight (pe_cdr E) a ag < n \<Longrightarrow> client_weight (pe_cdr E) a ag < j \<Longrightarrow>
    answers wide (process_messages n j E a d k ag) \<and> (\<forall>ag'. process_messages n j E a d k ag = Inr ag' \<longrightarrow> ready (pe_cdr E) wide a ag')"
proof (induction j arbitrary: ag)
  case (Suc j)
  let ?C = "pe_cdr E" and ?W = "client_weight (pe_cdr E) a"
  show ?case
  proof (cases "root_store (ag_root ag) a")
    case None
    then show ?thesis by (simp add: on_session_def on_client_def)
  next
    case (Some c)
    note c = ready_client [OF Suc.prems(1) Some]
    obtain r s1 where p: "ses_pop_input_message k (pc_session c) = (r, s1)" by fastforce
    define ag1 where "ag1 = ag_set_client a (c\<lparr>pc_session := s1\<rparr>, ag_shared ag) ag"
    have step: "process_messages n (Suc j) E a d k ag = (case r of None \<Rightarrow> Inr ag1
        | Some m \<Rightarrow> and_then (process_input_message n E a d m ag1) (process_messages n j E a d k))"
      unfolding ag1_def using p Some by (simp add: on_session_def on_client_def)
    show ?thesis
    proof (cases r)
      case None
      with pop_input_none [of k "pc_session c" s1 ?C] p c step input_info(2) [OF p] show ?thesis by (auto simp: ag1_def lighter_def)
    next
      case (Some m)
      note w = pop_input_weight [OF c(1) p [unfolded Some]]
      have ag1: "ready ?C wide a ag1" "?W ag1 + Suc (unread ?C m) = ?W ag" using c w input_info(2) [OF p] by (simp_all add: ag1_def)
      then have "?W ag1 + unread ?C m < n" using Suc.prems(2) by linarith
      note e = input_message_ends [OF C w(1) ag1(1) this, of d]
      have "answers wide (process_messages n j E a d k ag2) \<and> (\<forall>ag'. process_messages n j E a d k ag2 = Inr ag' \<longrightarrow> ready ?C wide a ag')"
        if "process_input_message n E a d m ag1 = Inr ag2" for ag2
        using e that ag1(2) Suc.prems(2,3) by (intro Suc.IH) auto
      with e step Some show ?thesis by (auto simp: and_then_Inr intro!: answering)
    qed
  qed
qed simp

lemma client_message_ends:
  assumes C: "cdr_forward (pe_cdr E)" and m: "received (pe_cdr E) m" and ag: "ready (pe_cdr E) wide a ag"
    and n: "client_weight (pe_cdr E) a ag + unread (pe_cdr E) m + 1 < n" and j: "client_weight (pe_cdr E) a ag + unread (pe_cdr E) m + 1 < j"
  shows "answers wide (process_client_message n j E a d m ag) \<and> (\<forall>ag'. process_client_message n j E a d m ag = Inr ag' \<longrightarrow> ready (pe_cdr E) wide a ag')"
proof -
  let ?C = "pe_cdr E" and ?k = "mh_stream_id (im_header m)" and ?q = "mh_sequence_nr (im_header m)"
  show ?thesis
  proof (cases "root_store (ag_root ag) a")
    case None
    then show ?thesis by (simp add: process_client_message_def read_steady_clock_def on_client_def)
  next
    case (Some c)
    note c = ready_client [OF ag Some]
    define c' where "c' = pc_update_state (pe_steady_clock E (ag_ticks ag)) c"
    have c': "pc_session c' = pc_session c" by (simp add: c'_def pc_update_state_def)
    obtain rv s1 where p: "ses_push_input_message m ?k ?q (pc_session c) = (rv, s1)" by fastforce
    note w = push_input_weight [OF c(1) m p]
    define ag1 where "ag1 = ag_set_client a (c'\<lparr>pc_session := s1\<rparr>, ag_shared ag) (ag_set_client a (c', ag_shared ag) (ag\<lparr>ag_ticks := Suc (ag_ticks ag)\<rparr>))"
    have ag1: "ready ?C wide a ag1" "client_weight ?C a ag1 = session_weight ?C s1"
      using w ag input_info(1) [OF p] c(5) by (simp_all add: ag1_def ready_def client_weight_def ag_set_client_def session_room_def)
    have step: "process_client_message n j E a d m ag = and_then (process_messages n j E a d ?k ag1)
        (\<lambda>ag. if is_reliable_stream ?k then acknowledge E a d (im_header m) ag else Inr ag)"
      unfolding ag1_def using p Some c'
      by (simp add: process_client_message_def read_steady_clock_def Let_def on_session_def on_client_def c'_def [symmetric] ag_set_client_def)
    have "session_weight ?C s1 < n" "session_weight ?C s1 < j" using w n j c(2) by linarith+
    with messages_end [OF C ag1(1), of n j d ?k] ag1(2)
    have e: "answers wide (process_messages n j E a d ?k ag1)" "\<And>ag'. process_messages n j E a d ?k ag1 = Inr ag' \<Longrightarrow> ready ?C wide a ag'" by auto
    have "answers wide (acknowledge E a d (im_header m) ag2)" for ag2
      unfolding acknowledge_def by (intro answering) simp_all
    moreover have "ready ?C wide a ag'" if "acknowledge E a d (im_header m) ag2 = Inr ag'" "ready ?C wide a ag2" for ag2 ag'
      using settling.acknowledge_R [OF that(1), of wide a] that(2) by (simp add: settles_def)
    ultimately show ?thesis using e step by (auto simp: and_then_Inr intro!: answering)
  qed
qed

section \<open>More fuel changes nothing\<close>

lemma fragment_more:
  assumes "\<And>m ag. answers False (again m ag) \<Longrightarrow> again' m ag = again m ag" and "answers False (process_fragment_submessage again E a m ag)"
  shows "process_fragment_submessage again' E a m ag = process_fragment_submessage again E a m ag"
proof -
  let ?k = "mh_stream_id (im_header m)"
  show ?thesis
    using assms(2) unfolding process_fragment_submessage_def Let_def
    by (cases "on_session a (\<lambda>s. case ses_push_input_fragment (pe_cdr E) ?k m s of None \<Rightarrow> Inl NoReturn | Some r \<Rightarrow> Inr r) ag")
      (auto simp: and_then_def assms(1) split: sum.splits option.splits prod.splits)
qed

lemma submessage_more:
  assumes "\<And>m ag. answers False (again m ag) \<Longrightarrow> again' m ag = again m ag" and "answers False (process_submessage again E a d m ag)"
  shows "process_submessage again' E a d m ag = process_submessage again E a d m ag"
  using assms(2) fragment_more [of again again' E a m ag, OF assms(1)]
  by (auto simp: process_submessage_def Let_def)

lemma input_message_more:
  "answers False (process_input_message n E a d m ag) \<Longrightarrow> n \<le> n' \<Longrightarrow> process_input_message n' E a d m ag = process_input_message n E a d m ag"
proof (induction n arbitrary: n' m ag)
  case (Suc n)
  then obtain n1 where n': "n' = Suc n1" "n \<le> n1" by (cases n') auto
  obtain b m1 where p: "prepare_next_submessage (pe_cdr E) m = (b, m1)" by fastforce
  show ?case
  proof (cases b)
    case False
    with p show ?thesis by (simp add: n')
  next
    case True
    let ?sub = "\<lambda>n. process_submessage (process_input_message n E a d) E a d m1 ag"
    have "answers False (?sub n)"
      using Suc.prems(1) p True by (cases "?sub n") (auto simp: answers_def)
    then have sub: "?sub n1 = ?sub n"
      by (intro submessage_more) (rule Suc.IH [OF _ n'(2)])
    show ?thesis
      using Suc.prems(1) p True Suc.IH [OF _ n'(2)] sub by (cases "?sub n") (auto simp: n')
  qed
qed simp

lemma messages_more:
  "answers False (process_messages n j E a d k ag) \<Longrightarrow> n \<le> n' \<Longrightarrow> j \<le> j' \<Longrightarrow> process_messages n' j' E a d k ag = process_messages n j E a d k ag"
proof (induction j arbitrary: j' ag)
  case (Suc j)
  then obtain j1 where j': "j' = Suc j1" "j \<le> j1" by (cases j') auto
  show ?case
  proof (cases "on_session a (\<lambda>s. Inr (ses_pop_input_message k s)) ag")
    case (Inl e)
    then show ?thesis by (simp add: j')
  next
    case (Inr r)
    obtain x ag1 where r: "r = (x, ag1)" by fastforce
    show ?thesis
    proof (cases x)
      case None
      with Inr r show ?thesis by (simp add: j')
    next
      case (Some m)
      with Suc.prems(1) Inr r have a: "answers False (and_then (process_input_message n E a d m ag1) (process_messages n j E a d k))" by simp
      then have "process_input_message n' E a d m ag1 = process_input_message n E a d m ag1"
        by (intro input_message_more Suc.prems) (auto simp: answers_def)
      with a Inr r Some Suc.IH [OF _ Suc.prems(2) j'(2)] show ?thesis
        by (cases "process_input_message n E a d m ag1") (auto simp: j')
    qed
  qed
qed simp

lemma client_message_more:
  assumes "answers False (process_client_message n j E a d m ag)" and "n \<le> n'" "j \<le> j'"
  shows "process_client_message n' j' E a d m ag = process_client_message n j E a d m ag"
  using assms(1)
  by (auto simp: process_client_message_def Let_def read_steady_clock_def and_then_def messages_more [OF _ assms(2,3)]
      split: sum.splits prod.splits)

section \<open>The other clients\<close>

text \<open>Every message that waits for a client outside \<open>X\<close> is as its constructor made it.\<close>

definition all_ready :: "('c, 'x) fastcdr_scheme \<Rightarrow> nat set \<Rightarrow> ('m, 'c, 'g, 'e) Agent \<Rightarrow> bool" where
  "all_ready C X ag \<longleftrightarrow> (\<forall>b c. b \<notin> X \<longrightarrow> root_store (ag_root ag) b = Some c \<longrightarrow>
     b < root_fresh (ag_root ag) \<and> session_received C (pc_session c))"

definition stays_ready :: "('c, 'x) fastcdr_scheme \<Rightarrow> nat set \<Rightarrow> ('m, 'c, 'g, 'e) Agent \<Rightarrow> ('m, 'c, 'g, 'e) Agent \<Rightarrow> bool" where
  "stays_ready C X ag ag' \<longleftrightarrow> (all_ready C X ag \<longrightarrow> all_ready C X ag')"

lemma all_ready_ready: "all_ready C X ag \<Longrightarrow> b \<notin> X \<Longrightarrow> root_store (ag_root ag) b = Some c \<Longrightarrow> (wide \<Longrightarrow> session_room (pc_session c)) \<Longrightarrow> ready C wide b ag"
  by (auto simp: all_ready_def ready_def)

lemma all_ready_insert: "all_ready C {a} ag \<Longrightarrow> ready C wide a ag \<Longrightarrow> all_ready C {} ag"
  by (auto simp: all_ready_def ready_def)

lemma all_ready_mono: "all_ready C {} ag \<Longrightarrow> all_ready C X ag"
  by (auto simp: all_ready_def)

lemma stays_ready_refl: "stays_ready C X ag ag"
  by (simp add: stays_ready_def)

lemma stays_ready_trans: "stays_ready C X ag ag' \<Longrightarrow> stays_ready C X ag' ag'' \<Longrightarrow> stays_ready C X ag ag''"
  by (simp add: stays_ready_def)

lemma stays_ready_frame:
  "root_store (ag_root ag') = root_store (ag_root ag) \<Longrightarrow> root_fresh (ag_root ag') = root_fresh (ag_root ag) \<Longrightarrow> stays_ready C X ag ag'"
  by (simp add: stays_ready_def all_ready_def)

lemma lighterD: "lighter C s s' \<Longrightarrow> session_received C s \<longrightarrow> session_received C s'"
  by (simp add: lighter_def)

lemmas lighter_received = lighter_outputs [THEN lighterD] lighter_inputs [THEN lighterD] lighter_reset [THEN lighterD]

text \<open>What settles every client keeps them ready.\<close>

lemma stays_ready_settles:
  assumes "\<And>b. settles C False b ag ag'" and "\<And>b. root_store (ag_root ag') b \<noteq> None \<Longrightarrow> root_store (ag_root ag) b \<noteq> None"
  shows "stays_ready C X ag ag'"
  using assms unfolding stays_ready_def all_ready_def settles_def ready_def by blast

lemma stays_ready_client:
  assumes "root_store (ag_root ag) b = Some c" and "b \<notin> X \<Longrightarrow> session_received C (pc_session c) \<Longrightarrow> session_received C (pc_session (fst s))"
  shows "stays_ready C X ag (ag_set_client b s ag)"
  using assms by (auto simp: stays_ready_def all_ready_def ag_set_client_def)

lemma stays_ready_on_client:
  assumes "on_client b f ag = Inr (x, ag')" and "\<And>s y s'. f s = Inr (y, s') \<Longrightarrow> b \<notin> X \<Longrightarrow> pc_session (fst s') = pc_session (fst s)"
  shows "stays_ready C X ag ag'"
proof -
  from assms(1) obtain c s where c: "root_store (ag_root ag) b = Some c" and s: "f (c, ag_shared ag) = Inr (x, s)"
    and ag': "ag' = ag_set_client b s ag" unfolding on_client_Inr by blast
  from assms(2) [OF s] show ?thesis unfolding ag' by (intro stays_ready_client [OF c]) simp
qed

lemma stays_ready_excluded: "on_session a f ag = Inr (x, ag') \<Longrightarrow> a \<in> X \<Longrightarrow> stays_ready C X ag ag'"
  unfolding on_session_def by (erule stays_ready_on_client) simp

lemma session_received_new: "session_received C (Session_new info)"
  by (simp add: session_received_def Session_new_def ses_access_defs stream_at_def ReliableInputStream_init_def BestEffortInputStream_init_def
      NoneInputStream_init_def)

lemma root_create_store_cases:
  assumes "root_create_client F now rep kind r = (result, info, r')" and "root_store r' b = Some c'"
  shows "(\<exists>c. root_store r b = Some c \<and> (pc_session c' = pc_session c \<or> pc_session c' = ses_reset (pc_session c)))
    \<or> b < root_fresh r' \<and> pc_session c' \<in> range Session_new"
  using assms by (auto simp: root_create_client_def root_alloc_def root_on_client_def ProxyClient_new_def Let_def
      split: if_splits option.splits prod.splits)

lemma stays_ready_create:
  assumes "ag_create_client E rep ag = (result, info, ag')"
  shows "stays_ready C X ag ag'"
proof -
  obtain i r where r: "root_create_client (pe_factory E) (pe_steady_clock E (ag_ticks ag)) rep (pe_kind E) (ag_root ag) = (result, i, r)"
    and ag': "ag_root ag' = r"
    using assms by (auto simp: ag_create_client_def read_steady_clock_def Let_def split: prod.splits)
  have fresh: "root_fresh (ag_root ag) \<le> root_fresh r"
    using r by (auto simp: root_create_client_def root_alloc_def root_on_client_def Let_def split: if_splits option.splits prod.splits)
  have "b < root_fresh (ag_root ag') \<and> session_received C (pc_session c')"
    if ok: "all_ready C X ag" and b: "b \<notin> X" "root_store (ag_root ag') b = Some c'" for b c'
    using root_create_store_cases [OF r b(2) [unfolded ag']]
  proof (elim disjE exE conjE)
    fix c
    assume c: "root_store (ag_root ag) b = Some c" "pc_session c' = pc_session c"
    with ok b fresh show ?thesis by (fastforce simp: all_ready_def ag')
  next
    fix c
    assume c: "root_store (ag_root ag) b = Some c" "pc_session c' = ses_reset (pc_session c)"
    with ok b have "b < root_fresh (ag_root ag)" "session_received C (pc_session c)" by (auto simp: all_ready_def)
    with lighter_reset [of C "pc_session c"] fresh show ?thesis by (simp add: c(2) ag' lighter_def)
  next
    assume "b < root_fresh r" "pc_session c' \<in> range Session_new"
    then show ?thesis by (auto simp: ag' session_received_new)
  qed
  then show ?thesis by (simp add: stays_ready_def all_ready_def)
qed

lemma stays_ready_delete:
  assumes "ag_delete_client E k ag = (result, ag')"
  shows "stays_ready C X ag ag'"
proof (rule stays_ready_settles)
  show "settles C False b ag ag'" for b by (rule settles_delete_client [OF assms])
  show "root_store (ag_root ag') b \<noteq> None \<Longrightarrow> root_store (ag_root ag) b \<noteq> None" for b
    using assms by (auto simp: ag_delete_client_def root_delete_client_def root_release_def Let_def
        split: option.splits prod.splits if_splits)
qed

interpretation others: handler_frame E "stays_ready (pe_cdr E) X" "\<lambda>s s'. session_received (pe_cdr E) s \<longrightarrow> session_received (pe_cdr E) s'"
  for E :: "('m, 'c, 'g) processor_env" and X :: "nat set"
proof unfold_locales
  fix ag :: "('m, 'c, 'g, 'e) Agent" and a c and cs :: "('m, 'c, 'g) client_state"
  assume "root_store (ag_root ag) a = Some c"
    "quiet (\<lambda>s s'. session_received (pe_cdr E) s \<longrightarrow> session_received (pe_cdr E) s') (c, ag_shared ag) cs"
  then show "stays_ready (pe_cdr E) X ag (ag_set_client a cs ag)"
    unfolding quiet_def fst_conv snd_conv by (blast intro: stays_ready_client)
next
  fix ag ag' :: "('m, 'c, 'g, 'e) Agent" and a mode oid rep r
  assume "on_client a (\<lambda>s. map_sum Uncaught id (pc_create_object (pe_middleware E) mode oid rep s)) ag = Inr (r, ag')"
  then show "stays_ready (pe_cdr E) X ag ag'"
    by (rule stays_ready_on_client) (rule create_object_session)
next
  fix ag ag' :: "('m, 'c, 'g, 'e) Agent" and a oid r
  assume "on_client a (\<lambda>s. Inr (pc_delete_object (pe_middleware E) oid s)) ag = Inr (r, ag')"
  then show "stays_ready (pe_cdr E) X ag ag'"
    by (rule stays_ready_on_client) (simp add: pc_delete_object_session)
next
  fix ag ag' :: "('m, 'c, 'g, 'e) Agent" and a dp rv
  assume "on_client a (\<lambda>s. Inr (write_object (pe_middleware E) dp s)) ag = Inr (rv, ag')"
  then show "stays_ready (pe_cdr E) X ag ag'" by (rule stays_ready_on_client) (simp add: write_object_session)
next
  fix ag ag' :: "('m, 'c, 'g, 'e) Agent" and a rp st
  assume "on_client a (\<lambda>s. Inr (read_object rp s)) ag = Inr (st, ag')"
  then show "stays_ready (pe_cdr E) X ag ag'" by (rule stays_ready_on_client) (simp add: read_object_session)
qed (fact stays_ready_refl stays_ready_trans stays_ready_create stays_ready_delete lighter_received
  | rule stays_ready_frame, simp_all | (rule impI, assumption) | (rule impI, blast))+

lemma fragment_others:
  assumes "process_fragment_submessage again E a m ag = Inr (x, ag')" and "a \<in> X"
    and again: "\<And>m ag ag'. again m ag = Inr ag' \<Longrightarrow> stays_ready (pe_cdr E) X ag ag'"
  shows "stays_ready (pe_cdr E) X ag ag'"
  using assms(1)
  by (auto simp: process_fragment_submessage_def Let_def and_then_Inr split: option.splits
      intro: stays_ready_trans [OF stays_ready_excluded stays_ready_excluded] assms(2)
        stays_ready_trans [OF stays_ready_excluded stays_ready_trans [OF stays_ready_excluded again]])

lemma input_message_others: "process_input_message n E a d m ag = Inr ag' \<Longrightarrow> a \<in> X \<Longrightarrow> stays_ready (pe_cdr E) X ag ag'"
proof (induction n arbitrary: m ag ag')
  case (Suc n)
  obtain b m1 where p: "prepare_next_submessage (pe_cdr E) m = (b, m1)" by fastforce
  show ?case
  proof (cases b)
    case False
    with Suc.prems p show ?thesis by (simp add: stays_ready_refl)
  next
    case True
    with Suc.prems p obtain rv m2 ag1
      where 1: "process_submessage (process_input_message n E a d) E a d m1 ag = Inr ((rv, m2), ag1)"
        and 2: "(if rv then process_input_message n E a d m2 ag1 else Inr ag1) = Inr ag'"
      by (auto simp: and_then_Inr)
    have "stays_ready (pe_cdr E) X ag ag1"
    proof (cases "sh_submessage_id (im_subheader m1) = FRAGMENT")
      case True
      with 1 have "process_fragment_submessage (process_input_message n E a d) E a m1 ag = Inr ((rv, m2), ag1)"
        by (simp add: process_submessage_def submessage_ids)
      then show ?thesis by (rule fragment_others [OF _ Suc.prems(2)]) (rule Suc.IH [OF _ Suc.prems(2)])
    next
      case False
      with 1 show ?thesis by (rule others.other_submessage_R)
    qed
    moreover from 2 Suc.prems(2) have "stays_ready (pe_cdr E) X ag1 ag'" by (auto simp: stays_ready_refl dest: Suc.IH split: if_splits)
    ultimately show ?thesis by (rule stays_ready_trans)
  qed
qed simp

lemma messages_others: "process_messages n j E a d k ag = Inr ag' \<Longrightarrow> a \<in> X \<Longrightarrow> stays_ready (pe_cdr E) X ag ag'"
proof (induction j arbitrary: ag)
  case (Suc j)
  then obtain r ag1 where 1: "on_session a (\<lambda>s. Inr (ses_pop_input_message k s)) ag = Inr (r, ag1)"
    and 2: "(case r of None \<Rightarrow> Inr ag1
       | Some m \<Rightarrow> and_then (process_input_message n E a d m ag1) (process_messages n j E a d k)) = Inr ag'"
    by (auto simp: and_then_Inr)
  have "stays_ready (pe_cdr E) X ag1 ag'"
    using 2 Suc.prems(2) by (auto simp: and_then_Inr stays_ready_refl split: option.splits
        intro: stays_ready_trans [OF input_message_others Suc.IH])
  with stays_ready_excluded [OF 1 Suc.prems(2)] show ?case by (rule stays_ready_trans)
qed simp

lemma client_message_others:
  assumes "process_client_message n j E a d m ag = Inr ag'" and X: "a \<in> X"
  shows "stays_ready (pe_cdr E) X ag ag'"
  using assms(1) unfolding process_client_message_def Let_def read_steady_clock_def prod.case
proof (elim and_then_pairE and_thenE)
  fix ag1 ag2 ag3 u v
  assume 1: "on_client a (\<lambda>(c, g). Inr ((), pc_update_state (pe_steady_clock E (ag_ticks ag)) c, g)) (ag\<lparr>ag_ticks := Suc (ag_ticks ag)\<rparr>) = Inr (u, ag1)"
    and 2: "on_session a (\<lambda>s. Inr (ses_push_input_message m (mh_stream_id (im_header m)) (mh_sequence_nr (im_header m)) s)) ag1 = Inr (v, ag2)"
    and 3: "process_messages n j E a d (mh_stream_id (im_header m)) ag2 = Inr ag3"
    and 4: "(if is_reliable_stream (mh_stream_id (im_header m)) then acknowledge E a d (im_header m) ag3 else Inr ag3) = Inr ag'"
  have "stays_ready (pe_cdr E) X ag3 ag'" using 4 by (auto simp: stays_ready_refl dest: others.acknowledge_R split: if_splits)
  note stays_ready_trans [OF messages_others [OF 3 X] this]
  note stays_ready_trans [OF stays_ready_excluded [OF 2 X] this]
  note stays_ready_trans [OF stays_ready_on_client [OF 1] this]
  then have "stays_ready (pe_cdr E) X (ag\<lparr>ag_ticks := Suc (ag_ticks ag)\<rparr>) ag'" using X by simp
  then show "stays_ready (pe_cdr E) X ag ag'" by (rule others.ticks_R)
qed

section \<open>Runs\<close>

definition packet_client :: "'e \<Rightarrow> 'c InputMessage \<Rightarrow> ('m, 'c, 'g, 'e) Agent \<Rightarrow> nat option" where
  "packet_client source m ag =
     (if is_none_session (mh_session_id (im_header m)) then None
      else root_get_client (if 128 > mh_session_id (im_header m) then mh_client_key (im_header m)
          else case get_client_key source (ag_sessions ag) of Some raw_client_key \<Rightarrow> raw_to_clientkey raw_client_key
             | None \<Rightarrow> CLIENTKEY_INVALID) (ag_root ag))"

lemma process_packet_client:
  "packet_client d m ag = Some a \<Longrightarrow> process_input_packet n j E (d, m) ag = process_client_message n j E a d m ag"
  by (auto simp: packet_client_def process_input_packet_def split: if_splits)

lemma process_packet_other:
  assumes "packet_client d m ag = None"
  shows "process_input_packet n j E (d, m) ag = process_input_packet 0 0 E (d, m) ag"
    and "answers w (process_input_packet n j E (d, m) ag)"
    and "process_input_packet n j E (d, m) ag = Inr ag' \<Longrightarrow> stays_ready (pe_cdr E) {} ag ag'"
proof -
  show "process_input_packet n j E (d, m) ag = process_input_packet 0 0 E (d, m) ag"
    using assms by (auto simp: packet_client_def process_input_packet_def Let_def split: if_splits option.splits prod.splits)
  show "answers w (process_input_packet n j E (d, m) ag)"
    using assms unfolding packet_client_def process_input_packet_def process_stranger_message_def Let_def
    by (auto simp: answers_create_client intro!: answering split: prod.split bool.split option.split)
  assume "process_input_packet n j E (d, m) ag = Inr ag'"
  then show "stays_ready (pe_cdr E) {} ag ag'"
    using assms unfolding packet_client_def process_input_packet_def Let_def
    by (auto simp: and_then_Inr stays_ready_refl others.push_R split: prod.splits bool.splits if_splits option.splits
        dest: others.process_create_client_R others.process_stranger_message_R)
qed

text \<open>The message of a packet is what its constructor makes of the octets.\<close>

definition event_received :: "('c, 'x) fastcdr_scheme \<Rightarrow> ('c, 'e) agent_event \<Rightarrow> bool" where
  "event_received C ev \<longleftrightarrow> (case ev of InputPacket d m \<Rightarrow> \<exists>buf. m = InputMessage_new C buf | _ \<Rightarrow> True)"

text \<open>
  Where a call may not return: the client the event is for asked for messages too short for a fragment of one octet, or a
  reader found more octets than a submessage can count.
\<close>

definition cramped :: "nat \<Rightarrow> ('m, 'c, 'g, 'e) Agent \<Rightarrow> bool" where
  "cramped a ag \<longleftrightarrow> (\<exists>c. root_store (ag_root ag) a = Some c \<and> si_mtu (ses_info (pc_session c)) \<le> header_len (ses_info (pc_session c)) + 4)"

fun push_may_hang :: "('c, 'e) agent_event \<Rightarrow> ('m, 'c, 'g, 'e) Agent \<Rightarrow> bool" where
  "push_may_hang (InputPacket d m) ag \<longleftrightarrow> (\<exists>a. packet_client d m ag = Some a \<and> cramped a ag)"
| "push_may_hang (ReaderData a args buffer) ag \<longleftrightarrow> cramped a ag \<or> 65527 < length buffer"
| "push_may_hang HeartbeatRound ag \<longleftrightarrow> False"

lemma not_cramped: "\<not> cramped a ag \<Longrightarrow> root_store (ag_root ag) a = Some c \<Longrightarrow> session_room (pc_session c)"
  by (simp add: cramped_def session_room_def not_le)

lemma stays_ready_next: "root_get_next_client (ag_root ag) = (x, r) \<Longrightarrow> stays_ready C X ag (ag\<lparr>ag_root := r\<rparr>)"
  by (rule stays_ready_frame) (auto simp: root_get_next_client_def split: option.splits)

lemma packet_step:
  assumes C: "cdr_forward (pe_cdr E)" and m: "received (pe_cdr E) m" and ag: "all_ready (pe_cdr E) {} ag"
  shows "\<exists>N. (\<forall>n j. N \<le> n \<longrightarrow> N \<le> j \<longrightarrow> process_input_packet n j E (d, m) ag = process_input_packet N N E (d, m) ag) \<and>
    answers (\<not> push_may_hang (InputPacket d m) ag) (process_input_packet N N E (d, m) ag) \<and>
    (\<forall>ag'. process_input_packet N N E (d, m) ag = Inr ag' \<longrightarrow> all_ready (pe_cdr E) {} ag')"
proof (cases "packet_client d m ag")
  case None
  note other = process_packet_other [OF None]
  show ?thesis
  proof (intro exI [of _ 0] conjI allI impI)
    show "process_input_packet n j E (d, m) ag = process_input_packet 0 0 E (d, m) ag" for n j by (rule other(1))
    show "answers (\<not> push_may_hang (InputPacket d m) ag) (process_input_packet 0 0 E (d, m) ag)" by (rule other(2))
    show "process_input_packet 0 0 E (d, m) ag = Inr ag' \<Longrightarrow> all_ready (pe_cdr E) {} ag'" for ag'
      using other(3) ag by (auto simp: stays_ready_def)
  qed
next
  case (Some a)
  define N where "N = client_weight (pe_cdr E) a ag + unread (pe_cdr E) m + 2"
  show ?thesis
  proof (cases "root_store (ag_root ag) a")
    case None
    then have "process_client_message n j E a d m ag = Inl (Uncaught DanglingReference)" for n j
      by (simp add: process_client_message_def read_steady_clock_def on_client_def)
    then show ?thesis using process_packet_client [OF \<open>packet_client d m ag = Some a\<close>] by simp
  next
    case (Some c)
    let ?w = "\<not> push_may_hang (InputPacket d m) ag"
    have room: "?w \<Longrightarrow> session_room (pc_session c)" using not_cramped [OF _ Some] \<open>packet_client d m ag = Some a\<close> by simp
    have ready: "ready (pe_cdr E) ?w a ag" by (rule all_ready_ready [OF ag _ Some]) (simp, rule room)
    have "client_weight (pe_cdr E) a ag + unread (pe_cdr E) m + 1 < N" by (simp add: N_def)
    note e = client_message_ends [OF C m ready this this, of d]
    show ?thesis
      unfolding process_packet_client [OF \<open>packet_client d m ag = Some a\<close>]
    proof (intro exI [of _ N] conjI allI impI)
      show "answers ?w (process_client_message N N E a d m ag)" using e by blast
      from answers_weaken [OF this] show "process_client_message n j E a d m ag = process_client_message N N E a d m ag" if "N \<le> n" "N \<le> j" for n j
        by (rule client_message_more [OF _ that])
      show "all_ready (pe_cdr E) {} ag'" if "process_client_message N N E a d m ag = Inr ag'" for ag'
        using client_message_others [OF that, of "{a}"] all_ready_mono [OF ag] e that
        by (auto simp: stays_ready_def intro: all_ready_insert)
    qed
  qed
qed

lemma event_step:
  assumes C: "cdr_forward (pe_cdr E)" and ev: "event_received (pe_cdr E) ev" and ag: "all_ready (pe_cdr E) {} ag"
  shows "\<exists>N. (\<forall>n j. N \<le> n \<longrightarrow> N \<le> j \<longrightarrow> agent_step n j E ev ag = agent_step N N E ev ag) \<and>
    answers (\<not> push_may_hang ev ag) (agent_step N N E ev ag) \<and> (\<forall>ag'. agent_step N N E ev ag = Inr ag' \<longrightarrow> all_ready (pe_cdr E) {} ag')"
proof (cases ev)
  case (InputPacket d m)
  have "fastcdr_ok (pe_cdr E)" using C xrce_cdr_okD(1) by (auto simp: cdr_forward_def)
  then have "received (pe_cdr E) m" using ev InputMessage_new_received(1) by (auto simp: event_received_def InputPacket)
  from packet_step [OF C this ag, of d] show ?thesis by (simp add: InputPacket)
next
  case (ReaderData a args buffer)
  have C2: "xrce_cdr_ok (pe_cdr E)" using C by (simp add: cdr_forward_def)
  have reader_step: "answers (\<not> push_may_hang ev ag) (agent_step 0 0 E ev ag)"
  proof (cases "push_may_hang ev ag \<or> root_store (ag_root ag) a = None")
    case True
    then show ?thesis
      by (auto simp: ReaderData read_data_callback_def send_submessage_def on_session_def on_client_def
          intro!: answers_and_then answers_case_prod answers_pending split: option.splits prod.split push_result.split)
  next
    case False
    then obtain c where c: "root_store (ag_root ag) a = Some c" and room: "session_room (pc_session c)" and short: "length buffer \<le> 65527"
      by (auto simp: ReaderData not_cramped)
    have "ready (pe_cdr E) True a ag" by (rule all_ready_ready [OF ag _ c]) (simp_all add: room)
    then have "answers True (send_submessage (pe_cdr E) a k DATA (DATA_payload (pe_cdr E) \<lparr>dp_request = request, dp_data = buffer\<rparr>) ag)" for k request
      using short by (intro answers_send xrce_cdr_okD(1) [OF C2]) (simp_all add: DATA_size [OF C2])
    then show ?thesis using False
      by (auto simp: ReaderData read_data_callback_def intro!: answering split: option.split)
  qed
  show ?thesis
  proof (intro exI [of _ 0] conjI allI impI)
    show "answers (\<not> push_may_hang ev ag) (agent_step 0 0 E ev ag)" by (rule reader_step)
    show "agent_step 0 0 E ev ag = Inr ag' \<Longrightarrow> all_ready (pe_cdr E) {} ag'" for ag'
      using ag by (auto simp: ReaderData and_then_Inr stays_ready_def dest!: others.read_data_callback_R [where X = "{}"])
  qed (simp add: ReaderData)
next
  case HeartbeatRound
  show ?thesis
  proof (intro exI [of _ 0] conjI allI impI)
    show "answers (\<not> push_may_hang ev ag) (agent_step 0 0 E ev ag)" by (simp add: HeartbeatRound answers_heartbeats)
    show "agent_step 0 0 E ev ag = Inr ag' \<Longrightarrow> all_ready (pe_cdr E) {} ag'" for ag'
      using ag others.check_heartbeats_R [where E = E and X = "{}" and ag = ag and ag' = ag', OF stays_ready_next] by (simp add: HeartbeatRound stays_ready_def)
  qed (simp add: HeartbeatRound)
qed

lemma agent_run_Cons: "agent_run n j E (ev # evs) ag = and_then (agent_step n j E ev ag) (agent_run n j E evs)"
  by (simp add: agent_run_def)

text \<open>If a run does not return, some event of it met one of these places.\<close>

definition explained :: "nat \<Rightarrow> nat \<Rightarrow> ('m, 'c, 'g) processor_env \<Rightarrow> ('c, 'e) agent_event list \<Rightarrow> ('m, 'c, 'g, 'e) Agent \<Rightarrow> bool" where
  "explained n j E evs ag \<longleftrightarrow>
     (\<exists>i < length evs. \<exists>ag'. agent_run n j E (take i evs) ag = Inr ag' \<and> push_may_hang (evs ! i) ag')"

lemma explained_here: "push_may_hang ev ag \<Longrightarrow> explained n j E (ev # evs) ag"
  unfolding explained_def by (intro exI [of _ 0]) (simp add: agent_run_def)

lemma explained_later: "agent_step n j E ev ag = Inr ag1 \<Longrightarrow> explained n j E evs ag1 \<Longrightarrow> explained n j E (ev # evs) ag"
  unfolding explained_def by (elim exE conjE) (rule exI [of _ "Suc _"], auto simp: agent_run_Cons)

lemma run_ends:
  assumes C: "cdr_forward (pe_cdr E)"
  shows "\<forall>ev \<in> set evs. event_received (pe_cdr E) ev \<Longrightarrow> all_ready (pe_cdr E) {} ag \<Longrightarrow>
    \<exists>N. \<forall>n j. N \<le> n \<longrightarrow> N \<le> j \<longrightarrow> agent_run n j E evs ag = agent_run N N E evs ag \<and>
      agent_run n j E evs ag \<noteq> Inl OutOfFuel \<and> (agent_run n j E evs ag = Inl NoReturn \<longrightarrow> explained n j E evs ag)"
proof (induction evs arbitrary: ag)
  case Nil
  then show ?case by (simp add: agent_run_def)
next
  case (Cons ev evs)
  then have "event_received (pe_cdr E) ev" by simp
  from event_step [OF C this Cons.prems(2)] obtain N
    where N: "\<And>n j. N \<le> n \<Longrightarrow> N \<le> j \<Longrightarrow> agent_step n j E ev ag = agent_step N N E ev ag"
      and ans: "answers (\<not> push_may_hang ev ag) (agent_step N N E ev ag)"
      and keep: "\<And>ag'. agent_step N N E ev ag = Inr ag' \<Longrightarrow> all_ready (pe_cdr E) {} ag'"
    by blast
  show ?case
  proof (cases "agent_step N N E ev ag")
    case (Inl e)
    then have "agent_run n j E (ev # evs) ag = Inl e" if "N \<le> n" "N \<le> j" for n j
      using N [OF that] by (simp add: agent_run_Cons)
    with ans Inl show ?thesis by (intro exI [of _ N]) (auto intro: explained_here)
  next
    case (Inr ag1)
    have "\<forall>ev \<in> set evs. event_received (pe_cdr E) ev" using Cons.prems(1) by simp
    from Cons.IH [OF this keep [OF Inr]] obtain M
      where M: "\<And>n j. M \<le> n \<Longrightarrow> M \<le> j \<Longrightarrow> agent_run n j E evs ag1 = agent_run M M E evs ag1 \<and>
        agent_run n j E evs ag1 \<noteq> Inl OutOfFuel \<and> (agent_run n j E evs ag1 = Inl NoReturn \<longrightarrow> explained n j E evs ag1)"
      by blast
    have run: "agent_run n j E (ev # evs) ag = agent_run M M E evs ag1 \<and>
        agent_run n j E (ev # evs) ag \<noteq> Inl OutOfFuel \<and> (agent_run n j E (ev # evs) ag = Inl NoReturn \<longrightarrow> explained n j E (ev # evs) ag)"
      if "max N M \<le> n" "max N M \<le> j" for n j
    proof -
      have step: "agent_step n j E ev ag = Inr ag1" using N [of n j] Inr that by simp
      then have "agent_run n j E (ev # evs) ag = agent_run n j E evs ag1" by (simp add: agent_run_Cons)
      with M [of n j] that show ?thesis using explained_later [OF step] by auto
    qed
    show ?thesis
    proof (intro exI [of _ "max N M"] allI impI)
      fix n j
      assume "max N M \<le> n" "max N M \<le> j"
      from run [OF this] run [of "max N M" "max N M"]
      show "agent_run n j E (ev # evs) ag = agent_run (max N M) (max N M) E (ev # evs) ag \<and> agent_run n j E (ev # evs) ag \<noteq> Inl OutOfFuel \<and>
          (agent_run n j E (ev # evs) ag = Inl NoReturn \<longrightarrow> explained n j E (ev # evs) ag)"
        by auto
    qed
  qed
qed

section \<open>Property\<close>



end
