(* ===== verification/AgentProps.thy ===== *)
theory AgentProps
  imports AgentTermination
begin

text \<open>The properties of the processor: consistency over runs, faults, acknowledgements, retransmissions, classes of objects.\<close>

section \<open>Consistency\<close>

text \<open>C17. The agent stays consistent. Over any middleware that keeps its contract, from its start, through any
  packets, data from readers and rounds of heartbeats in any order: whoever asks for a key is given a client with
  that key; every client agrees with its middleware on its entities, and its objects are of the class their
  identifiers say; and the end point a packet is attributed by is the one its answers go to.\<close>

theorem agent_stays_consistent:
  assumes "processor_agent E ents" and "agent_run n j E evs (Agent_new g sv) = Inr ag"
  shows "(\<forall>k a. root_get_client k (ag_root ag) = Some a \<longrightarrow>
        (\<exists>c. root_store (ag_root ag) a = Some c \<and> cr_client_key (pc_representation c) = k \<and> client_ok ents (c, ag_shared ag))) \<and>
     (\<forall>d k. get_client_key d (ag_sessions ag) = Some k \<longrightarrow> get_endpoint k (ag_sessions ag) = Some d)"
proof -
  have "agent_ok ents ag"
    using processor_agent.agent_run_keeps [OF assms] by (simp add: keeps_def agent_ok_new)
  then show ?thesis
    using root_get_client_ok [of "ag_root ag"] by (fastforce simp: agent_ok_def store_ok_def sm_ok_def)
qed

lemma demo_processor: "processor_agent demo_env ced_ents"
  unfolding demo_env_def by (rule ced_processor.processor_agent_axioms)

theorem agent_stays_consistent_witness:
  "\<exists>ag. agent_run 1 1 demo_env [InputPacket ''c'' demo_create_message] (Agent_new CedTopicManager_init demo_server) = Inr ag \<and>
     (\<exists>c. root_store (ag_root ag) 0 = Some c \<and> cr_client_key (pc_representation c) = (0xAA, 0xBB, 0xCC, 0xDD) \<and>
        client_ok ced_ents (c, ag_shared ag))"
proof -
  have run: "agent_run 1 1 demo_env [InputPacket ''c'' demo_create_message] (Agent_new CedTopicManager_init demo_server) = Inr demo_agent"
    using demo_created_agent by (simp add: agent_run_def)
  have "root_get_client (0xAA, 0xBB, 0xCC, 0xDD) (ag_root demo_agent) = Some 0"
    by (simp add: demo_agent_def demo_root_def root_get_client_def)
  with agent_stays_consistent [OF demo_processor run] run show ?thesis by blast
qed

section \<open>Classes of objects\<close>

text \<open>C34. An object is of the class its identifier says wherever the agent casts it. In a client that agrees with
  its middleware, the object found for a \<open>WRITE_DATA\<close> always reaches the operation of the middleware for its kind, and
  the one found for a \<open>READ_DATA\<close> always starts its reader: a cast fails only when there is no object.\<close>

theorem objects_have_their_class:
  assumes "client_ok ents s" and "pc_get_object (bor_object_id request) (fst s) = Some ob" and "kind = snd (bor_object_id request) AND 0x0F"
  shows "(kind = OBJK_DATAWRITER \<longrightarrow> write_object M \<lparr>dp_request = request, dp_data = data\<rparr> s =
        (case mw_write_data M (get_raw_id ob) data (pc_world s) of (rv, w) \<Rightarrow> (rv, pc_set_world w s))) \<and>
     (kind = OBJK_REQUESTER \<longrightarrow> write_object M \<lparr>dp_request = request, dp_data = data\<rparr> s =
        (case mw_write_request M (get_raw_id ob) (request_sequence_number ob (bor_request_id request)) data (pc_world s) of
           (rv, w) \<Rightarrow> (rv, pc_set_world w s))) \<and>
     (kind = OBJK_REPLIER \<longrightarrow> write_object M \<lparr>dp_request = request, dp_data = data\<rparr> s =
        (case mw_write_reply M (get_raw_id ob) data (pc_world s) of (rv, w) \<Rightarrow> (rv, pc_set_world w s))) \<and>
     (reader_class (bor_object_id request) \<noteq> None \<longrightarrow>
        fst (read_object \<lparr>rd_request = request, rd_read_specification = spec\<rparr> s) = STATUS_OK)"
proof -
  have ob: "class_kind (xo_class ob) = objectid_kind (bor_object_id request)" "reader_ok (xo_reader ob)"
    using client_okD(1) [OF assms(1)] assms(2) by (auto simp: pc_get_object_def)
  have kind: "objectid_kind (bor_object_id request) = kind" by (simp add: assms(3) objectid_kind_def)
  have cast: "object_cast cl (Some ob) = Some ob" if "class_kind cl = kind" for cl
  proof -
    have "xo_class ob = cl" using that ob(1) kind by (simp flip: class_kind_inject)
    then show ?thesis by (simp add: object_cast_def)
  qed
  have "object_cast cl (Some ob) = Some ob" if "reader_class (bor_object_id request) = Some cl" for cl
    using that by (intro cast) (auto simp: reader_class_def Let_def assms(3) split: if_splits)
  then show ?thesis
    using cast [of DataWriter] cast [of Requester] cast [of Replier] assms(2) ob(2)
    by (auto simp: write_object_def Let_def assms(3) [symmetric] objk_defs DataWriter_write_def Requester_write_def Replier_write_def
        read_object_def reader_read_ok split: prod.split)
qed

text \<open>A client with one data writer.\<close>

definition demo_writer_client :: "(CedMiddleware, u8 list \<times> nat, CedTopicManager) client_state" where
  "demo_writer_client = ((ProxyClient_new ced_factory 0 demo_representation KindCED Map.empty)
     \<lparr>pc_objects := [(0x00, 0x15) \<mapsto> XRCEObject_new DataWriter (0x00, 0x15)]\<rparr>, CedTopicManager_init)"

theorem objects_have_their_class_witness:
  "fst (write_object ced_middleware \<lparr>dp_request = \<lparr>bor_request_id = (0, 1), bor_object_id = (0x00, 0x15)\<rparr>, dp_data = [7]\<rparr> demo_writer_client)
    = fst (mw_write_data ced_middleware (get_raw_id (XRCEObject_new DataWriter (0x00, 0x15))) [7] (pc_world demo_writer_client))"
proof -
  define ents :: "CedMiddleware \<times> CedTopicManager \<Rightarrow> ObjectKind \<Rightarrow> u16 set" where
    "ents = (\<lambda>_ k. if k = OBJK_DATAWRITER then {objectid_to_raw (0x00, 0x15)} else {})"
  have "objectid_kind (0x00, 0x15) = OBJK_DATAWRITER" by (simp add: objectid_kind_def objk_defs)
  then have "client_ok ents demo_writer_client"
    by (auto simp: client_ok_def demo_writer_client_def XRCEObject_new_def ents_def reader_ok_new)
  from objects_have_their_class [OF this, of "\<lparr>bor_request_id = (0, 1), bor_object_id = (0x00, 0x15)\<rparr>" _ _ ced_middleware "[7]"]
  show ?thesis
    by (auto simp: pc_get_object_def demo_writer_client_def objk_defs split: prod.splits)
qed

section \<open>Exceptions no handler catches\<close>

lemma reads_then_BadParam:
  assumes "reads C f a e" and "cdr_at C c pre (e (length pre) @ rest)"
    and "\<And>c'. cdr_at C c' (pre @ e (length pre)) rest \<Longrightarrow> fst (g a c') = BadParam"
  shows "fst (read_then f g c) = BadParam"
  using readsD [OF assms(1,2)] assms(3) by (metis (no_types, lifting) case_prod_conv got.case(1) read_then_def)

lemma bool_BadParam:
  assumes "xrce_cdr_ok C" and "cdr_at C c pre (b # rest)" and "b \<noteq> 0" "b \<noteq> 1"
  shows "fst (cdr_get_bool C c) = BadParam"
proof -
  have "\<forall>b c pre rest. cdr_is C c (pre @ b # rest) (length pre) \<longrightarrow>
        (if b = 0 \<or> b = 1 then fst (cdr_get_bool C c) = Got (b = 1) \<and> cdr_is C (snd (cdr_get_bool C c)) (pre @ b # rest) (length pre + 1)
         else fst (cdr_get_bool C c) = BadParam)"
    using assms(1) unfolding xrce_cdr_ok_def by (elim conjE) assumption
  with assms(2-4) show ?thesis unfolding cdr_at_def by presburger
qed

lemma read_then_BadParam: "fst (f c) = BadParam \<Longrightarrow> fst (read_then f g c) = BadParam"
  by (auto simp: read_then_def split: prod.splits)

text \<open>C35. One packet ends the agent. A \<open>CREATE_CLIENT\<close> from anyone, whose flag for properties is an octet other than 0
  and 1, throws \<open>BadParamException\<close>, which nothing on the way up to the processing thread catches, whatever the
  state of the agent; whatever the cookie, the version, the key and the session are.\<close>

theorem bad_flag_ends_agent:
  assumes C: "xrce_cdr_ok (pe_cdr E)" and none: "is_none_session (mh_session_id (im_header m))"
    and p: "prepare_next_submessage (pe_cdr E) m = (True, m1)" and id: "sh_submessage_id (im_subheader m1) = CREATE_CLIENT"
    and at: "cdr_at (pe_cdr E) (im_deserializer m1) pre (key_bytes cookie @ [fst version, snd version] @ [fst vendor, snd vendor] @
        key_bytes key @ [session] @ flag # rest)"
    and flag: "flag \<noteq> 0" "flag \<noteq> 1"
  shows "process_input_packet n j E (d, m) ag = Inl (Uncaught BadParamException)"
proof -
  let ?C = "pe_cdr E"
  note reads = reads_composite(2) [OF C] reads_composite(1) [OF C] reads_u8 [OF C]
  have "fst (CLIENT_Representation_deserialize ?C (im_deserializer m1)) = BadParam"
    unfolding CLIENT_Representation_deserialize_def get_optional_def
    by (rule reads_then_BadParam [OF reads(1) [of cookie]], unfold w_bytes_def, rule at,
        rule reads_then_BadParam [OF reads(2) [of version]], unfold w_bytes_def, assumption,
        rule reads_then_BadParam [OF reads(2) [of vendor]], unfold w_bytes_def, assumption,
        rule reads_then_BadParam [OF reads(1) [of key]], unfold w_bytes_def, assumption,
        rule reads_then_BadParam [OF reads(3) [of session]], unfold w_bytes_def, assumption,
        intro read_then_BadParam, rule bool_BadParam [OF C _ flag], assumption)
  moreover have "mh_session_id (im_header m1) = mh_session_id (im_header m)"
    using p by (auto simp: prepare_next_submessage_def Let_def split: prod.splits if_splits)
  ultimately have "process_create_client_submessage E d m1 ag = Inl (Uncaught BadParamException)"
    using none by (auto simp: process_create_client_submessage_def with_payload_def get_payload_def split: prod.splits)
  with none p id show ?thesis by (simp add: process_input_packet_def)
qed

definition demo_bad_message :: "(u8 list \<times> nat) InputMessage" where
  "demo_bad_message = InputMessage_new byte_xcdr
     [0x80, 0, 0, 0, 0, 1, 16, 0, 0x58, 0x52, 0x43, 0x45, 1, 0, 1, 15, 0xAA, 0xBB, 0xCC, 0xDD, 0x81, 2, 0, 2]"

theorem bad_flag_ends_agent_witness:
  "process_input_packet 1 1 demo_env (''c'', demo_bad_message) demo_agent = Inl (Uncaught BadParamException)"
proof -
  have p: "prepare_next_submessage (pe_cdr demo_env) demo_bad_message = (True, demo_bad_message\<lparr>
     im_subheader := \<lparr>sh_submessage_id = CREATE_CLIENT, sh_flags = 1, sh_submessage_length = 16\<rparr>,
     im_deserializer := (im_buf demo_bad_message, 8)\<rparr>)"
    unfolding demo_env_select demo_bad_message_def by code_simp
  have buf: "im_buf demo_bad_message = [0x80, 0, 0, 0, 0, 1, 16, 0, 0x58, 0x52, 0x43, 0x45, 1, 0, 1, 15, 0xAA, 0xBB, 0xCC, 0xDD, 0x81, 2, 0, 2]"
    and "mh_session_id (im_header demo_bad_message) = 0x80"
    unfolding demo_bad_message_def by code_simp+
  then have none: "is_none_session (mh_session_id (im_header demo_bad_message))"
    by (simp add: is_none_session_def SESSIONID_NONE_WITHOUT_CLIENT_KEY_def SESSIONID_NONE_WITH_CLIENT_KEY_def)
  have at: "cdr_at (pe_cdr demo_env) (im_buf demo_bad_message, 8) [0x80, 0, 0, 0, 0, 1, 16, 0]
     (key_bytes (0x58, 0x52, 0x43, 0x45) @ [fst (1, 0), snd (1, 0)] @ [fst (1, 15), snd (1, 15)] @
      key_bytes (0xAA, 0xBB, 0xCC, 0xDD) @ [0x81] @ 2 # [0, 2])"
    by (simp add: cdr_at_def byte_xcdr_is buf byte_pos_def key_bytes_def)
  show ?thesis
    by (rule bad_flag_ends_agent [OF _ none p, where pre = "[0x80, 0, 0, 0, 0, 1, 16, 0]" and cookie = "(0x58, 0x52, 0x43, 0x45)" and version = "(1, 0)" and
          vendor = "(1, 15)" and key = "(0xAA, 0xBB, 0xCC, 0xDD)" and session = "0x81" and flag = 2 and rest = "[0, 2]"]) (use at in \<open>simp_all add: byte_xcdr_ok\<close>)
qed

section \<open>Acknowledgements\<close>

lemma set_client_store [simp]: "root_store (ag_root (ag_set_client a s ag)) a = Some (fst s)"
  by (simp add: ag_set_client_def)

lemma on_client_step: "root_store (ag_root ag) a = Some c \<Longrightarrow> on_client a f ag = and_then (f (c, ag_shared ag)) (\<lambda>(x, s). Inr (x, ag_set_client a s ag))"
  by (simp add: on_client_def)

lemma on_session_step: "root_store (ag_root ag) a = Some c \<Longrightarrow>
    on_session a f ag = and_then (f (pc_session c)) (\<lambda>(x, s). Inr (x, ag_set_client a (c\<lparr>pc_session := s\<rparr>, ag_shared ag) ag))"
  by (cases "f (pc_session c)") (auto simp: on_session_def on_client_def)

text \<open>C19. Every message on a reliable stream is acknowledged. When the processing of a packet of a client ends, the last
  thing the agent has put into its output queue, for the end point the packet came from, is an \<open>ACKNACK\<close> for the
  stream; its first number is the next one the stream waits for, and its bitmap has exactly the numbers that are
  missing up to the highest one announced, as the stream is after all the processing.\<close>

theorem reliable_packet_acknowledged:
  assumes "process_client_message n j E a d m ag = Inr ag'" and "is_reliable_stream (mh_stream_id (im_header m))"
  shows "\<exists>c sv header ack. root_store (ag_root ag') a = Some c \<and>
     ag_server ag' = push_packet d (lone_message (pe_cdr E) header ACKNACK (ACKNACK_payload (pe_cdr E) ack)) sv \<and>
     mh_stream_id header = STREAMID_NONE \<and> mh_session_id header = mh_session_id (im_header m) \<and>
     mh_client_key header = mh_client_key (im_header m) \<and> ack_stream_id ack = mh_stream_id (im_header m) \<and>
     (let x = ses_rel_in (pc_session c) (mh_stream_id (im_header m)) in
        ack_first_unacked_seq_num ack = seq_adv (ris_last_handled x) 1 \<and>
        (\<forall>i < 8. (bit (ack_nack_bitmap_1 ack) i \<longleftrightarrow> ris_missing x i) \<and> (bit (ack_nack_bitmap_0 ack) i \<longleftrightarrow> ris_missing x (i + 8))))"
proof -
  let ?k = "mh_stream_id (im_header m)"
  obtain ag3 where "acknowledge E a d (im_header m) ag3 = Inr ag'"
    using assms by (auto simp: process_client_message_def Let_def read_steady_clock_def and_then_Inr)
  then obtain c s ack where c: "root_store (ag_root ag3) a = Some c"
    and f: "ses_fill_acknack ?k (raw_acknack E) (pc_session c) = (ack, s)"
    and ag': "ag' = ag_push d (lone_message (pe_cdr E) \<lparr>mh_session_id = mh_session_id (im_header m), mh_stream_id = STREAMID_NONE,
          mh_sequence_nr = 0x00, mh_client_key = mh_client_key (im_header m)\<rparr> ACKNACK
        (ACKNACK_payload (pe_cdr E) (ack\<lparr>ack_stream_id := ?k\<rparr>))) (ag_set_client a (c\<lparr>pc_session := s\<rparr>, ag_shared ag3) ag3)"
    by (auto simp: acknowledge_def and_then_Inr on_session_Inr)
  have "ack = ris_fill_acknack (ses_rel_in (pc_session c) ?k) (raw_acknack E)" and "ses_rel_in s ?k = ses_rel_in (pc_session c) ?k"
    using f assms(2) by (auto simp: ses_fill_acknack_def)
  then show ?thesis
    unfolding ag' ag_push_def
    by (intro exI [of _ "c\<lparr>pc_session := s\<rparr>"] exI [of _ "ag_server ag3"] exI [of _ "\<lparr>mh_session_id = mh_session_id (im_header m),
          mh_stream_id = STREAMID_NONE, mh_sequence_nr = 0x00, mh_client_key = mh_client_key (im_header m)\<rparr>"]
        exI [of _ "ack\<lparr>ack_stream_id := ?k\<rparr>"]) (simp add: ag_set_client_def fill_acknack_bits Let_def)
qed

text \<open>An empty message on the reliable stream \<open>0x80\<close>, with number 0.\<close>

definition demo_reliable_message :: "(u8 list \<times> nat) InputMessage" where
  "demo_reliable_message = InputMessage_new byte_xcdr [0x81, 0x80, 0, 0]"

lemma demo_reliable_parts:
  "im_header demo_reliable_message = \<lparr>mh_session_id = 0x81, mh_stream_id = 0x80, mh_sequence_nr = 0, mh_client_key = (0, 0, 0, 0)\<rparr>"
  "fst (prepare_next_submessage byte_xcdr demo_reliable_message) = False"
  unfolding demo_reliable_message_def by code_simp+

lemma demo_client_0: "root_store (ag_root demo_agent) 0 = Some (ProxyClient_new ced_factory 0 demo_representation KindCED Map.empty)"
  by (simp add: demo_agent_def demo_root_def)

theorem reliable_packet_acknowledged_witness:
  "\<exists>ag' c sv header ack. process_client_message 2 3 demo_env 0 ''c'' demo_reliable_message demo_agent = Inr ag' \<and>
     root_store (ag_root ag') 0 = Some c \<and>
     ag_server ag' = push_packet ''c'' (lone_message byte_xcdr header ACKNACK (ACKNACK_payload byte_xcdr ack)) sv \<and> ack_stream_id ack = 0x80 \<and>
     ack_first_unacked_seq_num ack = seq_adv (ris_last_handled (ses_rel_in (pc_session c) 0x80)) 1"
proof -
  have seq: "seq_gt 0 65535" "seq_le 0 (seq_adv 65535 16)" "seq_adv 65535 (Suc 0) = 0" "seq_adv 0 (Suc 0) = 1"
    by code_simp+
  have streams: "\<not> is_none_stream 0x80" "\<not> is_besteffort_stream 0x80" "is_reliable_stream 0x80"
    by (simp_all add: is_none_stream_def is_besteffort_stream_def is_reliable_stream_def STREAMID_NONE_def STREAMID_BUILTIN_RELIABLE_def)
  define R1 :: "(u8 list \<times> nat) InputMessage ReliableInputStream" where
    "R1 = ReliableInputStream_init\<lparr>ris_last_announced := 0, ris_messages := [0 \<mapsto> demo_reliable_message]\<rparr>"
  define R2 :: "(u8 list \<times> nat) InputMessage ReliableInputStream" where
    "R2 = ReliableInputStream_init\<lparr>ris_last_handled := 0, ris_last_announced := 0\<rparr>"
  have R: "ris_push_message 0 demo_reliable_message ReliableInputStream_init = (True, R1)" "ris_pop_message R1 = (Some demo_reliable_message, R2)"
    "ris_pop_message R2 = (None, R2)"
    by (simp_all add: ris_push_message_def ris_pop_message_def ReliableInputStream_init_def R1_def R2_def seq erase_def Let_def)
  let ?s = "pc_session (ProxyClient_new ced_factory 0 demo_representation KindCED Map.empty)"
  have s: "ses_push_input_message demo_reliable_message 0x80 0 ?s = (True, ses_set_rel_in 0x80 R1 ?s)"
    "ses_pop_input_message 0x80 (ses_set_rel_in 0x80 R1 t) = (Some demo_reliable_message, ses_set_rel_in 0x80 R2 (ses_set_rel_in 0x80 R1 t))"
    "ses_pop_input_message 0x80 (ses_set_rel_in 0x80 R2 t) = (None, ses_set_rel_in 0x80 R2 (ses_set_rel_in 0x80 R2 t))" for t
    by (simp_all add: ses_push_input_message_def ses_pop_input_message_def streams R)
      (simp add: ses_rel_in_def ProxyClient_new_def Session_new_def stream_at_def R)
  obtain m' where no: "prepare_next_submessage byte_xcdr demo_reliable_message = (False, m')"
    using demo_reliable_parts(2) by (metis prod.collapse)
  have "\<exists>ag'. process_client_message 2 3 demo_env 0 ''c'' demo_reliable_message demo_agent = Inr ag'"
    by (simp add: process_client_message_def read_steady_clock_def on_session_step on_client_step demo_client_0 demo_reliable_parts(1)
        pc_update_state_def numeral_2_eq_2 numeral_3_eq_3 s no acknowledge_def ses_fill_acknack_def streams Let_def)
  then obtain ag' where r: "process_client_message 2 3 demo_env 0 ''c'' demo_reliable_message demo_agent = Inr ag'" ..
  have "is_reliable_stream (mh_stream_id (im_header demo_reliable_message))"
    by (simp add: demo_reliable_parts streams)
  from reliable_packet_acknowledged [OF r this] r show ?thesis by (fastforce simp: demo_reliable_parts Let_def)
qed

section \<open>Retransmissions\<close>

lemma ses_rel_out_set [simp]:
  "ses_get_reliable_output_stream (ses_set_rel_out k x s) = (ses_get_reliable_output_stream s)(k := x)"
  by (auto simp: ses_access_defs fun_eq_iff)

text \<open>The numbers of the bitmap, as sixteen bits.\<close>

definition bitmap_asks :: "ACKNACK_Payload \<Rightarrow> nat \<Rightarrow> bool" where
  "bitmap_asks p i \<longleftrightarrow> (if i < 8 then bit (ack_nack_bitmap_1 p) i else bit (ack_nack_bitmap_0 p) (i - 8))"

lemma mask_bit: "(b AND push_bit i 1 = push_bit i 1) = bit b i" if "i < 8" for b :: u8
proof
  assume "b AND push_bit i 1 = push_bit i 1"
  then have "bit (b AND push_bit i 1) i = bit (push_bit i 1 :: u8) i" by simp
  then show "bit b i" using that by (simp add: bit_simps)
next
  assume "bit b i"
  then show "b AND push_bit i 1 = push_bit i 1" by (intro bit_eqI) (auto simp: bit_simps)
qed

lemma seq_of_int_adv: "seq_of_int (int (unat f) + int i) = seq_adv f i"
  by (simp add: seq_of_int_def seq_adv_def)

lemma nacked_bits:
  "nacked p = concat (map (\<lambda>i. (if bitmap_asks p i then [seq_adv (ack_first_unacked_seq_num p) i] else []) @
     (if bitmap_asks p (i + 8) then [seq_adv (ack_first_unacked_seq_num p) (i + 8)] else [])) [0..<8])"
proof -
  let ?f = "ack_first_unacked_seq_num p"
  have adv: "seq_of_int (int (unat ?f) + int i + 8) = seq_adv ?f (i + 8)" for i
    using seq_of_int_adv [of ?f "i + 8"] by (simp only: of_nat_add of_nat_numeral add.assoc)
  have "bitmap_asks p i = bit (ack_nack_bitmap_1 p) i" "bitmap_asks p (i + 8) = bit (ack_nack_bitmap_0 p) i" if "i < 8" for i
    using that by (simp_all add: bitmap_asks_def)
  then show ?thesis
    unfolding nacked_def Let_def
    by (intro arg_cong [where f = concat] map_cong refl) (simp only: set_upt atLeastLessThan_iff mask_bit seq_of_int_adv adv)
qed

lemma set_nacked: "set (nacked p) = {seq_adv (ack_first_unacked_seq_num p) i |i. i < 16 \<and> bitmap_asks p i}"
proof -
  have "x \<in> set (nacked p) \<longleftrightarrow> (\<exists>i < 8. (bitmap_asks p i \<and> x = seq_adv (ack_first_unacked_seq_num p) i) \<or>
      (bitmap_asks p (i + 8) \<and> x = seq_adv (ack_first_unacked_seq_num p) (i + 8)))" for x
    unfolding nacked_bits by (auto simp del: upt_Suc split: if_splits)
  moreover have "(\<exists>i < 8. P i \<or> P (i + 8)) \<longleftrightarrow> (\<exists>i < 16. P i)" for P :: "nat \<Rightarrow> bool"
  proof
    assume "\<exists>i < 16. P i"
    then obtain i where "i < 16" "P i" by blast
    then show "\<exists>i < 8. P i \<or> P (i + 8)" by (cases "i < 8") (auto intro: exI [of _ "i - 8"])
  next
    assume "\<exists>i < 8. P i \<or> P (i + 8)"
    then obtain i where i: "i < 8" "P i \<or> P (i + 8)" by blast
    then have "i < 16" "i + 8 < 16" by simp_all
    with i(2) show "\<exists>i < 16. P i" by blast
  qed
  then have "(\<exists>i < 8. (bitmap_asks p i \<and> x = seq_adv (ack_first_unacked_seq_num p) i) \<or>
      (bitmap_asks p (i + 8) \<and> x = seq_adv (ack_first_unacked_seq_num p) (i + 8))) \<longleftrightarrow>
      (\<exists>i < 16. bitmap_asks p i \<and> x = seq_adv (ack_first_unacked_seq_num p) i)" for x .
  ultimately show ?thesis by blast
qed

lemma send_again_one:
  assumes "root_store (ag_root ag) a = Some c" and "is_reliable_stream k"
  shows "\<exists>ag1 s1. send_again a d k q ag = Inr ag1 \<and>
     ag_server ag1 = fold (push_packet d) (case ros_get_message q (ses_get_reliable_output_stream (pc_session c) k) of Some m \<Rightarrow> [m] | None \<Rightarrow> []) (ag_server ag) \<and>
     root_store (ag_root ag1) a = Some (c\<lparr>pc_session := s1\<rparr>) \<and>
     ses_get_reliable_output_stream s1 k = ses_get_reliable_output_stream (pc_session c) k"
  using assms
  by (cases "ros_get_message q (ses_get_reliable_output_stream (pc_session c) k)")
    (auto simp: send_again_def on_session_step ses_get_output_message_def Let_def ag_push_def ag_set_client_def
      intro!: exI [of _ "ses_set_rel_out k (ses_get_reliable_output_stream (pc_session c) k) (pc_session c)"])

lemma send_again_all:
  assumes "root_store (ag_root ag) a = Some c" and "is_reliable_stream k"
  shows "\<exists>ag' s. for_each (send_again a d k) qs ag = Inr ag' \<and>
     ag_server ag' = fold (push_packet d) (List.map_filter (\<lambda>q. ros_get_message q (ses_get_reliable_output_stream (pc_session c) k)) qs) (ag_server ag) \<and>
     root_store (ag_root ag') a = Some (c\<lparr>pc_session := s\<rparr>) \<and>
     ses_get_reliable_output_stream s k = ses_get_reliable_output_stream (pc_session c) k"
  using assms(1)
proof (induction qs arbitrary: ag c)
  case Nil
  then show ?case by (auto intro: exI [of _ "pc_session c"] simp: map_filter_def)
next
  case (Cons q qs)
  obtain ag1 s1 where one: "send_again a d k q ag = Inr ag1"
      "ag_server ag1 = fold (push_packet d) (case ros_get_message q (ses_get_reliable_output_stream (pc_session c) k) of Some m \<Rightarrow> [m] | None \<Rightarrow> []) (ag_server ag)"
      "root_store (ag_root ag1) a = Some (c\<lparr>pc_session := s1\<rparr>)"
      "ses_get_reliable_output_stream s1 k = ses_get_reliable_output_stream (pc_session c) k"
    using send_again_one [OF Cons.prems assms(2), of d q] by blast
  show ?case
    using Cons.IH [OF one(3)] one(1,2,4) by (cases "ros_get_message q (ses_get_reliable_output_stream (pc_session c) k)") (auto simp: map_filter_simps)
qed

text \<open>C20. An \<open>ACKNACK\<close> is answered with what it asks for. On a reliable stream the agent puts into its output queue, for the
  sender, the messages it still has among those whose bit is set, lowest bit of the two octets first, and nothing else;
  then it forgets exactly what the sender has acknowledged.\<close>

theorem acknack_retransmits:
  assumes "root_store (ag_root ag) a = Some c" and "get_payload (ACKNACK_Payload_deserialize (pe_cdr E)) m = Inr (Some p, m')"
    and "is_reliable_stream (ack_stream_id p)"
  shows "set (nacked p) = {seq_adv (ack_first_unacked_seq_num p) i |i. i < 16 \<and> bitmap_asks p i} \<and>
     (\<exists>ag' s. process_acknack_submessage E a d m ag = Inr ((True, m'), ag') \<and>
        ag_server ag' = fold (push_packet d)
          (List.map_filter (\<lambda>q. ros_get_message q (ses_get_reliable_output_stream (pc_session c) (ack_stream_id p))) (nacked p)) (ag_server ag) \<and>
        root_store (ag_root ag') a = Some (c\<lparr>pc_session := s\<rparr>) \<and>
        ses_get_reliable_output_stream s (ack_stream_id p) =
          ros_update_from_acknack (ack_first_unacked_seq_num p) (ses_get_reliable_output_stream (pc_session c) (ack_stream_id p)))"
proof -
  obtain ag1 s1 where all: "for_each (send_again a d (ack_stream_id p)) (nacked p) ag = Inr ag1"
    "ag_server ag1 = fold (push_packet d)
       (List.map_filter (\<lambda>q. ros_get_message q (ses_get_reliable_output_stream (pc_session c) (ack_stream_id p))) (nacked p)) (ag_server ag)"
    "root_store (ag_root ag1) a = Some (c\<lparr>pc_session := s1\<rparr>)"
    "ses_get_reliable_output_stream s1 (ack_stream_id p) = ses_get_reliable_output_stream (pc_session c) (ack_stream_id p)"
    using send_again_all [OF assms(1,3), of d "nacked p"] by blast
  let ?s = "ses_update_from_acknack (ack_stream_id p) (ack_first_unacked_seq_num p) s1"
  have "process_acknack_submessage E a d m ag = Inr ((True, m'), ag_set_client a (c\<lparr>pc_session := ?s\<rparr>, ag_shared ag1) ag1)"
    using all(1,3) assms(2) by (simp add: process_acknack_submessage_def with_payload_def on_session_step)
  moreover have "ses_get_reliable_output_stream ?s (ack_stream_id p) =
      ros_update_from_acknack (ack_first_unacked_seq_num p) (ses_get_reliable_output_stream (pc_session c) (ack_stream_id p))"
    using all(4) assms(3) by (simp add: ses_update_from_acknack_def)
  ultimately show ?thesis
    using all(2) by (auto simp: set_nacked ag_set_client_def intro!: exI [of _ ?s])
qed

text \<open>A client that has sent messages 0 and 1 on stream \<open>0x80\<close>, and an acknowledgement that is missing message 1.\<close>

definition demo_sent :: "(u8 list \<times> nat) OutputMessage" where
  "demo_sent = lone_message byte_xcdr \<lparr>mh_session_id = 0x81, mh_stream_id = 0x80, mh_sequence_nr = 1, mh_client_key = (0, 0, 0, 0)\<rparr> RESET
     (payload_of (\<lambda>p. p) (\<lambda>c. (True, c)))"

definition demo_sender :: "(CedMiddleware, u8 list \<times> nat) ProxyClient" where
  "demo_sender = (ProxyClient_new ced_factory 0 demo_representation KindCED Map.empty)
     \<lparr>pc_session := ses_set_rel_out 0x80 \<lparr>ros_messages = [0 \<mapsto> demo_sent, 1 \<mapsto> demo_sent], ros_last_unacked = 1, ros_last_sent = 1,
        ros_first_unacked = 0\<rparr> (Session_new \<lparr>si_client_key = (0xAA, 0xBB, 0xCC, 0xDD), si_session_id = 0x81, si_mtu = 512\<rparr>)\<rparr>"

definition demo_sending_agent :: "(CedMiddleware, u8 list \<times> nat, CedTopicManager, string) Agent" where
  "demo_sending_agent = demo_agent\<lparr>ag_root := demo_root\<lparr>root_store := [0 \<mapsto> demo_sender]\<rparr>\<rparr>"

definition demo_acknack :: "(u8 list \<times> nat) InputMessage" where
  "demo_acknack = demo_reliable_message\<lparr>im_deserializer := ([1, 0, 0, 1, 0x80], 0)\<rparr>"

theorem acknack_retransmits_witness:
  "\<exists>ag' m'. process_acknack_submessage demo_env 0 ''c'' demo_acknack demo_sending_agent = Inr ((True, m'), ag') \<and>
     ag_server ag' = push_packet ''c'' demo_sent (ag_server demo_sending_agent)"
proof -
  define p where "p = \<lparr>ack_first_unacked_seq_num = 1, ack_nack_bitmap_0 = 0, ack_nack_bitmap_1 = 1, ack_stream_id = 0x80\<rparr>"
  have "fst (ACKNACK_Payload_deserialize byte_xcdr ([1, 0, 0, 1, 0x80], 0)) = Got p"
    unfolding p_def by code_simp
  then obtain c where "ACKNACK_Payload_deserialize byte_xcdr ([1, 0, 0, 1, 0x80], 0) = (Got p, c)" by (metis prod.collapse)
  then have get: "get_payload (ACKNACK_Payload_deserialize (pe_cdr demo_env)) demo_acknack = Inr (Some p, demo_acknack\<lparr>im_deserializer := c\<rparr>)"
    by (simp add: get_payload_def demo_acknack_def)
  have store: "root_store (ag_root demo_sending_agent) 0 = Some demo_sender" by (simp add: demo_sending_agent_def)
  have rel: "is_reliable_stream (ack_stream_id p)" by (simp add: p_def is_reliable_stream_def STREAMID_BUILTIN_RELIABLE_def)
  have nacked: "nacked p = [1]" unfolding p_def by code_simp
  have "ros_get_message 1 (ses_get_reliable_output_stream (pc_session demo_sender) (ack_stream_id p)) = Some demo_sent"
    by (simp add: ros_get_message_def demo_sender_def p_def)
  then have one: "List.map_filter (\<lambda>q. ros_get_message q (ses_get_reliable_output_stream (pc_session demo_sender) (ack_stream_id p))) (nacked p) = [demo_sent]"
    by (simp add: nacked map_filter_simps)
  obtain ag' where "process_acknack_submessage demo_env 0 ''c'' demo_acknack demo_sending_agent = Inr ((True, demo_acknack\<lparr>im_deserializer := c\<rparr>), ag')"
    and "ag_server ag' = fold (push_packet ''c'') [demo_sent] (ag_server demo_sending_agent)"
    using acknack_retransmits [OF store get rel, of "''c''"] unfolding one by blast
  then show ?thesis by (intro exI [of _ ag'] exI [of _ "demo_acknack\<lparr>im_deserializer := c\<rparr>"]) simp
qed

end
