(* ===== verification/ClientIds.thy ===== *)
theory ClientIds
  imports Session Payloads
begin

text \<open>
  The numbers and identifiers of the client library (\<open>Micro-XRCE-DDS-Client/src/c/core/session\<close>):
  \<open>stream/seq_num.c\<close>, \<open>stream/stream_id.c\<close>, \<open>object_id.c\<close>, \<open>submessage.c\<close> (the padding) and the parts of
  \<open>session_info.c\<close> that keep identifiers. The lemmas relate them to what the agent makes of the same octets:
  the client compares serial numbers as the agent does, through a second interpretation of \<open>serial_order\<close>, and the
  agent sorts a stream identifier into the class the client gave it.
\<close>

section \<open>Sequence numbers\<close>

type_synonym uxrSeqNum = u16

definition SEQ_NUM_SIZE :: int where "SEQ_NUM_SIZE = 65536"
definition SEQ_NUM_MIDSIZE :: int where "SEQ_NUM_MIDSIZE = 32768"
definition SEQ_NUM_MAX :: uxrSeqNum where "SEQ_NUM_MAX = 65535"

definition uxr_seq_num_add :: "uxrSeqNum \<Rightarrow> u16 \<Rightarrow> uxrSeqNum" where
  "uxr_seq_num_add seq_num increment = word_of_int ((uint seq_num + uint increment) mod SEQ_NUM_SIZE)"

definition uxr_seq_num_sub :: "uxrSeqNum \<Rightarrow> u16 \<Rightarrow> uxrSeqNum" where
  "uxr_seq_num_sub seq_num decrement =
     word_of_int (if decrement > seq_num then uint seq_num + (SEQ_NUM_SIZE - uint decrement) else uint seq_num - uint decrement)"

definition uxr_seq_num_cmp :: "uxrSeqNum \<Rightarrow> uxrSeqNum \<Rightarrow> int" where
  "uxr_seq_num_cmp seq_num_1 seq_num_2 =
     (if seq_num_1 = seq_num_2 then 0
      else if (seq_num_1 < seq_num_2 \<and> uint seq_num_2 - uint seq_num_1 < SEQ_NUM_MIDSIZE) \<or>
              (seq_num_1 > seq_num_2 \<and> uint seq_num_1 - uint seq_num_2 > SEQ_NUM_MIDSIZE) then -1
      else 1)"

lemma uxr_add_word: "uxr_seq_num_add s n = s + n"
  by (rule word_uint_eqI) (simp add: uxr_seq_num_add_def SEQ_NUM_SIZE_def uint_word_ariths uint_word_of_int mod_simps)

lemma uxr_sub_word: "uxr_seq_num_sub s n = s - n"
proof -
  have "(x + (65536 - y)) mod 65536 = (x - y) mod 65536" for x y :: int
    using mod_add_self2 [of "x - y" 65536] by (simp only: diff_add_eq add_diff_eq)
  then show ?thesis
    by (intro word_uint_eqI) (simp add: uxr_seq_num_sub_def SEQ_NUM_SIZE_def uint_word_ariths uint_word_of_int mod_simps)
qed

lemma uxr_add_of_nat [simp]: "uxr_seq_num_add s (of_nat n) = seq_adv s n"
  by (simp add: uxr_add_word seq_adv_def)

lemma uxr_add_1 [simp]: "uxr_seq_num_add s 1 = seq_adv s 1"
  by (simp add: uxr_add_word seq_adv_def)

lemma uxr_add_adv [simp]: "uxr_seq_num_add s n = seq_adv s (unat n)"
  by (simp add: uxr_add_word seq_adv_def)

lemma uxr_sub_1 [simp]: "uxr_seq_num_sub (sq (Suc k)) 1 = sq k"
  by (simp add: uxr_sub_word sq_Suc seq_adv_def)

lemma uxr_sub_dist: "unat (uxr_seq_num_sub b a) = seq_dist a b"
  by (simp add: uxr_sub_word seq_dist_def)

lemma uxr_cmp_eq [simp]: "uxr_seq_num_cmp a b = 0 \<longleftrightarrow> a = b"
  by (simp add: uxr_seq_num_cmp_def)

lemma uxr_cmp_lt [simp]: "uxr_seq_num_cmp a b < 0 \<longleftrightarrow> seq_lt a b"
  by (auto simp: uxr_seq_num_cmp_def seq_lt_def SEQ_NUM_MIDSIZE_def ADD_RANGE_1_def)

lemma uxr_cmp_ge [simp]: "0 \<le> uxr_seq_num_cmp a b \<longleftrightarrow> \<not> seq_lt a b"
  using uxr_cmp_lt [of a b] by linarith

lemma uxr_cmp_le [simp]: "uxr_seq_num_cmp a b \<le> 0 \<longleftrightarrow> a = b \<or> seq_lt a b"
  by (auto simp: uxr_seq_num_cmp_def seq_lt_def SEQ_NUM_MIDSIZE_def ADD_RANGE_1_def)

interpretation un: serial_order "\<lambda>a b. uxr_seq_num_cmp a b < 0" "\<lambda>a n. uxr_seq_num_add a (of_nat n)" seq_dist 32768
  by unfold_locales (simp_all only: uxr_cmp_lt uxr_add_of_nat sn.lt_iff sn.dist_adv sn.adv_dist sn.adv_adv sn.adv_wrap sn.dist_less)

section \<open>Streams\<close>

datatype uxrStreamType = UXR_NONE_STREAM | UXR_BEST_EFFORT_STREAM | UXR_RELIABLE_STREAM
datatype uxrStreamDirection = UXR_INPUT_STREAM | UXR_OUTPUT_STREAM

record uxrStreamId =
  uid_raw :: u8
  uid_index :: u8
  uid_type :: uxrStreamType
  uid_direction :: uxrStreamDirection

definition BEST_EFFORT_STREAM_THRESHOLD :: u8 where "BEST_EFFORT_STREAM_THRESHOLD = 1"
definition RELIABLE_STREAM_THRESHOLD :: u8 where "RELIABLE_STREAM_THRESHOLD = 128"

definition uxr_stream_id :: "u8 \<Rightarrow> uxrStreamType \<Rightarrow> uxrStreamDirection \<Rightarrow> uxrStreamId" where
  "uxr_stream_id index type direction =
     \<lparr>uid_raw = (case type of UXR_NONE_STREAM \<Rightarrow> 0 | UXR_BEST_EFFORT_STREAM \<Rightarrow> index + BEST_EFFORT_STREAM_THRESHOLD
                | UXR_RELIABLE_STREAM \<Rightarrow> index + RELIABLE_STREAM_THRESHOLD),
      uid_index = index, uid_type = type, uid_direction = direction\<rparr>"

definition uxr_stream_id_from_raw :: "u8 \<Rightarrow> uxrStreamDirection \<Rightarrow> uxrStreamId" where
  "uxr_stream_id_from_raw stream_id_raw direction =
     (if BEST_EFFORT_STREAM_THRESHOLD > stream_id_raw
      then \<lparr>uid_raw = stream_id_raw, uid_index = stream_id_raw, uid_type = UXR_NONE_STREAM, uid_direction = direction\<rparr>
      else if RELIABLE_STREAM_THRESHOLD > stream_id_raw
      then \<lparr>uid_raw = stream_id_raw, uid_index = stream_id_raw - BEST_EFFORT_STREAM_THRESHOLD,
            uid_type = UXR_BEST_EFFORT_STREAM, uid_direction = direction\<rparr>
      else \<lparr>uid_raw = stream_id_raw, uid_index = stream_id_raw - RELIABLE_STREAM_THRESHOLD,
            uid_type = UXR_RELIABLE_STREAM, uid_direction = direction\<rparr>)"

lemma stream_id_from_raw:
  assumes "type = UXR_NONE_STREAM \<and> index = 0 \<or> type = UXR_BEST_EFFORT_STREAM \<and> index < 127 \<or> type = UXR_RELIABLE_STREAM \<and> index < 128"
  shows "uxr_stream_id_from_raw (uid_raw (uxr_stream_id index type direction)) direction = uxr_stream_id index type direction"
proof -
  have "index < 127 \<Longrightarrow> 1 \<le> index + 1 \<and> index + 1 < 128" "index < 128 \<Longrightarrow> 128 \<le> index + 128"
    by (simp_all add: word_less_nat_alt word_le_nat_alt unat_word_ariths)
  with assms show ?thesis
    by (auto simp: uxr_stream_id_from_raw_def uxr_stream_id_def BEST_EFFORT_STREAM_THRESHOLD_def RELIABLE_STREAM_THRESHOLD_def)
qed

text \<open>The agent sorts the octet into the class the client takes it for.\<close>

lemma stream_class_agrees:
  "uid_type (uxr_stream_id_from_raw k direction) =
     (if is_none_stream k then UXR_NONE_STREAM else if is_besteffort_stream k then UXR_BEST_EFFORT_STREAM else UXR_RELIABLE_STREAM)"
  "uid_type (uxr_stream_id_from_raw k direction) = UXR_RELIABLE_STREAM \<longleftrightarrow> is_reliable_stream k"
  by (auto simp: uxr_stream_id_from_raw_def BEST_EFFORT_STREAM_THRESHOLD_def RELIABLE_STREAM_THRESHOLD_def is_none_stream_def
      is_besteffort_stream_def is_reliable_stream_def STREAMID_NONE_def STREAMID_BUILTIN_BEST_EFFORTS_def STREAMID_BUILTIN_RELIABLE_def
      word_less_nat_alt word_le_nat_alt unat_eq_0)

section \<open>Objects and requests\<close>

record uxrObjectId =
  uo_id :: u16
  uo_type :: u8

definition uxr_object_id :: "u16 \<Rightarrow> u8 \<Rightarrow> uxrObjectId" where
  "uxr_object_id i type = \<lparr>uo_id = i, uo_type = type\<rparr>"

definition uxr_object_id_from_raw :: "u8 \<times> u8 \<Rightarrow> uxrObjectId" where
  "uxr_object_id_from_raw raw =
     \<lparr>uo_id = push_bit 4 (ucast (fst raw)) + ucast (drop_bit 4 (snd raw)), uo_type = snd raw AND 0x0F\<rparr>"

definition uxr_object_id_to_raw :: "uxrObjectId \<Rightarrow> u8 \<times> u8" where
  "uxr_object_id_to_raw object_id =
     (ucast (drop_bit 4 (uo_id object_id)), push_bit 4 (ucast (uo_id object_id)) + (uo_type object_id AND 0x0F))"

definition UXR_STATUS_NONE :: u8 where "UXR_STATUS_NONE = 0xFF"
definition RESERVED_REQUESTS_ID :: u16 where "RESERVED_REQUESTS_ID = 9"

record uxrSessionInfo =
  usi_id :: u8
  usi_key :: ClientKey
  usi_last_requested_status :: u8
  usi_last_request_id :: u16

definition uxr_init_session_info :: "u8 \<Rightarrow> u32 \<Rightarrow> uxrSessionInfo" where
  "uxr_init_session_info i key =
     \<lparr>usi_id = i, usi_key = (ucast (drop_bit 24 key), ucast (drop_bit 24 (push_bit 8 key)), ucast (drop_bit 24 (push_bit 16 key)),
        ucast (drop_bit 24 (push_bit 24 key))), usi_last_requested_status = UXR_STATUS_NONE, usi_last_request_id = RESERVED_REQUESTS_ID\<rparr>"

definition generate_request_id :: "uxrSessionInfo \<Rightarrow> u16 \<times> uxrSessionInfo" where
  "generate_request_id session =
     (let out_of_bounds = 65535 = usi_last_request_id session \<or> RESERVED_REQUESTS_ID \<ge> usi_last_request_id session;
          request_id = (if out_of_bounds then RESERVED_REQUESTS_ID else usi_last_request_id session) + 1
      in (request_id, session\<lparr>usi_last_request_id := request_id\<rparr>))"

definition uxr_init_base_object_request :: "uxrObjectId \<Rightarrow> uxrSessionInfo \<Rightarrow> u16 \<times> BaseObjectRequest \<times> uxrSessionInfo" where
  "uxr_init_base_object_request object_id info =
     (let (request_id, info) = generate_request_id info
      in (request_id, \<lparr>bor_request_id = (ucast (drop_bit 8 request_id), ucast request_id), bor_object_id = uxr_object_id_to_raw object_id\<rparr>, info))"

definition uxr_parse_base_object_request :: "BaseObjectRequest \<Rightarrow> uxrObjectId \<times> u16" where
  "uxr_parse_base_object_request base =
     (uxr_object_id_from_raw (bor_object_id base),
      push_bit 8 (ucast (fst (bor_request_id base))) + ucast (snd (bor_request_id base)))"

definition SESSION_ID_WITHOUT_CLIENT_KEY :: u8 where "SESSION_ID_WITHOUT_CLIENT_KEY = 0x80"
definition SUBHEADER_SIZE :: nat where "SUBHEADER_SIZE = 4"
definition MAX_HEADER_SIZE :: nat where "MAX_HEADER_SIZE = 8"
definition MIN_HEADER_SIZE :: nat where "MIN_HEADER_SIZE = 4"

definition uxr_session_header_offset :: "uxrSessionInfo \<Rightarrow> nat" where
  "uxr_session_header_offset info = (if SESSION_ID_WITHOUT_CLIENT_KEY > usi_id info then MAX_HEADER_SIZE else MIN_HEADER_SIZE)"

definition uxr_submessage_padding :: "nat \<Rightarrow> nat" where
  "uxr_submessage_padding len =
     (if len mod SUBHEADER_SIZE \<noteq> 0 then SUBHEADER_SIZE - len mod SUBHEADER_SIZE else 0)"

lemma padding_aligned: "4 dvd n + uxr_submessage_padding n" "uxr_submessage_padding n < 4"
proof -
  show "4 dvd n + uxr_submessage_padding n"
    unfolding uxr_submessage_padding_def SUBHEADER_SIZE_def by presburger
qed (simp add: uxr_submessage_padding_def SUBHEADER_SIZE_def)

end
