(* ===== verification/ClientBuffers.thy ===== *)
theory ClientBuffers
  imports ClientIds
begin

text \<open>
  What the streams of the client keep their messages in (\<open>Micro-XRCE-DDS-Client/src/c/core/session/stream\<close>): the
  buffer of a reliable stream, \<open>common_reliable_stream_internal.h\<close>, and the best-effort streams,
  \<open>input_best_effort_stream.c\<close> and \<open>output_best_effort_stream.c\<close>.

  A reliable stream divides its buffer into \<open>history\<close> slots of the same size, each a 32 bit length and the octets
  that follow it; a pointer into the buffer is a slot here. An access past the end of a slot would be one to the
  length of the next slot, or past the buffer: it is the fault \<open>Overrun\<close>.
\<close>

section \<open>Faults\<close>

datatype client_fault = Overrun | NeverReturns | Undefined

definition c_then :: "client_fault + 'a \<Rightarrow> ('a \<Rightarrow> client_fault + 'b) \<Rightarrow> client_fault + 'b" where
  "c_then r f = (case r of Inl e \<Rightarrow> Inl e | Inr x \<Rightarrow> f x)"

lemma c_then_simps [simp]: "c_then (Inl e) f = Inl e" "c_then (Inr x) f = f x"
  by (simp_all add: c_then_def)

lemma c_then_Inr: "c_then r f = Inr y \<longleftrightarrow> (\<exists>x. r = Inr x \<and> f x = Inr y)"
  by (cases r) simp_all

section \<open>The buffer of a reliable stream\<close>

record slot =
  sl_length :: u32
  sl_octets :: "u8 list"

record uxrReliableStream =
  rs_slots :: "slot list"
  rs_size :: nat
  rs_history :: u16

definition INTERNAL_RELIABLE_BUFFER_OFFSET :: nat where "INTERNAL_RELIABLE_BUFFER_OFFSET = 4"

text \<open>The slot of a number, and the octets from the address on.\<close>

definition rs_position :: "uxrReliableStream \<Rightarrow> u16 \<Rightarrow> nat" where
  "rs_position s seq_num = unat seq_num mod unat (rs_history s)"

definition uxr_get_reliable_buffer :: "uxrReliableStream \<Rightarrow> u16 \<Rightarrow> u8 list" where
  "uxr_get_reliable_buffer s seq_num = sl_octets (rs_slots s ! rs_position s seq_num)"

definition uxr_get_reliable_buffer_capacity :: "uxrReliableStream \<Rightarrow> nat" where
  "uxr_get_reliable_buffer_capacity s = rs_size s div unat (rs_history s) - INTERNAL_RELIABLE_BUFFER_OFFSET"

definition uxr_get_reliable_buffer_size :: "uxrReliableStream \<Rightarrow> u16 \<Rightarrow> nat" where
  "uxr_get_reliable_buffer_size s seq_num = unat (sl_length (rs_slots s ! rs_position s seq_num))"

definition uxr_set_reliable_buffer_size :: "u16 \<Rightarrow> nat \<Rightarrow> uxrReliableStream \<Rightarrow> uxrReliableStream" where
  "uxr_set_reliable_buffer_size seq_num len s =
     (let p = rs_position s seq_num in s\<lparr>rs_slots := (rs_slots s)[p := (rs_slots s ! p)\<lparr>sl_length := of_nat len\<rparr>]\<rparr>)"

text \<open>\<open>memcpy\<close> into a slot, from an offset on.\<close>

definition rs_copy :: "u16 \<Rightarrow> nat \<Rightarrow> u8 list \<Rightarrow> uxrReliableStream \<Rightarrow> client_fault + uxrReliableStream" where
  "rs_copy seq_num offset octets s =
     (let p = rs_position s seq_num; old = sl_octets (rs_slots s ! p) in
      if length old < offset + length octets then Inl Overrun
      else Inr (s\<lparr>rs_slots := (rs_slots s)[p := (rs_slots s ! p)\<lparr>sl_octets :=
             take offset old @ octets @ drop (offset + length octets) old\<rparr>]\<rparr>))"

text \<open>A buffer as the application must give it: room for the length in every slot; the number of slots a power of two, so
  that the slots of consecutive numbers follow each other across the wrap-around.\<close>

definition rs_ok :: "uxrReliableStream \<Rightarrow> bool" where
  "rs_ok s \<longleftrightarrow> unat (rs_history s) dvd 65536 \<and> 0 < rs_history s \<and> unat (rs_history s) \<le> 32768 \<and>
     length (rs_slots s) = unat (rs_history s) \<and> INTERNAL_RELIABLE_BUFFER_OFFSET \<le> rs_size s div unat (rs_history s) \<and>
     uxr_get_reliable_buffer_capacity s < 2 ^ 32 \<and>
     (\<forall>x \<in> set (rs_slots s). length (sl_octets x) = uxr_get_reliable_buffer_capacity s)"

lemma rs_okD:
  assumes "rs_ok s"
  shows "0 < unat (rs_history s)" "unat (rs_history s) dvd 65536" "length (rs_slots s) = unat (rs_history s)" "unat (rs_history s) \<le> 32768"
    "rs_position s q < length (rs_slots s)" "length (uxr_get_reliable_buffer s q) = uxr_get_reliable_buffer_capacity s"
  using assms by (auto simp: rs_ok_def rs_position_def uxr_get_reliable_buffer_def unat_gt_0)

lemma rs_position_less [simp]: "rs_ok s \<Longrightarrow> rs_position s q < length (rs_slots s)"
  by (rule rs_okD)

text \<open>The position only looks at the history, which no operation changes.\<close>

lemma rs_fields [simp]:
  "rs_history (uxr_set_reliable_buffer_size q n s) = rs_history s" "rs_size (uxr_set_reliable_buffer_size q n s) = rs_size s"
  "rs_position (uxr_set_reliable_buffer_size q n s) r = rs_position s r"
  "uxr_get_reliable_buffer_capacity (uxr_set_reliable_buffer_size q n s) = uxr_get_reliable_buffer_capacity s"
  by (simp_all add: uxr_set_reliable_buffer_size_def Let_def rs_position_def uxr_get_reliable_buffer_capacity_def)

lemma rs_set_slot:
  assumes "rs_ok s"
  shows "uxr_get_reliable_buffer_size (uxr_set_reliable_buffer_size q n s) r =
      (if rs_position s r = rs_position s q then unat (of_nat n :: u32) else uxr_get_reliable_buffer_size s r)"
    "uxr_get_reliable_buffer (uxr_set_reliable_buffer_size q n s) r = uxr_get_reliable_buffer s r"
    "rs_ok (uxr_set_reliable_buffer_size q n s)"
proof -
  note p = rs_position_less [OF assms]
  show "uxr_get_reliable_buffer_size (uxr_set_reliable_buffer_size q n s) r =
      (if rs_position s r = rs_position s q then unat (of_nat n :: u32) else uxr_get_reliable_buffer_size s r)"
    unfolding uxr_get_reliable_buffer_size_def using p [of q]
    by (simp add: uxr_set_reliable_buffer_size_def Let_def rs_position_def nth_list_update)
  show "uxr_get_reliable_buffer (uxr_set_reliable_buffer_size q n s) r = uxr_get_reliable_buffer s r"
    unfolding uxr_get_reliable_buffer_def using p [of q]
    by (simp add: uxr_set_reliable_buffer_size_def Let_def rs_position_def nth_list_update)
  have "x \<in> set ((rs_slots s)[rs_position s q := (rs_slots s ! rs_position s q)\<lparr>sl_length := of_nat n\<rparr>]) \<Longrightarrow>
      length (sl_octets x) = uxr_get_reliable_buffer_capacity s" for x
    using set_update_subset_insert [of "rs_slots s" "rs_position s q"] assms p [of q] by (fastforce simp: rs_ok_def)
  with assms show "rs_ok (uxr_set_reliable_buffer_size q n s)"
    by (auto simp: rs_ok_def uxr_set_reliable_buffer_size_def Let_def uxr_get_reliable_buffer_capacity_def)
qed

lemma rs_copied:
  assumes "rs_ok s" and "rs_copy q off octets s = Inr t"
  shows "rs_ok t" "rs_history t = rs_history s" "rs_position t r = rs_position s r" "uxr_get_reliable_buffer_capacity t = uxr_get_reliable_buffer_capacity s"
    "uxr_get_reliable_buffer_size t r = uxr_get_reliable_buffer_size s r"
    "uxr_get_reliable_buffer t r = (if rs_position s r = rs_position s q
       then take off (uxr_get_reliable_buffer s q) @ octets @ drop (off + length octets) (uxr_get_reliable_buffer s q) else uxr_get_reliable_buffer s r)"
proof -
  let ?p = "rs_position s q"
  let ?x = "(rs_slots s ! ?p)\<lparr>sl_octets := take off (sl_octets (rs_slots s ! ?p)) @ octets @ drop (off + length octets) (sl_octets (rs_slots s ! ?p))\<rparr>"
  have t: "t = s\<lparr>rs_slots := (rs_slots s)[?p := ?x]\<rparr>" and room: "off + length octets \<le> length (sl_octets (rs_slots s ! ?p))"
    using assms(2) by (auto simp: rs_copy_def Let_def split: if_splits)
  note p = rs_position_less [OF assms(1), of q]
  have fields: "rs_history t = rs_history s" "rs_size t = rs_size s" "length (rs_slots t) = length (rs_slots s)"
    by (simp_all add: t)
  then show hist: "rs_history t = rs_history s" by simp
  show cap: "uxr_get_reliable_buffer_capacity t = uxr_get_reliable_buffer_capacity s"
    unfolding uxr_get_reliable_buffer_capacity_def fields ..
  have pos: "rs_position t r = rs_position s r" for r unfolding rs_position_def fields ..
  then show "rs_position t r = rs_position s r" .
  have nth: "rs_slots t ! rs_position s r = (if rs_position s r = ?p then ?x else rs_slots s ! rs_position s r)"
    using p by (simp add: t nth_list_update)
  show "uxr_get_reliable_buffer_size t r = uxr_get_reliable_buffer_size s r"
    unfolding uxr_get_reliable_buffer_size_def pos nth by simp
  show "uxr_get_reliable_buffer t r = (if rs_position s r = rs_position s q
       then take off (uxr_get_reliable_buffer s q) @ octets @ drop (off + length octets) (uxr_get_reliable_buffer s q) else uxr_get_reliable_buffer s r)"
    unfolding uxr_get_reliable_buffer_def pos nth by simp
  have "length (sl_octets (rs_slots s ! ?p)) = uxr_get_reliable_buffer_capacity s"
    using p assms(1) by (simp add: rs_ok_def)
  with room have "length (sl_octets ?x) = uxr_get_reliable_buffer_capacity s" by simp
  moreover have "set (rs_slots t) \<subseteq> insert ?x (set (rs_slots s))"
    by (simp add: t set_update_subset_insert)
  ultimately have "x \<in> set (rs_slots t) \<Longrightarrow> length (sl_octets x) = uxr_get_reliable_buffer_capacity t" for x
    using assms(1) unfolding rs_ok_def cap by blast
  then show "rs_ok t" using assms(1) unfolding rs_ok_def fields cap by blast
qed

lemma rs_copy_fits: "rs_ok s \<Longrightarrow> off + length octets \<le> uxr_get_reliable_buffer_capacity s \<Longrightarrow> \<exists>t. rs_copy q off octets s = Inr t"
  using rs_okD(6) [of s q] by (simp add: rs_copy_def Let_def uxr_get_reliable_buffer_def)

text \<open>The slots of the numbers \<open>sq\<close>, in terms of the numbers.\<close>

lemma unat_sq: "unat (sq (Suc k)) = k mod 65536"
proof -
  have "sq (Suc k) = of_nat k" by (simp add: sq_def seq_adv_def)
  then show ?thesis by (simp add: unat_of_nat take_bit_eq_mod)
qed

lemma rs_position_sq: "rs_ok s \<Longrightarrow> rs_position s (sq (Suc k)) = k mod unat (rs_history s)"
  using rs_okD(2) [of s] by (simp add: rs_position_def unat_sq mod_mod_cancel)

lemma mod_window_inject:
  fixes h i j H :: nat
  assumes "i < H" "j < H" "(h + i) mod H = (h + j) mod H"
  shows "i = j"
proof -
  have "\<not> a < b" if "b < H" "(h + a) mod H = (h + b) mod H" for a b
  proof
    assume "a < b"
    moreover from this that(2) have "H dvd b - a" using mod_eq_dvd_iff_nat [of "h + a" "h + b" H] by simp
    ultimately show False using that(1) nat_dvd_not_less [of "b - a" H] by simp
  qed
  from this [of j i] this [of i j] assms show ?thesis by simp
qed

lemma rs_position_window:
  assumes "rs_ok s" and "k \<in> {h<..h + unat (rs_history s)}" and "k' \<in> {h<..h + unat (rs_history s)}"
  shows "rs_position s (sq k) = rs_position s (sq k') \<longleftrightarrow> k = k'"
proof -
  have k: "k = Suc (h + (k - Suc h))" "k - Suc h < unat (rs_history s)" and k': "k' = Suc (h + (k' - Suc h))" "k' - Suc h < unat (rs_history s)"
    using assms(2,3) by auto
  obtain i j where k: "k = Suc (h + i)" "i < unat (rs_history s)" and k': "k' = Suc (h + j)" "j < unat (rs_history s)"
    using that [OF k k'] .
  then show ?thesis
    using mod_window_inject [of i _ j h] by (auto simp: rs_position_sq [OF assms(1)])
qed

lemma rs_position_next:
  assumes "rs_ok s"
  shows "rs_position s (sq (Suc h + unat (rs_history s))) = rs_position s (sq (Suc h))"
  using rs_position_sq [OF assms, of "h + unat (rs_history s)"] rs_position_sq [OF assms, of h] by simp

lemma window_covers:
  assumes "rs_ok s"
  obtains k where "k \<in> {h<..h + unat (rs_history s)}" "rs_position s (sq k) = rs_position s q"
proof -
  let ?H = "unat (rs_history s)" and ?p = "rs_position s q"
  have H: "0 < ?H" "?p < ?H" using rs_okD(1,3,5) [OF assms] by (auto simp: rs_okD(3) [OF assms])
  let ?i = "(?p + (?H - h mod ?H)) mod ?H"
  have "(h + ?i) mod ?H = (h mod ?H + (?p + (?H - h mod ?H))) mod ?H" by (simp add: mod_simps)
  also have "h mod ?H + (?p + (?H - h mod ?H)) = ?p + ?H" using H(1) mod_less_divisor [of ?H h] by linarith
  finally have "(h + ?i) mod ?H = ?p" using H(2) by simp
  then show ?thesis using that [of "Suc (h + ?i)"] H(1) by (simp add: rs_position_sq [OF assms] Suc_le_eq)
qed

lemma position_of_nat: "rs_ok s \<Longrightarrow> i < unat (rs_history s) \<Longrightarrow> rs_position s (of_nat i) = i"
  using rs_okD(4) [of s] by (simp add: rs_position_def unat_of_nat_less)

section \<open>Best-effort streams\<close>

record uxrInputBestEffortStream =
  ibe_last_handled :: uxrSeqNum

definition uxr_init_input_best_effort_stream :: uxrInputBestEffortStream where
  "uxr_init_input_best_effort_stream = \<lparr>ibe_last_handled = SEQ_NUM_MAX\<rparr>"

definition uxr_reset_input_best_effort_stream :: "uxrInputBestEffortStream \<Rightarrow> uxrInputBestEffortStream" where
  "uxr_reset_input_best_effort_stream stream = stream\<lparr>ibe_last_handled := SEQ_NUM_MAX\<rparr>"

definition uxr_receive_best_effort_message :: "uxrSeqNum \<Rightarrow> uxrInputBestEffortStream \<Rightarrow> bool \<times> uxrInputBestEffortStream" where
  "uxr_receive_best_effort_message seq_num stream =
     (let available_to_read = 0 > uxr_seq_num_cmp (ibe_last_handled stream) seq_num
      in (available_to_read, if available_to_read then stream\<lparr>ibe_last_handled := seq_num\<rparr> else stream))"

text \<open>What a stream hands out to be written is a \<open>ucdrBuffer\<close>: where it starts to write, and where it ends.\<close>

record write_window =
  ww_from :: nat
  ww_final :: nat

record uxrOutputBestEffortStream =
  obe_buffer :: "u8 list"
  obe_writer :: nat
  obe_size :: nat
  obe_offset :: nat
  obe_last_send :: uxrSeqNum

definition uxr_reset_output_best_effort_stream :: "uxrOutputBestEffortStream \<Rightarrow> uxrOutputBestEffortStream" where
  "uxr_reset_output_best_effort_stream stream = stream\<lparr>obe_writer := obe_offset stream, obe_last_send := SEQ_NUM_MAX\<rparr>"

definition uxr_init_output_best_effort_stream :: "u8 list \<Rightarrow> nat \<Rightarrow> nat \<Rightarrow> uxrOutputBestEffortStream" where
  "uxr_init_output_best_effort_stream buffer buffer_size offset =
     uxr_reset_output_best_effort_stream
       \<lparr>obe_buffer = buffer, obe_writer = 0, obe_size = buffer_size, obe_offset = offset, obe_last_send = 0\<rparr>"

definition uxr_prepare_best_effort_buffer_to_write :: "nat \<Rightarrow> uxrOutputBestEffortStream \<Rightarrow> write_window option \<times> uxrOutputBestEffortStream" where
  "uxr_prepare_best_effort_buffer_to_write len stream =
     (let current_padding = uxr_submessage_padding (obe_writer stream);
          future_length = obe_writer stream + current_padding + len
      in if future_length \<le> obe_size stream
         then (Some \<lparr>ww_from = obe_writer stream + current_padding, ww_final = future_length\<rparr>,
               stream\<lparr>obe_writer := obe_writer stream + len\<rparr>)
         else (None, stream))"

text \<open>The octets to be sent and their number.\<close>

definition uxr_prepare_best_effort_buffer_to_send :: "uxrOutputBestEffortStream \<Rightarrow>
    (u8 list \<times> uxrSeqNum) option \<times> uxrOutputBestEffortStream" where
  "uxr_prepare_best_effort_buffer_to_send stream =
     (if obe_writer stream > obe_offset stream
      then (let last_send = uxr_seq_num_add (obe_last_send stream) 1
            in (Some (take (obe_writer stream) (obe_buffer stream), last_send),
                stream\<lparr>obe_last_send := last_send, obe_writer := obe_offset stream\<rparr>))
      else (None, stream))"

text \<open>As long as what is written is a multiple of four, which \<open>uxr_prepare_stream_to_write_submessage\<close> sees to, the
  submessages fill the buffer without a gap and never past its end.\<close>

lemma best_effort_windows:
  assumes "4 dvd obe_writer stream" and "uxr_prepare_best_effort_buffer_to_write len stream = (Some w, stream')"
  shows "ww_from w = obe_writer stream" "ww_final w = obe_writer stream'" "ww_final w \<le> obe_size stream'"
  using assms by (auto simp: uxr_prepare_best_effort_buffer_to_write_def uxr_submessage_padding_def SUBHEADER_SIZE_def Let_def dvd_eq_mod_eq_0 split: if_splits)

end
