(* ===== verification/ClientInput.thy ===== *)
theory ClientInput
  imports ClientBuffers
begin

text \<open>
  \<open>input_reliable_stream.c\<close> of the client, and the part of \<open>read_stream\<close> in \<open>session.c\<close> that drives it. What says
  of the octets of a message whether it is a fragment is a function pointer of the stream. The specification
  counts messages from 1 as for the agent: message \<open>k\<close> travels under the number \<open>sq k\<close>.
\<close>

section \<open>The stream\<close>

datatype FragmentationInfo = NO_FRAGMENTED | INTERMEDIATE_FRAGMENT | LAST_FRAGMENT

record uxrInputReliableStream =
  uis_base :: uxrReliableStream
  uis_last_handled :: uxrSeqNum
  uis_last_announced :: uxrSeqNum
  uis_on_get_fragmentation_info :: "u8 list \<Rightarrow> FragmentationInfo"
  uis_cleanup_flag :: bool

definition uis_size :: "uxrInputReliableStream \<Rightarrow> uxrSeqNum \<Rightarrow> nat" where
  "uis_size stream = uxr_get_reliable_buffer_size (uis_base stream)"

definition uis_set_size :: "uxrSeqNum \<Rightarrow> nat \<Rightarrow> uxrInputReliableStream \<Rightarrow> uxrInputReliableStream" where
  "uis_set_size seq_num len stream = stream\<lparr>uis_base := uxr_set_reliable_buffer_size seq_num len (uis_base stream)\<rparr>"

definition uis_kind :: "uxrInputReliableStream \<Rightarrow> uxrSeqNum \<Rightarrow> FragmentationInfo" where
  "uis_kind stream seq_num = uis_on_get_fragmentation_info stream (uxr_get_reliable_buffer (uis_base stream) seq_num)"

definition uxr_reset_input_reliable_stream :: "uxrInputReliableStream \<Rightarrow> uxrInputReliableStream" where
  "uxr_reset_input_reliable_stream stream =
     (fold (\<lambda>i. uis_set_size (of_nat i) 0) [0..<unat (rs_history (uis_base stream))] stream)
       \<lparr>uis_last_handled := SEQ_NUM_MAX, uis_last_announced := SEQ_NUM_MAX\<rparr>"

definition uxr_init_input_reliable_stream :: "slot list \<Rightarrow> nat \<Rightarrow> u16 \<Rightarrow> (u8 list \<Rightarrow> FragmentationInfo) \<Rightarrow> uxrInputReliableStream" where
  "uxr_init_input_reliable_stream buffer buffer_size history info =
     uxr_reset_input_reliable_stream
       \<lparr>uis_base = \<lparr>rs_slots = buffer, rs_size = buffer_size, rs_history = history\<rparr>, uis_last_handled = 0, uis_last_announced = 0,
        uis_on_get_fragmentation_info = info, uis_cleanup_flag = False\<rparr>"

text \<open>The \<open>do ... while\<close>, with no result when it does not end: whether it has met a last fragment, and where it stopped.\<close>

partial_function (option) fragment_search :: "uxrInputReliableStream \<Rightarrow> uxrSeqNum \<Rightarrow> (bool \<times> uxrSeqNum) option" where
  "fragment_search stream next =
     (let next = uxr_seq_num_add next 1
      in if uis_size stream next = 0 then Some (False, next)
         else case uis_kind stream next of
                LAST_FRAGMENT \<Rightarrow> Some (True, next)
              | INTERMEDIATE_FRAGMENT \<Rightarrow> fragment_search stream next
              | NO_FRAGMENTED \<Rightarrow> Some (False, next))"

declare fragment_search.simps [code]

definition check_last_fragment :: "uxrInputReliableStream \<Rightarrow> client_fault + bool \<times> uxrSeqNum" where
  "check_last_fragment stream =
     (case fragment_search stream (uis_last_handled stream) of None \<Rightarrow> Inl NeverReturns | Some r \<Rightarrow> Inr r)"

text \<open>The highest number that has arrived or been announced.\<close>

definition announce :: "uxrSeqNum \<Rightarrow> uxrInputReliableStream \<Rightarrow> uxrInputReliableStream" where
  "announce seq_num stream =
     (if 0 > uxr_seq_num_cmp (uis_last_announced stream) seq_num then stream\<lparr>uis_last_announced := seq_num\<rparr> else stream)"

text \<open>A message inside the history. The second component is the flag \<open>message_stored\<close>, \<open>None\<close> where it is left as it was.\<close>

definition process_message :: "uxrSeqNum \<Rightarrow> u8 list \<Rightarrow> uxrInputReliableStream \<Rightarrow> client_fault + bool \<times> bool option \<times> uxrInputReliableStream" where
  "process_message seq_num buffer stream =
     (let fragmentation_info = uis_on_get_fragmentation_info stream buffer; next = uxr_seq_num_add (uis_last_handled stream) 1
      in if NO_FRAGMENTED = fragmentation_info \<and> seq_num = next
         then Inr (True, Some False, stream\<lparr>uis_last_handled := next\<rparr>)
         else if 0 = uis_size stream seq_num
         then c_then (rs_copy seq_num 0 buffer (uis_base stream)) (\<lambda>base.
                let stream = uis_set_size seq_num (length buffer) (stream\<lparr>uis_base := base\<rparr>)
                in if NO_FRAGMENTED \<noteq> fragmentation_info
                   then c_then (check_last_fragment stream) (\<lambda>(found, _). Inr (found, Some True, stream))
                   else Inr (False, Some True, stream))
         else Inr (False, None, stream))"

definition uxr_receive_reliable_message :: "uxrSeqNum \<Rightarrow> u8 list \<Rightarrow> uxrInputReliableStream \<Rightarrow>
    client_fault + bool \<times> bool option \<times> uxrInputReliableStream" where
  "uxr_receive_reliable_message seq_num buffer stream =
     c_then
       (let last_history = uxr_seq_num_add (uis_last_handled stream) (rs_history (uis_base stream))
        in if 0 > uxr_seq_num_cmp (uis_last_handled stream) seq_num \<and> 0 \<le> uxr_seq_num_cmp last_history seq_num
           then process_message seq_num buffer stream
           else Inr (False, None, stream))
       (\<lambda>(ready_to_read, message_stored, stream). Inr (ready_to_read, message_stored, announce seq_num stream))"

text \<open>What the reader of a message is given: the octets up to the end of what is in the slot, the slot, and whether the
  callback for a full buffer is set.\<close>

record read_window =
  rw_octets :: "u8 list"
  rw_slot :: nat
  rw_callback :: bool

definition uis_window :: "uxrInputReliableStream \<Rightarrow> uxrSeqNum \<Rightarrow> nat \<Rightarrow> nat \<Rightarrow> bool \<Rightarrow> client_fault + read_window" where
  "uis_window stream seq_num offset len callback =
     (if len < offset \<or> length (uxr_get_reliable_buffer (uis_base stream) seq_num) < len then Inl Overrun
      else Inr \<lparr>rw_octets = drop offset (take len (uxr_get_reliable_buffer (uis_base stream) seq_num)),
             rw_slot = rs_position (uis_base stream) seq_num, rw_callback = callback\<rparr>)"

definition uxr_next_input_reliable_buffer_available :: "nat \<Rightarrow> uxrInputReliableStream \<Rightarrow>
    client_fault + read_window option \<times> uxrInputReliableStream" where
  "uxr_next_input_reliable_buffer_available fragment_offset stream =
     (let next = uxr_seq_num_add (uis_last_handled stream) 1; len = uis_size stream next
      in if len \<noteq> 0
         then if NO_FRAGMENTED = uis_kind stream next
              then c_then (uis_window stream next 0 len False) (\<lambda>ub.
                     Inr (Some ub, (uis_set_size next 0 stream)\<lparr>uis_last_handled := next\<rparr>))
              else c_then (check_last_fragment stream) (\<lambda>(available_to_read, last).
                     if available_to_read
                     then c_then (uis_window stream next fragment_offset len True) (\<lambda>ub.
                            Inr (Some ub, (uis_set_size next 0 stream)\<lparr>uis_last_handled := last\<rparr>))
                     else Inr (None, stream))
         else Inr (None, stream))"

text \<open>The callback: the next slot after the one that is full, or an error.\<close>

definition on_full_input_buffer :: "nat \<Rightarrow> uxrInputReliableStream \<Rightarrow> client_fault + read_window option \<times> uxrInputReliableStream" where
  "on_full_input_buffer init_slot stream =
     (let history_position = of_nat (1 + init_slot) :: u16; buffer_size = uis_size stream history_position
      in c_then (if buffer_size < SUBHEADER_SIZE then Inr None
                 else map_sum id Some (uis_window stream history_position SUBHEADER_SIZE buffer_size True))
           (\<lambda>ub. Inr (ub, if uis_cleanup_flag stream then uis_set_size history_position 0 stream else stream)))"

definition uxr_process_heartbeat :: "uxrSeqNum \<Rightarrow> uxrSeqNum \<Rightarrow> uxrInputReliableStream \<Rightarrow> uxrInputReliableStream" where
  "uxr_process_heartbeat first_seq_num last_seq_num stream = announce last_seq_num stream"

definition uxr_is_input_up_to_date :: "uxrInputReliableStream \<Rightarrow> bool" where
  "uxr_is_input_up_to_date stream \<longleftrightarrow> uis_last_announced stream = uis_last_handled stream"

definition uxr_get_first_unacked :: "uxrInputReliableStream \<Rightarrow> uxrSeqNum" where
  "uxr_get_first_unacked stream =
     (case filter (\<lambda>seq_num. uis_size stream seq_num = 0)
             (map (\<lambda>i. uxr_seq_num_add (uis_last_handled stream) (of_nat (i + 1))) [0..<unat (rs_history (uis_base stream))]) of
        [] \<Rightarrow> uis_last_handled stream | seq_num # _ \<Rightarrow> seq_num)"

text \<open>The bit is shifted as an \<open>int\<close>: from 31 on there is none, and of the others a \<open>uint16_t\<close> keeps 16.\<close>

definition uxr_compute_acknack :: "uxrInputReliableStream \<Rightarrow> (u16 option) \<times> uxrSeqNum" where
  "uxr_compute_acknack stream =
     (let from = uxr_get_first_unacked stream;
          buffers_to_ack = unat (uxr_seq_num_sub (uis_last_announced stream) (uxr_seq_num_sub from 1));
          missing = filter (\<lambda>i. uis_size stream (uxr_seq_num_add from (of_nat i)) = 0) [0..<buffers_to_ack]
      in (if \<exists>i \<in> set missing. 31 \<le> i then None else Some (fold (\<lambda>i nack_bitmap. nack_bitmap OR push_bit i 1) missing 0), from))"

section \<open>Reading a reliable stream\<close>

text \<open>The loop of \<open>read_stream\<close>: the messages to be read, in order. A round takes one of the fuel.\<close>

fun read_available :: "nat \<Rightarrow> uxrInputReliableStream \<Rightarrow> client_fault + read_window list \<times> uxrInputReliableStream" where
  "read_available 0 stream = Inl NeverReturns"
| "read_available (Suc n) stream =
     c_then (uxr_next_input_reliable_buffer_available SUBHEADER_SIZE stream) (\<lambda>(ub, stream).
       case ub of
         None \<Rightarrow> Inr ([], stream)
       | Some w \<Rightarrow> c_then (read_available n stream) (\<lambda>(ws, stream). Inr (w # ws, stream)))"

definition read_reliable :: "nat \<Rightarrow> uxrSeqNum \<Rightarrow> u8 list \<Rightarrow> uxrInputReliableStream \<Rightarrow> client_fault + u8 list list \<times> uxrInputReliableStream" where
  "read_reliable n seq_num buffer stream =
     c_then (uxr_receive_reliable_message seq_num buffer stream) (\<lambda>(ready, input_buffer_used, stream).
       if ready
       then c_then (read_available n stream) (\<lambda>(ws, stream).
              Inr ((if input_buffer_used = Some False then [buffer] else []) @ map rw_octets ws, stream))
       else Inr ([], stream))"

section \<open>Over unbounded numbers\<close>

text \<open>The number \<open>h\<close> of the last message handled, the numbers \<open>B\<close> of the ones stored; \<open>M k\<close> are the octets of message \<open>k\<close>.\<close>

definition uis_rel :: "(nat \<Rightarrow> u8 list) \<Rightarrow> nat set \<Rightarrow> nat \<Rightarrow> nat \<Rightarrow> uxrInputReliableStream \<Rightarrow> bool" where
  "uis_rel M B h ann stream \<longleftrightarrow>
     (let H = unat (rs_history (uis_base stream)) in
      rs_ok (uis_base stream) \<and> uis_last_handled stream = sq h \<and> uis_last_announced stream = sq ann \<and> h \<le> ann \<and>
      B \<subseteq> {h<..h + H} \<and>
      (\<forall>k \<in> {h<..h + H}. if k \<in> B then uis_size stream (sq k) = length (M k) \<and>
           length (M k) \<le> uxr_get_reliable_buffer_capacity (uis_base stream) \<and>
           take (length (M k)) (uxr_get_reliable_buffer (uis_base stream) (sq k)) = M k
         else uis_size stream (sq k) = 0))"

text \<open>The size of a slot as the stream sees it.\<close>

lemma uis_set_size_simps [simp]:
  "uis_last_handled (uis_set_size q n s) = uis_last_handled s" "uis_last_announced (uis_set_size q n s) = uis_last_announced s"
  "uis_on_get_fragmentation_info (uis_set_size q n s) = uis_on_get_fragmentation_info s" "uis_cleanup_flag (uis_set_size q n s) = uis_cleanup_flag s"
  "uis_base (uis_set_size q n s) = uxr_set_reliable_buffer_size q n (uis_base s)"
  "uis_size (s\<lparr>uis_last_handled := l\<rparr>) = uis_size s" "uis_size (s\<lparr>uis_last_announced := l\<rparr>) = uis_size s"
  by (simp_all add: uis_set_size_def uis_size_def fun_eq_iff)

lemma uis_size_set:
  "rs_ok (uis_base s) \<Longrightarrow> uis_size (uis_set_size q n s) r =
     (if rs_position (uis_base s) r = rs_position (uis_base s) q then unat (of_nat n :: u32) else uis_size s r)"
  by (simp add: uis_size_def uis_set_size_def rs_set_slot)

lemma uis_relD:
  assumes "uis_rel M B h ann s"
  shows "rs_ok (uis_base s)" "uis_last_handled s = sq h" "uis_last_announced s = sq ann" "h \<le> ann"
    "B \<subseteq> {h<..h + unat (rs_history (uis_base s))}"
    "k \<in> B \<Longrightarrow> uis_size s (sq k) = length (M k)" "k \<in> B \<Longrightarrow> take (length (M k)) (uxr_get_reliable_buffer (uis_base s) (sq k)) = M k"
    "k \<in> B \<Longrightarrow> length (M k) \<le> uxr_get_reliable_buffer_capacity (uis_base s)"
    "h < k \<Longrightarrow> k \<le> h + unat (rs_history (uis_base s)) \<Longrightarrow> k \<notin> B \<Longrightarrow> uis_size s (sq k) = 0"
  using assms by (fastforce simp: uis_rel_def Let_def)+

lemma uis_relI:
  assumes "rs_ok (uis_base s)" "uis_last_handled s = sq h" "uis_last_announced s = sq ann" "h \<le> ann"
    and "B \<subseteq> {h<..h + unat (rs_history (uis_base s))}"
    and "\<And>k. k \<in> B \<Longrightarrow> uis_size s (sq k) = length (M k)"
    and "\<And>k. k \<in> B \<Longrightarrow> take (length (M k)) (uxr_get_reliable_buffer (uis_base s) (sq k)) = M k"
    and "\<And>k. k \<in> B \<Longrightarrow> length (M k) \<le> uxr_get_reliable_buffer_capacity (uis_base s)"
    and "\<And>k. h < k \<Longrightarrow> k \<le> h + unat (rs_history (uis_base s)) \<Longrightarrow> k \<notin> B \<Longrightarrow> uis_size s (sq k) = 0"
  shows "uis_rel M B h ann s"
  using assms by (auto simp: uis_rel_def Let_def)

lemma uis_rel_announce: "uis_rel M B h ann s \<Longrightarrow> ann \<le> ann' \<Longrightarrow> uis_rel M B h ann' (s\<lparr>uis_last_announced := sq ann'\<rparr>)"
  by (auto simp: uis_rel_def Let_def)

text \<open>Handling the next message frees its slot, for the number a whole history later.\<close>

lemma uis_rel_advance:
  assumes rel: "uis_rel M B h ann s" and ann: "Suc h \<le> ann"
  shows "uis_rel M (B - {Suc h}) (Suc h) ann ((uis_set_size (sq (Suc h)) 0 s)\<lparr>uis_last_handled := sq (Suc h)\<rparr>)"
proof -
  note D = uis_relD [OF rel]
  let ?H = "unat (rs_history (uis_base s))"
  let ?s = "(uis_set_size (sq (Suc h)) 0 s)\<lparr>uis_last_handled := sq (Suc h)\<rparr>"
  have size: "uis_size ?s (sq k) = (if k = Suc h \<or> k = Suc h + ?H then 0 else uis_size s (sq k))"
    if k: "h < k" "k \<le> Suc h + ?H" for k
  proof (cases "k = Suc h + ?H")
    case True
    then show ?thesis using rs_position_next [OF D(1), of h] by (simp add: uis_size_set D(1))
  next
    case False
    then show ?thesis using k rs_position_window [OF D(1), of k h "Suc h"] rs_okD(1) [OF D(1)] by (auto simp: uis_size_set D(1))
  qed
  have B: "h < k" "k \<le> h + ?H" if "k \<in> B" for k using D(5) that by auto
  show ?thesis
  proof (rule uis_relI)
    fix k assume "k \<in> B - {Suc h}"
    with B [of k] D(6-8) [of k] size [of k] show "uis_size ?s (sq k) = length (M k)"
      and "take (length (M k)) (uxr_get_reliable_buffer (uis_base ?s) (sq k)) = M k"
      and "length (M k) \<le> uxr_get_reliable_buffer_capacity (uis_base ?s)"
      by (simp_all add: rs_set_slot [OF D(1)])
  next
    fix k assume "Suc h < k" "k \<le> Suc h + unat (rs_history (uis_base ?s))" "k \<notin> B - {Suc h}"
    then show "uis_size ?s (sq k) = 0" using D(9) [of k] size [of k] by (simp split: if_splits)
  qed (use B ann D(3) rs_set_slot(3) [OF D(1)] in \<open>force+\<close>)
qed

text \<open>The same when the message never was in its slot.\<close>

lemma uis_rel_direct:
  assumes rel: "uis_rel M B h ann s" and ann: "Suc h \<le> ann" and "Suc h \<notin> B"
  shows "uis_rel M B (Suc h) ann (s\<lparr>uis_last_handled := sq (Suc h)\<rparr>)"
proof -
  note D = uis_relD [OF rel]
  let ?H = "unat (rs_history (uis_base s))"
  have "uis_size s (sq (Suc h + ?H)) = uis_size s (sq (Suc h))"
    by (simp only: uis_size_def uxr_get_reliable_buffer_size_def rs_position_next [OF D(1)])
  moreover have "uis_size s (sq (Suc h)) = 0" using D(9) assms(3) rs_okD(1) [OF D(1)] by simp
  ultimately have last: "uis_size s (sq (Suc h + ?H)) = 0" by simp
  have B: "Suc h < k \<and> k \<le> h + ?H" if "k \<in> B" for k
  proof -
    have "k \<in> {h<..h + ?H}" "k \<noteq> Suc h" using D(5) that assms(3) by auto
    then show ?thesis by simp
  qed
  show ?thesis
  proof (rule uis_relI)
    fix k assume "Suc h < k" "k \<le> Suc h + unat (rs_history (uis_base (s\<lparr>uis_last_handled := sq (Suc h)\<rparr>)))" "k \<notin> B"
    then show "uis_size (s\<lparr>uis_last_handled := sq (Suc h)\<rparr>) (sq k) = 0" using D(9) [of k] last by (cases "k = Suc h + ?H") simp_all
  qed (use B D ann in \<open>force+\<close>)
qed

lemma uis_rel_store:
  assumes rel: "uis_rel M B h ann s" and k: "h < k" "k \<le> h + unat (rs_history (uis_base s))"
    and fits: "length (M k) \<le> uxr_get_reliable_buffer_capacity (uis_base s)"
  obtains base where "rs_copy (sq k) 0 (M k) (uis_base s) = Inr base" "rs_history base = rs_history (uis_base s)"
    "uxr_get_reliable_buffer_capacity base = uxr_get_reliable_buffer_capacity (uis_base s)"
    "uis_rel M (insert k B) h ann (uis_set_size (sq k) (length (M k)) (s\<lparr>uis_base := base\<rparr>))"
proof -
  note D = uis_relD [OF rel]
  obtain base where base: "rs_copy (sq k) 0 (M k) (uis_base s) = Inr base"
    using rs_copy_fits [OF D(1), of 0] fits by auto
  note C = rs_copied [OF D(1) base]
  let ?s = "uis_set_size (sq k) (length (M k)) (s\<lparr>uis_base := base\<rparr>)"
  have "length (M k) < 2 ^ 32" using fits D(1) by (simp add: rs_ok_def)
  then have len: "unat (of_nat (length (M k)) :: u32) = length (M k)" by (intro unat_of_nat_less) simp
  have pos: "rs_position (uis_base s) (sq j) = rs_position (uis_base s) (sq k) \<longleftrightarrow> j = k"
    if "h < j" "j \<le> h + unat (rs_history (uis_base s))" for j
    using rs_position_window [OF D(1), of j h k] that k by simp
  have size: "uis_size ?s (sq j) = (if j = k then length (M k) else uis_size s (sq j))"
    and octets: "uxr_get_reliable_buffer (uis_base ?s) (sq j) =
       (if j = k then M k @ drop (length (M k)) (uxr_get_reliable_buffer (uis_base s) (sq j)) else uxr_get_reliable_buffer (uis_base s) (sq j))"
    if "h < j" "j \<le> h + unat (rs_history (uis_base s))" for j
    using pos [OF that] C len by (simp_all add: uis_size_set uis_size_def rs_set_slot)
  have B: "h < j" "j \<le> h + unat (rs_history (uis_base s))" if "j \<in> B" for j using D(5) that by auto
  have "uis_rel M (insert k B) h ann ?s"
  proof (rule uis_relI)
    fix j assume j: "j \<in> insert k B"
    then have w: "h < j" "j \<le> h + unat (rs_history (uis_base s))" using B k by auto
    show "uis_size ?s (sq j) = length (M j)" "take (length (M j)) (uxr_get_reliable_buffer (uis_base ?s) (sq j)) = M j"
      "length (M j) \<le> uxr_get_reliable_buffer_capacity (uis_base ?s)"
      using j size [OF w] octets [OF w] D(6-8) [of j] fits C(4) by auto
  next
    fix j assume "h < j" "j \<le> h + unat (rs_history (uis_base ?s))" "j \<notin> insert k B"
    then show "uis_size ?s (sq j) = 0" using size [of j] D(9) [of j] C(2) by simp
  qed (use D k B C(2) rs_set_slot(3) [OF C(1)] in \<open>force+\<close>)
  then show ?thesis using that base C(2,4) by blast
qed

section \<open>What arrives, over unbounded numbers\<close>

text \<open>What no operation changes.\<close>

definition uis_shape :: "uxrInputReliableStream \<Rightarrow> (u8 list \<Rightarrow> FragmentationInfo) \<times> nat \<times> nat \<Rightarrow> bool" where
  "uis_shape s x \<longleftrightarrow> x = (uis_on_get_fragmentation_info s, unat (rs_history (uis_base s)), uxr_get_reliable_buffer_capacity (uis_base s))"

text \<open>A message fits its slot; what it is can be told from its own octets, whatever old ones follow them in the slot.\<close>

definition message_ok :: "(u8 list \<Rightarrow> FragmentationInfo) \<times> nat \<times> nat \<Rightarrow> FragmentationInfo \<Rightarrow> u8 list \<Rightarrow> bool" where
  "message_ok x fi m \<longleftrightarrow> m \<noteq> [] \<and> length m \<le> snd (snd x) \<and> (\<forall>rest. fst x (m @ rest) = fi)"

lemma message_okD:
  assumes "message_ok x fi m"
  shows "m \<noteq> []" "length m \<le> snd (snd x)" "fst x m = fi" "take (length m) b = m \<Longrightarrow> fst x b = fi"
proof -
  show "m \<noteq> []" "length m \<le> snd (snd x)" using assms by (auto simp: message_ok_def)
  have info: "fst x (m @ rest) = fi" for rest using assms by (simp add: message_ok_def)
  from info [of "[]"] show "fst x m = fi" by simp
  show "fst x b = fi" if "take (length m) b = m"
    using info [of "drop (length m) b"] that append_take_drop_id [of "length m" b] by simp
qed

text \<open>A message that is no fragment, of any length.\<close>

definition whole :: "(u8 list \<Rightarrow> FragmentationInfo) \<Rightarrow> u8 list \<Rightarrow> bool" where
  "whole info m \<longleftrightarrow> m \<noteq> [] \<and> (\<forall>rest. info (m @ rest) = NO_FRAGMENTED)"

lemma wholeD:
  assumes "whole info m"
  shows "m \<noteq> []" "info m = NO_FRAGMENTED" "take (length m) b = m \<Longrightarrow> info b = NO_FRAGMENTED"
proof -
  have info: "info (m @ rest) = NO_FRAGMENTED" for rest using assms by (simp add: whole_def)
  show "m \<noteq> []" using assms by (simp add: whole_def)
  from info [of "[]"] show "info m = NO_FRAGMENTED" by simp
  show "info b = NO_FRAGMENTED" if "take (length m) b = m"
    using info [of "drop (length m) b"] that append_take_drop_id [of "length m" b] by simp
qed

text \<open>The window of the stream, and the announcement, in the horizon of a 16 bit number.\<close>

definition near :: "nat \<Rightarrow> nat \<Rightarrow> nat \<Rightarrow> nat \<Rightarrow> bool" where
  "near H h ann k \<longleftrightarrow> k < h + 32768 \<and> h + H < k + 32768 \<and> ann < k + 32768"

lemma window_test:
  assumes "uis_rel M B h ann s" and "uis_shape s (info, H, cap)" and "near H h ann k"
  shows "seq_lt (uis_last_handled s) (sq k) \<longleftrightarrow> h < k"
    and "seq_lt (uxr_seq_num_add (uis_last_handled s) (rs_history (uis_base s))) (sq k) \<longleftrightarrow> h + H < k"
    and "seq_lt (uis_last_announced s) (sq k) \<longleftrightarrow> ann < k"
    and "uxr_seq_num_add (uis_last_handled s) 1 = sq (Suc h)"
    and "h < k \<Longrightarrow> k \<le> h + H \<Longrightarrow> sq k = sq (Suc h) \<longleftrightarrow> k = Suc h"
proof -
  note D = uis_relD [OF assms(1)]
  have H: "H = unat (rs_history (uis_base s))" "H \<le> 32768" using assms(2) rs_okD(4) [OF D(1)] by (auto simp: uis_shape_def)
  note near = assms(3) [unfolded near_def]
  have "h < k + 32768" "k < h + H + 32768" "k < ann + 32768" using near D(4) by linarith+
  then show "seq_lt (uis_last_handled s) (sq k) \<longleftrightarrow> h < k" "seq_lt (uis_last_announced s) (sq k) \<longleftrightarrow> ann < k"
    unfolding D(2,3) using near by (intro sq_lt; simp)+
  have "uxr_seq_num_add (uis_last_handled s) (rs_history (uis_base s)) = sq (h + H)"
    unfolding D(2) uxr_add_adv H(1) sq_add ..
  then show "seq_lt (uxr_seq_num_add (uis_last_handled s) (rs_history (uis_base s))) (sq k) \<longleftrightarrow> h + H < k"
    using near \<open>k < h + H + 32768\<close> by (simp only: sq_lt)
  show "uxr_seq_num_add (uis_last_handled s) 1 = sq (Suc h)" unfolding D(2) uxr_add_1 sq_Suc ..
  show "sq k = sq (Suc h) \<longleftrightarrow> k = Suc h" if "h < k" "k \<le> h + H"
    using sq_inject [of "k - h" 1 h] that H(2) by auto
qed

lemma announce_fields [simp]:
  "uis_base (announce q s) = uis_base s" "uis_last_handled (announce q s) = uis_last_handled s" "uis_size (announce q s) = uis_size s"
  "uis_on_get_fragmentation_info (announce q s) = uis_on_get_fragmentation_info s" "uis_shape (announce q s) x = uis_shape s x"
  by (simp_all add: announce_def uis_shape_def)

lemma uis_rel_announce_max:
  "uis_rel M B h ann s \<Longrightarrow> uis_shape s (info, H, cap) \<Longrightarrow> near H h ann k \<Longrightarrow> uis_rel M B h (max ann k) (announce (sq k) s)"
  using window_test(3) [of M B h ann s info H cap k] uis_rel_announce [of M B h ann s k]
  by (auto simp: announce_def max_def uis_relD(3))

lemma receive_unfold:
  assumes "uis_rel M B h ann s" and "uis_shape s (info, H, cap)" and "near H h ann k"
  shows "uxr_receive_reliable_message (sq k) m s = (if h < k \<and> k \<le> h + H
     then c_then (process_message (sq k) m s) (\<lambda>(r, st, t). Inr (r, st, announce (sq k) t)) else Inr (False, None, announce (sq k) s))"
  using window_test(1,2) [OF assms] by (auto simp: uxr_receive_reliable_message_def Let_def)

section \<open>Whole messages\<close>

text \<open>What the window and the next message do when no message is a fragment; \<open>B\<close> never holds the next number.\<close>

lemma process_whole:
  assumes rel: "uis_rel M B h ann s" and shape: "uis_shape s (info, H, cap)" and near: "near H h ann k"
    and M: "\<And>k. whole info (M k)" and k: "h < k" "k \<le> h + H" and next_free: "Suc h \<notin> B"
    and fits: "k = Suc h \<or> k \<in> B \<or> length (M k) \<le> cap"
  obtains t where "process_message (sq k) (M k) s = Inr (k = Suc h, if k = Suc h then Some False else if k \<in> B then None else Some True, t)"
    "k = Suc h \<Longrightarrow> t = s\<lparr>uis_last_handled := sq (Suc h)\<rparr>" "k \<noteq> Suc h \<Longrightarrow> uis_rel M (insert k B) h ann t" "uis_shape t (info, H, cap)"
proof -
  note D = uis_relD [OF rel]
  note W = window_test [OF rel shape near]
  note Mk = wholeD [OF M [of k]]
  have S: "uis_on_get_fragmentation_info s = info" "unat (rs_history (uis_base s)) = H" "uxr_get_reliable_buffer_capacity (uis_base s) = cap"
    using shape by (simp_all add: uis_shape_def)
  consider "k = Suc h" | "k \<noteq> Suc h" "k \<in> B" | "k \<noteq> Suc h" "k \<notin> B" by blast
  then show ?thesis
  proof cases
    case 1
    then show ?thesis using that [of "s\<lparr>uis_last_handled := sq (Suc h)\<rparr>"] Mk W(4) shape
      by (simp add: process_message_def S Let_def uis_shape_def)
  next
    case 2
    then have "uis_size s (sq k) \<noteq> 0" using D(6) Mk(1) by simp
    then show ?thesis using that [of s] 2 Mk W(4) W(5) [OF k] shape rel
      by (simp add: process_message_def S Let_def insert_absorb)
  next
    case 3
    then have free: "uis_size s (sq k) = 0" using D(9) k S by simp
    obtain base where base: "rs_copy (sq k) 0 (M k) (uis_base s) = Inr base" "rs_history base = rs_history (uis_base s)"
      "uxr_get_reliable_buffer_capacity base = uxr_get_reliable_buffer_capacity (uis_base s)"
      "uis_rel M (insert k B) h ann (uis_set_size (sq k) (length (M k)) (s\<lparr>uis_base := base\<rparr>))"
      by (rule uis_rel_store [OF rel k(1)]) (use k(2) fits 3 S in auto)
    then show ?thesis using that [of "uis_set_size (sq k) (length (M k)) (s\<lparr>uis_base := base\<rparr>)"] 3 Mk W(4) W(5) [OF k] free S
      by (simp add: process_message_def Let_def uis_shape_def)
  qed
qed

lemma next_whole:
  assumes rel: "uis_rel M B h ann s" and shape: "uis_shape s (info, H, cap)" and B: "\<And>k. k \<in> B \<Longrightarrow> k \<le> ann"
    and M: "\<And>k. whole info (M k)"
  shows "Suc h \<notin> B \<Longrightarrow> uxr_next_input_reliable_buffer_available n s = Inr (None, s)"
    and "Suc h \<in> B \<Longrightarrow> \<exists>w t. uxr_next_input_reliable_buffer_available n s = Inr (Some w, t) \<and> rw_octets w = M (Suc h) \<and>
       uis_rel M (B - {Suc h}) (Suc h) ann t \<and> uis_shape t (info, H, cap)"
proof -
  note D = uis_relD [OF rel]
  have H: "h < Suc h" "Suc h \<le> h + unat (rs_history (uis_base s))" using rs_okD(1) [OF D(1)] by simp_all
  have n: "uxr_seq_num_add (uis_last_handled s) 1 = sq (Suc h)" unfolding D(2) uxr_add_1 sq_Suc ..
  show "uxr_next_input_reliable_buffer_available n s = Inr (None, s)" if "Suc h \<notin> B"
    using D(9) [OF H that] by (simp only: uxr_next_input_reliable_buffer_available_def n Let_def simp_thms if_False)
  assume in_B: "Suc h \<in> B"
  note Mk = wholeD [OF M [of "Suc h"]]
  have kind: "uis_kind s (sq (Suc h)) = NO_FRAGMENTED"
    using shape Mk(3) [OF D(7) [OF in_B]] by (simp add: uis_kind_def uis_shape_def)
  let ?w = "\<lparr>rw_octets = M (Suc h), rw_slot = rs_position (uis_base s) (sq (Suc h)), rw_callback = False\<rparr>"
  let ?t = "(uis_set_size (sq (Suc h)) 0 s)\<lparr>uis_last_handled := sq (Suc h)\<rparr>"
  have "uis_window s (sq (Suc h)) 0 (length (M (Suc h))) False = Inr ?w"
    using D(7,8) [OF in_B] rs_okD(6) [OF D(1)] by (simp add: uis_window_def)
  then have "uxr_next_input_reliable_buffer_available n s = Inr (Some ?w, ?t)"
    unfolding uxr_next_input_reliable_buffer_available_def n Let_def kind D(6) [OF in_B] using Mk(1) by simp
  moreover have "uis_shape ?t (info, H, cap)" using shape by (simp add: uis_shape_def)
  ultimately show "\<exists>w t. uxr_next_input_reliable_buffer_available n s = Inr (Some w, t) \<and> rw_octets w = M (Suc h) \<and>
       uis_rel M (B - {Suc h}) (Suc h) ann t \<and> uis_shape t (info, H, cap)"
    using uis_rel_advance [OF rel] B [OF in_B] by (intro exI [of _ ?w] exI [of _ ?t]) simp
qed

text \<open>The next numbers that are there, in a row.\<close>

fun advance :: "nat \<Rightarrow> nat set \<Rightarrow> nat \<Rightarrow> nat" where
  "advance 0 B h = h"
| "advance (Suc n) B h = (if Suc h \<in> B then advance n B (Suc h) else h)"

lemma advance_ge: "h \<le> advance n B h"
  by (induction n B h rule: advance.induct) auto

lemma advance_all: "h < k \<Longrightarrow> k \<le> advance n B h \<Longrightarrow> k \<in> B"
proof (induction n B h rule: advance.induct)
  case (2 n B h)
  then show ?case by (cases "k = Suc h") (auto split: if_splits)
qed simp

lemma advance_stops: "B \<subseteq> {..<h + n} \<Longrightarrow> Suc (advance n B h) \<notin> B"
  by (induction n B h rule: advance.induct) auto

lemma advance_cong: "(\<And>k. h < k \<Longrightarrow> k \<in> B \<longleftrightarrow> k \<in> B') \<Longrightarrow> advance n B h = advance n B' h"
  by (induction n B h rule: advance.induct) simp_all

lemma read_available_whole:
  assumes "uis_rel M B h ann s" and "uis_shape s (info, H, cap)" and "\<And>k. k \<in> B \<Longrightarrow> k \<le> ann"
    and M: "\<And>k. whole info (M k)" and "B \<subseteq> {..<h + n}" and "0 < n"
  shows "\<exists>ws t. read_available n s = Inr (ws, t) \<and> map rw_octets ws = map M [Suc h..<Suc (advance n B h)] \<and>
     uis_rel M (B - {..advance n B h}) (advance n B h) ann t \<and> uis_shape t (info, H, cap)"
  using assms(1,2,3,5,6)
proof (induction n arbitrary: h B s)
  case (Suc n)
  note next_whole = next_whole [OF Suc.prems(1,2,3) M, of SUBHEADER_SIZE]
  have low: "k \<in> B \<Longrightarrow> h < k" for k using uis_relD(5) [OF Suc.prems(1)] by auto
  show ?case
  proof (cases "Suc h \<in> B")
    case False
    then have "B - {..h} = B" using low by fastforce
    with False Suc.prems(1,2) next_whole(1) show ?thesis by simp
  next
    case True
    then obtain w t where step: "uxr_next_input_reliable_buffer_available SUBHEADER_SIZE s = Inr (Some w, t)" "rw_octets w = M (Suc h)"
      "uis_rel M (B - {Suc h}) (Suc h) ann t" "uis_shape t (info, H, cap)" using next_whole(2) by blast
    have n: "0 < n" using Suc.prems(4) True by auto
    have adv: "advance n (B - {Suc h}) (Suc h) = advance n B (Suc h)" by (rule advance_cong) auto
    obtain ws t' where rest: "read_available n t = Inr (ws, t')" "map rw_octets ws = map M [Suc (Suc h)..<Suc (advance n B (Suc h))]"
      "uis_rel M (B - {Suc h} - {..advance n B (Suc h)}) (advance n B (Suc h)) ann t'" "uis_shape t' (info, H, cap)"
      using Suc.IH [OF step(3,4)] Suc.prems(3,4) n unfolding adv by fastforce
    have "B - {Suc h} - {..advance n B (Suc h)} = B - {..advance n B (Suc h)}"
      using advance_ge [of "Suc h" n B] by auto
    moreover have "[Suc h..<Suc (advance n B (Suc h))] = Suc h # [Suc (Suc h)..<Suc (advance n B (Suc h))]"
      using advance_ge [of "Suc h" n B] by (simp add: upt_conv_Cons)
    ultimately show ?thesis using True step rest by simp
  qed
qed simp

section \<open>Runs\<close>

text \<open>The specification of the stream of a client with room for \<open>H\<close> messages.\<close>

record client_spec =
  cs_handled :: nat
  cs_announced :: nat
  cs_stored :: "nat set"

definition cs_init :: client_spec where
  "cs_init = \<lparr>cs_handled = 0, cs_announced = 0, cs_stored = {}\<rparr>"

definition cs_arrive :: "nat \<Rightarrow> nat \<Rightarrow> client_spec \<Rightarrow> client_spec" where
  "cs_arrive H k a =
     (let h = cs_handled a; a = a\<lparr>cs_announced := max (cs_announced a) k\<rparr>
      in if k = Suc h
         then let h' = advance (Suc H) (cs_stored a) (Suc h) in a\<lparr>cs_handled := h', cs_stored := cs_stored a - {..h'}\<rparr>
         else if h < k \<and> k \<le> h + H then a\<lparr>cs_stored := insert k (cs_stored a)\<rparr> else a)"

fun read_all :: "nat \<Rightarrow> (nat \<Rightarrow> u8 list) \<Rightarrow> nat list \<Rightarrow> uxrInputReliableStream \<Rightarrow> client_fault + u8 list list \<times> uxrInputReliableStream" where
  "read_all n M [] s = Inr ([], s)"
| "read_all n M (k # ks) s =
     c_then (read_reliable n (sq k) (M k) s) (\<lambda>(out, s). c_then (read_all n M ks s) (\<lambda>(outs, s). Inr (out @ outs, s)))"

fun all_near :: "nat \<Rightarrow> nat list \<Rightarrow> client_spec \<Rightarrow> bool" where
  "all_near H [] a \<longleftrightarrow> True"
| "all_near H (k # ks) a \<longleftrightarrow> near H (cs_handled a) (cs_announced a) k \<and> all_near H ks (cs_arrive H k a)"

definition cs_rel :: "(nat \<Rightarrow> u8 list) \<Rightarrow> client_spec \<Rightarrow> uxrInputReliableStream \<Rightarrow> bool" where
  "cs_rel M a s \<longleftrightarrow> uis_rel M (cs_stored a) (cs_handled a) (cs_announced a) s \<and>
     Suc (cs_handled a) \<notin> cs_stored a \<and> (\<forall>k \<in> cs_stored a. k \<le> cs_announced a)"

text \<open>
  A message that is to be kept and is longer than its slot: the code copies it all the same, over the end of the slot.
\<close>

definition overruns :: "nat \<Rightarrow> nat \<Rightarrow> (nat \<Rightarrow> u8 list) \<Rightarrow> nat \<Rightarrow> client_spec \<Rightarrow> bool" where
  "overruns H cap M k a \<longleftrightarrow> Suc (cs_handled a) < k \<and> k \<le> cs_handled a + H \<and> k \<notin> cs_stored a \<and> cap < length (M k)"

fun some_overruns :: "nat \<Rightarrow> nat \<Rightarrow> (nat \<Rightarrow> u8 list) \<Rightarrow> nat list \<Rightarrow> client_spec \<Rightarrow> bool" where
  "some_overruns H cap M [] a \<longleftrightarrow> False"
| "some_overruns H cap M (k # ks) a \<longleftrightarrow> overruns H cap M k a \<or> some_overruns H cap M ks (cs_arrive H k a)"

lemma read_reliable_overruns:
  assumes rel: "cs_rel M a s" and shape: "uis_shape s (info, H, cap)" and near: "near H (cs_handled a) (cs_announced a) k"
    and over: "overruns H cap M k a"
  shows "read_reliable n (sq k) (M k) s = Inl Overrun"
proof -
  let ?h = "cs_handled a"
  have uis: "uis_rel M (cs_stored a) ?h (cs_announced a) s" using rel by (simp add: cs_rel_def)
  note D = uis_relD [OF uis] and W = window_test [OF uis shape near]
  have k: "?h < k" "k \<le> ?h + H" "k \<noteq> Suc ?h" "k \<notin> cs_stored a" "cap < length (M k)" using over by (auto simp: overruns_def)
  have S: "unat (rs_history (uis_base s)) = H" "uxr_get_reliable_buffer_capacity (uis_base s) = cap" using shape by (simp_all add: uis_shape_def)
  have free: "uis_size s (sq k) = 0" using D(9) k S by simp
  have "rs_copy (sq k) 0 (M k) (uis_base s) = Inl Overrun"
    using rs_okD(6) [OF D(1), of "sq k"] k(5) S by (simp add: rs_copy_def Let_def uxr_get_reliable_buffer_def)
  then have "process_message (sq k) (M k) s = Inl Overrun" using W(4) W(5) [OF k(1,2)] k(3) free by (simp add: process_message_def Let_def)
  then show ?thesis using receive_unfold [OF uis shape near, of "M k"] k(1,2) by (simp add: read_reliable_def)
qed

lemma announce_handled: "announce q (s\<lparr>uis_last_handled := l\<rparr>) = (announce q s)\<lparr>uis_last_handled := l\<rparr>"
  by (simp add: announce_def)

lemma read_reliable_spec:
  assumes rel: "cs_rel M a s" and shape: "uis_shape s (info, H, cap)" and near: "near H (cs_handled a) (cs_announced a) k"
    and M: "\<And>k. whole info (M k)" and fits: "\<not> overruns H cap M k a"
  shows "\<exists>t. read_reliable (Suc H) (sq k) (M k) s = Inr (map M [Suc (cs_handled a)..<Suc (cs_handled (cs_arrive H k a))], t) \<and>
     cs_rel M (cs_arrive H k a) t \<and> uis_shape t (info, H, cap)"
proof -
  let ?h = "cs_handled a" and ?B = "cs_stored a" and ?ann = "max (cs_announced a) k"
  have uis: "uis_rel M ?B ?h (cs_announced a) s" and free: "Suc ?h \<notin> ?B" and low: "\<And>j. j \<in> ?B \<Longrightarrow> j \<le> cs_announced a"
    using rel by (auto simp: cs_rel_def)
  have H: "H = unat (rs_history (uis_base s))" "0 < H" using shape rs_okD(1) [OF uis_relD(1) [OF uis]] by (auto simp: uis_shape_def)
  note receive = receive_unfold [OF uis shape near, of "M k"]
  note announced = uis_rel_announce_max [OF _ _ near]
  show ?thesis
  proof (cases "?h < k \<and> k \<le> ?h + H")
    case False
    then have "cs_arrive H k a = a\<lparr>cs_announced := ?ann\<rparr>" using H(2) by (auto simp: cs_arrive_def Let_def)
    then show ?thesis using False receive announced [OF uis shape] free low shape
      by (auto simp: read_reliable_def cs_rel_def intro: le_max_iff_disj [THEN iffD2])
  next
    case True
    then obtain t where step: "process_message (sq k) (M k) s = Inr (k = Suc ?h, if k = Suc ?h then Some False else if k \<in> ?B then None else Some True, t)"
      "k = Suc ?h \<Longrightarrow> t = s\<lparr>uis_last_handled := sq (Suc ?h)\<rparr>" "k \<noteq> Suc ?h \<Longrightarrow> uis_rel M (insert k ?B) ?h (cs_announced a) t" "uis_shape t (info, H, cap)"
      using process_whole [OF uis shape near M True [THEN conjunct1] True [THEN conjunct2] free] fits True unfolding overruns_def by (metis not_le less_antisym not_less_eq)
    show ?thesis
    proof (cases "k = Suc ?h")
      case False
      then have "cs_arrive H k a = a\<lparr>cs_announced := ?ann, cs_stored := insert k ?B\<rparr>" using True by (simp add: cs_arrive_def Let_def)
      then show ?thesis using False True receive step announced [OF step(3,4)] free low
        by (auto simp: read_reliable_def cs_rel_def intro: le_max_iff_disj [THEN iffD2])
    next
      case next_one: True
      let ?t = "announce (sq k) t"
      have "uis_rel M ?B (Suc ?h) ?ann ?t"
        using uis_rel_direct [OF announced [OF uis shape] _ free] next_one step(2) by (simp add: announce_handled)
      moreover have "?B \<subseteq> {..<Suc ?h + Suc H}" using uis_relD(5) [OF uis] H(1) by force
      moreover have "uis_shape ?t (info, H, cap)" using step(4) by simp
      ultimately obtain ws u where reads: "read_available (Suc H) ?t = Inr (ws, u)"
        "map rw_octets ws = map M [Suc (Suc ?h)..<Suc (advance (Suc H) ?B (Suc ?h))]"
        "uis_rel M (?B - {..advance (Suc H) ?B (Suc ?h)}) (advance (Suc H) ?B (Suc ?h)) ?ann u" "uis_shape u (info, H, cap)"
        using read_available_whole [of M ?B "Suc ?h" ?ann ?t info H cap "Suc H"] low M by (fastforce intro: le_max_iff_disj [THEN iffD2])
      have arrive: "cs_arrive H k a = a\<lparr>cs_announced := ?ann, cs_handled := advance (Suc H) ?B (Suc ?h), cs_stored := ?B - {..advance (Suc H) ?B (Suc ?h)}\<rparr>"
        using next_one by (simp add: cs_arrive_def Let_def)
      have "map M [Suc ?h..<Suc (advance (Suc H) ?B (Suc ?h))] = M k # map rw_octets ws"
        unfolding reads(2) using advance_ge [of "Suc ?h" "Suc H" ?B] next_one by (simp add: upt_conv_Cons del: upt_Suc)
      moreover have "Suc (advance (Suc H) ?B (Suc ?h)) \<notin> ?B"
        by (rule advance_stops) (use uis_relD(5) [OF uis] H(1) in force)
      moreover have "read_reliable (Suc H) (sq k) (M k) s = Inr (M k # map rw_octets ws, u)"
        using True next_one receive step(1) reads(1) by (simp add: read_reliable_def del: read_available.simps)
      ultimately show ?thesis
        using reads(3,4) low unfolding arrive cs_rel_def by (auto simp del: advance.simps intro: le_max_iff_disj [THEN iffD2])
    qed
  qed
qed

end
