(* ===== verification/ClientReads.thy ===== *)
theory ClientReads
  imports ClientInput AgentProps
begin

text \<open>
  What the reliable input stream of the client does over any run: messages are read in order, unless one that is too long
  overruns its slot, the acknowledgement asks the agent for exactly what is missing, and a fragmented message longer than the history is never read.
\<close>

section \<open>The stream at its start\<close>

lemma reset_sizes:
  assumes "rs_ok (uis_base s)" and "n \<le> unat (rs_history (uis_base s))"
  shows "\<exists>t. fold (\<lambda>i. uis_set_size (of_nat i) 0) [0..<n] s = t \<and> rs_ok (uis_base t) \<and> uis_shape t = uis_shape s \<and>
     rs_position (uis_base t) = rs_position (uis_base s) \<and> rs_history (uis_base t) = rs_history (uis_base s) \<and>
     (\<forall>q. rs_position (uis_base s) q < n \<longrightarrow> uis_size t q = 0)"
  using assms(2)
proof (induction n)
  case 0
  then show ?case using assms(1) by simp
next
  case (Suc n)
  then obtain t where t: "fold (\<lambda>i. uis_set_size (of_nat i) 0) [0..<n] s = t" "rs_ok (uis_base t)" "uis_shape t = uis_shape s"
    "rs_position (uis_base t) = rs_position (uis_base s)" "rs_history (uis_base t) = rs_history (uis_base s)"
    "\<forall>q. rs_position (uis_base s) q < n \<longrightarrow> uis_size t q = 0" by auto
  have "rs_position (uis_base s) (of_nat n) = n" using position_of_nat [OF assms(1)] Suc.prems by simp
  with t show ?case
    by (auto simp: uis_size_set rs_set_slot(3) uis_shape_def fun_eq_iff less_Suc_eq)
qed

lemma input_stream_starts:
  assumes "rs_ok \<lparr>rs_slots = slots, rs_size = bytes, rs_history = history\<rparr>"
  shows "cs_rel M cs_init (uxr_init_input_reliable_stream slots bytes history info)"
    and "uis_shape (uxr_init_input_reliable_stream slots bytes history info) (info, unat history, bytes div unat history - 4)"
proof -
  let ?s = "\<lparr>uis_base = \<lparr>rs_slots = slots, rs_size = bytes, rs_history = history\<rparr>, uis_last_handled = 0, uis_last_announced = 0,
        uis_on_get_fragmentation_info = info, uis_cleanup_flag = False\<rparr>"
  obtain t where t: "fold (\<lambda>i. uis_set_size (of_nat i) 0) [0..<unat history] ?s = t" "rs_ok (uis_base t)" "uis_shape t = uis_shape ?s"
    "rs_position (uis_base t) = rs_position (uis_base ?s)" "rs_history (uis_base t) = history"
    "\<forall>q. rs_position (uis_base ?s) q < unat history \<longrightarrow> uis_size t q = 0"
    using reset_sizes [of ?s "unat history"] assms by auto
  then have init: "uxr_init_input_reliable_stream slots bytes history info = t\<lparr>uis_last_handled := sq 0, uis_last_announced := sq 0\<rparr>"
    by (simp add: uxr_init_input_reliable_stream_def uxr_reset_input_reliable_stream_def sq_0 SEQ_NUM_MAX_def)
  have "uis_size t q = 0" for q
    using t(6) rs_okD(3,5) [OF assms] by simp
  then have "uis_rel M {} 0 0 (t\<lparr>uis_last_handled := sq 0, uis_last_announced := sq 0\<rparr>)"
    using t(2) by (intro uis_relI) simp_all
  then show "cs_rel M cs_init (uxr_init_input_reliable_stream slots bytes history info)" by (simp add: init cs_rel_def cs_init_def)
  show "uis_shape (uxr_init_input_reliable_stream slots bytes history info) (info, unat history, bytes div unat history - 4)"
    using t(3) by (simp add: init uis_shape_def fun_eq_iff uxr_get_reliable_buffer_capacity_def INTERNAL_RELIABLE_BUFFER_OFFSET_def)
qed

section \<open>In order\<close>

lemma read_all_spec:
  assumes "cs_rel M a s" and "uis_shape s (info, H, cap)" and "all_near H ks a"
    and M: "\<And>k. whole info (M k)" and fits: "\<not> some_overruns H cap M ks a"
  shows "\<exists>t. read_all (Suc H) M ks s = Inr (map M [Suc (cs_handled a)..<Suc (cs_handled (fold (cs_arrive H) ks a))], t) \<and>
     cs_rel M (fold (cs_arrive H) ks a) t \<and> uis_shape t (info, H, cap) \<and> cs_handled a \<le> cs_handled (fold (cs_arrive H) ks a)"
  using assms(1-3) fits
proof (induction ks arbitrary: a s)
  case (Cons k ks)
  let ?a = "cs_arrive H k a"
  obtain t where t: "read_reliable (Suc H) (sq k) (M k) s = Inr (map M [Suc (cs_handled a)..<Suc (cs_handled ?a)], t)" "cs_rel M ?a t" "uis_shape t (info, H, cap)"
    using read_reliable_spec [OF Cons.prems(1,2) _ M] Cons.prems(3,4) by auto
  obtain u where u: "read_all (Suc H) M ks t = Inr (map M [Suc (cs_handled ?a)..<Suc (cs_handled (fold (cs_arrive H) ks ?a))], u)"
    "cs_rel M (fold (cs_arrive H) ks ?a) u" "uis_shape u (info, H, cap)" "cs_handled ?a \<le> cs_handled (fold (cs_arrive H) ks ?a)"
    using Cons.IH [OF t(2,3)] Cons.prems(3,4) by auto
  have "cs_handled a \<le> cs_handled ?a"
    using advance_ge [of "Suc (cs_handled a)" "Suc H" "cs_stored a"] by (auto simp: cs_arrive_def Let_def simp del: advance.simps)
  then have "[Suc (cs_handled a)..<Suc (cs_handled ?a)] @ [Suc (cs_handled ?a)..<Suc (cs_handled (fold (cs_arrive H) ks ?a))] =
      [Suc (cs_handled a)..<Suc (cs_handled (fold (cs_arrive H) ks ?a))]"
    using u(4) upt_add_eq_append [of "Suc (cs_handled a)" "Suc (cs_handled ?a)" "cs_handled (fold (cs_arrive H) ks ?a) - cs_handled ?a"] by simp
  then show ?case using t(1) u \<open>cs_handled a \<le> cs_handled ?a\<close> by (simp flip: map_append del: upt_Suc)
qed simp

lemma read_all_overruns:
  assumes "cs_rel M a s" and "uis_shape s (info, H, cap)" and "all_near H ks a"
    and M: "\<And>k. whole info (M k)" and "some_overruns H cap M ks a"
  shows "read_all (Suc H) M ks s = Inl Overrun"
  using assms(1-3,5)
proof (induction ks arbitrary: a s)
  case (Cons k ks)
  show ?case
  proof (cases "overruns H cap M k a")
    case True
    then show ?thesis using read_reliable_overruns [OF Cons.prems(1,2)] Cons.prems(3) by simp
  next
    case False
    have near: "near H (cs_handled a) (cs_announced a) k" using Cons.prems(3) by simp
    obtain out t where t: "read_reliable (Suc H) (sq k) (M k) s = Inr (out, t)" "cs_rel M (cs_arrive H k a) t" "uis_shape t (info, H, cap)"
      using read_reliable_spec [OF Cons.prems(1,2) near M False] by blast
    then show ?thesis using Cons.IH [OF t(2,3)] Cons.prems(3,4) False by simp
  qed
qed simp

lemma arrived:
  "{1..cs_handled a} \<union> cs_stored a \<subseteq> A \<Longrightarrow> {1..cs_handled (fold (cs_arrive H) ks a)} \<union> cs_stored (fold (cs_arrive H) ks a) \<subseteq> A \<union> set ks"
proof (induction ks arbitrary: a A)
  case (Cons k ks)
  have "{1..cs_handled (cs_arrive H k a)} \<union> cs_stored (cs_arrive H k a) \<subseteq> insert k A"
  proof
    fix j assume j: "j \<in> {1..cs_handled (cs_arrive H k a)} \<union> cs_stored (cs_arrive H k a)"
    then show "j \<in> insert k A"
      using Cons.prems advance_all [of "Suc (cs_handled a)" j "Suc H" "cs_stored a"] advance_all [of "Suc (cs_handled a)" j "Suc H" "cs_stored a"]
      by (cases "j \<le> cs_handled a"; cases "j = Suc (cs_handled a)")
        (auto simp: cs_arrive_def Let_def simp del: advance.simps split: if_splits)
  qed
  from Cons.IH [OF this] show ?case by simp
qed simp

text \<open>C36. The client reads in order. Messages arrive at a reliable input stream of the client, lost, repeated and out of order,
  inside the horizon of a 16 bit number; none of them is a fragment, and they are of any length. If one that has to be kept
  (it is ahead of the next one, inside the history and not kept yet) is longer than a slot, its copy overruns the slot. Otherwise no
  slot is overrun, and the session reads exactly the messages 1, 2, 3, ... up to some number, each once; the next one is neither
  read nor kept, and nothing is read or kept that has not arrived.\<close>

theorem client_input_in_order:
  assumes "rs_ok \<lparr>rs_slots = slots, rs_size = bytes, rs_history = history\<rparr>" and "\<And>k. whole info (M k)"
    and "all_near (unat history) ks cs_init" and "a = fold (cs_arrive (unat history)) ks cs_init"
  shows "if some_overruns (unat history) (bytes div unat history - 4) M ks cs_init
    then read_all (Suc (unat history)) M ks (uxr_init_input_reliable_stream slots bytes history info) = Inl Overrun
    else (\<exists>s. read_all (Suc (unat history)) M ks (uxr_init_input_reliable_stream slots bytes history info) =
        Inr (map M [1..<Suc (cs_handled a)], s) \<and> cs_rel M a s) \<and>
      Suc (cs_handled a) \<notin> cs_stored a \<and> {1..cs_handled a} \<union> cs_stored a \<subseteq> set ks"
proof (cases "some_overruns (unat history) (bytes div unat history - 4) M ks cs_init")
  case True
  then show ?thesis using read_all_overruns [where M = M, OF input_stream_starts [OF assms(1)] assms(3,2) True] by simp
next
  case False
  have zero: "cs_handled cs_init = 0" by (simp add: cs_init_def)
  obtain s where "read_all (Suc (unat history)) M ks (uxr_init_input_reliable_stream slots bytes history info) =
      Inr (map M [1..<Suc (cs_handled a)], s)" "cs_rel M a s"
    using read_all_spec [where M = M, OF input_stream_starts [OF assms(1)] assms(3,2) False] unfolding assms(4) zero One_nat_def by blast
  moreover have "{1..cs_handled a} \<union> cs_stored a \<subseteq> {} \<union> set ks"
    unfolding assms(4) by (rule arrived) (simp add: cs_init_def)
  ultimately show ?thesis using False by (auto simp: cs_rel_def)
qed

definition demo_slots :: "slot list" where
  "demo_slots = replicate 4 \<lparr>sl_length = 7, sl_octets = replicate 12 0\<rparr>"

lemma demo_slots_ok: "rs_ok \<lparr>rs_slots = demo_slots, rs_size = 64, rs_history = 4\<rparr>"
  by (simp add: rs_ok_def demo_slots_def uxr_get_reliable_buffer_capacity_def INTERNAL_RELIABLE_BUFFER_OFFSET_def)

text \<open>Slots of twelve octets: in order, whatever comes early; and a message of thirteen octets that comes early.\<close>

theorem client_input_in_order_witness:
  "(\<exists>s. read_all 5 (\<lambda>k. [of_nat k, 7]) [2, 4, 1, 2, 3] (uxr_init_input_reliable_stream demo_slots 64 4 (\<lambda>_. NO_FRAGMENTED)) =
     Inr ([[1, 7], [2, 7], [3, 7], [4, 7]], s)) \<and>
   read_all 5 (\<lambda>k. replicate 13 7) [2] (uxr_init_input_reliable_stream demo_slots 64 4 (\<lambda>_. NO_FRAGMENTED)) = Inl Overrun"
proof -
  have steps: "cs_arrive 4 2 cs_init = \<lparr>cs_handled = 0, cs_announced = 2, cs_stored = {2}\<rparr>"
    "cs_arrive 4 4 \<lparr>cs_handled = 0, cs_announced = 2, cs_stored = {2}\<rparr> = \<lparr>cs_handled = 0, cs_announced = 4, cs_stored = {2, 4}\<rparr>"
    "cs_arrive 4 1 \<lparr>cs_handled = 0, cs_announced = 4, cs_stored = {2, 4}\<rparr> = \<lparr>cs_handled = 2, cs_announced = 4, cs_stored = {4}\<rparr>"
    "cs_arrive 4 2 \<lparr>cs_handled = 2, cs_announced = 4, cs_stored = {4}\<rparr> = \<lparr>cs_handled = 2, cs_announced = 4, cs_stored = {4}\<rparr>"
    "cs_arrive 4 3 \<lparr>cs_handled = 2, cs_announced = 4, cs_stored = {4}\<rparr> = \<lparr>cs_handled = 4, cs_announced = 4, cs_stored = {}\<rparr>"
    by (auto simp: cs_init_def cs_arrive_def numeral_eq_Suc)
  then have spec: "fold (cs_arrive 4) [2, 4, 1, 2, 3] cs_init = \<lparr>cs_handled = 4, cs_announced = 4, cs_stored = {}\<rparr>" by simp
  have near: "all_near 4 [2, 4, 1, 2, 3] cs_init" "all_near 4 [2] cs_init"
    by (simp_all add: near_def steps del: One_nat_def) (simp_all add: cs_init_def)
  let ?M = "\<lambda>k. [of_nat k, 7 :: u8]" and ?a = "\<lparr>cs_handled = 4, cs_announced = 4, cs_stored = {}\<rparr>" and ?ks = "[2, 4, 1, 2, 3]"
  let ?L = "\<lambda>k :: nat. replicate 13 (7 :: u8)"
  have four: "unat (4 :: u16) = 4" by simp
  have M: "whole (\<lambda>_. NO_FRAGMENTED) (?M k)" "whole (\<lambda>_. NO_FRAGMENTED) (?L k)" for k
    by (simp_all add: whole_def)
  have over: "\<not> some_overruns 4 (64 div 4 - 4) ?M ?ks cs_init" "some_overruns 4 (64 div 4 - 4) ?L [2] cs_init"
    by (simp_all add: overruns_def) (simp add: cs_init_def)
  note all = client_input_in_order [where M = ?M, OF demo_slots_ok M(1), unfolded four, OF near(1) spec [symmetric], unfolded if_not_P [OF over(1)]]
  then obtain s where "read_all (Suc 4) ?M ?ks (uxr_init_input_reliable_stream demo_slots 64 4 (\<lambda>_. NO_FRAGMENTED)) =
      Inr (map ?M [1..<Suc (cs_handled ?a)], s)" by blast
  moreover have "Suc 4 = 5" "[1..<5] = [1, 2, 3, 4]" by (simp_all add: upt_rec)
  ultimately have "read_all 5 ?M ?ks (uxr_init_input_reliable_stream demo_slots 64 4 (\<lambda>_. NO_FRAGMENTED)) = Inr (map ?M [1, 2, 3, 4], s)"
    by (simp only: client_spec.select_convs)
  then have "read_all 5 ?M ?ks (uxr_init_input_reliable_stream demo_slots 64 4 (\<lambda>_. NO_FRAGMENTED)) = Inr ([[1, 7], [2, 7], [3, 7], [4, 7]], s)"
    by (simp only: list.map of_nat_1 of_nat_numeral)
  moreover have "read_all (Suc 4) ?L [2] (uxr_init_input_reliable_stream demo_slots 64 4 (\<lambda>_. NO_FRAGMENTED)) = Inl Overrun"
    using client_input_in_order [where M = ?L, OF demo_slots_ok M(2), unfolded four, OF near(2) refl, unfolded if_P [OF over(2)]] .
  ultimately show ?thesis using \<open>Suc 4 = 5\<close> by metis
qed

section \<open>Acknowledgements\<close>

text \<open>What \<open>write_submessage_acknack\<close> of \<open>session.c\<close> puts into the acknowledgement. \<open>None\<close>: the shift is not defined.\<close>

definition acknack_of :: "u8 \<Rightarrow> uxrInputReliableStream \<Rightarrow> ACKNACK_Payload option" where
  "acknack_of stream_id_raw stream =
     (let (nack_bitmap, first_unacked_seq_num) = uxr_compute_acknack stream
      in map_option (\<lambda>nack_bitmap. \<lparr>ack_first_unacked_seq_num = first_unacked_seq_num,
             ack_nack_bitmap_0 = ucast (drop_bit 8 nack_bitmap), ack_nack_bitmap_1 = ucast nack_bitmap,
             ack_stream_id = stream_id_raw\<rparr>) nack_bitmap)"

lemma bit_fold_or: "bit (fold (\<lambda>i b. b OR push_bit i 1) is (z :: u16)) n \<longleftrightarrow> bit z n \<or> n < 16 \<and> n \<in> set is"
  by (induction "is" arbitrary: z) (auto simp: bit_simps)

lemma seq_dist_sq: "d < 65536 \<Longrightarrow> seq_dist (sq h) (sq (h + d)) = d"
  by (simp add: sq_add sn.dist_adv)

lemma first_unacked:
  assumes "cs_rel M a s"
  shows "uxr_get_first_unacked s = sq (Suc (cs_handled a))"
proof -
  have uis: "uis_rel M (cs_stored a) (cs_handled a) (cs_announced a) s" and free: "Suc (cs_handled a) \<notin> cs_stored a"
    using assms by (simp_all add: cs_rel_def)
  note D = uis_relD [OF uis]
  have "uis_size s (sq (Suc (cs_handled a))) = 0" using D(9) [OF _ _ free] rs_okD(1) [OF D(1)] by simp
  moreover have "[0..<unat (rs_history (uis_base s))] = 0 # [1..<unat (rs_history (uis_base s))]"
    using rs_okD(1) [OF D(1)] by (simp add: upt_conv_Cons)
  ultimately show ?thesis by (simp add: uxr_get_first_unacked_def D(2))
qed

lemma compute_acknack:
  assumes rel: "cs_rel M a s" and shape: "uis_shape s (info, H, cap)" and M: "\<And>k. M k \<noteq> []"
    and ann: "cs_announced a \<le> cs_handled a + H" "cs_announced a \<le> cs_handled a + 16"
  shows "\<exists>nack_bitmap. uxr_compute_acknack s = (Some nack_bitmap, sq (Suc (cs_handled a))) \<and>
     (\<forall>i. bit nack_bitmap i \<longleftrightarrow> cs_handled a + Suc i \<le> cs_announced a \<and> cs_handled a + Suc i \<notin> cs_stored a)"
proof -
  let ?h = "cs_handled a" and ?B = "cs_stored a" and ?ann = "cs_announced a"
  have uis: "uis_rel M ?B ?h ?ann s" using rel by (simp add: cs_rel_def)
  note D = uis_relD [OF uis]
  have H: "H = unat (rs_history (uis_base s))" using shape by (simp add: uis_shape_def)
  have "unat (uxr_seq_num_sub (sq ?ann) (sq ?h)) = ?ann - ?h"
    using seq_dist_sq [of "?ann - ?h" ?h] D(4) ann(2) by (simp add: uxr_sub_dist)
  then have buffers: "unat (uxr_seq_num_sub (uis_last_announced s) (uxr_seq_num_sub (sq (Suc ?h)) 1)) = ?ann - ?h" by (simp add: D(3))
  define missing where "missing = filter (\<lambda>i. uis_size s (uxr_seq_num_add (sq (Suc ?h)) (of_nat i)) = 0) [0..<?ann - ?h]"
  have "uis_size s (uxr_seq_num_add (sq (Suc ?h)) (of_nat i)) = 0 \<longleftrightarrow> ?h + Suc i \<notin> ?B" if "i < ?ann - ?h" for i
  proof -
    have j: "?h < ?h + Suc i" "?h + Suc i \<le> ?h + unat (rs_history (uis_base s))" using that ann(1) H by auto
    have "uxr_seq_num_add (sq (Suc ?h)) (of_nat i) = sq (?h + Suc i)"
      unfolding uxr_add_of_nat by (simp flip: sq_add)
    then show ?thesis using D(6) [of "?h + Suc i"] D(9) [OF j] M [of "?h + Suc i"] by auto
  qed
  then have missing: "i \<in> set missing \<longleftrightarrow> ?h + Suc i \<le> ?ann \<and> ?h + Suc i \<notin> ?B" for i
    by (auto simp: missing_def)
  then have small: "i \<in> set missing \<Longrightarrow> i < 16" for i using ann(2) by fastforce
  then have "\<not> (\<exists>i \<in> set missing. 31 \<le> i)" by fastforce
  then have "uxr_compute_acknack s = (Some (fold (\<lambda>i b. b OR push_bit i 1) missing 0), sq (Suc ?h))"
    by (simp only: uxr_compute_acknack_def first_unacked [OF rel] buffers Let_def flip: missing_def) simp
  moreover have "bit (fold (\<lambda>i b. b OR push_bit i 1) missing (0 :: u16)) i \<longleftrightarrow> ?h + Suc i \<le> ?ann \<and> ?h + Suc i \<notin> ?B" for i
    unfolding bit_fold_or using missing [of i] small [of i] by auto
  ultimately show ?thesis by blast
qed

text \<open>C37. The acknowledgement of the client asks for what it misses. With what has been announced inside the sixteen bits of
  the map and the history of the stream, the numbers the agent reads from the client's \<open>ACKNACK\<close>, and repeats by
  \<open>process_acknack_submessage\<close>, are exactly the numbers announced and neither read nor kept by the client.\<close>

theorem client_asks_for_missing:
  assumes "cs_rel M a s" and "uis_shape s (info, H, cap)" and "\<And>k. M k \<noteq> []"
    and "cs_announced a \<le> cs_handled a + H" and "cs_announced a \<le> cs_handled a + 16"
  shows "\<exists>p. acknack_of k s = Some p \<and> ack_stream_id p = k \<and> ack_first_unacked_seq_num p = sq (Suc (cs_handled a)) \<and>
     set (nacked p) = {sq j |j. cs_handled a < j \<and> j \<le> cs_announced a \<and> j \<notin> cs_stored a}"
proof -
  obtain nack_bitmap where c: "uxr_compute_acknack s = (Some nack_bitmap, sq (Suc (cs_handled a)))"
    and bits: "\<And>i. bit nack_bitmap i \<longleftrightarrow> cs_handled a + Suc i \<le> cs_announced a \<and> cs_handled a + Suc i \<notin> cs_stored a"
    using compute_acknack [OF assms] by blast
  define p where "p = \<lparr>ack_first_unacked_seq_num = sq (Suc (cs_handled a)), ack_nack_bitmap_0 = ucast (drop_bit 8 nack_bitmap),
    ack_nack_bitmap_1 = ucast nack_bitmap, ack_stream_id = k\<rparr>"
  have "bitmap_asks p i \<longleftrightarrow> bit nack_bitmap i" if "i < 16" for i
    using that by (auto simp: bitmap_asks_def p_def bit_simps)
  then have "set (nacked p) = {sq (cs_handled a + Suc i) |i. i < 16 \<and> bit nack_bitmap i}"
    unfolding set_nacked p_def by (auto simp flip: sq_add)
  also have "\<dots> = {sq j |j. cs_handled a < j \<and> j \<le> cs_announced a \<and> j \<notin> cs_stored a}" (is "?l = ?r")
  proof
    show "?l \<subseteq> ?r" using bits by fastforce
    show "?r \<subseteq> ?l"
    proof
      fix q assume "q \<in> ?r"
      then obtain j where j: "q = sq j" "cs_handled a < j" "j \<le> cs_announced a" "j \<notin> cs_stored a" by blast
      then obtain i where i: "j = cs_handled a + Suc i" using less_iff_Suc_add [of "cs_handled a" j] by auto
      with j bits [of i] assms(5) show "q \<in> ?l" by auto
    qed
  qed
  finally show ?thesis using c by (simp add: acknack_of_def p_def)
qed

lemma third_only: "fold (cs_arrive 4) [3] cs_init = \<lparr>cs_handled = 0, cs_announced = 3, cs_stored = {3 :: nat}\<rparr>" "all_near 4 [3] cs_init"
  by (simp_all add: cs_arrive_def cs_init_def near_def)

lemma third_only_read:
  defines "M \<equiv> \<lambda>k. [of_nat k, 7 :: u8]" and "start \<equiv> uxr_init_input_reliable_stream demo_slots 64 4 (\<lambda>_. NO_FRAGMENTED)"
  shows "\<exists>s. read_all 5 M [3] start = Inr ([], s) \<and> cs_rel M \<lparr>cs_handled = 0, cs_announced = 3, cs_stored = {3}\<rparr> s \<and>
     uis_shape s (\<lambda>_. NO_FRAGMENTED, 4, 12)"
proof -
  have start: "cs_rel M cs_init start" "uis_shape start (\<lambda>_. NO_FRAGMENTED, 4, 12)"
    using input_stream_starts [OF demo_slots_ok] by (simp_all add: start_def)
  have M: "whole (\<lambda>_. NO_FRAGMENTED) (M k)" for k by (simp add: whole_def M_def)
  have fits: "\<not> some_overruns 4 12 M [3] cs_init" by (simp add: overruns_def M_def)
  have "Suc 4 = 5" "[Suc (cs_handled cs_init)..<Suc 0] = []" by (simp_all add: cs_init_def)
  with read_all_spec [where M = M, OF start third_only(2) M fits] show ?thesis by (simp only: third_only list.map client_spec.select_convs) fast
qed

lemma third_only_missing: "{sq j |j. 0 < j \<and> j \<le> 3 \<and> j \<notin> {3 :: nat}} = {0, 1}"
proof -
  have "0 < j \<and> j \<le> 3 \<and> j \<notin> {3 :: nat} \<longleftrightarrow> j = 1 \<or> j = 2" for j by auto
  then have "{sq j |j. 0 < j \<and> j \<le> 3 \<and> j \<notin> {3 :: nat}} = {sq j |j. j = 1 \<or> j = 2}" by simp
  also have "\<dots> = {sq 1, sq 2}" by blast
  moreover have "sq 1 = 0" "sq 2 = 1" by (simp_all add: sq_def seq_adv_def)
  ultimately show ?thesis by (simp only:)
qed

theorem client_asks_for_missing_witness:
  "\<exists>s p. read_all 5 (\<lambda>k. [of_nat k, 7]) [3] (uxr_init_input_reliable_stream demo_slots 64 4 (\<lambda>_. NO_FRAGMENTED)) = Inr ([], s) \<and>
     acknack_of 0x80 s = Some p \<and> set (nacked p) = {0, 1}"
proof -
  obtain s where s: "read_all 5 (\<lambda>k. [of_nat k, 7]) [3] (uxr_init_input_reliable_stream demo_slots 64 4 (\<lambda>_. NO_FRAGMENTED)) = Inr ([], s)"
    "cs_rel (\<lambda>k. [of_nat k, 7]) \<lparr>cs_handled = 0, cs_announced = 3, cs_stored = {3}\<rparr> s" "uis_shape s (\<lambda>_. NO_FRAGMENTED, 4, 12)"
    using third_only_read by (elim exE conjE)
  have "\<exists>p. acknack_of 0x80 s = Some p \<and> ack_stream_id p = 0x80 \<and> ack_first_unacked_seq_num p = sq (Suc 0) \<and>
      set (nacked p) = {sq j |j. 0 < j \<and> j \<le> 3 \<and> j \<notin> {3 :: nat}}"
    using client_asks_for_missing [where k = "0x80", OF s(2,3) list.distinct(2)] by (simp only: client_spec.select_convs)
  then show ?thesis using s(1) unfolding third_only_missing by (elim exE conjE) (intro exI conjI)
qed

section \<open>Too many fragments\<close>

lemma fragment_search_never:
  assumes "\<And>q. uis_size s q \<noteq> 0 \<and> uis_kind s q = INTERMEDIATE_FRAGMENT"
  shows "fragment_search s n = None"
proof -
  have "\<exists>q. uis_size s q = 0 \<or> uis_kind s q \<noteq> INTERMEDIATE_FRAGMENT" if found: "fragment_search s n = Some y" for y
  proof (rule fragment_search.raw_induct [OF _ found])
    fix search s n and y :: "bool \<times> uxrSeqNum"
    assume IH: "\<And>s n y. search s n = Some y \<Longrightarrow> \<exists>q. uis_size s q = 0 \<or> uis_kind s q \<noteq> INTERMEDIATE_FRAGMENT"
      and step: "(let next = uxr_seq_num_add n 1 in if uis_size s next = 0 then Some (False, next)
         else case uis_kind s next of NO_FRAGMENTED \<Rightarrow> Some (False, next) | INTERMEDIATE_FRAGMENT \<Rightarrow> search s next
              | LAST_FRAGMENT \<Rightarrow> Some (True, next)) = Some y"
    show "\<exists>q. uis_size s q = 0 \<or> uis_kind s q \<noteq> INTERMEDIATE_FRAGMENT"
    proof (rule ccontr)
      assume "\<not> ?thesis"
      then have all: "uis_size s q \<noteq> 0" "uis_kind s q = INTERMEDIATE_FRAGMENT" for q by auto
      with step have "search s (uxr_seq_num_add n 1) = Some y" by (simp add: Let_def)
      from IH [OF this] all show False by auto
    qed
  qed
  then show ?thesis using assms by (cases "fragment_search s n") (fastforce simp del: split_paired_All)+
qed

text \<open>C38. A fragmented message of more fragments than the history has slots stops the client for ever. When the last slot is
  filled and every slot holds a fragment that is not the last of its message, the search for the last fragment goes round the
  slots without end, in the call that receives the packet.\<close>

theorem client_hangs_on_long_message:
  assumes rel: "uis_rel M ({h<..h + H} - {k}) h ann s" and shape: "uis_shape s (info, H, cap)" and near: "near H h ann k"
    and k: "h < k" "k \<le> h + H" and M: "\<And>j. message_ok (info, H, cap) INTERMEDIATE_FRAGMENT (M j)"
  shows "uxr_receive_reliable_message (sq k) (M k) s = Inl NeverReturns"
proof -
  note D = uis_relD [OF rel]
  have S: "uis_on_get_fragmentation_info s = info" "unat (rs_history (uis_base s)) = H" "uxr_get_reliable_buffer_capacity (uis_base s) = cap"
    using shape by (simp_all add: uis_shape_def)
  have free: "uis_size s (sq k) = 0" using D(9) k S by simp
  obtain base where base: "rs_copy (sq k) 0 (M k) (uis_base s) = Inr base" "rs_history base = rs_history (uis_base s)"
    "uis_rel M (insert k ({h<..h + H} - {k})) h ann (uis_set_size (sq k) (length (M k)) (s\<lparr>uis_base := base\<rparr>))"
    by (rule uis_rel_store [OF rel k(1)]) (use k(2) message_okD(2) [OF M] S in auto)
  let ?t = "uis_set_size (sq k) (length (M k)) (s\<lparr>uis_base := base\<rparr>)"
  have t: "uis_rel M {h<..h + H} h ann ?t" using base(3) k by (simp add: insert_absorb insert_Diff_if)
  note T = uis_relD [OF t]
  have "uis_size ?t q \<noteq> 0 \<and> uis_kind ?t q = INTERMEDIATE_FRAGMENT" for q
  proof -
    obtain j where j: "j \<in> {h<..h + H}" "rs_position (uis_base ?t) (sq j) = rs_position (uis_base ?t) q"
      using window_covers [OF T(1), of h q] base(2) S(2) by auto
    have "uis_size ?t q = uis_size ?t (sq j)" "uxr_get_reliable_buffer (uis_base ?t) q = uxr_get_reliable_buffer (uis_base ?t) (sq j)"
      using j(2) by (simp_all only: uis_size_def uxr_get_reliable_buffer_size_def uxr_get_reliable_buffer_def)
    then show ?thesis
      using T(6,7) [OF j(1)] message_okD(1,4) [OF M [of j]] S(1) by (simp add: uis_kind_def)
  qed
  then have "check_last_fragment ?t = Inl NeverReturns" by (simp add: check_last_fragment_def fragment_search_never)
  then have "process_message (sq k) (M k) s = Inl NeverReturns"
    using message_okD(3) [OF M [of k]] free base(1) S(1) by (simp add: process_message_def)
  then show ?thesis using receive_unfold [OF rel shape near] k by simp
qed

theorem client_hangs_on_long_message_witness:
  "uxr_receive_reliable_message (sq 1) [13, 0, 0, 0] (uxr_init_input_reliable_stream [\<lparr>sl_length = 0, sl_octets = [0, 0, 0, 0, 0]\<rparr>] 9 1
     (\<lambda>_. INTERMEDIATE_FRAGMENT)) = Inl NeverReturns"
proof -
  have ok: "rs_ok \<lparr>rs_slots = [\<lparr>sl_length = 0, sl_octets = [0, 0, 0, 0, 0]\<rparr>], rs_size = 9, rs_history = 1\<rparr>"
    by (simp add: rs_ok_def uxr_get_reliable_buffer_capacity_def INTERNAL_RELIABLE_BUFFER_OFFSET_def)
  have rel: "uis_rel (\<lambda>_. [13, 0, 0, 0]) ({0<..0 + 1} - {1}) 0 0 (uxr_init_input_reliable_stream [\<lparr>sl_length = 0, sl_octets = [0, 0, 0, 0, 0]\<rparr>] 9 1 (\<lambda>_. INTERMEDIATE_FRAGMENT))"
    using input_stream_starts(1) [OF ok, of "\<lambda>_. [13, 0, 0, 0]"] by (simp add: cs_rel_def cs_init_def flip: atLeastSucAtMost_greaterThanAtMost)
  have shape: "uis_shape (uxr_init_input_reliable_stream [\<lparr>sl_length = 0, sl_octets = [0, 0, 0, 0, 0]\<rparr>] 9 1 (\<lambda>_. INTERMEDIATE_FRAGMENT)) (\<lambda>_. INTERMEDIATE_FRAGMENT, 1, 5)"
    using input_stream_starts(2) [OF ok] by simp
  show ?thesis
    by (rule client_hangs_on_long_message [OF rel shape]) (simp_all add: near_def message_ok_def)
qed

end
