(* ===== verification/ClientOutput.thy ===== *)
theory ClientOutput
  imports ClientBuffers
begin

text \<open>
  \<open>output_reliable_stream.c\<close> of the client, with the loop of \<open>uxr_flash_output_streams\<close> and the one of
  \<open>read_submessage_acknack\<close> (\<open>session.c\<close>) that drive it. The stream keeps every message in its slot until it is
  acknowledged. Headers are written through Micro-CDR, which is not part of the repository: what writes a header into
  the octets of a slot is an argument. The specification counts messages from 1: message \<open>k\<close> has the number \<open>sq k\<close>.
\<close>

section \<open>The stream\<close>

record uxrOutputReliableStream =
  uos_base :: uxrReliableStream
  uos_offset :: nat
  uos_last_written :: uxrSeqNum
  uos_last_sent :: uxrSeqNum
  uos_last_acknown :: uxrSeqNum
  uos_next_heartbeat_timestamp :: int
  uos_next_heartbeat_tries :: u8
  uos_send_lost :: bool

definition INT64_MAX :: int where "INT64_MAX = 2 ^ 63 - 1"
definition MIN_HEARTBEAT_TIME_INTERVAL :: int where "MIN_HEARTBEAT_TIME_INTERVAL = 1"
definition MAX_HEARTBEAT_TRIES :: nat where "MAX_HEARTBEAT_TRIES = 63"
definition SUBMESSAGE_ID_FRAGMENT :: u8 where "SUBMESSAGE_ID_FRAGMENT = 13"

definition uos_size :: "uxrOutputReliableStream \<Rightarrow> uxrSeqNum \<Rightarrow> nat" where
  "uos_size stream = uxr_get_reliable_buffer_size (uos_base stream)"

definition uos_set_size :: "uxrSeqNum \<Rightarrow> nat \<Rightarrow> uxrOutputReliableStream \<Rightarrow> uxrOutputReliableStream" where
  "uos_set_size seq_num len stream = stream\<lparr>uos_base := uxr_set_reliable_buffer_size seq_num len (uos_base stream)\<rparr>"

definition uxr_reset_output_reliable_stream :: "uxrOutputReliableStream \<Rightarrow> uxrOutputReliableStream" where
  "uxr_reset_output_reliable_stream stream =
     (fold (\<lambda>i. uos_set_size (of_nat i) (uos_offset stream)) [0..<unat (rs_history (uos_base stream))] stream)
       \<lparr>uos_last_written := 0, uos_last_sent := SEQ_NUM_MAX, uos_last_acknown := SEQ_NUM_MAX,
        uos_next_heartbeat_timestamp := INT64_MAX, uos_next_heartbeat_tries := 0, uos_send_lost := False\<rparr>"

definition uxr_init_output_reliable_stream :: "slot list \<Rightarrow> nat \<Rightarrow> u16 \<Rightarrow> nat \<Rightarrow> uxrOutputReliableStream" where
  "uxr_init_output_reliable_stream buffer buffer_size history header_offset =
     uxr_reset_output_reliable_stream
       \<lparr>uos_base = \<lparr>rs_slots = buffer, rs_size = buffer_size, rs_history = history\<rparr>, uos_offset = header_offset,
        uos_last_written = 0, uos_last_sent = 0, uos_last_acknown = 0, uos_next_heartbeat_timestamp = 0,
        uos_next_heartbeat_tries = 0, uos_send_lost = False\<rparr>"

section \<open>Writing\<close>

text \<open>The buffer handed out: the slot it starts in, where in the slot it starts and ends, and whether the callback for a
  full buffer leads on to the next slot.\<close>

record reliable_window =
  ow_slot :: nat
  ow_from :: nat
  ow_final :: nat
  ow_callback :: bool

text \<open>\<open>uxr_buffer_submessage_header\<close>: from the position on, with the identifier, the length and the flags, what becomes of
  the octets of the slot.\<close>

type_synonym header_writer = "nat \<Rightarrow> u8 \<Rightarrow> u16 \<Rightarrow> u8 \<Rightarrow> u8 list \<Rightarrow> u8 list"

definition put_fragment_header :: "header_writer \<Rightarrow> uxrSeqNum \<Rightarrow> u16 \<Rightarrow> u8 \<Rightarrow> uxrOutputReliableStream \<Rightarrow> uxrOutputReliableStream" where
  "put_fragment_header put seq_num fragment_size flags stream =
     (let base = uos_base stream; p = rs_position base seq_num; octets = uxr_get_reliable_buffer base seq_num
      in stream\<lparr>uos_base := base\<lparr>rs_slots := (rs_slots base)[p := (rs_slots base ! p)\<lparr>sl_octets :=
           put (uos_size stream seq_num) SUBMESSAGE_ID_FRAGMENT fragment_size flags octets\<rparr>]\<rparr>\<rparr>)"

text \<open>The complete fragments: each is the rest of its slot.\<close>

fun write_fragments :: "header_writer \<Rightarrow> nat \<Rightarrow> u16 \<Rightarrow> u16 \<Rightarrow> uxrSeqNum \<Rightarrow> uxrOutputReliableStream \<Rightarrow> uxrSeqNum \<times> uxrOutputReliableStream" where
  "write_fragments put 0 fragment_size available_block_size seq_num stream = (seq_num, stream)"
| "write_fragments put (Suc i) fragment_size available_block_size seq_num stream =
     (let stream = put_fragment_header put seq_num fragment_size 0 stream;
          stream = uos_set_size seq_num (uxr_get_reliable_buffer_capacity (uos_base stream)) stream
      in write_fragments put i available_block_size available_block_size (uxr_seq_num_add seq_num 1) stream)"

definition get_available_free_slots :: "uxrOutputReliableStream \<Rightarrow> u16" where
  "get_available_free_slots stream =
     of_nat (length (filter (\<lambda>i. uos_size stream (of_nat i) = uos_offset stream) [0..<unat (rs_history (uos_base stream))]))"

text \<open>A message in fragments. The sizes are cast to 16 bits, and the division is by the room of a slot.\<close>

definition write_fragmented :: "header_writer \<Rightarrow> nat \<Rightarrow> uxrOutputReliableStream \<Rightarrow>
    client_fault + reliable_window option \<times> uxrOutputReliableStream" where
  "write_fragmented put len stream =
     (let base = uos_base stream; offset = uos_offset stream; buffer_capacity = uxr_get_reliable_buffer_capacity base;
          seq_num = uos_last_written stream;
          seq_num = (if uos_size stream seq_num + SUBHEADER_SIZE \<ge> buffer_capacity then uxr_seq_num_add seq_num 1 else seq_num);
          buffer_size = uos_size stream seq_num;
          remaining_blocks = get_available_free_slots stream;
          available_block_size = word_of_int (int buffer_capacity - int (offset + SUBHEADER_SIZE)) :: u16;
          first_fragment_size = word_of_int (int buffer_capacity - int (buffer_size + SUBHEADER_SIZE)) :: u16;
          remaining_size = word_of_int (int len - uint first_fragment_size) :: u16
      in if available_block_size = 0 then Inl Undefined
         else
           let (last_fragment_size, necessary_complete_blocks) =
                 (if remaining_size mod available_block_size = 0 then (available_block_size, remaining_size div available_block_size)
                  else (remaining_size mod available_block_size, remaining_size div available_block_size + 1))
           in if necessary_complete_blocks \<le> remaining_blocks
              then let (last, stream) = write_fragments put (unat necessary_complete_blocks) first_fragment_size available_block_size seq_num stream;
                       stream = put_fragment_header put last last_fragment_size FLAG_LAST_FRAGMENT stream;
                       stream = uos_set_size last (offset + SUBHEADER_SIZE + unat last_fragment_size) stream
                   in Inr (Some \<lparr>ow_slot = rs_position base seq_num, ow_from = buffer_size + SUBHEADER_SIZE, ow_final = buffer_capacity,
                             ow_callback = True\<rparr>, stream\<lparr>uos_last_written := last\<rparr>)
              else Inr (None, stream))"

definition uxr_prepare_reliable_buffer_to_write :: "header_writer \<Rightarrow> nat \<Rightarrow> uxrOutputReliableStream \<Rightarrow>
    client_fault + reliable_window option \<times> uxrOutputReliableStream" where
  "uxr_prepare_reliable_buffer_to_write put len stream =
     (let base = uos_base stream; seq_num = uos_last_written stream; offset = uos_offset stream;
          buffer_capacity = uxr_get_reliable_buffer_capacity base; buffer_size = uos_size stream seq_num;
          last_available = uxr_seq_num_add (uos_last_acknown stream) (rs_history base)
      in if buffer_size + len \<le> buffer_capacity
         then Inr (if 0 \<ge> uxr_seq_num_cmp seq_num last_available
                   then (Some \<lparr>ow_slot = rs_position base seq_num, ow_from = buffer_size, ow_final = buffer_size + len, ow_callback = False\<rparr>,
                         uos_set_size seq_num (buffer_size + len) stream)
                   else (None, stream))
         else if offset + len \<le> buffer_capacity
         then (let seq_num = uxr_seq_num_add seq_num 1
               in Inr (if 0 \<ge> uxr_seq_num_cmp seq_num last_available
                       then (Some \<lparr>ow_slot = rs_position base seq_num, ow_from = offset, ow_final = offset + len, ow_callback = False\<rparr>,
                             (uos_set_size seq_num (offset + len) stream)\<lparr>uos_last_written := seq_num\<rparr>)
                       else (None, stream)))
         else write_fragmented put len stream)"

text \<open>The callback of a fragmented message: the room of the next slot, after its headers.\<close>

definition on_full_output_buffer :: "nat \<Rightarrow> uxrOutputReliableStream \<Rightarrow> client_fault + reliable_window" where
  "on_full_output_buffer init_slot stream =
     (let history_position = of_nat (1 + init_slot) :: u16; buffer_size = uos_size stream history_position
      in if buffer_size < uos_offset stream + SUBHEADER_SIZE then Inl Overrun
         else Inr \<lparr>ow_slot = rs_position (uos_base stream) history_position, ow_from = uos_offset stream + SUBHEADER_SIZE,
                ow_final = buffer_size, ow_callback = True\<rparr>)"

section \<open>Sending\<close>

text \<open>The number and the length of what is to be sent, if anything is.\<close>

definition uxr_prepare_next_reliable_buffer_to_send :: "uxrOutputReliableStream \<Rightarrow> (uxrSeqNum \<times> nat) option \<times> uxrOutputReliableStream" where
  "uxr_prepare_next_reliable_buffer_to_send stream =
     (let seq_num = uxr_seq_num_add (uos_last_sent stream) 1; len = uos_size stream seq_num;
          data_to_send = 0 \<ge> uxr_seq_num_cmp seq_num (uos_last_written stream) \<and> len > uos_offset stream \<and>
            uxr_seq_num_sub (uos_last_sent stream) (uos_last_acknown stream) \<noteq> rs_history (uos_base stream)
      in if data_to_send
         then (Some (seq_num, len), stream\<lparr>uos_last_sent := seq_num, uos_last_written :=
                 (if seq_num = uos_last_written stream then uxr_seq_num_add (uos_last_written stream) 1 else uos_last_written stream)\<rparr>)
         else (None, stream))"

text \<open>Time is 64 bits wide, and a sum or a shift beyond that is not defined.\<close>

definition in_int64 :: "int \<Rightarrow> bool" where "in_int64 x \<longleftrightarrow> - (2 ^ 63) \<le> x \<and> x < 2 ^ 63"

definition uxr_update_output_stream_heartbeat_timestamp :: "int \<Rightarrow> uxrOutputReliableStream \<Rightarrow> client_fault + bool \<times> uxrOutputReliableStream" where
  "uxr_update_output_stream_heartbeat_timestamp current_timestamp stream =
     (if 0 > uxr_seq_num_cmp (uos_last_acknown stream) (uos_last_sent stream)
      then if uos_next_heartbeat_tries stream = 0
           then if in_int64 (current_timestamp + MIN_HEARTBEAT_TIME_INTERVAL)
                then Inr (False, stream\<lparr>uos_next_heartbeat_timestamp := current_timestamp + MIN_HEARTBEAT_TIME_INTERVAL,
                            uos_next_heartbeat_tries := 1\<rparr>)
                else Inl Undefined
           else if current_timestamp \<ge> uos_next_heartbeat_timestamp stream
           then (let increment = push_bit (unat (uos_next_heartbeat_tries stream) mod MAX_HEARTBEAT_TRIES) MIN_HEARTBEAT_TIME_INTERVAL;
                     difference = current_timestamp - uos_next_heartbeat_timestamp stream;
                     next_heartbeat = uos_next_heartbeat_timestamp stream + (if difference > increment then difference else increment)
                 in if in_int64 increment \<and> in_int64 difference \<and> in_int64 next_heartbeat
                    then Inr (True, stream\<lparr>uos_next_heartbeat_timestamp := next_heartbeat,
                                uos_next_heartbeat_tries := uos_next_heartbeat_tries stream + 1\<rparr>)
                    else Inl Undefined)
           else Inr (False, stream)
      else Inr (False, stream\<lparr>uos_next_heartbeat_timestamp := INT64_MAX\<rparr>))"

section \<open>Acknowledgements\<close>

definition uxr_begin_output_nack_buffer_it :: "uxrOutputReliableStream \<Rightarrow> uxrSeqNum" where
  "uxr_begin_output_nack_buffer_it stream = uos_last_acknown stream"

lemma seq_dist_adv_1: "seq_dist (seq_adv a 1) b = (if a = b then 65535 else seq_dist a b - 1)"
proof (cases "a = b")
  case True
  then have "seq_dist (seq_adv a 1) b = seq_dist (seq_adv a 1) (seq_adv (seq_adv a 1) 65535)"
    using sn.adv_wrap [of a] by (simp add: sn.adv_adv)
  then show ?thesis using True by (simp add: sn.dist_adv del: One_nat_def)
next
  case False
  then obtain d where d: "seq_dist a b = Suc d" using sn.adv_dist [of a b] sn.adv_0 [of a] by (cases "seq_dist a b") auto
  then have b: "b = seq_adv (seq_adv a 1) d" using sn.adv_dist [of a b] by (simp add: sn.adv_adv)
  have "d < 65536" using sn.dist_less [of a b] d by simp
  then have "seq_dist (seq_adv a 1) b = d" by (subst b) (simp add: sn.dist_adv)
  then show ?thesis using d False by simp
qed

lemma scan_nearer:
  assumes le: "uxr_seq_num_cmp (uxr_seq_num_add it 1) l \<le> 0"
  shows "seq_dist (uxr_seq_num_add it 1) l < seq_dist it l"
proof -
  have "it \<noteq> l"
    using le sn.lt_adv [of 1 it] sn.lt_asym [of it "seq_adv it 1"] by (auto simp: sn.adv_inject [of 0 _ 1] sn.adv_0)
  moreover from this have "0 < seq_dist it l"
    using sn.adv_dist [of it l] by (cases "seq_dist it l") (auto simp: sn.adv_0)
  ultimately show ?thesis by (simp add: seq_dist_adv_1 del: One_nat_def)
qed

text \<open>The loop ends: as long as it goes on, the iterator comes nearer to the last number sent.\<close>

function nack_scan :: "uxrOutputReliableStream \<Rightarrow> uxrSeqNum \<Rightarrow> uxrSeqNum option" where
  "nack_scan stream seq_num_it =
     (let seq_num_it = uxr_seq_num_add seq_num_it 1
      in if 0 \<ge> uxr_seq_num_cmp seq_num_it (uos_last_sent stream)
         then if uos_size stream seq_num_it \<noteq> uos_offset stream then Some seq_num_it else nack_scan stream seq_num_it
         else None)"
  by pat_completeness auto

termination
  by (relation "measure (\<lambda>(stream, it). seq_dist it (uos_last_sent stream))") (simp, hypsubst, unfold in_measure prod.case, erule scan_nearer)

declare nack_scan.simps [simp del]

text \<open>The new iterator and the length of its message, or that there is none: then nothing is lost any more.\<close>

definition uxr_next_reliable_nack_buffer_to_send :: "uxrSeqNum \<Rightarrow> uxrOutputReliableStream \<Rightarrow> (uxrSeqNum \<times> nat) option \<times> uxrOutputReliableStream" where
  "uxr_next_reliable_nack_buffer_to_send seq_num_it stream =
     (if uos_send_lost stream
      then (case nack_scan stream seq_num_it of
              Some seq_num \<Rightarrow> (Some (seq_num, uos_size stream seq_num), stream)
            | None \<Rightarrow> (None, stream\<lparr>uos_send_lost := False\<rparr>))
      else (None, stream))"

definition acknowledge_next :: "uxrOutputReliableStream \<Rightarrow> uxrOutputReliableStream" where
  "acknowledge_next stream =
     (let last_acknown = uxr_seq_num_add (uos_last_acknown stream) 1
      in uos_set_size last_acknown (uos_offset stream) (stream\<lparr>uos_last_acknown := last_acknown\<rparr>))"

definition uxr_process_acknack :: "u16 \<Rightarrow> uxrSeqNum \<Rightarrow> uxrOutputReliableStream \<Rightarrow> uxrOutputReliableStream" where
  "uxr_process_acknack bitmap first_unacked_seq_num stream =
     (let last_acked_seq_num = uxr_seq_num_sub first_unacked_seq_num 1;
          buffers_to_clean = unat (uxr_seq_num_sub last_acked_seq_num (uos_last_acknown stream))
      in ((acknowledge_next ^^ buffers_to_clean) stream)\<lparr>uos_send_lost := 0 < bitmap, uos_next_heartbeat_tries := 0\<rparr>)"

definition uxr_is_output_up_to_date :: "uxrOutputReliableStream \<Rightarrow> bool" where
  "uxr_is_output_up_to_date stream \<longleftrightarrow> 0 = uxr_seq_num_cmp (uos_last_acknown stream) (uos_last_sent stream)"

end
