(* ===== verification/ClientWrites.thy ===== *)
theory ClientWrites
  imports ClientOutput
begin

text \<open>
  What the reliable output stream of the client promises: over unbounded numbers it is a sliding window of messages. The
  specification is a record of three numbers and the payload of every message; the operations below write a submessage,
  send the next message and send again what is not acknowledged, as \<open>session.c\<close> does.
\<close>

section \<open>Operations\<close>

definition uos_octets :: "uxrOutputReliableStream \<Rightarrow> uxrSeqNum \<Rightarrow> u8 list" where
  "uos_octets stream = uxr_get_reliable_buffer (uos_base stream)"

definition uos_copy :: "uxrSeqNum \<Rightarrow> nat \<Rightarrow> u8 list \<Rightarrow> uxrOutputReliableStream \<Rightarrow> client_fault + uxrOutputReliableStream" where
  "uos_copy seq_num offset octets stream = map_sum (\<lambda>e. e) (\<lambda>base. stream\<lparr>uos_base := base\<rparr>) (rs_copy seq_num offset octets (uos_base stream))"

text \<open>A submessage that needs no fragments is written into the window it is given.\<close>

definition write_submessage :: "header_writer \<Rightarrow> u8 list \<Rightarrow> uxrOutputReliableStream \<Rightarrow> client_fault + bool \<times> uxrOutputReliableStream" where
  "write_submessage put octets stream =
     c_then (uxr_prepare_reliable_buffer_to_write put (length octets) stream) (\<lambda>(window, stream).
       case window of
         None \<Rightarrow> Inr (False, stream)
       | Some ub \<Rightarrow> c_then (uos_copy (uos_last_written stream) (ow_from ub) octets stream) (\<lambda>stream. Inr (True, stream)))"

text \<open>The body of the loop over a stream in \<open>uxr_flash_output_streams\<close>: \<open>stamp\<close> is the header of the message, as
  \<open>uxr_stamp_session_header\<close> writes it at the start of the buffer.\<close>

definition flash_next :: "(uxrSeqNum \<Rightarrow> u8 list) \<Rightarrow> uxrOutputReliableStream \<Rightarrow>
    client_fault + (uxrSeqNum \<times> u8 list) option \<times> uxrOutputReliableStream" where
  "flash_next stamp stream =
     (case uxr_prepare_next_reliable_buffer_to_send stream of
        (None, stream) \<Rightarrow> Inr (None, stream)
      | (Some (seq_num, len), stream) \<Rightarrow>
          c_then (uos_copy seq_num 0 (stamp seq_num) stream) (\<lambda>stream. Inr (Some (seq_num, take len (uos_octets stream seq_num)), stream)))"

lemma nack_scan_nearer: "nack_scan stream it = Some q \<Longrightarrow> seq_dist q (uos_last_sent stream) < seq_dist it (uos_last_sent stream)"
proof (induction stream it rule: nack_scan.induct)
  case (1 stream it)
  let ?x = "uxr_seq_num_add it 1" and ?l = "uos_last_sent stream"
  from 1(2) have le: "uxr_seq_num_cmp ?x ?l \<le> 0"
    and q: "q = ?x \<or> uos_size stream ?x = uos_offset stream \<and> nack_scan stream ?x = Some q"
    by (subst (asm) nack_scan.simps; auto simp: Let_def split: if_splits)+
  from scan_nearer [OF le] 1(1) [OF refl le] q show ?case by fastforce
qed

text \<open>The loop in \<open>read_submessage_acknack\<close>, from an iterator on.\<close>

function send_lost_from :: "uxrSeqNum \<Rightarrow> uxrOutputReliableStream \<Rightarrow> (uxrSeqNum \<times> u8 list) list \<times> uxrOutputReliableStream" where
  "send_lost_from it stream =
     (case uxr_next_reliable_nack_buffer_to_send it stream of
        (None, stream') \<Rightarrow> ([], stream')
      | (Some (seq_num, len), stream') \<Rightarrow>
          (let (rest, stream'') = send_lost_from seq_num stream' in ((seq_num, take len (uos_octets stream seq_num)) # rest, stream'')))"
  by pat_completeness auto

termination
  by (relation "measure (\<lambda>(it, stream). seq_dist it (uos_last_sent stream))")
    (auto simp: uxr_next_reliable_nack_buffer_to_send_def nack_scan_nearer split: if_splits option.splits)

declare send_lost_from.simps [simp del]

section \<open>The window\<close>

text \<open>Message \<open>k\<close> has the payload \<open>ws_data k\<close>; \<open>ws_written\<close> is the one being written, and may be one more than there are slots.\<close>

record window_spec =
  ws_acked :: nat
  ws_sent :: nat
  ws_written :: nat
  ws_data :: "nat \<Rightarrow> u8 list"

definition ws_init :: window_spec where
  "ws_init = \<lparr>ws_acked = 0, ws_sent = 0, ws_written = 1, ws_data = (\<lambda>_. [])\<rparr>"

text \<open>With \<open>H\<close> slots, each with room for \<open>room\<close> octets of payload.\<close>

definition ws_write :: "nat \<Rightarrow> nat \<Rightarrow> u8 list \<Rightarrow> window_spec \<Rightarrow> bool \<times> window_spec" where
  "ws_write H room octets a =
     (let w = ws_written a; full = ws_acked a + H in
      if w \<le> full \<and> length (ws_data a w) + length octets \<le> room
      then (True, a\<lparr>ws_data := (ws_data a)(w := ws_data a w @ octets)\<rparr>)
      else if w < full then (True, a\<lparr>ws_written := Suc w, ws_data := (ws_data a)(Suc w := octets)\<rparr>)
      else (False, a))"

definition ws_send :: "nat \<Rightarrow> window_spec \<Rightarrow> bool \<times> window_spec" where
  "ws_send H a =
     (if ws_sent a < ws_acked a + H \<and> ws_data a (Suc (ws_sent a)) \<noteq> []
      then (True, a\<lparr>ws_sent := Suc (ws_sent a), ws_written := max (ws_written a) (ws_sent a + 2)\<rparr>)
      else (False, a))"

definition ws_ok :: "nat \<Rightarrow> nat \<Rightarrow> window_spec \<Rightarrow> bool" where
  "ws_ok H room a \<longleftrightarrow> ws_acked a \<le> ws_sent a \<and> ws_sent a < ws_written a \<and> ws_sent a \<le> ws_acked a + H \<and>
     ws_written a \<le> Suc (ws_acked a + H) \<and> (\<forall>k. ws_written a < k \<or> ws_acked a + H < k \<longrightarrow> ws_data a k = []) \<and>
     (\<forall>k. ws_acked a < k \<and> k < ws_written a \<longrightarrow> ws_data a k \<noteq> []) \<and> (\<forall>k > ws_acked a. length (ws_data a k) \<le> room)"

lemma ws_write_ok:
  assumes "ws_ok H room a" and "octets \<noteq> []" and "length octets \<le> room"
  shows "ws_ok H room (snd (ws_write H room octets a))"
  using assms by (auto simp: ws_ok_def ws_write_def Let_def less_Suc_eq)

lemma ws_send_ok: "ws_ok H room a \<Longrightarrow> ws_ok H room (snd (ws_send H a))"
  by (fastforce simp: ws_ok_def ws_send_def less_Suc_eq max_def)

lemma ws_ack_ok: "ws_ok H room a \<Longrightarrow> ws_acked a \<le> k \<Longrightarrow> k \<le> ws_sent a \<Longrightarrow> ws_ok H room (a\<lparr>ws_acked := k\<rparr>)"
  by (auto simp: ws_ok_def)

text \<open>A slot of the window: its length, its payload, and the header once it has been sent.\<close>

definition slot_holds :: "(uxrSeqNum \<Rightarrow> u8 list) \<Rightarrow> window_spec \<Rightarrow> uxrOutputReliableStream \<Rightarrow> nat \<Rightarrow> bool" where
  "slot_holds stamp a stream k \<longleftrightarrow>
     uos_size stream (sq k) = uos_offset stream + length (ws_data a k) \<and>
     take (length (ws_data a k)) (drop (uos_offset stream) (uos_octets stream (sq k))) = ws_data a k \<and>
     (k \<le> ws_sent a \<longrightarrow> take (uos_offset stream) (uos_octets stream (sq k)) = stamp (sq k))"

definition ws_rel :: "(uxrSeqNum \<Rightarrow> u8 list) \<Rightarrow> nat \<Rightarrow> nat \<Rightarrow> uxrOutputReliableStream \<Rightarrow> window_spec \<Rightarrow> bool" where
  "ws_rel stamp H room stream a \<longleftrightarrow>
     rs_ok (uos_base stream) \<and> unat (rs_history (uos_base stream)) = H \<and> H < 32768 \<and>
     uxr_get_reliable_buffer_capacity (uos_base stream) = uos_offset stream + room \<and>
     (\<forall>q. length (stamp q) = uos_offset stream) \<and>
     uos_last_written stream = sq (ws_written a) \<and> uos_last_sent stream = sq (ws_sent a) \<and> uos_last_acknown stream = sq (ws_acked a) \<and>
     ws_ok H room a \<and> (\<forall>k. ws_acked a < k \<and> k \<le> ws_acked a + H \<longrightarrow> slot_holds stamp a stream k)"

lemma ws_relD:
  assumes "ws_rel stamp H room stream a"
  shows "rs_ok (uos_base stream)" "unat (rs_history (uos_base stream)) = H" "H < 32768" "0 < H"
    "uxr_get_reliable_buffer_capacity (uos_base stream) = uos_offset stream + room" "length (stamp q) = uos_offset stream"
    "uos_last_written stream = sq (ws_written a)" "uos_last_sent stream = sq (ws_sent a)" "uos_last_acknown stream = sq (ws_acked a)"
    "ws_ok H room a" "ws_acked a < k \<Longrightarrow> k \<le> ws_acked a + H \<Longrightarrow> slot_holds stamp a stream k"
    "uos_offset stream + room < 2 ^ 32" "length (uos_octets stream q) = uos_offset stream + room"
  using assms rs_okD(1,6) [of "uos_base stream"] by (auto simp: ws_rel_def rs_ok_def uos_octets_def)

lemma ws_okD:
  assumes "ws_ok H room a"
  shows "ws_acked a \<le> ws_sent a" "ws_sent a < ws_written a" "ws_sent a \<le> ws_acked a + H" "ws_written a \<le> Suc (ws_acked a + H)"
    "ws_written a < k \<Longrightarrow> ws_data a k = []" "ws_acked a + H < k \<Longrightarrow> ws_data a k = []"
    "ws_acked a < k \<Longrightarrow> k < ws_written a \<Longrightarrow> ws_data a k \<noteq> []" "ws_acked a < k \<Longrightarrow> length (ws_data a k) \<le> room"
  using assms by (auto simp: ws_ok_def)

text \<open>The operations on a slot, as the stream sees them.\<close>

lemma uos_fields [simp]:
  "uos_offset (uos_set_size q n s) = uos_offset s" "uos_last_written (uos_set_size q n s) = uos_last_written s"
  "uos_last_sent (uos_set_size q n s) = uos_last_sent s" "uos_last_acknown (uos_set_size q n s) = uos_last_acknown s"
  "uos_send_lost (uos_set_size q n s) = uos_send_lost s"
  "uos_base (uos_set_size q n s) = uxr_set_reliable_buffer_size q n (uos_base s)"
  by (simp_all add: uos_set_size_def)

lemma uos_same_base: "uos_base t = uos_base s \<Longrightarrow> uos_size t = uos_size s" "uos_base t = uos_base s \<Longrightarrow> uos_octets t = uos_octets s"
  by (simp_all add: uos_size_def uos_octets_def fun_eq_iff)

lemma uos_set:
  assumes "rs_ok (uos_base s)" and "n < 2 ^ 32"
  shows "uos_size (uos_set_size q n s) r = (if rs_position (uos_base s) r = rs_position (uos_base s) q then n else uos_size s r)"
    "uos_octets (uos_set_size q n s) r = uos_octets s r"
proof -
  have "unat (of_nat n :: u32) = n" using assms(2) by (intro unat_of_nat_less) simp
  then show "uos_size (uos_set_size q n s) r = (if rs_position (uos_base s) r = rs_position (uos_base s) q then n else uos_size s r)"
    "uos_octets (uos_set_size q n s) r = uos_octets s r"
    by (simp_all add: uos_size_def uos_octets_def uos_set_size_def rs_set_slot [OF assms(1)])
qed

lemma uos_copied_ex:
  assumes "rs_ok (uos_base s)" and "off + length octets \<le> uxr_get_reliable_buffer_capacity (uos_base s)"
  shows "\<exists>base. uos_copy q off octets s = Inr (s\<lparr>uos_base := base\<rparr>)"
  using rs_copy_fits [OF assms, of q] by (auto simp: uos_copy_def)

lemma uos_copied:
  assumes "uos_copy q off octets s = Inr (s\<lparr>uos_base := base\<rparr>)" and "rs_ok (uos_base s)"
  shows "rs_ok base" "rs_history base = rs_history (uos_base s)"
    "uxr_get_reliable_buffer_capacity base = uxr_get_reliable_buffer_capacity (uos_base s)" "uos_size (s\<lparr>uos_base := base\<rparr>) = uos_size s"
    "uos_octets (s\<lparr>uos_base := base\<rparr>) r = (if rs_position (uos_base s) r = rs_position (uos_base s) q
       then take off (uos_octets s q) @ octets @ drop (off + length octets) (uos_octets s q) else uos_octets s r)"
proof -
  have "rs_copy q off octets (uos_base s) = Inr base"
    using assms(1) by (cases "rs_copy q off octets (uos_base s)") (auto simp: uos_copy_def dest: arg_cong [of _ _ uos_base])
  note C = rs_copied [OF assms(2) this]
  show "rs_ok base" "rs_history base = rs_history (uos_base s)"
    "uxr_get_reliable_buffer_capacity base = uxr_get_reliable_buffer_capacity (uos_base s)" "uos_size (s\<lparr>uos_base := base\<rparr>) = uos_size s"
    "uos_octets (s\<lparr>uos_base := base\<rparr>) r = (if rs_position (uos_base s) r = rs_position (uos_base s) q
       then take off (uos_octets s q) @ octets @ drop (off + length octets) (uos_octets s q) else uos_octets s r)"
    by (simp_all add: C uos_size_def uos_octets_def fun_eq_iff)
qed

section \<open>Writing, sending, acknowledging\<close>

lemma take_drop_write:
  assumes "take (length d) (drop off xs) = d" and "off + length d + length ys \<le> length xs"
  shows "take (length (d @ ys)) (drop off (take (off + length d) xs @ ys @ zs)) = d @ ys"
proof -
  have "drop off (take (off + length d) xs) = d" using assms(1) by (simp add: drop_take)
  then show ?thesis using assms(2) by simp
qed

lemma ws_rel_store:
  assumes rel: "ws_rel stamp H room s a" and k: "ws_acked a < k" "k \<le> ws_acked a + H" "ws_sent a < k"
    and fits: "length (ws_data a k) + length octets \<le> room"
    and ok: "ws_ok H room (a\<lparr>ws_written := k, ws_data := (ws_data a)(k := ws_data a k @ octets)\<rparr>)"
  obtains t where "uos_copy (sq k) (uos_offset s + length (ws_data a k)) octets
      (uos_set_size (sq k) (uos_offset s + length (ws_data a k) + length octets) (s\<lparr>uos_last_written := sq k\<rparr>)) = Inr t"
    "ws_rel stamp H room t (a\<lparr>ws_written := k, ws_data := (ws_data a)(k := ws_data a k @ octets)\<rparr>)"
proof -
  note D = ws_relD [OF rel]
  let ?d = "ws_data a k" and ?n = "uos_offset s + length (ws_data a k)"
  let ?a = "a\<lparr>ws_written := k, ws_data := (ws_data a)(k := ?d @ octets)\<rparr>"
  let ?s = "uos_set_size (sq k) (?n + length octets) (s\<lparr>uos_last_written := sq k\<rparr>)"
  have small: "?n + length octets < 2 ^ 32" using D(12) fits by simp
  have ok_base: "rs_ok (uos_base ?s)" using D(1) by (simp add: rs_set_slot)
  have room: "?n + length octets \<le> uxr_get_reliable_buffer_capacity (uos_base ?s)" using fits D(5) by simp
  obtain base where base: "uos_copy (sq k) ?n octets ?s = Inr (?s\<lparr>uos_base := base\<rparr>)"
    using uos_copied_ex [OF ok_base room, of "sq k"] by blast
  note B = uos_copied [OF base ok_base]
  define t where "t = ?s\<lparr>uos_base := base\<rparr>"
  have fields: "uos_base t = base" "uos_offset t = uos_offset s" "uos_last_written t = sq k" "uos_last_sent t = uos_last_sent s" "uos_last_acknown t = uos_last_acknown s"
    by (simp_all add: t_def)
  have pos: "rs_position (uos_base s) (sq j) = rs_position (uos_base s) (sq k) \<longleftrightarrow> j = k" if "ws_acked a < j" "j \<le> ws_acked a + H" for j
    using rs_position_window [OF D(1), of j "ws_acked a" k] that k D(2) by simp
  have size: "uos_size t (sq j) = (if j = k then ?n + length octets else uos_size s (sq j))"
    and octets: "uos_octets t (sq j) = (if j = k then take ?n (uos_octets s (sq k)) @ octets @ drop (?n + length octets) (uos_octets s (sq k)) else uos_octets s (sq j))"
    if "ws_acked a < j" "j \<le> ws_acked a + H" for j
    unfolding t_def B(4,5) using pos [OF that] D(1) small uos_same_base [of "s\<lparr>uos_last_written := sq k\<rparr>" s]
    by (simp_all add: uos_set)
  have "slot_holds stamp ?a t j" if j: "ws_acked a < j" "j \<le> ws_acked a + H" for j
  proof (cases "j = k")
    case True
    have holds: "slot_holds stamp a s k" using D(11) k by simp
    then have "take (length (?d @ octets)) (drop (uos_offset s) (uos_octets t (sq k))) = ?d @ octets"
      unfolding octets [OF k(1,2)] slot_holds_def by (simp only: simp_thms if_True, intro take_drop_write) (use fits D(13) in auto)
    then show ?thesis using True k size [OF k(1,2)] by (simp add: slot_holds_def fields)
  next
    case False
    then show ?thesis using D(11) [OF j] size [OF j] octets [OF j] by (simp add: slot_holds_def fields)
  qed
  then have "ws_rel stamp H room t ?a"
    using B(1-3) D ok by (simp add: ws_rel_def fields)
  with base that [of t] show ?thesis by (simp only: t_def)
qed

lemma window_cmp:
  assumes "w \<le> Suc (a + H)" and "a < w" and "H < 32768" and "unat history = H"
  shows "uxr_seq_num_cmp (sq w) (uxr_seq_num_add (sq a) history) \<le> 0 \<longleftrightarrow> w \<le> a + H"
  using sq_lt [of w "a + H"] sq_inject [of "w - a" H a] assms by (auto simp: sq_add [symmetric])

lemma ws_rel_write:
  assumes rel: "ws_rel stamp H room s a" and octets: "octets \<noteq> []" "length octets \<le> room"
  obtains t where "write_submessage put octets s = Inr (fst (ws_write H room octets a), t)" "ws_rel stamp H room t (snd (ws_write H room octets a))"
proof -
  note D = ws_relD [OF rel]
  note W = ws_okD [OF D(10)]
  let ?w = "ws_written a" and ?full = "ws_acked a + H" and ?d = "ws_data a (ws_written a)"
  have ok: "ws_ok H room (snd (ws_write H room octets a))" by (rule ws_write_ok [OF D(10) octets])
  have w: "ws_acked a < ?w" using W by simp
  have last: "uxr_seq_num_cmp (sq k) (uxr_seq_num_add (sq (ws_acked a)) (rs_history (uos_base s))) \<le> 0 \<longleftrightarrow> k \<le> ?full"
    if "k \<le> Suc ?full" "ws_acked a < k" for k
    using window_cmp [of k "ws_acked a" H "rs_history (uos_base s)"] that D(2,3) by simp
  show ?thesis
  proof (cases "?w \<le> ?full")
    case True
    then have size: "uos_size s (sq ?w) = uos_offset s + length ?d" using D(11) w by (simp add: slot_holds_def)
    show ?thesis
    proof (cases "length ?d + length octets \<le> room")
      case fits: True
      obtain t where t: "uos_copy (sq ?w) (uos_offset s + length ?d) octets
          (uos_set_size (sq ?w) (uos_offset s + length ?d + length octets) (s\<lparr>uos_last_written := sq ?w\<rparr>)) = Inr t"
        "ws_rel stamp H room t (a\<lparr>ws_written := ?w, ws_data := (ws_data a)(?w := ?d @ octets)\<rparr>)"
        by (rule ws_rel_store [OF rel w True _ fits]) (use W(2) ok True fits in \<open>auto simp: ws_write_def Let_def\<close>)
      have "s\<lparr>uos_last_written := sq ?w\<rparr> = s" using D(7) by simp
      with t that show ?thesis using True fits w last [of ?w]
        by (simp add: write_submessage_def uxr_prepare_reliable_buffer_to_write_def Let_def D(5,7,9) size ws_write_def)
    next
      case False
      show ?thesis
      proof (cases "?w < ?full")
        case lt: True
        have empty: "ws_data a (Suc ?w) = []" by (rule W(5)) simp
        obtain t where t: "uos_copy (sq (Suc ?w)) (uos_offset s + length (ws_data a (Suc ?w))) octets
            (uos_set_size (sq (Suc ?w)) (uos_offset s + length (ws_data a (Suc ?w)) + length octets) (s\<lparr>uos_last_written := sq (Suc ?w)\<rparr>)) = Inr t"
          "ws_rel stamp H room t (a\<lparr>ws_written := Suc ?w, ws_data := (ws_data a)(Suc ?w := ws_data a (Suc ?w) @ octets)\<rparr>)"
          by (rule ws_rel_store [OF rel, of "Suc ?w"]) (use W(2) w ok lt False octets empty in \<open>auto simp: ws_write_def Let_def\<close>)
        have comm: "uos_set_size q n (s\<lparr>uos_last_written := l\<rparr>) = (uos_set_size q n s)\<lparr>uos_last_written := l\<rparr>" for q n l
          by (simp add: uos_set_size_def)
        from t that show ?thesis using True False lt w last [of "Suc ?w"] octets
          by (simp add: write_submessage_def uxr_prepare_reliable_buffer_to_write_def Let_def D(5,7,9) size ws_write_def empty comm)
      next
        case False
        with \<open>\<not> length ?d + length octets \<le> room\<close> that [of s] rel show ?thesis using True w last [of "Suc ?w"] octets
          by (simp add: write_submessage_def uxr_prepare_reliable_buffer_to_write_def Let_def D(5,7,9) size ws_write_def)
      qed
    qed
  next
    case False
    then have beyond: "?w = Suc ?full" using W(4) by simp
    have "\<not> uxr_seq_num_cmp (sq (Suc ?w)) (uxr_seq_num_add (sq (ws_acked a)) (rs_history (uos_base s))) \<le> 0"
      using sq_lt [of "Suc ?w" ?full] sq_inject [of "H + 2" H "ws_acked a"] D(2,3) beyond by (auto simp: sq_add [symmetric])
    then show ?thesis using that [of s] rel False w last [of ?w] beyond octets
      by (simp add: write_submessage_def uxr_prepare_reliable_buffer_to_write_def Let_def D(5,7,9) ws_write_def)
  qed
qed

lemma sq_eq: "a \<le> m \<Longrightarrow> a \<le> n \<Longrightarrow> m < a + 65536 \<Longrightarrow> n < a + 65536 \<Longrightarrow> sq m = sq n \<longleftrightarrow> m = n"
  using sq_inject [of "m - a" "n - a" a] by auto

lemma ws_rel_send:
  assumes rel: "ws_rel stamp H room s a"
  obtains t where "flash_next stamp s = Inr (if fst (ws_send H a)
      then Some (sq (Suc (ws_sent a)), stamp (sq (Suc (ws_sent a))) @ ws_data a (Suc (ws_sent a))) else None, t)"
    "ws_rel stamp H room t (snd (ws_send H a))"
proof -
  note D = ws_relD [OF rel]
  note W = ws_okD [OF D(10)]
  let ?s = "ws_sent a" and ?k = "Suc (ws_sent a)" and ?full = "ws_acked a + H"
  have next_s: "uxr_seq_num_add (uos_last_sent s) 1 = sq ?k" by (simp add: D(8))
  have reached: "uxr_seq_num_cmp (sq ?k) (sq (ws_written a)) \<le> 0"
    using sq_lt [of ?k "ws_written a"] W(1-4) D(3) by (cases "?k = ws_written a") auto
  have room_left: "uxr_seq_num_sub (sq ?s) (sq (ws_acked a)) \<noteq> rs_history (uos_base s) \<longleftrightarrow> ?s < ?full"
  proof -
    have "unat (uxr_seq_num_sub (sq ?s) (sq (ws_acked a))) = ?s - ws_acked a"
      using sn.dist_adv [of "?s - ws_acked a" "sq (ws_acked a)"] W(1,3) D(3) by (simp add: uxr_sub_dist flip: sq_add)
    then show ?thesis using D(2) W(1,3) by (auto simp: word_unat_eq_iff)
  qed
  show ?thesis
  proof (cases "?s < ?full")
    case False
    then have "fst (uxr_prepare_next_reliable_buffer_to_send s) = None" "snd (uxr_prepare_next_reliable_buffer_to_send s) = s"
      using room_left by (simp_all add: uxr_prepare_next_reliable_buffer_to_send_def Let_def D(8,9))
    then have "uxr_prepare_next_reliable_buffer_to_send s = (None, s)" by (simp add: prod_eq_iff)
    with False that [of s] rel show ?thesis by (simp add: flash_next_def ws_send_def)
  next
    case True
    then have holds: "slot_holds stamp a s ?k" using D(11) W(1) by simp
    then have size: "uos_size s (sq ?k) = uos_offset s + length (ws_data a ?k)" by (simp add: slot_holds_def)
    show ?thesis
    proof (cases "ws_data a ?k = []")
      case empty: True
      then have "uxr_prepare_next_reliable_buffer_to_send s = (None, s)"
        unfolding uxr_prepare_next_reliable_buffer_to_send_def Let_def next_s size by simp
      with empty that [of s] rel show ?thesis by (simp add: flash_next_def ws_send_def)
    next
      case False
      let ?a = "snd (ws_send H a)"
      define u where "u = s\<lparr>uos_last_sent := sq ?k, uos_last_written := sq (ws_written ?a)\<rparr>"
      have a: "?a = a\<lparr>ws_sent := ?k, ws_written := max (ws_written a) (?s + 2)\<rparr>" "fst (ws_send H a)"
        using True False by (simp_all add: ws_send_def)
      have new_w: "(if sq ?k = uos_last_written s then uxr_seq_num_add (uos_last_written s) 1 else uos_last_written s) = sq (ws_written ?a)"
        using sq_eq [of "ws_acked a" ?k "ws_written a"] W(1-4) D(3) by (auto simp: a max_def le_Suc_eq D(7))
      have to_send: "(0 \<ge> uxr_seq_num_cmp (sq ?k) (uos_last_written s) \<and> uos_offset s + length (ws_data a ?k) > uos_offset s \<and>
          uxr_seq_num_sub (uos_last_sent s) (uos_last_acknown s) \<noteq> rs_history (uos_base s)) = True"
        using reached room_left True False unfolding D(7-9) by simp
      have prep: "uxr_prepare_next_reliable_buffer_to_send s = (Some (sq ?k, uos_offset s + length (ws_data a ?k)), u)"
        unfolding uxr_prepare_next_reliable_buffer_to_send_def Let_def next_s size new_w to_send if_True u_def ..
      have base: "uos_base u = uos_base s" "uos_octets u = uos_octets s" "uos_size u = uos_size s" "uos_offset u = uos_offset s"
        using uos_same_base [of u s] by (simp_all add: u_def)
      obtain b where b: "uos_copy (sq ?k) 0 (stamp (sq ?k)) u = Inr (u\<lparr>uos_base := b\<rparr>)"
        using uos_copied_ex [of u 0 "stamp (sq ?k)" "sq ?k"] D(1,5,6) by (auto simp: base)
      note B = uos_copied [OF b, unfolded base, OF D(1)]
      define t where "t = u\<lparr>uos_base := b\<rparr>"
      have fields: "uos_base t = b" "uos_offset t = uos_offset s" "uos_last_written t = sq (ws_written ?a)" "uos_last_sent t = sq ?k" "uos_last_acknown t = uos_last_acknown s"
        by (simp_all add: t_def u_def)
      have octets: "uos_octets t (sq j) = (if j = ?k then stamp (sq ?k) @ drop (uos_offset s) (uos_octets s (sq ?k)) else uos_octets s (sq j))"
        if "ws_acked a < j" "j \<le> ?full" for j
        unfolding t_def B(5) using rs_position_window [OF D(1), of j "ws_acked a" ?k] that W(1) True D(2) by (simp add: D(6))
      have size_t: "uos_size t = uos_size s" unfolding t_def by (rule B(4))
      have slots: "slot_holds stamp ?a t j" if j: "ws_acked a < j" "j \<le> ?full" for j
        using D(11) [OF j] D(6) by (auto simp: slot_holds_def octets [OF j] size_t fields a le_Suc_eq)
      have "ws_rel stamp H room t ?a"
        using B(1-3) D ws_send_ok [OF D(10)] slots by (simp add: ws_rel_def fields a)
      moreover have "take (uos_offset s + length (ws_data a ?k)) (uos_octets t (sq ?k)) = stamp (sq ?k) @ ws_data a ?k"
        using octets [of ?k] W(1) True holds by (simp add: slot_holds_def D(6) Suc_leI)
      then have "flash_next stamp s = Inr (Some (sq ?k, stamp (sq ?k) @ ws_data a ?k), t)"
        by (simp add: flash_next_def prep b t_def)
      ultimately show ?thesis using that a(2) by simp
    qed
  qed
qed

lemma ws_rel_flags: "ws_rel stamp H room s a \<Longrightarrow> ws_rel stamp H room (s\<lparr>uos_send_lost := b, uos_next_heartbeat_tries := n\<rparr>) a"
  by (simp add: ws_rel_def slot_holds_def uos_size_def uos_octets_def)

lemma ws_rel_acknowledge_next:
  assumes rel: "ws_rel stamp H room s a" and unacked: "ws_acked a < ws_sent a"
  shows "ws_rel stamp H room (acknowledge_next s) (a\<lparr>ws_acked := Suc (ws_acked a)\<rparr>)"
proof -
  note D = ws_relD [OF rel]
  note W = ws_okD [OF D(10)]
  let ?k = "Suc (ws_acked a)" and ?t = "acknowledge_next s" and ?a = "a\<lparr>ws_acked := Suc (ws_acked a)\<rparr>"
  have t: "?t = uos_set_size (sq ?k) (uos_offset s) (s\<lparr>uos_last_acknown := sq ?k\<rparr>)"
    by (simp add: acknowledge_next_def D(9) Let_def)
  have base: "uos_octets (s\<lparr>uos_last_acknown := sq ?k\<rparr>) = uos_octets s" "uos_size (s\<lparr>uos_last_acknown := sq ?k\<rparr>) = uos_size s"
    using uos_same_base [of "s\<lparr>uos_last_acknown := sq ?k\<rparr>" s] by simp_all
  have octets: "uos_octets ?t r = uos_octets s r"
    and size: "uos_size ?t r = (if rs_position (uos_base s) r = rs_position (uos_base s) (sq ?k) then uos_offset s else uos_size s r)" for r
    unfolding t using uos_set [of "s\<lparr>uos_last_acknown := sq ?k\<rparr>" "uos_offset s"] D(1,12) by (simp_all add: base)
  have fields: "uos_offset ?t = uos_offset s" "uos_last_written ?t = uos_last_written s" "uos_last_sent ?t = uos_last_sent s"
    "uos_last_acknown ?t = sq ?k" "uos_base ?t = uxr_set_reliable_buffer_size (sq ?k) (uos_offset s) (uos_base s)"
    by (simp_all add: t)
  have "slot_holds stamp ?a ?t j" if j: "?k < j" "j \<le> ?k + H" for j
  proof (cases "j = ?k + H")
    case True
    then have "uos_size ?t (sq j) = uos_offset s" using rs_position_next [OF D(1), of "ws_acked a"] D(2) by (simp add: size)
    moreover have "ws_data a j = []" using W(6) True by simp
    ultimately show ?thesis using True W(3) by (simp add: slot_holds_def fields)
  next
    case False
    then have "uos_size ?t (sq j) = uos_size s (sq j)"
      using rs_position_window [OF D(1), of j "ws_acked a" ?k] j D(2,4) by (simp add: size)
    then show ?thesis using D(11) [of j] j False by (simp add: slot_holds_def octets fields)
  qed
  moreover have "ws_ok H room ?a" using ws_ack_ok [OF D(10), of ?k] unacked by simp
  ultimately show ?thesis using D rs_set_slot(3) [OF D(1)] by (simp add: ws_rel_def fields)
qed

lemma ws_rel_ack:
  assumes rel: "ws_rel stamp H room s a" and k: "ws_acked a \<le> k" "k \<le> ws_sent a"
  shows "ws_rel stamp H room (uxr_process_acknack bitmap (sq (Suc k)) s) (a\<lparr>ws_acked := k\<rparr>)"
    and "uos_send_lost (uxr_process_acknack bitmap (sq (Suc k)) s) \<longleftrightarrow> 0 < bitmap"
proof -
  note D = ws_relD [OF rel]
  note W = ws_okD [OF D(10)]
  have "ws_rel stamp H room ((acknowledge_next ^^ n) s) (a\<lparr>ws_acked := ws_acked a + n\<rparr>)" if "ws_acked a + n \<le> ws_sent a" for n
    using that
  proof (induction n)
    case (Suc n)
    then show ?case using ws_rel_acknowledge_next [of stamp H room "(acknowledge_next ^^ n) s" "a\<lparr>ws_acked := ws_acked a + n\<rparr>"] by simp
  qed (simp add: rel)
  from this [of "k - ws_acked a"] k have "ws_rel stamp H room ((acknowledge_next ^^ (k - ws_acked a)) s) (a\<lparr>ws_acked := k\<rparr>)" by simp
  moreover have "unat (uxr_seq_num_sub (sq k) (sq (ws_acked a))) = k - ws_acked a"
    using sn.dist_adv [of "k - ws_acked a" "sq (ws_acked a)"] k W(3) D(3) by (simp add: uxr_sub_dist flip: sq_add)
  ultimately show "ws_rel stamp H room (uxr_process_acknack bitmap (sq (Suc k)) s) (a\<lparr>ws_acked := k\<rparr>)"
    by (simp add: uxr_process_acknack_def D(9) ws_rel_flags)
  show "uos_send_lost (uxr_process_acknack bitmap (sq (Suc k)) s) \<longleftrightarrow> 0 < bitmap" by (simp add: uxr_process_acknack_def)
qed

text \<open>With anything lost, everything that is not acknowledged is sent again, in order.\<close>

lemma nack_scan_window:
  assumes rel: "ws_rel stamp H room s a" and j: "ws_acked a \<le> j" "j \<le> ws_sent a"
  shows "nack_scan s (sq j) = (if j < ws_sent a then Some (sq (Suc j)) else None)"
proof -
  note D = ws_relD [OF rel]
  note W = ws_okD [OF D(10)]
  have "uxr_seq_num_cmp (sq (Suc j)) (sq (ws_sent a)) \<le> 0 \<longleftrightarrow> j < ws_sent a"
    using sq_lt [of "Suc j" "ws_sent a"] sq_eq [of "ws_acked a" "Suc j" "ws_sent a"] j W(3) D(3) by auto
  moreover have "uos_size s (sq (Suc j)) \<noteq> uos_offset s" if "j < ws_sent a"
    using D(11) [of "Suc j"] W(2,3) W(7) [of "Suc j"] j that by (simp add: slot_holds_def)
  ultimately show ?thesis by (subst nack_scan.simps) (simp add: D(8) Let_def)
qed

lemma send_lost_window:
  assumes rel: "ws_rel stamp H room s a" and lost: "uos_send_lost s" and j: "ws_acked a \<le> j" "j \<le> ws_sent a"
  shows "send_lost_from (sq j) s = (map (\<lambda>k. (sq k, stamp (sq k) @ ws_data a k)) [Suc j..<Suc (ws_sent a)], s\<lparr>uos_send_lost := False\<rparr>)"
  using j
proof (induction "ws_sent a - j" arbitrary: j)
  case 0
  then show ?case
    by (subst send_lost_from.simps) (simp add: uxr_next_reliable_nack_buffer_to_send_def lost nack_scan_window [OF rel])
next
  case (Suc d)
  note D = ws_relD [OF rel]
  have j: "ws_acked a \<le> Suc j" "Suc j \<le> ws_sent a" and lt: "j < ws_sent a" using Suc.hyps(2) Suc.prems by simp_all
  have "slot_holds stamp a s (Suc j)" using D(11) [of "Suc j"] j Suc.prems(1) ws_okD(3) [OF D(10)] by simp
  then have "take (uos_size s (sq (Suc j))) (uos_octets s (sq (Suc j))) = stamp (sq (Suc j)) @ ws_data a (Suc j)"
    using j by (simp add: slot_holds_def take_add)
  moreover have "[Suc j..<Suc (ws_sent a)] = Suc j # [Suc (Suc j)..<Suc (ws_sent a)]" using lt by (simp add: upt_conv_Cons del: upt_Suc)
  ultimately show ?case using Suc.hyps(1) [of "Suc j"] Suc.hyps(2) j lt
    by (subst send_lost_from.simps)
      (simp add: uxr_next_reliable_nack_buffer_to_send_def lost nack_scan_window [OF rel Suc.prems] del: upt_Suc)
qed

section \<open>The stream at its start\<close>

lemma output_reset_sizes:
  assumes "rs_ok (uos_base s)" and "off < 2 ^ 32" and "n \<le> unat (rs_history (uos_base s))"
  shows "\<exists>t. fold (\<lambda>i. uos_set_size (of_nat i) off) [0..<n] s = t \<and> rs_ok (uos_base t) \<and> uos_offset t = uos_offset s \<and>
     rs_position (uos_base t) = rs_position (uos_base s) \<and> rs_history (uos_base t) = rs_history (uos_base s) \<and>
     uxr_get_reliable_buffer_capacity (uos_base t) = uxr_get_reliable_buffer_capacity (uos_base s) \<and>
     (\<forall>q. rs_position (uos_base s) q < n \<longrightarrow> uos_size t q = off)"
  using assms(3)
proof (induction n)
  case 0
  then show ?case using assms(1) by simp
next
  case (Suc n)
  then obtain t where t: "fold (\<lambda>i. uos_set_size (of_nat i) off) [0..<n] s = t" "rs_ok (uos_base t)" "uos_offset t = uos_offset s"
    "rs_position (uos_base t) = rs_position (uos_base s)" "rs_history (uos_base t) = rs_history (uos_base s)"
    "uxr_get_reliable_buffer_capacity (uos_base t) = uxr_get_reliable_buffer_capacity (uos_base s)"
    "\<forall>q. rs_position (uos_base s) q < n \<longrightarrow> uos_size t q = off" by auto
  have "rs_position (uos_base s) (of_nat n) = n" using position_of_nat [OF assms(1)] Suc.prems by simp
  with t show ?case
    by (auto simp: uos_set(1) [OF t(2) assms(2)] rs_set_slot(3) fun_eq_iff less_Suc_eq)
qed

lemma output_stream_starts:
  assumes "rs_ok \<lparr>rs_slots = slots, rs_size = bytes, rs_history = history\<rparr>" and "unat history < 32768"
    and "bytes div unat history = 4 + offset + room" and "\<And>q. length (stamp q) = offset"
  shows "ws_rel stamp (unat history) room (uxr_init_output_reliable_stream slots bytes history offset) ws_init"
proof -
  let ?s = "\<lparr>uos_base = \<lparr>rs_slots = slots, rs_size = bytes, rs_history = history\<rparr>, uos_offset = offset, uos_last_written = 0,
        uos_last_sent = 0, uos_last_acknown = 0, uos_next_heartbeat_timestamp = 0, uos_next_heartbeat_tries = 0, uos_send_lost = False\<rparr>"
  have cap: "uxr_get_reliable_buffer_capacity (uos_base ?s) = offset + room"
    using assms(3) by (simp add: uxr_get_reliable_buffer_capacity_def INTERNAL_RELIABLE_BUFFER_OFFSET_def)
  have off: "offset < 2 ^ 32" using assms(1) cap by (simp add: rs_ok_def)
  obtain t where t: "fold (\<lambda>i. uos_set_size (of_nat i) offset) [0..<unat history] ?s = t" "rs_ok (uos_base t)" "uos_offset t = offset"
    "rs_position (uos_base t) = rs_position (uos_base ?s)" "rs_history (uos_base t) = history"
    "uxr_get_reliable_buffer_capacity (uos_base t) = offset + room" "\<forall>q. rs_position (uos_base ?s) q < unat history \<longrightarrow> uos_size t q = offset"
    using output_reset_sizes [of ?s offset "unat history"] assms(1) off cap by auto
  define u where "u = uxr_init_output_reliable_stream slots bytes history offset"
  have u: "u = t\<lparr>uos_last_written := sq 1, uos_last_sent := sq 0, uos_last_acknown := sq 0, uos_next_heartbeat_timestamp := INT64_MAX,
      uos_next_heartbeat_tries := 0, uos_send_lost := False\<rparr>"
    using t(1) by (simp add: u_def uxr_init_output_reliable_stream_def uxr_reset_output_reliable_stream_def SEQ_NUM_MAX_def)
  have same: "uos_base u = uos_base t" "uos_size u = uos_size t" "uos_offset u = offset" using uos_same_base [of u t] t(3) by (simp_all add: u)
  have "uos_size t q = offset" for q using t(7) rs_okD(3,5) [OF assms(1)] by simp
  then have "slot_holds stamp ws_init u k" if "0 < k" for k using that by (simp add: slot_holds_def ws_init_def same)
  moreover have "ws_ok (unat history) room ws_init" by (auto simp: ws_ok_def ws_init_def)
  ultimately have "ws_rel stamp (unat history) room u ws_init"
    using t(2,5,6) assms(2,4) by (simp add: ws_rel_def same) (simp add: u ws_init_def)
  then show ?thesis by (simp only: u_def)
qed

section \<open>A client with four slots\<close>

definition demo_output :: uxrOutputReliableStream where
  "demo_output = uxr_init_output_reliable_stream (replicate 4 \<lparr>sl_length = 0, sl_octets = replicate 12 0\<rparr>) 64 4 4"

definition demo_stamp :: "uxrSeqNum \<Rightarrow> u8 list" where
  "demo_stamp seq_num = [0x81, 0x80, ucast seq_num, ucast (drop_bit 8 seq_num)]"

definition no_header :: header_writer where "no_header position identifier len flags octets = octets"

lemma demo_output_ok: "rs_ok \<lparr>rs_slots = replicate 4 \<lparr>sl_length = 0, sl_octets = replicate 12 0\<rparr>, rs_size = 64, rs_history = 4\<rparr>"
  by (simp add: rs_ok_def uxr_get_reliable_buffer_capacity_def INTERNAL_RELIABLE_BUFFER_OFFSET_def)

lemma demo_output_rel: "ws_rel demo_stamp 4 8 demo_output ws_init"
  using output_stream_starts [OF demo_output_ok, where offset = 4 and room = 8 and stamp = demo_stamp]
  by (simp add: demo_output_def demo_stamp_def)

section \<open>An old acknowledgement\<close>

lemma acknowledge_next_many:
  assumes "rs_ok (uos_base s)" and "uos_offset s < 2 ^ 32" and "uos_last_acknown s = sq a"
  shows "\<exists>t. (acknowledge_next ^^ n) s = t \<and> rs_ok (uos_base t) \<and> uos_offset t = uos_offset s \<and> uos_last_acknown t = sq (a + n) \<and>
     uos_last_sent t = uos_last_sent s \<and> rs_position (uos_base t) = rs_position (uos_base s) \<and>
     (\<forall>j \<in> {a<..a + n}. \<forall>q. rs_position (uos_base s) q = rs_position (uos_base s) (sq j) \<longrightarrow> uos_size t q = uos_offset s)"
proof (induction n)
  case (Suc n)
  then obtain t where t: "(acknowledge_next ^^ n) s = t" "rs_ok (uos_base t)" "uos_offset t = uos_offset s" "uos_last_acknown t = sq (a + n)"
    "uos_last_sent t = uos_last_sent s" "rs_position (uos_base t) = rs_position (uos_base s)"
    "\<forall>j \<in> {a<..a + n}. \<forall>q. rs_position (uos_base s) q = rs_position (uos_base s) (sq j) \<longrightarrow> uos_size t q = uos_offset s" by auto
  let ?u = "acknowledge_next t"
  have u: "?u = uos_set_size (sq (Suc (a + n))) (uos_offset s) (t\<lparr>uos_last_acknown := sq (Suc (a + n))\<rparr>)"
    by (simp add: acknowledge_next_def t(3,4) Let_def)
  have size: "uos_size ?u q = (if rs_position (uos_base s) q = rs_position (uos_base s) (sq (Suc (a + n))) then uos_offset s else uos_size t q)" for q
    unfolding u using uos_set(1) [of "t\<lparr>uos_last_acknown := sq (Suc (a + n))\<rparr>" "uos_offset s" "sq (Suc (a + n))" q]
      uos_same_base [of "t\<lparr>uos_last_acknown := sq (Suc (a + n))\<rparr>" t] t(2,6) assms(2) by simp
  have "\<forall>j \<in> {a<..a + Suc n}. \<forall>q. rs_position (uos_base s) q = rs_position (uos_base s) (sq j) \<longrightarrow> uos_size ?u q = uos_offset s"
    using t(7) by (auto simp: size le_Suc_eq)
  moreover have "(acknowledge_next ^^ Suc n) s = ?u" by (simp add: t(1))
  ultimately show ?case using t(2-6) rs_set_slot(3) [OF t(2)] by (simp add: u fun_eq_iff)
qed (use assms in simp)

lemma nack_scan_empty: "(\<And>q. uos_size s q = uos_offset s) \<Longrightarrow> nack_scan s it = None"
  by (induction s it rule: nack_scan.induct) (subst nack_scan.simps, auto simp: Let_def)

text \<open>C39. An acknowledgement older than the last one loses what has not been sent. When one that the network has delayed
  arrives, the client takes the distance back for a distance forward and clears every slot: no message is sent or repeated
  from then on until something is written, and the numbers acknowledged go back.\<close>

theorem old_acknack_loses_messages:
  assumes "ws_rel stamp H room s a" and "k < ws_acked a" and "ws_acked a \<le> k + 32768"
    and acknack: "t = uxr_process_acknack bitmap (sq (Suc k)) s"
  shows "uos_last_acknown t = sq k \<and> (\<forall>q. uos_size t q = uos_offset t) \<and> flash_next stamp t = Inr (None, t) \<and>
     fst (send_lost_from (uxr_begin_output_nack_buffer_it t) t) = []"
proof -
  note D = ws_relD [OF assms(1)]
  let ?a = "ws_acked a"
  define n where "n = 65536 - (?a - k)"
  have sum: "?a + n = k + 65536" using assms(2,3) by (simp add: n_def)
  then have "sq k = sq (?a + n)" by simp
  then have n: "unat (uxr_seq_num_sub (sq k) (sq ?a)) = n"
    using sn.dist_adv [of n "sq ?a"] assms(2) by (simp add: uxr_sub_dist n_def flip: sq_add)
  obtain u where u: "(acknowledge_next ^^ n) s = u" "uos_offset u = uos_offset s" "uos_last_acknown u = sq (?a + n)" "uos_last_sent u = uos_last_sent s"
    "\<forall>j \<in> {?a<..?a + n}. \<forall>q. rs_position (uos_base s) q = rs_position (uos_base s) (sq j) \<longrightarrow> uos_size u q = uos_offset s"
    using acknowledge_next_many [OF D(1) _ D(9), of n] D(12) by auto
  have t: "t = u\<lparr>uos_send_lost := 0 < bitmap, uos_next_heartbeat_tries := 0\<rparr>"
    using n by (simp add: acknack uxr_process_acknack_def D(9) u(1))
  have "uos_size u q = uos_offset s" for q
  proof -
    obtain j where "j \<in> {?a<..?a + H}" "rs_position (uos_base s) (sq j) = rs_position (uos_base s) q"
      using window_covers [OF D(1), of ?a q] D(2) by auto
    moreover from this have "j \<in> {?a<..?a + n}" using D(3) assms(3) by (auto simp: n_def)
    ultimately show ?thesis using u(5) by metis
  qed
  then have size: "uos_size t q = uos_offset t" for q using uos_same_base(1) [of t u] u(2) by (simp add: t)
  then have "flash_next stamp t = Inr (None, t)"
    by (simp add: flash_next_def uxr_prepare_next_reliable_buffer_to_send_def)
  moreover have "fst (send_lost_from (uxr_begin_output_nack_buffer_it t) t) = []"
    by (subst send_lost_from.simps) (simp add: uxr_next_reliable_nack_buffer_to_send_def nack_scan_empty size)
  moreover have "uos_last_acknown t = sq k" using u(3) \<open>sq k = sq (?a + n)\<close> by (simp add: t)
  ultimately show ?thesis using size by simp
qed

text \<open>One message sent and acknowledged, a second one written: then the acknowledgement of nothing arrives once more.\<close>

definition demo_window :: window_spec where
  "demo_window = \<lparr>ws_acked = 1, ws_sent = 1, ws_written = 2, ws_data = (\<lambda>_. [])(1 := [1, 2, 3, 4], 2 := [5, 6, 7, 8])\<rparr>"

lemma demo_window_reached: "\<exists>s. ws_rel demo_stamp 4 8 s demo_window"
proof -
  let ?x = "[1, 2, 3, 4 :: u8]" and ?y = "[5, 6, 7, 8 :: u8]"
  obtain s1 where s1: "ws_rel demo_stamp 4 8 s1 (snd (ws_write 4 8 ?x ws_init))"
    by (rule ws_rel_write [OF demo_output_rel, of ?x no_header]) simp_all
  obtain s2 where s2: "ws_rel demo_stamp 4 8 s2 (snd (ws_send 4 (snd (ws_write 4 8 ?x ws_init))))" by (rule ws_rel_send [OF s1])
  let ?b = "\<lparr>ws_acked = 0, ws_sent = 1, ws_written = 2, ws_data = (\<lambda>_. [])(1 := ?x)\<rparr>"
  have "snd (ws_send 4 (snd (ws_write 4 8 ?x ws_init))) = ?b" by (simp add: ws_send_def ws_write_def ws_init_def)
  with s2 have "ws_rel demo_stamp 4 8 s2 ?b" by simp
  from ws_rel_ack(1) [OF this, of 1 0] have s3: "ws_rel demo_stamp 4 8 (uxr_process_acknack 0 (sq (Suc 1)) s2) (?b\<lparr>ws_acked := 1\<rparr>)" by simp
  obtain s4 where "ws_rel demo_stamp 4 8 s4 (snd (ws_write 4 8 ?y (?b\<lparr>ws_acked := 1\<rparr>)))"
    by (rule ws_rel_write [OF s3, of ?y no_header]) simp_all
  moreover have "snd (ws_write 4 8 ?y (?b\<lparr>ws_acked := 1\<rparr>)) = demo_window" by (simp add: ws_write_def demo_window_def)
  ultimately show ?thesis by auto
qed

lemma demo_window_sends:
  "fst (ws_send 4 demo_window)" "sq (Suc (ws_sent demo_window)) = 1" "ws_data demo_window (Suc (ws_sent demo_window)) = [5, 6, 7, 8]"
  "demo_stamp 1 = [0x81, 0x80, 1, 0]" "0 < ws_acked demo_window" "ws_acked demo_window \<le> 0 + 32768" "sq (Suc 0) = 0"
  by (simp_all add: ws_send_def demo_window_def demo_stamp_def sq_def seq_adv_def)

theorem old_acknack_loses_messages_witness:
  "\<exists>s t u. flash_next demo_stamp s = Inr (Some (1, [0x81, 0x80, 1, 0, 5, 6, 7, 8]), u) \<and> t = uxr_process_acknack 0 0 s \<and>
     flash_next demo_stamp t = Inr (None, t)"
proof -
  obtain s where s: "ws_rel demo_stamp 4 8 s demo_window" using demo_window_reached by (elim exE)
  note old = old_acknack_loses_messages [OF s demo_window_sends(5,6) refl, of 0, unfolded demo_window_sends(7)]
  obtain u where "flash_next demo_stamp s = Inr (Some (1, [0x81, 0x80, 1, 0] @ [5, 6, 7, 8]), u)"
    by (rule ws_rel_send [OF s, unfolded demo_window_sends if_True simp_thms]) (simp only: demo_window_sends if_True simp_thms)
  then show ?thesis using old by (intro exI conjI) (simp only: append.simps, rule refl, elim conjE)
qed

section \<open>Fragments that come round\<close>

lemma put_fragment_header_fields [simp]:
  "rs_history (uos_base (put_fragment_header put q n f s)) = rs_history (uos_base s)"
  by (simp add: put_fragment_header_def Let_def)

lemma write_fragments_end:
  "fst (write_fragments put n f b q s) = seq_adv q n" "rs_history (uos_base (snd (write_fragments put n f b q s))) = rs_history (uos_base s)"
proof (induction n arbitrary: f q s)
  case (Suc n)
  { case 1 show ?case by (simp add: Let_def Suc sn.adv_adv) }
  { case 2 show ?case by (simp add: Let_def Suc) }
qed (simp_all add: sn.adv_0)

lemma free_slots:
  assumes rel: "ws_rel stamp H room s a" and "\<And>k. ws_acked a < k \<Longrightarrow> ws_data a k = []"
  shows "get_available_free_slots s = of_nat H" "uos_size s q = uos_offset s"
proof -
  note D = ws_relD [OF rel]
  have size: "uos_size s q = uos_offset s" for q
  proof -
    obtain k where "k \<in> {ws_acked a<..ws_acked a + H}" "rs_position (uos_base s) (sq k) = rs_position (uos_base s) q"
      using window_covers [OF D(1), of "ws_acked a" q] D(2) by auto
    then have "uos_size s q = uos_size s (sq k)" "slot_holds stamp a s k" "ws_data a k = []"
      using D(11) assms(2) by (simp_all add: uos_size_def uxr_get_reliable_buffer_size_def)
    then show ?thesis by (simp add: slot_holds_def)
  qed
  then show "uos_size s q = uos_offset s" .
  show "get_available_free_slots s = of_nat H" by (simp add: get_available_free_slots_def size D(2))
qed

lemma u16_of_nat: "n < 65536 \<Longrightarrow> unat (of_nat n :: u16) = n" "n < 65536 \<Longrightarrow> uint (of_nat n :: u16) = int n"
  by (simp_all add: unat_of_nat uint_nat take_bit_eq_mod)

text \<open>C40. A fragmented message can overwrite its own first fragment. The client accepts it when the complete fragments after
  the first are no more than the free slots, although the slot of the first is one of those: with nothing in the stream, a
  message of one fragment more than there are slots is accepted, and its last fragment goes into the slot of its first.\<close>

theorem last_fragment_on_first:
  assumes rel: "ws_rel stamp H room s a" and empty: "\<And>k. ws_acked a < k \<Longrightarrow> ws_data a k = []"
    and room: "room = 4 + block" "0 < block" and small: "block * H + block < 65536" and long: "room < block * H + block"
  shows "\<exists>w t. uxr_prepare_reliable_buffer_to_write put (block * H + block) s = Inr (Some w, t) \<and>
     rs_position (uos_base t) (uos_last_written t) = ow_slot w"
proof -
  note D = ws_relD [OF rel]
  let ?off = "uos_offset s" and ?q = "uos_last_written s"
  have cap: "uxr_get_reliable_buffer_capacity (uos_base s) = ?off + room" by (rule D)
  have free: "get_available_free_slots s = of_nat H" "uos_size s q = ?off" for q
    using free_slots [OF rel] empty by simp_all
  have A: "block < 65536" "block * H < 65536" using small by linarith+
  have block: "word_of_int (int (?off + room) - int (?off + SUBHEADER_SIZE)) = (of_nat block :: u16)"
    using room(1) by (simp add: SUBHEADER_SIZE_def)
  have rest: "word_of_int (int (block * H + block) - uint (of_nat block :: u16)) = (of_nat (block * H) :: u16)"
    by (simp only: u16_of_nat(2) [OF A(1)] of_nat_add add_diff_cancel_right' of_int_of_nat_eq)
  have "(of_nat (block * H) :: u16) mod of_nat block = 0" "(of_nat (block * H) :: u16) div of_nat block = of_nat H" "(of_nat block :: u16) \<noteq> 0"
    using A D(3) room(2) u16_of_nat(1) [of block] u16_of_nat(1) [of "block * H"] u16_of_nat(1) [of H]
    by (simp_all only: word_unat_eq_iff unat_mod unat_div) simp_all
  note div = this
  have branch: "\<not> uos_size s ?q + (block * H + block) \<le> ?off + room" "\<not> ?off + (block * H + block) \<le> ?off + room"
    "\<not> ?off + room \<le> ?off + SUBHEADER_SIZE"
    using long room by (simp_all add: free(2) SUBHEADER_SIZE_def)
  define r where "r = write_fragments put (unat (of_nat H :: u16)) (of_nat block) (of_nat block) ?q s"
  have last: "fst r = seq_adv ?q H" "rs_history (uos_base (snd r)) = rs_history (uos_base s)"
    using u16_of_nat(1) [of H] D(3) by (simp_all add: r_def write_fragments_end)
  have "write_fragmented put (block * H + block) s =
      Inr (Some \<lparr>ow_slot = rs_position (uos_base s) ?q, ow_from = ?off + SUBHEADER_SIZE, ow_final = ?off + room, ow_callback = True\<rparr>,
        (uos_set_size (fst r) (?off + SUBHEADER_SIZE + unat (of_nat block :: u16))
          (put_fragment_header put (fst r) (of_nat block) FLAG_LAST_FRAGMENT (snd r)))\<lparr>uos_last_written := fst r\<rparr>)"
    unfolding write_fragmented_def Let_def cap free
    by (simp only: branch block rest div if_False if_True prod.case order_refl r_def case_prod_beta simp_thms fst_conv snd_conv)
  moreover have "uxr_prepare_reliable_buffer_to_write put (block * H + block) s = write_fragmented put (block * H + block) s"
    unfolding uxr_prepare_reliable_buffer_to_write_def Let_def cap by (simp only: branch free if_False)
  moreover have "rs_position (uos_base s) (seq_adv ?q H) = rs_position (uos_base s) ?q"
    using rs_position_next [OF D(1), of "ws_written a - 1"] ws_okD(2) [OF D(10)] D(2) by (simp add: D(7) sq_add)
  ultimately show ?thesis using last by (simp add: rs_position_def)
qed
theorem last_fragment_on_first_witness:
  "\<exists>w t. uxr_prepare_reliable_buffer_to_write no_header 20 demo_output = Inr (Some w, t) \<and> rs_position (uos_base t) (uos_last_written t) = ow_slot w"
proof -
  have empty: "ws_data ws_init k = []" for k by (simp add: ws_init_def)
  have "4 * 4 + 4 = (20 :: nat)" "(8 :: nat) = 4 + 4" "0 < (4 :: nat)" "(20 :: nat) < 65536" "(8 :: nat) < 20" by simp_all
  then show ?thesis using last_fragment_on_first [OF demo_output_rel empty, of 4 no_header] by simp
qed

end
