(* ===== verification/ClientLink.thy ===== *)
theory ClientLink
  imports ClientWrites
begin

text \<open>
  From the client to the agent: the reliable output stream of the client library (\<open>ClientOutput\<close>) and the
  \<open>ReliableInputStream\<close> of the agent, two implementations in two languages, over a network. Messages and heartbeats of the
  client stay in the network for ever: they may be lost, repeated, delayed and reordered. Acknowledgements of the agent may be
  lost and repeated, but they arrive in the order they were sent in: the client has no test for an old one, and \<open>ClientWrites\<close>
  shows that an old one makes it drop messages. Submessages fit one message. Packets carry what is on the wire and, as ghost, the
  unbounded number a serial number stands for.
\<close>

section \<open>The system\<close>

datatype up_packet =
    UpData nat uxrSeqNum "u8 list"
  | UpHeartbeat nat nat uxrSeqNum uxrSeqNum

record uplink =
  up_tx :: uxrOutputReliableStream
  up_rx :: "u8 list ReliableInputStream"
  up_net :: "up_packet set"
  up_acks :: "(nat \<times> ACKNACK_Payload) list"
  up_wrote :: "u8 list list"
  up_log :: "u8 list list"
  up_out :: "u8 list list"
  up_a :: window_spec
  up_b :: "u8 list input_spec"

definition uplink_init :: "uxrOutputReliableStream \<Rightarrow> uplink" where
  "uplink_init tx = \<lparr>up_tx = tx, up_rx = ReliableInputStream_init, up_net = {}, up_acks = [], up_wrote = [], up_log = [], up_out = [], up_a = ws_init, up_b = is_init\<rparr>"

text \<open>\<open>read_submessage_acknack\<close>: the bits, and what is sent again.\<close>

definition nack_bitmap_of :: "ACKNACK_Payload \<Rightarrow> u16" where
  "nack_bitmap_of acknack = push_bit 8 (ucast (ack_nack_bitmap_0 acknack)) + ucast (ack_nack_bitmap_1 acknack)"

definition read_submessage_acknack :: "ACKNACK_Payload \<Rightarrow> uxrOutputReliableStream \<Rightarrow> (uxrSeqNum \<times> u8 list) list \<times> uxrOutputReliableStream" where
  "read_submessage_acknack acknack stream =
     (let stream = uxr_process_acknack (nack_bitmap_of acknack) (ack_first_unacked_seq_num acknack) stream
      in send_lost_from (uxr_begin_output_nack_buffer_it stream) stream)"

text \<open>The numbers of the heartbeat \<open>write_submessage_heartbeat\<close> sends.\<close>

definition heartbeat_of :: "uxrOutputReliableStream \<Rightarrow> uxrSeqNum \<times> uxrSeqNum" where
  "heartbeat_of stream = (uxr_seq_num_add (uos_last_acknown stream) 1, uos_last_sent stream)"

definition numbered :: "nat \<Rightarrow> (uxrSeqNum \<times> u8 list) list \<Rightarrow> up_packet set" where
  "numbered first ms = {UpData (first + i) (fst (ms ! i)) (snd (ms ! i)) |i. i < length ms}"

text \<open>
  The client writes a submessage, sends a message, reads the oldest acknowledgement that is under way (which may come once more),
  sends a heartbeat; the agent takes a message, hands one out, acknowledges, takes a heartbeat; an acknowledgement is lost.
\<close>

inductive uplink_step :: "header_writer \<Rightarrow> (uxrSeqNum \<Rightarrow> u8 list) \<Rightarrow> nat \<Rightarrow> nat \<Rightarrow> uplink \<Rightarrow> uplink \<Rightarrow> bool" for put stamp H room where
  written: "octets \<noteq> [] \<Longrightarrow> length octets \<le> room \<Longrightarrow> write_submessage put octets (up_tx l) = Inr (b, tx) \<Longrightarrow>
    uplink_step put stamp H room l (l\<lparr>up_tx := tx, up_wrote := up_wrote l @ (if b then [octets] else []), up_a := snd (ws_write H room octets (up_a l))\<rparr>)"
| send: "flash_next stamp (up_tx l) = Inr (Some (q, m), tx) \<Longrightarrow>
    uplink_step put stamp H room l (l\<lparr>up_tx := tx, up_net := insert (UpData (Suc (ws_sent (up_a l))) q m) (up_net l), up_log := up_log l @ [m],
      up_a := snd (ws_send H (up_a l))\<rparr>)"
| acknack_in: "up_acks l = (first, p) # acks \<Longrightarrow> acks' = acks \<or> acks' = up_acks l \<Longrightarrow> read_submessage_acknack p (up_tx l) = (ms, tx) \<Longrightarrow>
    uplink_step put stamp H room l (l\<lparr>up_tx := tx, up_acks := acks', up_net := numbered first ms \<union> up_net l, up_a := (up_a l)\<lparr>ws_acked := first - 1\<rparr>\<rparr>)"
| heartbeat_out: "heartbeat_of (up_tx l) = (q, r) \<Longrightarrow>
    uplink_step put stamp H room l (l\<lparr>up_net := insert (UpHeartbeat (Suc (ws_acked (up_a l))) (ws_sent (up_a l)) q r) (up_net l)\<rparr>)"
| data_in: "UpData k q m \<in> up_net l \<Longrightarrow> is_handled (up_b l) \<le> k + 32751 \<Longrightarrow>
    uplink_step put stamp H room l (l\<lparr>up_rx := snd (ris_push_message q m (up_rx l)), up_b := snd (is_push k m (up_b l))\<rparr>)"
| deliver: "ris_pop_message (up_rx l) = (Some m, rx) \<Longrightarrow>
    uplink_step put stamp H room l (l\<lparr>up_rx := rx, up_out := up_out l @ [m], up_b := snd (is_pop (up_b l))\<rparr>)"
| acknack_out:
    "uplink_step put stamp H room l (l\<lparr>up_acks := up_acks l @ [(Suc (is_handled (up_b l)), ris_fill_acknack (up_rx l) ACKNACK_init)]\<rparr>)"
| acknack_lost: "up_acks l = before @ x # after \<Longrightarrow> uplink_step put stamp H room l (l\<lparr>up_acks := before @ after\<rparr>)"
| heartbeat_in: "UpHeartbeat first ann q r \<in> up_net l \<Longrightarrow> is_handled (up_b l) < first + 32767 \<Longrightarrow> is_announced (up_b l) < ann + 32768 \<Longrightarrow>
    uplink_step put stamp H room l (l\<lparr>up_rx := ris_update_from_heartbeat q r (up_rx l), up_b := is_heartbeat first ann (up_b l)\<rparr>)"

inductive uplink_reachable :: "header_writer \<Rightarrow> (uxrSeqNum \<Rightarrow> u8 list) \<Rightarrow> nat \<Rightarrow> nat \<Rightarrow> uplink \<Rightarrow> bool" for put stamp H room where
  start: "rs_ok \<lparr>rs_slots = slots, rs_size = bytes, rs_history = history\<rparr> \<Longrightarrow> unat history = H \<Longrightarrow> H < 32768 \<Longrightarrow>
    bytes div H = 4 + offset + room \<Longrightarrow> \<forall>q. length (stamp q) = offset \<Longrightarrow>
    uplink_reachable put stamp H room (uplink_init (uxr_init_output_reliable_stream slots bytes history offset))"
| step: "uplink_reachable put stamp H room l \<Longrightarrow> uplink_step put stamp H room l l' \<Longrightarrow> uplink_reachable put stamp H room l'"

section \<open>The invariant\<close>

definition sent_as :: "u8 list list \<Rightarrow> nat \<Rightarrow> u8 list \<Rightarrow> bool" where
  "sent_as ms k m \<longleftrightarrow> 0 < k \<and> k \<le> length ms \<and> m = ms ! (k - 1)"

fun up_packet_ok :: "u8 list list \<Rightarrow> nat \<Rightarrow> up_packet \<Rightarrow> bool" where
  "up_packet_ok log handled (UpData k q m) \<longleftrightarrow> sent_as log k m \<and> q = sq k"
| "up_packet_ok log handled (UpHeartbeat first ann q r) \<longleftrightarrow> 0 < first \<and> first \<le> handled + 1 \<and> ann \<le> length log \<and> q = sq first \<and> r = sq ann"

text \<open>What is under way from the agent: numbers above what the client knows to be acknowledged, the older ones first.\<close>

definition acks_ok :: "nat \<Rightarrow> nat \<Rightarrow> (nat \<times> ACKNACK_Payload) list \<Rightarrow> bool" where
  "acks_ok acked handled acks \<longleftrightarrow> sorted (map fst acks) \<and>
     (\<forall>(first, p) \<in> set acks. acked < first \<and> first \<le> handled + 1 \<and> ack_first_unacked_seq_num p = sq first)"

lemma acks_ok_simps:
  "acks_ok acked handled []"
  "acks_ok acked handled ((first, p) # acks) \<longleftrightarrow>
     acks_ok acked handled acks \<and> acked < first \<and> first \<le> handled + 1 \<and> ack_first_unacked_seq_num p = sq first \<and> (\<forall>x \<in> set acks. first \<le> fst x)"
  by (auto simp: acks_ok_def)

lemma acks_ok_send:
  "acks_ok acked handled acks \<Longrightarrow> acked \<le> handled \<Longrightarrow> ack_first_unacked_seq_num p = sq (Suc handled) \<Longrightarrow> acks_ok acked handled (acks @ [(Suc handled, p)])"
  by (fastforce simp: acks_ok_def sorted_append)

lemma acks_ok_lost: "acks_ok acked handled (before @ x # after) \<Longrightarrow> acks_ok acked handled (before @ after)"
  by (auto simp: acks_ok_def sorted_append)

lemma acks_ok_mono: "acks_ok acked handled acks \<Longrightarrow> handled \<le> handled' \<Longrightarrow> acks_ok acked handled' acks"
  by (fastforce simp: acks_ok_def)

lemma acks_ok_read:
  assumes "acks_ok acked handled ((first, p) # acks)" and "acks' = acks \<or> acks' = (first, p) # acks"
  shows "acks_ok (first - 1) handled acks'"
proof -
  from assms(1) have "acks_ok (first - 1) handled ((first, p) # acks)" by (fastforce simp: acks_ok_def)
  then show ?thesis using assms(2) by (auto simp: acks_ok_simps)
qed

text \<open>The payload of all messages, one after the other.\<close>

definition ws_stream :: "window_spec \<Rightarrow> u8 list" where
  "ws_stream a = concat (map (ws_data a) [1..<Suc (ws_written a)])"

definition uplink_ok :: "(uxrSeqNum \<Rightarrow> u8 list) \<Rightarrow> nat \<Rightarrow> nat \<Rightarrow> uplink \<Rightarrow> bool" where
  "uplink_ok stamp H room l \<longleftrightarrow> ws_rel stamp H room (up_tx l) (up_a l) \<and> is_rel (up_rx l) (up_b l) \<and> is_gapless (up_b l) \<and>
     acks_ok (ws_acked (up_a l)) (is_handled (up_b l)) (up_acks l) \<and>
     ws_sent (up_a l) = length (up_log l) \<and> ws_acked (up_a l) \<le> is_handled (up_b l) \<and> is_announced (up_b l) \<le> length (up_log l) \<and>
     (\<forall>k. 0 < k \<and> k \<le> length (up_log l) \<longrightarrow> up_log l ! (k - 1) = stamp (sq k) @ ws_data (up_a l) k) \<and>
     concat (up_wrote l) = ws_stream (up_a l) \<and>
     (\<forall>k m. is_buffer (up_b l) k = Some m \<longrightarrow> sent_as (up_log l) k m) \<and>
     (\<forall>p \<in> up_net l. up_packet_ok (up_log l) (is_handled (up_b l)) p) \<and>
     up_out l = take (is_handled (up_b l)) (up_log l)"

lemma uplink_okD:
  assumes "uplink_ok stamp H room l"
  shows "ws_rel stamp H room (up_tx l) (up_a l)" "is_rel (up_rx l) (up_b l)" "ws_sent (up_a l) = length (up_log l)"
    "ws_acked (up_a l) \<le> is_handled (up_b l)" "is_announced (up_b l) \<le> length (up_log l)"
    "0 < k \<Longrightarrow> k \<le> length (up_log l) \<Longrightarrow> up_log l ! (k - 1) = stamp (sq k) @ ws_data (up_a l) k"
    "is_buffer (up_b l) k = Some m \<Longrightarrow> sent_as (up_log l) k m"
    "p \<in> up_net l \<Longrightarrow> up_packet_ok (up_log l) (is_handled (up_b l)) p" "up_out l = take (is_handled (up_b l)) (up_log l)"
    "is_handled (up_b l) \<le> length (up_log l)" "length (up_log l) < is_handled (up_b l) + 32768" "H < 32768" "ws_ok H room (up_a l)" "concat (up_wrote l) = ws_stream (up_a l)"
    "is_gapless (up_b l)" "acks_ok (ws_acked (up_a l)) (is_handled (up_b l)) (up_acks l)"
proof -
  show rel: "ws_rel stamp H room (up_tx l) (up_a l)" and "is_rel (up_rx l) (up_b l)" and sent: "ws_sent (up_a l) = length (up_log l)"
    and acked: "ws_acked (up_a l) \<le> is_handled (up_b l)" and ann: "is_announced (up_b l) \<le> length (up_log l)"
    and "0 < k \<Longrightarrow> k \<le> length (up_log l) \<Longrightarrow> up_log l ! (k - 1) = stamp (sq k) @ ws_data (up_a l) k"
    and "is_buffer (up_b l) k = Some m \<Longrightarrow> sent_as (up_log l) k m"
    and "p \<in> up_net l \<Longrightarrow> up_packet_ok (up_log l) (is_handled (up_b l)) p" and "up_out l = take (is_handled (up_b l)) (up_log l)"
    using assms by (simp_all add: uplink_ok_def)
  note D = ws_relD [OF rel]
  show "H < 32768" "ws_ok H room (up_a l)" by (rule D)+
  show "concat (up_wrote l) = ws_stream (up_a l)" using assms by (simp add: uplink_ok_def)
  show gapless: "is_gapless (up_b l)" and "acks_ok (ws_acked (up_a l)) (is_handled (up_b l)) (up_acks l)" using assms by (simp_all add: uplink_ok_def)
  show "is_handled (up_b l) \<le> length (up_log l)" using gapless ann by (simp add: is_gapless_def)
  show "length (up_log l) < is_handled (up_b l) + 32768" using ws_okD(3) [OF D(10)] D(3) sent acked by simp
qed

lemma sent_as_append: "sent_as ms k m \<Longrightarrow> sent_as (ms @ ms') k m"
  by (auto simp: sent_as_def nth_append)

lemma up_packet_ok_mono: "up_packet_ok log h p \<Longrightarrow> h \<le> h' \<Longrightarrow> up_packet_ok (log @ ms) h' p"
  by (cases p) (auto intro: sent_as_append)

lemma uplink_ok_init: "ws_rel stamp H room tx ws_init \<Longrightarrow> uplink_ok stamp H room (uplink_init tx)"
  using is_rel_init is_gapless_init by (simp add: uplink_ok_def uplink_init_def acks_ok_simps) (simp add: ws_init_def is_init_def ws_stream_def)

lemma ws_stream_write:
  assumes "ws_ok H room a"
  shows "ws_stream (snd (ws_write H room octets a)) = ws_stream a @ (if fst (ws_write H room octets a) then octets else [])"
proof -
  have w: "0 < ws_written a" using ws_okD(2) [OF assms] by simp
  have old: "map (f(ws_written a := x)) [1..<ws_written a] = map f [1..<ws_written a]"
    "map (f(Suc (ws_written a) := x)) [1..<Suc (ws_written a)] = map f [1..<Suc (ws_written a)]" for f :: "nat \<Rightarrow> u8 list" and x
    by auto
  show ?thesis using w by (simp add: ws_stream_def ws_write_def Let_def old del: upt_Suc One_nat_def) (simp add: old)
qed

lemma ws_stream_send:
  assumes "ws_ok H room a"
  shows "ws_stream (snd (ws_send H a)) = ws_stream a"
proof -
  note W = ws_okD [OF assms]
  have "max (ws_written a) (ws_sent a + 2) = (if ws_written a = Suc (ws_sent a) then Suc (ws_written a) else ws_written a)"
    using W(2) by auto
  moreover have "ws_data a (Suc (ws_written a)) = []" using W(5) by simp
  ultimately show ?thesis by (auto simp: ws_stream_def ws_send_def simp del: max.absorb_iff1)
qed

text \<open>Every step keeps it.\<close>

lemma packets_stay:
  assumes "uplink_ok stamp H room l" and "is_handled (up_b l) \<le> h"
  shows "\<forall>p \<in> up_net l. up_packet_ok (up_log l @ ms) h p"
  using uplink_okD(8) [OF assms(1)] up_packet_ok_mono assms(2) by blast

lemma packets_keep:
  assumes "uplink_ok stamp H room l" and "is_handled (up_b l) \<le> h"
  shows "\<forall>p \<in> up_net l. up_packet_ok (up_log l) h p"
  using packets_stay [OF assms, of "[]"] by simp

lemma up_written_keeps:
  assumes ok: "uplink_ok stamp H room l" and octets: "octets \<noteq> []" "length octets \<le> room"
    and w: "write_submessage put octets (up_tx l) = Inr (b, tx)"
  shows "uplink_ok stamp H room (l\<lparr>up_tx := tx, up_wrote := up_wrote l @ (if b then [octets] else []), up_a := snd (ws_write H room octets (up_a l))\<rparr>)"
proof -
  note U = uplink_okD [OF ok]
  let ?a = "snd (ws_write H room octets (up_a l))"
  obtain t where "write_submessage put octets (up_tx l) = Inr (fst (ws_write H room octets (up_a l)), t)" "ws_rel stamp H room t ?a"
    by (rule ws_rel_write [OF U(1) octets])
  then have rel: "ws_rel stamp H room tx ?a" and b: "b = fst (ws_write H room octets (up_a l))" using w by simp_all
  have "ws_sent ?a = ws_sent (up_a l)" "ws_acked ?a = ws_acked (up_a l)"
    and data: "k \<le> ws_sent (up_a l) \<Longrightarrow> ws_data ?a k = ws_data (up_a l) k" for k
    using ws_okD(2) [OF U(13)] by (auto simp: ws_write_def Let_def)
  then show ?thesis using U(2-9) rel U(14-16) ws_stream_write [OF U(13)] by (simp add: uplink_ok_def b)
qed

lemma up_send_keeps:
  assumes ok: "uplink_ok stamp H room l" and s: "flash_next stamp (up_tx l) = Inr (Some (q, m), tx)"
  shows "uplink_ok stamp H room (l\<lparr>up_tx := tx, up_net := insert (UpData (Suc (ws_sent (up_a l))) q m) (up_net l), up_log := up_log l @ [m],
      up_a := snd (ws_send H (up_a l))\<rparr>)" (is "uplink_ok _ _ _ ?l")
proof -
  note U = uplink_okD [OF ok]
  let ?a = "up_a l" and ?n = "length (up_log l)"
  obtain t where t: "flash_next stamp (up_tx l) = Inr (if fst (ws_send H ?a)
      then Some (sq (Suc (ws_sent ?a)), stamp (sq (Suc (ws_sent ?a))) @ ws_data ?a (Suc (ws_sent ?a))) else None, t)"
    "ws_rel stamp H room t (snd (ws_send H ?a))" by (rule ws_rel_send [OF U(1)])
  then have q: "q = sq (Suc ?n)" "m = stamp (sq (Suc ?n)) @ ws_data ?a (Suc ?n)" "fst (ws_send H ?a)" and rel: "ws_rel stamp H room tx (snd (ws_send H ?a))"
    using s U(3) by (auto split: if_splits)
  from q(3) have a: "ws_sent (snd (ws_send H ?a)) = Suc ?n" "ws_acked (snd (ws_send H ?a)) = ws_acked ?a" "ws_data (snd (ws_send H ?a)) = ws_data ?a"
    using U(3) by (auto simp: ws_send_def split: if_splits)
  have "up_packet_ok (up_log ?l) (is_handled (up_b ?l)) (UpData (Suc (ws_sent ?a)) q m)" by (simp add: U(3) q sent_as_def)
  then have "\<forall>p \<in> up_net ?l. up_packet_ok (up_log ?l) (is_handled (up_b ?l)) p" using packets_stay [OF ok, of _ "[m]"] by simp
  moreover have "up_log ?l ! (k - 1) = stamp (sq k) @ ws_data ?a k" if "0 < k" "k \<le> Suc ?n" for k
    using U(6) [of k] that q(2) by (cases "k = Suc ?n") (auto simp: nth_append)
  moreover have "is_buffer (up_b l) k = Some x \<Longrightarrow> sent_as (up_log ?l) k x" for k x using U(7) by (simp add: sent_as_append)
  ultimately show ?thesis using rel U(2,4,5,9,10,14-16) a ws_stream_send [OF U(13)] by (simp add: uplink_ok_def)
qed

lemma read_submessage_acknack_window:
  assumes ok: "uplink_ok stamp H room l" and p: "ack_first_unacked_seq_num p = sq first" "0 < first" "first \<le> is_handled (up_b l) + 1" "ws_acked (up_a l) < first"
    and r: "read_submessage_acknack p (up_tx l) = (ms, tx)"
  shows "ws_rel stamp H room tx ((up_a l)\<lparr>ws_acked := first - 1\<rparr>)"
    and "ms = (if 0 < nack_bitmap_of p then map (\<lambda>k. (sq k, up_log l ! (k - 1))) [first..<Suc (length (up_log l))] else [])"
proof -
  note U = uplink_okD [OF ok]
  obtain k where k: "first = Suc k" using p(2) by (cases first) auto
  define s where "s = uxr_process_acknack (nack_bitmap_of p) (sq (Suc k)) (up_tx l)"
  let ?a = "(up_a l)\<lparr>ws_acked := k\<rparr>"
  have k': "ws_acked (up_a l) \<le> k" "k \<le> ws_sent (up_a l)" using p(3,4) U(3,10) k by simp_all
  have rel: "ws_rel stamp H room s ?a" and lost: "uos_send_lost s \<longleftrightarrow> 0 < nack_bitmap_of p"
    using ws_rel_ack [OF U(1) k'] by (simp_all add: s_def)
  have r': "send_lost_from (sq k) s = (ms, tx)"
    using r ws_relD(9) [OF rel] by (simp add: read_submessage_acknack_def p(1) k s_def uxr_begin_output_nack_buffer_it_def)
  have "ws_rel stamp H room tx ?a \<and> ms = (if 0 < nack_bitmap_of p then map (\<lambda>k. (sq k, up_log l ! (k - 1))) [first..<Suc (length (up_log l))] else [])"
  proof (cases "0 < nack_bitmap_of p")
    case True
    have "send_lost_from (sq k) s = (map (\<lambda>k. (sq k, stamp (sq k) @ ws_data ?a k)) [Suc k..<Suc (ws_sent ?a)], s\<lparr>uos_send_lost := False\<rparr>)"
      by (rule send_lost_window [OF rel]) (use True lost k' in simp_all)
    moreover have "map (\<lambda>k. (sq k, stamp (sq k) @ ws_data ?a k)) [Suc k..<Suc (ws_sent ?a)] = map (\<lambda>k. (sq k, up_log l ! (k - 1))) [first..<Suc (length (up_log l))]"
      using U(6) k' by (intro map_cong) (auto simp: k U(3) simp del: upt_Suc)
    ultimately show ?thesis using r' True ws_rel_flags [where b = False and n = "uos_next_heartbeat_tries s", OF rel] by simp
  next
    case False
    then have "send_lost_from (sq k) s = ([], s)" using lost
      by (subst send_lost_from.simps) (simp add: uxr_next_reliable_nack_buffer_to_send_def)
    then show ?thesis using r' rel False by simp
  qed
  then show "ws_rel stamp H room tx ((up_a l)\<lparr>ws_acked := first - 1\<rparr>)"
    and "ms = (if 0 < nack_bitmap_of p then map (\<lambda>k. (sq k, up_log l ! (k - 1))) [first..<Suc (length (up_log l))] else [])" by (simp_all add: k)
qed

lemma acknack_in_keeps:
  assumes ok: "uplink_ok stamp H room l" and acks: "up_acks l = (first, p) # acks" "acks' = acks \<or> acks' = up_acks l"
    and r: "read_submessage_acknack p (up_tx l) = (ms, tx)"
  shows "uplink_ok stamp H room (l\<lparr>up_tx := tx, up_acks := acks', up_net := numbered first ms \<union> up_net l, up_a := (up_a l)\<lparr>ws_acked := first - 1\<rparr>\<rparr>)" (is "uplink_ok _ _ _ ?l")
proof -
  note U = uplink_okD [OF ok]
  have p: "ack_first_unacked_seq_num p = sq first" "0 < first" "first \<le> is_handled (up_b l) + 1" "ws_acked (up_a l) < first"
    using U(16) by (auto simp: acks(1) acks_ok_simps)
  note W = read_submessage_acknack_window [OF ok p r]
  have acks': "acks_ok (first - 1) (is_handled (up_b l)) acks'" using acks_ok_read U(16) acks by metis
  have "up_packet_ok (up_log l) (is_handled (up_b l)) x" if x: "x \<in> numbered first ms" for x
  proof -
    obtain i where i: "i < length ms" "x = UpData (first + i) (fst (ms ! i)) (snd (ms ! i))" using x by (auto simp: numbered_def)
    then have "ms ! i = (sq (first + i), up_log l ! (first + i - 1))" "first + i \<le> length (up_log l)"
      unfolding W(2) by (auto simp: nth_map split: if_splits simp del: upt_Suc)
    then show ?thesis using i(2) p(2) by (simp add: sent_as_def)
  qed
  then have "\<forall>x \<in> up_net ?l. up_packet_ok (up_log ?l) (is_handled (up_b ?l)) x" using packets_keep [OF ok] by auto
  moreover have "first - 1 \<le> is_handled (up_b l)" using p(3) by simp
  ultimately show ?thesis using W(1) U(2,3,5,9,14,15) U(6,7) acks' by (simp add: uplink_ok_def ws_stream_def)
qed

lemma up_data_in_keeps:
  assumes ok: "uplink_ok stamp H room l" and data: "UpData k q m \<in> up_net l" and hor: "is_handled (up_b l) \<le> k + 32751"
  shows "uplink_ok stamp H room (l\<lparr>up_rx := snd (ris_push_message q m (up_rx l)), up_b := snd (is_push k m (up_b l))\<rparr>)" (is "uplink_ok _ _ _ ?l")
proof -
  note U = uplink_okD [OF ok]
  have k: "sent_as (up_log l) k m" "q = sq k" using U(8) [OF data] by simp_all
  then have le: "k \<le> length (up_log l)" by (simp add: sent_as_def)
  then have "is_rel (up_rx ?l) (up_b ?l)" using is_rel_push(2) [OF U(2) hor] U(11) k(2) by simp
  moreover have "is_buffer (up_b ?l) j = Some x \<Longrightarrow> sent_as (up_log l) j x" for j x
    using U(7) k(1) by (auto simp: is_push_def split: if_splits)
  moreover have "is_handled (up_b ?l) = is_handled (up_b l)" "is_announced (up_b ?l) \<le> length (up_log l)"
    using U(5) le by (auto simp: is_push_def)
  moreover have "\<forall>p \<in> up_net l. up_packet_ok (up_log l) (is_handled (up_b l)) p" using packets_keep [OF ok] by simp
  ultimately show ?thesis using U(1,3,4,6,9,14,16) is_gapless_push [OF U(15)] by (simp add: uplink_ok_def)
qed

lemma up_deliver_keeps:
  assumes ok: "uplink_ok stamp H room l" and pop: "ris_pop_message (up_rx l) = (Some m, rx)"
  shows "uplink_ok stamp H room (l\<lparr>up_rx := rx, up_out := up_out l @ [m], up_b := snd (is_pop (up_b l))\<rparr>)" (is "uplink_ok _ _ _ ?l")
    and "length (up_out l) < length (up_log l)" "m = up_log l ! length (up_out l)"
proof -
  note U = uplink_okD [OF ok]
  let ?h = "is_handled (up_b l)"
  from is_rel_pop_gapless [OF U(2,15)] pop have p: "fst (is_pop (up_b l)) = Some m" and rel: "is_rel rx (snd (is_pop (up_b l)))" by simp_all
  then have buf: "is_buffer (up_b l) (Suc ?h) = Some m"
    and b: "snd (is_pop (up_b l)) = (up_b l)\<lparr>is_handled := Suc ?h, is_buffer := (is_buffer (up_b l))(Suc ?h := None)\<rparr>"
    by (auto simp: is_pop_def split: option.splits)
  from U(7) [OF buf] have m: "Suc ?h \<le> length (up_log l)" "m = up_log l ! ?h" by (simp_all add: sent_as_def)
  then show "length (up_out l) < length (up_log l)" "m = up_log l ! length (up_out l)" by (simp_all add: U(9))
  have out: "up_out l @ [m] = take (Suc ?h) (up_log l)" using m by (simp add: U(9) take_Suc_conv_app_nth)
  have "\<forall>q \<in> up_net ?l. up_packet_ok (up_log ?l) (Suc ?h) q" using packets_keep [OF ok, of "Suc ?h"] by simp
  moreover have "acks_ok (ws_acked (up_a l)) (Suc ?h) (up_acks l)" using U(16) by (rule acks_ok_mono) simp
  ultimately show "uplink_ok stamp H room ?l"
    using U(1,3-7,14) rel out is_gapless_pop [OF is_relD(1) [OF U(2)] U(15)] by (simp add: uplink_ok_def b)
qed

lemma acknack_out_keeps:
  assumes ok: "uplink_ok stamp H room l"
  shows "uplink_ok stamp H room (l\<lparr>up_acks := up_acks l @ [(Suc (is_handled (up_b l)), ris_fill_acknack (up_rx l) ACKNACK_init)]\<rparr>)"
proof -
  note U = uplink_okD [OF ok]
  have "acks_ok (ws_acked (up_a l)) (is_handled (up_b l)) (up_acks l @ [(Suc (is_handled (up_b l)), ris_fill_acknack (up_rx l) ACKNACK_init)])"
    using U(4,16) is_relD(2) [OF U(2)] by (intro acks_ok_send) (simp_all add: fill_acknack_bits)
  then show ?thesis using U by (simp add: uplink_ok_def)
qed

lemma acknack_lost_keeps:
  assumes ok: "uplink_ok stamp H room l" and "up_acks l = before @ x # after"
  shows "uplink_ok stamp H room (l\<lparr>up_acks := before @ after\<rparr>)"
  using uplink_okD [OF ok] acks_ok_lost [of _ _ before x after] assms(2) by (simp add: uplink_ok_def)

lemma up_heartbeat_out_keeps:
  assumes ok: "uplink_ok stamp H room l" and "heartbeat_of (up_tx l) = (q, r)"
  shows "uplink_ok stamp H room (l\<lparr>up_net := insert (UpHeartbeat (Suc (ws_acked (up_a l))) (ws_sent (up_a l)) q r) (up_net l)\<rparr>)"
  using uplink_okD [OF ok] ws_relD(8,9) [OF uplink_okD(1) [OF ok]] assms(2) by (auto simp: uplink_ok_def heartbeat_of_def)

lemma up_heartbeat_in_keeps:
  assumes ok: "uplink_ok stamp H room l" and hb: "UpHeartbeat first ann q r \<in> up_net l"
    and hor: "is_handled (up_b l) < first + 32767" "is_announced (up_b l) < ann + 32768"
  shows "uplink_ok stamp H room (l\<lparr>up_rx := ris_update_from_heartbeat q r (up_rx l), up_b := is_heartbeat first ann (up_b l)\<rparr>)" (is "uplink_ok _ _ _ ?l")
proof -
  note U = uplink_okD [OF ok]
  have p: "0 < first" "first \<le> is_handled (up_b l) + 1" "ann \<le> length (up_log l)" "q = sq first" "r = sq ann" using U(8) [OF hb] by simp_all
  then have "is_rel (up_rx ?l) (up_b ?l)" using is_rel_heartbeat_gapless [OF U(2,15) p(1,2) hor(1) _ hor(2)] U(11) by simp
  then show ?thesis using U(1,3-7,9,14-16) U(8) p(3)
    by (simp add: uplink_ok_def is_heartbeat_no_skip [OF p(2), of ann] is_gapless_def le_max_iff_disj)
qed

lemma uplink_step_keeps: "uplink_step put stamp H room l l' \<Longrightarrow> uplink_ok stamp H room l \<Longrightarrow> uplink_ok stamp H room l'"
proof (induction rule: uplink_step.induct)
  case (written octets l b tx)
  then show ?case by (intro up_written_keeps)
qed (auto intro: up_send_keeps acknack_in_keeps up_heartbeat_out_keeps up_data_in_keeps up_deliver_keeps acknack_out_keeps acknack_lost_keeps up_heartbeat_in_keeps simp del: One_nat_def)

lemma uplink_reachable_ok: "uplink_reachable put stamp H room l \<Longrightarrow> uplink_ok stamp H room l"
  by (induction rule: uplink_reachable.induct) (auto intro: uplink_ok_init output_stream_starts uplink_step_keeps)

section \<open>Recovery\<close>

lemma nack_bitmap_bit: "bit (nack_bitmap_of p) i \<longleftrightarrow> (if i < 8 then bit (ack_nack_bitmap_1 p) i else i < 16 \<and> bit (ack_nack_bitmap_0 p) (i - 8))"
proof -
  have "push_bit 8 (ucast (ack_nack_bitmap_0 p)) AND ucast (ack_nack_bitmap_1 p) = (0 :: u16)"
    by (rule bit_eqI) (auto simp: bit_simps dest: bit_imp_le_length)
  then have "nack_bitmap_of p = push_bit 8 (ucast (ack_nack_bitmap_0 p)) OR ucast (ack_nack_bitmap_1 p)"
    by (simp add: nack_bitmap_of_def disjunctive_add_eq_or)
  then show ?thesis by (auto simp: bit_simps dest: bit_imp_le_length)
qed

text \<open>The client reads the acknowledgements under way.\<close>

lemma acks_drain:
  assumes "uplink_ok stamp H room l"
  shows "\<exists>l'. (uplink_step put stamp H room)\<^sup>*\<^sup>* l l' \<and> uplink_ok stamp H room l' \<and> up_acks l' = [] \<and> up_log l' = up_log l \<and> up_out l' = up_out l
    \<and> up_b l' = up_b l"
  using assms
proof (induction "up_acks l" arbitrary: l)
  case Nil
  then show ?case by (metis rtranclp.rtrancl_refl)
next
  case (Cons x acks)
  obtain first p where x: "x = (first, p)" by (cases x) auto
  obtain ms tx where r: "read_submessage_acknack p (up_tx l) = (ms, tx)" by (cases "read_submessage_acknack p (up_tx l)") auto
  let ?l = "l\<lparr>up_tx := tx, up_acks := acks, up_net := numbered first ms \<union> up_net l, up_a := (up_a l)\<lparr>ws_acked := first - 1\<rparr>\<rparr>"
  have step: "uplink_step put stamp H room l ?l" by (rule acknack_in [where acks = acks, OF _ _ r]) (use Cons.hyps(2) [symmetric] x in \<open>simp_all\<close>)
  have "uplink_ok stamp H room ?l" by (rule uplink_step_keeps [OF step Cons.prems])
  from Cons.hyps(1) [OF _ this] obtain l' where l': "(uplink_step put stamp H room)\<^sup>*\<^sup>* ?l l'" "uplink_ok stamp H room l'" "up_acks l' = []"
    "up_log l' = up_log l" "up_out l' = up_out l" "up_b l' = up_b l" by auto
  then have "(uplink_step put stamp H room)\<^sup>*\<^sup>* l l'" using step by (metis converse_rtranclp_into_rtranclp)
  then show ?case using l'(2-) by blast
qed

text \<open>When the next message is missing at the agent, a heartbeat of the client announces it, the agent's acknowledgement asks
  for it, and the client repeats it with all that follow.\<close>

lemma uplink_recovers:
  assumes ok: "uplink_ok stamp H room l" and behind: "is_handled (up_b l) < length (up_log l)"
    and missing: "is_buffer (up_b l) (Suc (is_handled (up_b l))) = None" and idle: "up_acks l = []"
  obtains l' where "(uplink_step put stamp H room)\<^sup>*\<^sup>* l l'" and "uplink_ok stamp H room l'" and "up_log l' = up_log l" and "up_out l' = up_out l"
    and "is_handled (up_b l') = is_handled (up_b l)" and "is_buffer (up_b l') (Suc (is_handled (up_b l))) \<noteq> None"
proof -
  let ?h = "is_handled (up_b l)" and ?a = "up_a l" and ?step = "uplink_step put stamp H room" and ?n = "length (up_log l)"
  note U = uplink_okD [OF ok]
  obtain q r where qr: "heartbeat_of (up_tx l) = (q, r)" by (cases "heartbeat_of (up_tx l)") auto
  define l1 where "l1 = l\<lparr>up_net := insert (UpHeartbeat (Suc (ws_acked ?a)) (ws_sent ?a) q r) (up_net l)\<rparr>"
  have s1: "?step l l1" unfolding l1_def by (rule heartbeat_out [OF qr])
  define l2 where "l2 = l1\<lparr>up_rx := ris_update_from_heartbeat q r (up_rx l1), up_b := is_heartbeat (Suc (ws_acked ?a)) (ws_sent ?a) (up_b l1)\<rparr>"
  have s2: "?step l1 l2" unfolding l2_def
    by (rule heartbeat_in [where first = "Suc (ws_acked ?a)"]) (use U(3,5,10,12) ws_okD(3) [OF U(13)] in \<open>simp_all add: l1_def\<close>)
  have ok2: "uplink_ok stamp H room l2" using s1 s2 ok uplink_step_keeps by blast
  have b2: "is_handled (up_b l2) = ?h" "is_buffer (up_b l2) = is_buffer (up_b l)" "?n \<le> is_announced (up_b l2)"
    "up_log l2 = up_log l" "up_a l2 = ?a" "up_tx l2 = up_tx l" "up_out l2 = up_out l" "up_acks l2 = []"
    using U(3,4) by (simp_all add: l2_def l1_def is_heartbeat_def idle)
  define p where "p = ris_fill_acknack (up_rx l2) ACKNACK_init"
  define l3 where "l3 = l2\<lparr>up_acks := up_acks l2 @ [(Suc (is_handled (up_b l2)), p)]\<rparr>"
  have s3: "?step l2 l3" unfolding l3_def p_def by (rule acknack_out)
  have ok3: "uplink_ok stamp H room l3" using s3 ok2 uplink_step_keeps by blast
  have "is_missing (up_b l2) 0" using behind missing b2 by (simp add: is_missing_def)
  then have "bit (nack_bitmap_of p) 0"
    using is_rel_missing [OF uplink_okD(2) [OF ok2], of 0] by (simp add: nack_bitmap_bit p_def fill_acknack_bits)
  then have lost: "0 < nack_bitmap_of p" by (cases "nack_bitmap_of p = 0") (auto simp: word_neq_0_conv)
  obtain ms tx where r: "read_submessage_acknack p (up_tx l3) = (ms, tx)" by (cases "read_submessage_acknack p (up_tx l3)") auto
  have p: "ack_first_unacked_seq_num p = sq (Suc ?h)" using uplink_okD(16) [OF ok3] b2 by (simp add: l3_def acks_ok_simps)
  have ms: "ms = map (\<lambda>k. (sq k, up_log l ! (k - 1))) [Suc ?h..<Suc ?n]"
    using read_submessage_acknack_window(2) [OF ok3 p _ _ _ r] lost b2 U(4) by (simp add: l3_def)
  define l4 where "l4 = l3\<lparr>up_tx := tx, up_acks := [], up_net := numbered (Suc ?h) ms \<union> up_net l3, up_a := (up_a l3)\<lparr>ws_acked := Suc ?h - 1\<rparr>\<rparr>"
  have s4: "?step l3 l4" unfolding l4_def
    by (rule acknack_in [OF _ _ r]) (use b2 in \<open>simp_all add: l3_def\<close>)
  have "UpData (Suc ?h) (sq (Suc ?h)) (up_log l ! ?h) \<in> numbered (Suc ?h) ms"
    unfolding numbered_def ms using behind by (intro CollectI exI [of _ 0]) (simp add: nth_append upt_conv_Cons del: upt_Suc)
  then have in4: "UpData (Suc ?h) (sq (Suc ?h)) (up_log l ! ?h) \<in> up_net l4" by (simp add: l4_def)
  define l5 where "l5 = l4\<lparr>up_rx := snd (ris_push_message (sq (Suc ?h)) (up_log l ! ?h) (up_rx l4)), up_b := snd (is_push (Suc ?h) (up_log l ! ?h) (up_b l4))\<rparr>"
  have s5: "?step l4 l5" unfolding l5_def by (rule data_in [OF in4]) (use b2 in \<open>simp add: l4_def l3_def\<close>)
  have "?step\<^sup>*\<^sup>* l l5" using s1 s2 s3 s4 s5 by (meson rtranclp.rtrancl_into_rtrancl rtranclp.rtrancl_refl)
  moreover have "uplink_ok stamp H room l5" using ok3 s4 s5 uplink_step_keeps by blast
  moreover have "up_log l5 = up_log l" "up_out l5 = up_out l" using b2 by (simp_all add: l5_def l4_def l3_def)
  moreover have "is_handled (up_b l5) = ?h" "is_buffer (up_b l5) (Suc ?h) \<noteq> None"
    using b2 missing by (simp_all add: l5_def l4_def l3_def is_push_def)
  ultimately show thesis by (rule that)
qed

lemma uplink_delivers:
  assumes ok: "uplink_ok stamp H room l" and buf: "is_buffer (up_b l) (Suc (is_handled (up_b l))) \<noteq> None"
  obtains l' where "uplink_step put stamp H room l l'" and "up_log l' = up_log l" and "up_out l' = up_out l @ [up_log l ! length (up_out l)]"
proof -
  note U = uplink_okD [OF ok]
  have "fst (ris_pop_message (up_rx l)) \<noteq> None" using is_rel_pop_gapless(1) [OF U(2,15)] buf by (auto simp: is_pop_def)
  then obtain m rx where pop: "ris_pop_message (up_rx l) = (Some m, rx)" by (cases "ris_pop_message (up_rx l)") auto
  show thesis using that [OF deliver [OF pop]] up_deliver_keeps(3) [OF ok pop] by simp
qed

section \<open>Properties\<close>

text \<open>C9. What a client writes to a reliable stream the agent reads, once and in order. The client's submessages fit one message;
  its messages and heartbeats may be lost, repeated, delayed and reordered, the agent's acknowledgements lost and repeated, but not
  reordered. In every state the client's output stream and the agent's input stream reach, the messages the agent has handed
  out are the first of those the client has sent, and without their headers they are the first octets of what was accepted from
  the application.\<close>

theorem client_to_agent_in_order:
  assumes "uplink_reachable put stamp H room l"
  shows "(\<exists>rest. up_log l = up_out l @ rest) \<and>
     (\<exists>rest. concat (up_wrote l) = concat (map (drop (uos_offset (up_tx l))) (up_out l)) @ rest)"
proof -
  have ok: "uplink_ok stamp H room l" using assms by (rule uplink_reachable_ok)
  note U = uplink_okD [OF ok]
  let ?n = "length (up_log l)" and ?a = "up_a l" and ?off = "uos_offset (up_tx l)"
  have log: "map (drop ?off) (up_log l) = map (ws_data ?a) [1..<Suc ?n]"
  proof (rule nth_equalityI)
    fix i assume "i < length (map (drop ?off) (up_log l))"
    then show "map (drop ?off) (up_log l) ! i = map (ws_data ?a) [1..<Suc ?n] ! i"
      using U(6) [of "Suc i"] ws_relD(6) [OF U(1)] by (simp add: nth_map del: upt_Suc)
  qed (simp del: upt_Suc)
  have "[1..<Suc (ws_written ?a)] = [1..<Suc ?n] @ [Suc ?n..<Suc (ws_written ?a)]"
    using ws_okD(2) [OF U(13)] upt_add_eq_append [of 1 "Suc ?n" "ws_written ?a - ?n"] by (simp add: U(3) del: upt_Suc)
  then have "concat (up_wrote l) = concat (map (drop ?off) (up_log l)) @ concat (map (ws_data ?a) [Suc ?n..<Suc (ws_written ?a)])"
    by (simp add: U(14) ws_stream_def log del: upt_Suc)
  moreover have split: "up_log l = up_out l @ drop (is_handled (up_b l)) (up_log l)" by (simp add: U(9))
  then have "concat (map (drop ?off) (up_log l)) =
      concat (map (drop ?off) (up_out l)) @ concat (map (drop ?off) (drop (is_handled (up_b l)) (up_log l)))"
    by (metis concat_append map_append)
  ultimately have "concat (up_wrote l) = concat (map (drop ?off) (up_out l)) @
      (concat (map (drop ?off) (drop (is_handled (up_b l)) (up_log l))) @ concat (map (ws_data ?a) [Suc ?n..<Suc (ws_written ?a)]))"
    by (simp only: append_assoc)
  then show ?thesis using split by blast
qed

text \<open>C10. The protocol between client and agent recovers from any loss, as long as acknowledgements arrive in order and submessages
  fit one message: from every state in which a message the client has sent has not been handed out yet, the acknowledgements under
  way, a heartbeat of the client, the acknowledgement of the agent and what the client repeats for it lead to a state in
  which the next message is handed out.\<close>

theorem client_to_agent_progress:
  assumes "uplink_reachable put stamp H room l" and behind: "length (up_out l) < length (up_log l)"
  shows "\<exists>l'. (uplink_step put stamp H room)\<^sup>*\<^sup>* l l' \<and> up_log l' = up_log l \<and> up_out l' = up_out l @ [up_log l ! length (up_out l)]"
proof -
  have ok: "uplink_ok stamp H room l" using assms(1) by (rule uplink_reachable_ok)
  note U = uplink_okD [OF ok]
  show ?thesis
  proof (cases "is_buffer (up_b l) (Suc (is_handled (up_b l)))")
    case (Some m)
    with uplink_delivers [OF ok] show ?thesis by (metis option.distinct(1) r_into_rtranclp)
  next
    case None
    obtain l0 where l0: "(uplink_step put stamp H room)\<^sup>*\<^sup>* l l0" "uplink_ok stamp H room l0" "up_acks l0 = []" "up_log l0 = up_log l" "up_out l0 = up_out l"
      "up_b l0 = up_b l" using acks_drain [OF ok] by blast
    have "is_handled (up_b l0) < length (up_log l0)" using behind U(9,10) by (simp add: l0(4,6))
    moreover have "is_buffer (up_b l0) (Suc (is_handled (up_b l0))) = None" using None by (simp add: l0(6))
    ultimately obtain l1 where l1: "(uplink_step put stamp H room)\<^sup>*\<^sup>* l0 l1" "uplink_ok stamp H room l1" "up_log l1 = up_log l0"
      "up_out l1 = up_out l0" "is_buffer (up_b l1) (Suc (is_handled (up_b l1))) \<noteq> None" using uplink_recovers [OF l0(2) _ _ l0(3)] by metis
    from uplink_delivers [OF l1(2,5)] obtain l2 where "uplink_step put stamp H room l1 l2" "up_log l2 = up_log l1"
      "up_out l2 = up_out l1 @ [up_log l1 ! length (up_out l1)]" .
    with l0(1,4,5) l1 show ?thesis by (metis rtranclp.rtrancl_into_rtrancl rtranclp_trans)
  qed
qed

lemma demo_uplink:
  obtains l where "uplink_reachable no_header demo_stamp 4 8 l" "up_wrote l = [[1, 2, 3, 4]]" "up_log l = [[0x81, 0x80, 0, 0, 1, 2, 3, 4]]" "up_out l = []"
proof -
  let ?o = "[1, 2, 3, 4 :: u8]" and ?l = "uplink_init demo_output"
  have spec: "ws_write 4 8 ?o ws_init = (True, ws_init\<lparr>ws_data := (ws_data ws_init)(1 := ?o)\<rparr>)"
    by (simp add: ws_write_def ws_init_def)
  obtain tx where tx: "write_submessage no_header ?o demo_output = Inr (True, tx)" "ws_rel demo_stamp 4 8 tx (ws_init\<lparr>ws_data := (ws_data ws_init)(1 := ?o)\<rparr>)"
    using ws_rel_write [OF demo_output_rel, of ?o no_header] unfolding spec by auto
  let ?a = "ws_init\<lparr>ws_data := (ws_data ws_init)(1 := ?o)\<rparr>"
  define l1 where "l1 = ?l\<lparr>up_tx := tx, up_wrote := up_wrote ?l @ (if True then [?o] else []), up_a := snd (ws_write 4 8 ?o (up_a ?l))\<rparr>"
  have "uplink_step no_header demo_stamp 4 8 ?l l1"
    unfolding l1_def by (rule written) (simp_all add: uplink_init_def tx(1))
  moreover have "uplink_reachable no_header demo_stamp 4 8 ?l"
    unfolding demo_output_def by (rule uplink_reachable.start [OF demo_output_ok]) (simp_all add: demo_stamp_def)
  ultimately have r1: "uplink_reachable no_header demo_stamp 4 8 l1" by (rule uplink_reachable.step [rotated])
  have l1: "up_tx l1 = tx" "up_a l1 = ?a" "up_wrote l1 = [?o]" "up_log l1 = []" "up_out l1 = []"
    by (simp_all add: l1_def uplink_init_def spec)
  have send: "fst (ws_send 4 ?a)" by (simp add: ws_send_def ws_init_def)
  obtain u where u: "flash_next demo_stamp tx = Inr (Some (sq 1, demo_stamp (sq 1) @ ?o), u)"
    using ws_rel_send [OF tx(2)] send by (auto simp: ws_init_def)
  have m: "demo_stamp (sq 1) @ ?o = [0x81, 0x80, 0, 0, 1, 2, 3, 4]" by (simp add: demo_stamp_def)
  have "uplink_reachable no_header demo_stamp 4 8 (l1\<lparr>up_tx := u, up_net := insert (UpData (Suc (ws_sent (up_a l1))) (sq 1) (demo_stamp (sq 1) @ ?o)) (up_net l1),
      up_log := up_log l1 @ [demo_stamp (sq 1) @ ?o], up_a := snd (ws_send 4 (up_a l1))\<rparr>)"
    by (rule uplink_reachable.step [OF r1 uplink_step.send]) (simp add: l1 u)
  then show ?thesis by (rule that) (simp_all add: l1 m del: One_nat_def)
qed

theorem client_to_agent_in_order_witness:
  "\<exists>l :: uplink. (\<exists>rest. up_log l = up_out l @ rest) \<and> (\<exists>rest. concat (up_wrote l) = concat (map (drop (uos_offset (up_tx l))) (up_out l)) @ rest) \<and> up_wrote l = [[1, 2, 3, 4]]"
proof -
  obtain l where "uplink_reachable no_header demo_stamp 4 8 l" "up_wrote l = [[1, 2, 3, 4]]" by (rule demo_uplink)
  with client_to_agent_in_order [OF this(1)] show ?thesis by (intro exI [of _ l]) (simp only: simp_thms)
qed

theorem client_to_agent_progress_witness:
  "\<exists>l l'. up_out l = [] \<and> (uplink_step no_header demo_stamp 4 8)\<^sup>*\<^sup>* l l' \<and> up_out l' = [[0x81, 0x80, 0, 0, 1, 2, 3, 4]]"
proof -
  obtain l where l: "uplink_reachable no_header demo_stamp 4 8 l" "up_log l = [[0x81, 0x80, 0, 0, 1, 2, 3, 4]]" "up_out l = []" by (rule demo_uplink)
  then have "length (up_out l) < length (up_log l)" by simp
  from client_to_agent_progress [OF l(1) this] l(2,3) show ?thesis by auto
qed

end
