(* ===== verification/ClientStorage.thy ===== *)
theory ClientStorage
  imports ClientInput ClientWrites
begin

text \<open>
  The streams of a session of the client, \<open>stream_storage.c\<close>, and \<open>uxr_flash_output_streams\<close> of \<open>session.c\<close>, which
  sends what all of them hold. The arrays of the storage have a fixed size; a stream created beyond it would be written
  past their end, the fault \<open>Overrun\<close>. The counters of the storage are the lengths of the lists.
\<close>

section \<open>The storage\<close>

definition UXR_CONFIG_MAX_OUTPUT_BEST_EFFORT_STREAMS :: nat where "UXR_CONFIG_MAX_OUTPUT_BEST_EFFORT_STREAMS = 1"
definition UXR_CONFIG_MAX_OUTPUT_RELIABLE_STREAMS :: nat where "UXR_CONFIG_MAX_OUTPUT_RELIABLE_STREAMS = 1"
definition UXR_CONFIG_MAX_INPUT_BEST_EFFORT_STREAMS :: nat where "UXR_CONFIG_MAX_INPUT_BEST_EFFORT_STREAMS = 1"
definition UXR_CONFIG_MAX_INPUT_RELIABLE_STREAMS :: nat where "UXR_CONFIG_MAX_INPUT_RELIABLE_STREAMS = 1"

record uxrStreamStorage =
  ss_output_best_effort :: "uxrOutputBestEffortStream list"
  ss_output_reliable :: "uxrOutputReliableStream list"
  ss_input_best_effort :: "uxrInputBestEffortStream list"
  ss_input_reliable :: "uxrInputReliableStream list"

definition uxr_init_stream_storage :: uxrStreamStorage where
  "uxr_init_stream_storage = \<lparr>ss_output_best_effort = [], ss_output_reliable = [], ss_input_best_effort = [], ss_input_reliable = []\<rparr>"

definition uxr_reset_stream_storage :: "uxrStreamStorage \<Rightarrow> uxrStreamStorage" where
  "uxr_reset_stream_storage storage =
     \<lparr>ss_output_best_effort = map uxr_reset_output_best_effort_stream (ss_output_best_effort storage),
      ss_output_reliable = map uxr_reset_output_reliable_stream (ss_output_reliable storage),
      ss_input_best_effort = map uxr_reset_input_best_effort_stream (ss_input_best_effort storage),
      ss_input_reliable = map uxr_reset_input_reliable_stream (ss_input_reliable storage)\<rparr>"

definition uxr_add_output_best_effort_buffer :: "u8 list \<Rightarrow> nat \<Rightarrow> nat \<Rightarrow> uxrStreamStorage \<Rightarrow> client_fault + uxrStreamId \<times> uxrStreamStorage" where
  "uxr_add_output_best_effort_buffer buffer buffer_size header_offset storage =
     (let index = length (ss_output_best_effort storage) in
      if index < UXR_CONFIG_MAX_OUTPUT_BEST_EFFORT_STREAMS
      then Inr (uxr_stream_id (of_nat index) UXR_BEST_EFFORT_STREAM UXR_OUTPUT_STREAM,
             storage\<lparr>ss_output_best_effort := ss_output_best_effort storage @ [uxr_init_output_best_effort_stream buffer buffer_size header_offset]\<rparr>)
      else Inl Overrun)"

definition uxr_add_output_reliable_buffer :: "slot list \<Rightarrow> nat \<Rightarrow> u16 \<Rightarrow> nat \<Rightarrow> uxrStreamStorage \<Rightarrow> client_fault + uxrStreamId \<times> uxrStreamStorage" where
  "uxr_add_output_reliable_buffer buffer buffer_size history header_offset storage =
     (let index = length (ss_output_reliable storage) in
      if index < UXR_CONFIG_MAX_OUTPUT_RELIABLE_STREAMS
      then Inr (uxr_stream_id (of_nat index) UXR_RELIABLE_STREAM UXR_OUTPUT_STREAM,
             storage\<lparr>ss_output_reliable := ss_output_reliable storage @ [uxr_init_output_reliable_stream buffer buffer_size history header_offset]\<rparr>)
      else Inl Overrun)"

definition uxr_add_input_best_effort_buffer :: "uxrStreamStorage \<Rightarrow> client_fault + uxrStreamId \<times> uxrStreamStorage" where
  "uxr_add_input_best_effort_buffer storage =
     (let index = length (ss_input_best_effort storage) in
      if index < UXR_CONFIG_MAX_INPUT_BEST_EFFORT_STREAMS
      then Inr (uxr_stream_id (of_nat index) UXR_BEST_EFFORT_STREAM UXR_INPUT_STREAM,
             storage\<lparr>ss_input_best_effort := ss_input_best_effort storage @ [uxr_init_input_best_effort_stream]\<rparr>)
      else Inl Overrun)"

definition uxr_add_input_reliable_buffer :: "slot list \<Rightarrow> nat \<Rightarrow> u16 \<Rightarrow> (u8 list \<Rightarrow> FragmentationInfo) \<Rightarrow> uxrStreamStorage \<Rightarrow> client_fault + uxrStreamId \<times> uxrStreamStorage" where
  "uxr_add_input_reliable_buffer buffer buffer_size history on_get_fragmentation_info storage =
     (let index = length (ss_input_reliable storage) in
      if index < UXR_CONFIG_MAX_INPUT_RELIABLE_STREAMS
      then Inr (uxr_stream_id (of_nat index) UXR_RELIABLE_STREAM UXR_INPUT_STREAM,
             storage\<lparr>ss_input_reliable := ss_input_reliable storage @ [uxr_init_input_reliable_stream buffer buffer_size history on_get_fragmentation_info]\<rparr>)
      else Inl Overrun)"

text \<open>\<open>None\<close> is the null pointer.\<close>

definition stored_stream :: "u8 \<Rightarrow> 'a list \<Rightarrow> 'a option" where
  "stored_stream index streams = (if unat index < length streams then Some (streams ! unat index) else None)"

definition uxr_get_output_best_effort_stream :: "uxrStreamStorage \<Rightarrow> u8 \<Rightarrow> uxrOutputBestEffortStream option" where
  "uxr_get_output_best_effort_stream storage index = stored_stream index (ss_output_best_effort storage)"

definition uxr_get_output_reliable_stream :: "uxrStreamStorage \<Rightarrow> u8 \<Rightarrow> uxrOutputReliableStream option" where
  "uxr_get_output_reliable_stream storage index = stored_stream index (ss_output_reliable storage)"

definition uxr_get_input_best_effort_stream :: "uxrStreamStorage \<Rightarrow> u8 \<Rightarrow> uxrInputBestEffortStream option" where
  "uxr_get_input_best_effort_stream storage index = stored_stream index (ss_input_best_effort storage)"

definition uxr_get_input_reliable_stream :: "uxrStreamStorage \<Rightarrow> u8 \<Rightarrow> uxrInputReliableStream option" where
  "uxr_get_input_reliable_stream storage index = stored_stream index (ss_input_reliable storage)"

definition uxr_output_streams_confirmed :: "uxrStreamStorage \<Rightarrow> bool" where
  "uxr_output_streams_confirmed storage \<longleftrightarrow> (\<forall>stream \<in> set (ss_output_reliable storage). uxr_is_output_up_to_date stream)"

text \<open>The octet of the identifier a stream was created with leads back to the stream.\<close>

lemma stored_stream_end: "length xs < 1 \<Longrightarrow> stored_stream (of_nat (length xs)) (xs @ [x]) = Some x"
  by (simp add: stored_stream_def)

lemma created_stream_found:
  assumes "uxr_add_output_reliable_buffer buffer buffer_size history header_offset storage = Inr (stream_id, storage')"
  shows "uxr_get_output_reliable_stream storage' (uid_index (uxr_stream_id_from_raw (uid_raw stream_id) UXR_OUTPUT_STREAM)) =
     Some (uxr_init_output_reliable_stream buffer buffer_size history header_offset)"
proof -
  from assms have s: "length (ss_output_reliable storage) < 1" "stream_id = uxr_stream_id 0 UXR_RELIABLE_STREAM UXR_OUTPUT_STREAM"
    "ss_output_reliable storage' = ss_output_reliable storage @ [uxr_init_output_reliable_stream buffer buffer_size history header_offset]"
    by (auto simp: uxr_add_output_reliable_buffer_def Let_def UXR_CONFIG_MAX_OUTPUT_RELIABLE_STREAMS_def split: if_splits)
  have "uxr_stream_id_from_raw (uid_raw stream_id) UXR_OUTPUT_STREAM = stream_id"
    unfolding s(2) by (rule stream_id_from_raw) simp
  then show ?thesis using s stored_stream_end [OF s(1)] by (simp add: uxr_get_output_reliable_stream_def uxr_stream_id_def)
qed

section \<open>Sending everything\<close>

lemma flash_next_fields:
  assumes "flash_next stamp s = Inr (Some m, t)"
  shows "uos_last_sent s - uos_last_acknown s \<noteq> rs_history (uos_base s)" "uos_last_sent t = uos_last_sent s + 1"
    "uos_last_acknown t = uos_last_acknown s" "rs_history (uos_base t) = rs_history (uos_base s)"
  using assms
  by (auto simp: flash_next_def uxr_prepare_next_reliable_buffer_to_send_def uos_copy_def rs_copy_def Let_def uxr_sub_word uxr_add_word
      simp del: uxr_add_1 uxr_add_adv split: if_splits sum.splits)

lemma word_less_step: "x \<noteq> (0 :: u16) \<Longrightarrow> unat (x - 1) < unat x"
  by (simp add: unat_minus_one unat_gt_0)

text \<open>The loop of a reliable stream ends: the window has as many slots as the stream.\<close>

function flash_reliable :: "(uxrSeqNum \<Rightarrow> u8 list) \<Rightarrow> uxrOutputReliableStream \<Rightarrow>
    client_fault + (uxrSeqNum \<times> u8 list) list \<times> uxrOutputReliableStream" where
  "flash_reliable stamp stream =
     (case flash_next stamp stream of
        Inl e \<Rightarrow> Inl e
      | Inr (None, stream) \<Rightarrow> Inr ([], stream)
      | Inr (Some m, stream) \<Rightarrow> c_then (flash_reliable stamp stream) (\<lambda>(ms, stream). Inr (m # ms, stream)))"
  by pat_completeness auto

termination
proof (relation "measure (\<lambda>(stamp, s). unat (rs_history (uos_base s) - (uos_last_sent s - uos_last_acknown s)))")
  fix stamp s x p t and m :: "uxrSeqNum \<times> u8 list"
  assume "flash_next stamp s = Inr x" "(p, t) = x" "p = Some m"
  then have "flash_next stamp s = Inr (Some m, t)" by simp
  note F = flash_next_fields [OF this]
  have "rs_history (uos_base t) - (uos_last_sent t - uos_last_acknown t) = rs_history (uos_base s) - (uos_last_sent s - uos_last_acknown s) - 1"
    by (simp add: F(2-4))
  then show "((stamp, t), stamp, s) \<in> measure (\<lambda>(stamp, s). unat (rs_history (uos_base s) - (uos_last_sent s - uos_last_acknown s)))"
    using word_less_step [of "rs_history (uos_base s) - (uos_last_sent s - uos_last_acknown s)"] F(1) by simp
qed simp

declare flash_reliable.simps [simp del]

text \<open>A best-effort stream has one message; its header goes to the start of the buffer.\<close>

definition flash_best_effort :: "(uxrSeqNum \<Rightarrow> u8 list) \<Rightarrow> uxrOutputBestEffortStream \<Rightarrow> (uxrSeqNum \<times> u8 list) list \<times> uxrOutputBestEffortStream" where
  "flash_best_effort stamp stream =
     (case uxr_prepare_best_effort_buffer_to_send stream of
        (None, stream) \<Rightarrow> ([], stream)
      | (Some (octets, seq_num), stream) \<Rightarrow>
          (let header = stamp seq_num
           in ([(seq_num, header @ drop (length header) octets)], stream\<lparr>obe_buffer := header @ drop (length header) (obe_buffer stream)\<rparr>)))"

fun flash_all :: "(nat \<Rightarrow> uxrSeqNum \<Rightarrow> u8 list) \<Rightarrow> nat \<Rightarrow> uxrOutputReliableStream list \<Rightarrow>
    client_fault + (uxrSeqNum \<times> u8 list) list \<times> uxrOutputReliableStream list" where
  "flash_all stamp i [] = Inr ([], [])"
| "flash_all stamp i (s # streams) =
     c_then (flash_reliable (stamp i) s) (\<lambda>(ms, s).
       c_then (flash_all stamp (Suc i) streams) (\<lambda>(ms', streams). Inr (ms @ ms', s # streams)))"

definition uxr_flash_output_streams :: "(u8 \<Rightarrow> uxrSeqNum \<Rightarrow> u8 list) \<Rightarrow> uxrStreamStorage \<Rightarrow>
    client_fault + (uxrSeqNum \<times> u8 list) list \<times> uxrStreamStorage" where
  "uxr_flash_output_streams stamp storage =
     (let best_effort = map (\<lambda>(i, s). flash_best_effort (stamp (uid_raw (uxr_stream_id (of_nat i) UXR_BEST_EFFORT_STREAM UXR_OUTPUT_STREAM))) s)
            (zip [0..<length (ss_output_best_effort storage)] (ss_output_best_effort storage))
      in c_then (flash_all (\<lambda>i. stamp (uid_raw (uxr_stream_id (of_nat i) UXR_RELIABLE_STREAM UXR_OUTPUT_STREAM))) 0 (ss_output_reliable storage))
           (\<lambda>(ms, streams). Inr (concat (map fst best_effort) @ ms,
              storage\<lparr>ss_output_best_effort := map snd best_effort, ss_output_reliable := streams\<rparr>)))"

text \<open>What the loop sends are the messages the stream holds and has not sent, in order, as far as the window goes; after it
  the message being written is empty, or the window is full.\<close>

lemma flash_sends_all:
  assumes "ws_rel stamp H room s a"
  shows "\<exists>n t b. flash_reliable stamp s = Inr (map (\<lambda>k. (sq k, stamp (sq k) @ ws_data a k)) [Suc (ws_sent a)..<Suc n], t) \<and>
     ws_rel stamp H room t b \<and> ws_sent b = n \<and> ws_sent a \<le> n \<and> ws_acked b = ws_acked a \<and> ws_data b = ws_data a \<and>
     (n = ws_acked a + H \<or> ws_data a (Suc n) = [])"
  using assms
proof (induction "ws_acked a + H - ws_sent a" arbitrary: s a rule: less_induct)
  case less
  note D = ws_relD [OF less.prems] and W = ws_okD [OF ws_relD(10) [OF less.prems]]
  obtain t where t: "flash_next stamp s = Inr (if fst (ws_send H a)
      then Some (sq (Suc (ws_sent a)), stamp (sq (Suc (ws_sent a))) @ ws_data a (Suc (ws_sent a))) else None, t)"
    "ws_rel stamp H room t (snd (ws_send H a))" by (rule ws_rel_send [OF less.prems])
  show ?case
  proof (cases "fst (ws_send H a)")
    case False
    then have "snd (ws_send H a) = a" "ws_sent a = ws_acked a + H \<or> ws_data a (Suc (ws_sent a)) = []"
      using W(3) by (auto simp: ws_send_def split: if_splits)
    moreover have "flash_reliable stamp s = Inr ([], t)" using t(1) False by (subst flash_reliable.simps) simp
    ultimately show ?thesis using t(2) by (intro exI [of _ "ws_sent a"] exI [of _ t] exI [of _ a]) simp
  next
    case True
    let ?b = "snd (ws_send H a)"
    have b: "ws_sent ?b = Suc (ws_sent a)" "ws_acked ?b = ws_acked a" "ws_data ?b = ws_data a" and lt: "ws_sent a < ws_acked a + H"
      using True by (auto simp: ws_send_def split: if_splits)
    have "ws_acked ?b + H - ws_sent ?b < ws_acked a + H - ws_sent a" using b lt by simp
    from less.hyps [OF this t(2)] obtain n u c where u: "flash_reliable stamp t = Inr (map (\<lambda>k. (sq k, stamp (sq k) @ ws_data a k)) [Suc (Suc (ws_sent a))..<Suc n], u)"
      "ws_rel stamp H room u c" "ws_sent c = n" "Suc (ws_sent a) \<le> n" "ws_acked c = ws_acked a" "ws_data c = ws_data a" "n = ws_acked a + H \<or> ws_data a (Suc n) = []"
      unfolding b by blast
    have "[Suc (ws_sent a)..<Suc n] = Suc (ws_sent a) # [Suc (Suc (ws_sent a))..<Suc n]" using u(4) by (simp add: upt_conv_Cons del: upt_Suc)
    then have "flash_reliable stamp s = Inr (map (\<lambda>k. (sq k, stamp (sq k) @ ws_data a k)) [Suc (ws_sent a)..<Suc n], u)"
      using t(1) True u(1) by (subst flash_reliable.simps) (simp del: upt_Suc)
    then show ?thesis using u by (intro exI [of _ n] exI [of _ u] exI [of _ c]) simp
  qed
qed

end
